(* ===== verification/Prelude.thy ===== *)
theory Prelude
  imports Main "HOL-Library.Word" "HOL-Library.Monad_Syntax"
begin

unbundle bit_operations_syntax

text \<open>
  Shared vocabulary of the development: the integer types of \<^verbatim>\<open>integer.h\<close> at the widths the
  cc65 compiler gives them (\<open>char\<close> 8 bits unsigned, \<open>int\<close> and \<open>short\<close> 16 bits, \<open>long\<close> 32 bits),
  byte arrays as lists with the C library's block operations, the little-endian multi-byte access
  macros of \<^verbatim>\<open>tff.h\<close>, and the generic list and word lemmas every component uses.
\<close>

section \<open>Integer types\<close>

type_synonym BYTE = "8 word"
type_synonym WORD = "16 word"
type_synonym DWORD = "32 word"

named_theorems len_simps \<open>lengths of buffers after the block operations\<close>
named_theorems frame_simps \<open>state components an operation leaves alone\<close>

section \<open>Word facts\<close>

lemma unat_ucast_up:
  fixes x :: "'a :: len word"
  assumes "LENGTH('a) \<le> LENGTH('b :: len)"
  shows "unat (ucast x :: 'b word) = unat x"
proof -
  have "unat x < 2 ^ LENGTH('b)"
    using unsigned_less [of x, where ?'a = nat] assms
    by (meson less_le_trans one_le_numeral power_increasing)
  then show ?thesis by (simp add: unsigned_ucast_eq take_bit_nat_eq_self)
qed

lemma unat_ucast_simps [simp]:
  "unat (ucast (x :: 8 word) :: 16 word) = unat x"
  "unat (ucast (x :: 8 word) :: 32 word) = unat x"
  "unat (ucast (y :: 16 word) :: 32 word) = unat y"
  by (rule unat_ucast_up, simp)+

lemma word_eq_unat: "(v :: 'a :: len word) = w \<longleftrightarrow> unat v = unat w"
  by (rule word_eq_iff_unsigned)

lemma unat_bounds:
  "unat (x :: 8 word) < 256" "unat (y :: 16 word) < 65536" "unat (z :: 32 word) < 4294967296"
  using unsigned_less [of x, where ?'a = nat] unsigned_less [of y, where ?'a = nat]
    unsigned_less [of z, where ?'a = nat] by simp_all
lemma unat_ucast_down:
  "unat (ucast (x :: 16 word) :: 8 word) = unat x mod 256"
  "unat (ucast (z :: 32 word) :: 16 word) = unat z mod 65536"
  "unat (ucast (z :: 32 word) :: 8 word) = unat z mod 256"
  by (simp_all add: unsigned_ucast_eq take_bit_eq_mod)
section \<open>Byte arrays\<close>

text \<open>\<open>slice i n xs\<close> is the \<open>n\<close> elements from index \<open>i\<close>; \<open>blit xs i ys\<close> is \<open>memcpy (&xs[i], ys, length ys)\<close>.\<close>

definition slice :: "nat \<Rightarrow> nat \<Rightarrow> 'a list \<Rightarrow> 'a list" where
  "slice i n xs = take n (drop i xs)"

definition blit :: "'a list \<Rightarrow> nat \<Rightarrow> 'a list \<Rightarrow> 'a list" where
  "blit xs i ys = take i xs @ ys @ drop (i + length ys) xs"

lemma length_slice [len_simps]: "length (slice i n xs) = min n (length xs - i)"
  by (simp add: slice_def)

lemma length_blit [len_simps, simp]: "i + length ys \<le> length xs \<Longrightarrow> length (blit xs i ys) = length xs"
  by (simp add: blit_def)

lemma slice_nth: "i + k < length xs \<Longrightarrow> k < n \<Longrightarrow> slice i n xs ! k = xs ! (i + k)"
  by (simp add: slice_def)

lemma slice_blit_same: "i + length ys \<le> length xs \<Longrightarrow> slice i (length ys) (blit xs i ys) = ys"
  by (simp add: slice_def blit_def)

lemma slice_append_slice:
  "slice i m xs @ slice (i + m) n xs = slice i (m + n) xs"
  by (simp add: slice_def take_add add.commute)

lemma slice_0: "slice 0 n xs = take n xs"
  by (simp add: slice_def)

lemma slice_zero_len [simp]: "slice i 0 xs = []"
  by (simp add: slice_def)

lemma slice_map: "slice i n (map f xs) = map f (slice i n xs)"
  by (simp add: slice_def take_map drop_map)

lemma blit_Nil [simp]: "blit xs i [] = xs"
  by (simp add: blit_def)

lemma blit_blit_adjacent:
  assumes "i + length ys + length zs \<le> length xs"
  shows "blit (blit xs i ys) (i + length ys) zs = blit xs i (ys @ zs)"
  using assms by (simp add: blit_def ac_simps)

lemma blit_whole: "length ys = length xs \<Longrightarrow> blit xs 0 ys = ys"
  by (simp add: blit_def)

lemma nth_blit_other:
  assumes "i + length ys \<le> length xs" "k < length xs" "k < i \<or> i + length ys \<le> k"
  shows "blit xs i ys ! k = xs ! k"
  using assms by (auto simp: blit_def nth_append)

lemma nth_blit_same:
  assumes "i + length ys \<le> length xs" "i \<le> k" "k < i + length ys"
  shows "blit xs i ys ! k = ys ! (k - i)"
  using assms by (auto simp: blit_def nth_append)

lemma slice_blit_other:
  assumes "i + length ys \<le> length xs" "j + k \<le> i \<or> i + length ys \<le> j"
  shows "slice j k (blit xs i ys) = slice j k xs"
proof (rule nth_equalityI)
  show "length (slice j k (blit xs i ys)) = length (slice j k xs)" using assms by (simp add: length_slice)
next
  fix m assume "m < length (slice j k (blit xs i ys))"
  then have m: "m < k" "j + m < length xs" using assms(1) by (auto simp: length_slice)
  then have "slice j k (blit xs i ys) ! m = blit xs i ys ! (j + m)" using assms(1) by (intro slice_nth) simp_all
  also have "\<dots> = xs ! (j + m)" using assms m by (intro nth_blit_other) auto
  finally show "slice j k (blit xs i ys) ! m = slice j k xs ! m" using m by (simp add: slice_nth)
qed

text \<open>A fixed-size chunk of a concatenation of equally long lists.\<close>

lemma slice_concat_chunk:
  assumes "\<And>x. x \<in> set xs \<Longrightarrow> length x = m" and "k < length xs"
  shows "slice (k * m) m (concat xs) = xs ! k"
  using assms
proof (induction xs arbitrary: k)
  case Nil
  then show ?case by simp
next
  case (Cons x xs)
  then show ?case
    by (cases k) (auto simp: slice_def)
qed

lemma length_concat_chunks:
  assumes "\<And>x. x \<in> set xs \<Longrightarrow> length x = m"
  shows "length (concat xs) = length xs * m"
  using assms by (induction xs) auto

lemma slice_slice:
  assumes "j + m \<le> n"
  shows "slice j m (slice i n xs) = slice (i + j) m xs"
  using assms by (simp add: slice_def drop_take take_take min_def add.commute)

text \<open>Runs of chunks, single elements, and the sector arithmetic of buffers.\<close>

lemma slice_concat_chunks:
  assumes len: "\<And>x. x \<in> set xs \<Longrightarrow> length x = m" and "k + j \<le> length xs"
  shows "slice (k * m) (j * m) (concat xs) = concat (slice k j xs)"
proof -
  have split: "xs = take k xs @ slice k j xs @ drop (k + j) xs"
    by (metis append_take_drop_id drop_drop slice_def add.commute)
  have s: "\<And>ys. set ys \<subseteq> set xs \<Longrightarrow> length (concat ys) = length ys * m"
    using len length_concat_chunks by (metis subsetD)
  have l1: "length (concat (take k xs)) = k * m"
    using s [of "take k xs"] assms(2) by (simp add: set_take_subset)
  have l2: "length (concat (slice k j xs)) = j * m"
    using s [of "slice k j xs"] assms(2)
    by (simp add: slice_def subset_trans [OF set_take_subset set_drop_subset])
  have "concat xs = concat (take k xs) @ concat (slice k j xs) @ concat (drop (k + j) xs)"
    by (metis split concat_append)
  then show ?thesis using l1 l2 by (simp add: slice_def)
qed

lemma concat_chunk_nth:
  assumes len: "\<And>x. x \<in> set xs \<Longrightarrow> length x = m" and k: "k < length xs * m"
  shows "concat xs ! k = xs ! (k div m) ! (k mod m)"
proof -
  have m: "0 < m" using k by (cases m) auto
  then have d: "k div m < length xs" using k by (simp add: less_mult_imp_div_less)
  have "concat xs ! k = slice (k div m * m) m (concat xs) ! (k mod m)"
    using k m length_concat_chunks [OF len] by (subst slice_nth) (auto simp: len)
  also have "slice (k div m * m) m (concat xs) = xs ! (k div m)"
    using slice_concat_chunk [OF len d] by simp
  finally show ?thesis .
qed

lemma add_within:
  fixes n j m :: nat
  assumes "n mod m + j < m"
  shows "(n + j) div m = n div m" "(n + j) mod m = n mod m + j"
proof -
  have e: "m * (n div m) + n mod m = n" by simp
  show d: "(n + j) div m = n div m"
  proof (rule div_nat_eqI)
    show "m * (n div m) \<le> n + j" using e by linarith
    show "n + j < m * Suc (n div m)" unfolding mult_Suc_right using e assms by linarith
  qed
  have "m * ((n + j) div m) + (n + j) mod m = n + j" by simp
  then show "(n + j) mod m = n mod m + j" unfolding d using e by linarith
qed

lemma div_mod_of: "n = a * m + b \<Longrightarrow> b < m \<Longrightarrow> n div m = a \<and> n mod m = (b :: nat)"
  by simp

lemma nat_512_split: "n mod 512 = 0 \<Longrightarrow> n = n div 512 * (512 :: nat)"
  by (metis div_mult_mod_eq add.right_neutral)

lemma pred_div_512: "n mod 512 \<noteq> 0 \<Longrightarrow> (n - 1) div 512 = n div (512 :: nat)"
  by (metis Suc_diff_1 div_Suc mod_Suc mod_0 neq0_conv)

lemma add_div_512:
  assumes "p mod 512 + k \<le> 512" "0 < k"
  shows "(p + k - 1) div 512 = p div (512 :: nat)"
proof -
  have "p mod 512 + (k - 1) < 512" using assms by linarith
  from add_within(1) [OF this] show ?thesis using assms(2) by simp
qed

lemma slice_within_sector:
  assumes "slice (n * 512) 512 bs = w" "p div 512 = n" "p mod 512 + k \<le> 512"
  shows "slice (p mod 512) k w = slice p k bs"
proof -
  have "n * 512 + p mod 512 = p" using assms(2) by (metis div_mult_mod_eq)
  then show ?thesis using assms(1,3) by (simp add: slice_slice flip: assms(1))
qed

lemma slice_take: "i + k \<le> n \<Longrightarrow> slice i k (take n xs) = slice i k xs"
  by (simp add: slice_def drop_take min_def)

lemma sector_of_target:
  assumes "t = j * (m * 512) + o'" "0 < o'" "o' \<le> m * (512 :: nat)"
  shows "((t - 1) div 512) div m = j" "((t - 1) div 512) mod m = (o' - 1) div 512" "(o' - 1) div 512 < m"
proof -
  show lt: "(o' - 1) div 512 < m" using assms(2,3) by (simp add: div_less_iff_less_mult)
  have "t - 1 = (j * m + (o' - 1) div 512) * 512 + (o' - 1) mod 512"
    using assms(1,2) div_mult_mod_eq [of "o' - 1" 512] by (simp add: algebra_simps)
  from div_mod_of [OF this] have "(t - 1) div 512 = j * m + (o' - 1) div 512" by simp
  from div_mod_of [OF this lt]
  show "((t - 1) div 512) div m = j" "((t - 1) div 512) mod m = (o' - 1) div 512" by auto
qed

section \<open>Multi-byte access (\<open>LD_WORD\<close>, \<open>LD_DWORD\<close>, \<open>ST_WORD\<close>, \<open>ST_DWORD\<close>)\<close>

definition LD_WORD :: "BYTE list \<Rightarrow> nat \<Rightarrow> WORD" where
  "LD_WORD bs i = (push_bit 8 (ucast (bs ! (i + 1)))) OR (ucast (bs ! i))"

definition LD_DWORD :: "BYTE list \<Rightarrow> nat \<Rightarrow> DWORD" where
  "LD_DWORD bs i =
     (push_bit 24 (ucast (bs ! (i + 3)))) OR (push_bit 16 (ucast (bs ! (i + 2))))
     OR (push_bit 8 (ucast (bs ! (i + 1)))) OR (ucast (bs ! i))"

definition ST_WORD :: "BYTE list \<Rightarrow> nat \<Rightarrow> WORD \<Rightarrow> BYTE list" where
  "ST_WORD bs i v = bs[i := ucast v, i + 1 := ucast (drop_bit 8 v)]"

definition ST_DWORD :: "BYTE list \<Rightarrow> nat \<Rightarrow> DWORD \<Rightarrow> BYTE list" where
  "ST_DWORD bs i v =
     bs[i := ucast v, i + 1 := ucast (drop_bit 8 v), i + 2 := ucast (drop_bit 16 v),
        i + 3 := ucast (drop_bit 24 v)]"

lemma length_ST_WORD [len_simps, simp]: "length (ST_WORD bs i v) = length bs"
  by (simp add: ST_WORD_def)

lemma length_ST_DWORD [len_simps, simp]: "length (ST_DWORD bs i v) = length bs"
  by (simp add: ST_DWORD_def)

lemma LD_ST_WORD:
  assumes "i + 1 < length bs"
  shows "LD_WORD (ST_WORD bs i v) i = v"
proof -
  have "LD_WORD (ST_WORD bs i v) i
      = (push_bit 8 (ucast (ucast (drop_bit 8 v) :: BYTE))) OR (ucast (ucast v :: BYTE))"
    using assms by (simp add: LD_WORD_def ST_WORD_def)
  also have "\<dots> = v"
    by (rule bit_word_eqI) (auto simp: bit_simps)
  finally show ?thesis .
qed

lemma LD_ST_DWORD:
  assumes "i + 3 < length bs"
  shows "LD_DWORD (ST_DWORD bs i v) i = v"
proof -
  have "LD_DWORD (ST_DWORD bs i v) i
      = (push_bit 24 (ucast (ucast (drop_bit 24 v) :: BYTE)))
        OR (push_bit 16 (ucast (ucast (drop_bit 16 v) :: BYTE)))
        OR (push_bit 8 (ucast (ucast (drop_bit 8 v) :: BYTE))) OR (ucast (ucast v :: BYTE))"
    using assms by (simp add: LD_DWORD_def ST_DWORD_def)
  also have "\<dots> = v"
  proof (rule bit_word_eqI)
    fix n assume "n < LENGTH(32)"
    then consider "n < 8" | "8 \<le> n" "n < 16" | "16 \<le> n" "n < 24" | "24 \<le> n" "n < 32"
      by fastforce
    then show "bit ((push_bit 24 (ucast (ucast (drop_bit 24 v) :: BYTE)))
        OR (push_bit 16 (ucast (ucast (drop_bit 16 v) :: BYTE)))
        OR (push_bit 8 (ucast (ucast (drop_bit 8 v) :: BYTE))) OR (ucast (ucast v :: BYTE) :: DWORD)) n = bit v n"
      by cases (auto simp: bit_simps)
  qed
  finally show ?thesis .
qed

end
