(* ===== verification/Diskio.thy ===== *)
theory Diskio
  imports Prelude
begin

text \<open>
  The low-level disk interface of \<^verbatim>\<open>diskio.h\<close>: the result and status codes, and the record of
  functions a file system module calls.  \<^verbatim>\<open>tff.c\<close> is linked against these prototypes only, so its
  model takes the record as an argument; \<^verbatim>\<open>mmc.c\<close> provides the instance (theory \<open>Mmc\<close>).

  The locale \<open>disk_device\<close> is the contract of the interface as the file system needs it.  A buffer
  pointer of the code is a byte list: a read takes the old contents of the memory from the pointer
  on and returns the new contents.
\<close>

section \<open>Codes\<close>

datatype DRESULT = RES_OK | RES_ERROR | RES_WRPRT | RES_NOTRDY | RES_PARERR

definition STA_NOINIT :: BYTE where "STA_NOINIT = 0x01"
definition STA_NODISK :: BYTE where "STA_NODISK = 0x02"
definition STA_PROTECT :: BYTE where "STA_PROTECT = 0x04"

text \<open>\<open>has x m\<close> is the C truth value of \<open>x & m\<close>.\<close>

definition has :: "BYTE \<Rightarrow> BYTE \<Rightarrow> bool" where
  "has x m \<longleftrightarrow> x AND m \<noteq> 0"

section \<open>The interface record\<close>

text \<open>
  \<open>FS_READONLY\<close> is the build switch \<^verbatim>\<open>_FS_READONLY\<close> of \<^verbatim>\<open>tff.h\<close> (the shipped firmware sets it to 1);
  the other fields are the functions of \<^verbatim>\<open>diskio.h\<close>, on a state \<open>'d\<close> of the driver and the hardware
  behind it.  \<open>dio_ioctl_sync\<close> is \<open>disk_ioctl(drv, CTRL_SYNC, NULL)\<close>, the only control call of
  the file system.
\<close>

record 'd diskio =
  FS_READONLY :: bool
  dio_initialize :: "BYTE \<Rightarrow> 'd \<Rightarrow> BYTE \<times> 'd"
  dio_status :: "BYTE \<Rightarrow> 'd \<Rightarrow> BYTE"
  dio_read :: "BYTE \<Rightarrow> BYTE list \<Rightarrow> DWORD \<Rightarrow> BYTE \<Rightarrow> 'd \<Rightarrow> DRESULT \<times> BYTE list \<times> 'd"
  dio_write :: "BYTE \<Rightarrow> BYTE list \<Rightarrow> DWORD \<Rightarrow> BYTE \<Rightarrow> 'd \<Rightarrow> DRESULT \<times> 'd"
  dio_ioctl_sync :: "BYTE \<Rightarrow> 'd \<Rightarrow> DRESULT \<times> 'd"

section \<open>The contract\<close>

text \<open>
  \<open>sectors sec n k\<close> is the bytes of the \<open>k\<close> sectors from number \<open>n\<close> on;
  \<open>store_sectors\<close> is the medium after those sectors have been written.
\<close>

definition sectors :: "(nat \<Rightarrow> BYTE list) \<Rightarrow> nat \<Rightarrow> nat \<Rightarrow> BYTE list" where
  "sectors sec n k = concat (map sec [n ..< n + k])"

definition store_sectors :: "(nat \<Rightarrow> BYTE list) \<Rightarrow> nat \<Rightarrow> nat \<Rightarrow> BYTE list \<Rightarrow> nat \<Rightarrow> BYTE list" where
  "store_sectors sec n k bs =
     (\<lambda>m. if n \<le> m \<and> m < n + k then slice ((m - n) * 512) 512 bs else sec m)"

text \<open>
  A device state satisfying \<open>dinv\<close> holds the medium \<open>dsec d\<close>, \<open>dcap\<close> sectors of 512 bytes.
  Reads change neither the medium nor the drive status; a read that reports \<open>RES_OK\<close> delivers it; a single-sector read
  that reports an error leaves the buffer alone.  A write that reports \<open>RES_OK\<close> stores the data; any
  write leaves the other sectors and the drive status alone.
\<close>

locale disk_device =
  fixes io :: "'d diskio"
    and dinv :: "'d \<Rightarrow> bool"
    and dsec :: "'d \<Rightarrow> nat \<Rightarrow> BYTE list"
    and dcap :: "nat"
  assumes dsec_len: "dinv d \<Longrightarrow> length (dsec d m) = 512"
    and dcap_bound: "dcap < 2 ^ 32"
    and read_frame: "dinv d \<Longrightarrow> dio_read io 0 buf n cnt d = (r, buf', d') \<Longrightarrow>
      512 * unat cnt \<le> length buf \<Longrightarrow> unat n + unat cnt \<le> dcap \<Longrightarrow>
      dinv d' \<and> dsec d' = dsec d \<and> length buf' = length buf
      \<and> dio_status io 0 d' = dio_status io 0 d"
    and read_data: "dinv d \<Longrightarrow> dio_read io 0 buf n cnt d = (RES_OK, buf', d') \<Longrightarrow>
      512 * unat cnt \<le> length buf \<Longrightarrow> unat n + unat cnt \<le> dcap \<Longrightarrow>
      cnt \<noteq> 0 \<and> buf' = blit buf 0 (sectors (dsec d) (unat n) (unat cnt))"
    and read_failed: "dinv d \<Longrightarrow> dio_read io 0 buf n 1 d = (r, buf', d') \<Longrightarrow>
      512 \<le> length buf \<Longrightarrow> unat n + 1 \<le> dcap \<Longrightarrow> r \<noteq> RES_OK \<Longrightarrow> buf' = buf"
    and write_frame: "dinv d \<Longrightarrow> dio_write io 0 buf n cnt d = (r, d') \<Longrightarrow>
      512 * unat cnt \<le> length buf \<Longrightarrow> unat n + unat cnt \<le> dcap \<Longrightarrow>
      dinv d' \<and> (\<forall>m. m < unat n \<or> unat n + unat cnt \<le> m \<longrightarrow> dsec d' m = dsec d m)
      \<and> dio_status io 0 d' = dio_status io 0 d"
    and write_data: "dinv d \<Longrightarrow> dio_write io 0 buf n cnt d = (RES_OK, d') \<Longrightarrow>
      512 * unat cnt \<le> length buf \<Longrightarrow> unat n + unat cnt \<le> dcap \<Longrightarrow>
      cnt \<noteq> 0 \<and> dsec d' = store_sectors (dsec d) (unat n) (unat cnt) buf"
begin

text \<open>Reads in range do not fail.\<close>

definition reads_ok :: bool where
  "reads_ok \<longleftrightarrow> (\<forall>buf n cnt d. dinv d \<longrightarrow> cnt \<noteq> 0 \<longrightarrow> 512 * unat cnt \<le> length buf \<longrightarrow>
      unat n + unat cnt \<le> dcap \<longrightarrow> fst (dio_read io 0 buf n cnt d) = RES_OK)"

lemma reads_okD:
  assumes "reads_ok" "dinv d" "dio_read io 0 buf n cnt d = (r, buf', d')" "cnt \<noteq> 0"
    "512 * unat cnt \<le> length buf" "unat n + unat cnt \<le> dcap"
  shows "r = RES_OK"
  using assms unfolding reads_ok_def by (metis fst_conv)

lemma length_sectors: "dinv d \<Longrightarrow> length (sectors (dsec d) n k) = k * 512"
  by (induction k) (simp_all add: sectors_def dsec_len)

end

text \<open>A device that is initialised and on which reads in range do not fail.\<close>

locale reliable_device = disk_device +
  assumes read_ok: "dinv d \<Longrightarrow> dio_read io 0 buf n cnt d = (r, buf', d') \<Longrightarrow> cnt \<noteq> 0 \<Longrightarrow>
      512 * unat cnt \<le> length buf \<Longrightarrow> unat n + unat cnt \<le> dcap \<Longrightarrow> r = RES_OK"
    and ready: "dinv d \<Longrightarrow> \<not> has (dio_status io 0 d) STA_NOINIT"
begin

lemma reliable: reads_ok
  unfolding reads_ok_def by (metis prod.collapse read_ok)

end

lemma sectors_1 [simp]: "sectors sec n 1 = sec n" "sectors sec n (Suc 0) = sec n"
  by (simp_all add: sectors_def)

lemma sectors_0 [simp]: "sectors sec n 0 = []"
  by (simp add: sectors_def)

lemma sectors_add: "sectors sec n (j + k) = sectors sec n j @ sectors sec (n + j) k"
proof -
  have "[n ..< n + (j + k)] = [n ..< n + j] @ [n + j ..< n + j + k]"
    by (metis add.assoc le_add1 upt_add_eq_append)
  then show ?thesis by (simp add: sectors_def)
qed

lemma sectors_cong: "(\<And>m. n \<le> m \<Longrightarrow> m < n + k \<Longrightarrow> f m = g m) \<Longrightarrow> sectors f n k = sectors g n k"
  by (auto simp: sectors_def intro!: arg_cong [where f = concat] map_cong)

end
