(* ===== verification/TffState.thy ===== *)
theory TffState
  imports Diskio
begin

text \<open>
  The data of the Tiny-FatFs module (\<^verbatim>\<open>tff.h\<close> and the globals of \<^verbatim>\<open>tff.c\<close>): the file system, directory
  and file objects, the directory information, the result codes, and the module's state.  Cluster
  numbers are 16 bits wide (\<^verbatim>\<open>_FAT32\<close> is 0).
\<close>

section \<open>Objects\<close>

record FATFS =
  fs_id :: WORD
  fs_n_rootdir :: WORD
  fs_winsect :: DWORD
  fs_fatbase :: DWORD
  fs_dirbase :: DWORD
  fs_database :: DWORD
  fs_sects_fat :: WORD
  fs_max_clust :: WORD
  fs_last_clust :: WORD
  fs_free_clust :: WORD
  fs_type :: BYTE
  fs_sects_clust :: BYTE
  fs_n_fats :: BYTE
  fs_winflag :: BYTE

text \<open>\<open>memset(fs, 0, sizeof(FATFS))\<close>.\<close>

definition zero_FATFS :: FATFS where
  "zero_FATFS = \<lparr>fs_id = 0, fs_n_rootdir = 0, fs_winsect = 0, fs_fatbase = 0, fs_dirbase = 0,
     fs_database = 0, fs_sects_fat = 0, fs_max_clust = 0, fs_last_clust = 0, fs_free_clust = 0,
     fs_type = 0, fs_sects_clust = 0, fs_n_fats = 0, fs_winflag = 0\<rparr>"

text \<open>A pointer to a file system object is its address; 0 is \<open>NULL\<close>.\<close>

type_synonym fsptr = WORD

record DIR =
  dir_id :: WORD
  dir_index :: WORD
  dir_fs :: fsptr
  dir_sclust :: WORD
  dir_clust :: WORD
  dir_sect :: DWORD

text \<open>\<open>fp_dir_ptr\<close>, a pointer into the window, is the offset in it.\<close>

record FIL =
  fp_id :: WORD
  fp_flag :: BYTE
  fp_sect_clust :: BYTE
  fp_fs :: fsptr
  fp_fptr :: DWORD
  fp_fsize :: DWORD
  fp_org_clust :: WORD
  fp_curr_clust :: WORD
  fp_curr_sect :: DWORD
  fp_dir_sect :: DWORD
  fp_dir_ptr :: nat

record FILINFO =
  fi_fsize :: DWORD
  fi_fdate :: WORD
  fi_ftime :: WORD
  fi_fattrib :: BYTE
  fi_fname :: "BYTE list"

datatype FRESULT = FR_OK | FR_NOT_READY | FR_NO_FILE | FR_NO_PATH | FR_INVALID_NAME
  | FR_INVALID_DRIVE | FR_DENIED | FR_EXIST | FR_RW_ERROR | FR_WRITE_PROTECTED
  | FR_NOT_ENABLED | FR_NO_FILESYSTEM | FR_INVALID_OBJECT

fun fresult_code :: "FRESULT \<Rightarrow> BYTE" where
  "fresult_code FR_OK = 0"
| "fresult_code FR_NOT_READY = 1"
| "fresult_code FR_NO_FILE = 2"
| "fresult_code FR_NO_PATH = 3"
| "fresult_code FR_INVALID_NAME = 4"
| "fresult_code FR_INVALID_DRIVE = 5"
| "fresult_code FR_DENIED = 6"
| "fresult_code FR_EXIST = 7"
| "fresult_code FR_RW_ERROR = 8"
| "fresult_code FR_WRITE_PROTECTED = 9"
| "fresult_code FR_NOT_ENABLED = 10"
| "fresult_code FR_NO_FILESYSTEM = 11"
| "fresult_code FR_INVALID_OBJECT = 12"

section \<open>Constants\<close>

definition FA_READ :: BYTE where "FA_READ = 0x01"
definition FA_WRITE :: BYTE where "FA_WRITE = 0x02"
definition FA_CREATE_NEW :: BYTE where "FA_CREATE_NEW = 0x04"
definition FA_CREATE_ALWAYS :: BYTE where "FA_CREATE_ALWAYS = 0x08"
definition FA_OPEN_ALWAYS :: BYTE where "FA_OPEN_ALWAYS = 0x10"
definition FA_WRITTEN :: BYTE where "FA_WRITTEN = 0x20"
definition FA_ERROR :: BYTE where "FA_ERROR = 0x80"

definition FS_FAT12 :: BYTE where "FS_FAT12 = 1"
definition FS_FAT16 :: BYTE where "FS_FAT16 = 2"

definition AM_RDO :: BYTE where "AM_RDO = 0x01"
definition AM_HID :: BYTE where "AM_HID = 0x02"
definition AM_SYS :: BYTE where "AM_SYS = 0x04"
definition AM_VOL :: BYTE where "AM_VOL = 0x08"
definition AM_DIR :: BYTE where "AM_DIR = 0x10"
definition AM_ARC :: BYTE where "AM_ARC = 0x20"

text \<open>Offsets in the boot sector and in a directory entry.\<close>

definition BPB_BytsPerSec :: nat where "BPB_BytsPerSec = 11"
definition BPB_SecPerClus :: nat where "BPB_SecPerClus = 13"
definition BPB_RsvdSecCnt :: nat where "BPB_RsvdSecCnt = 14"
definition BPB_NumFATs :: nat where "BPB_NumFATs = 16"
definition BPB_RootEntCnt :: nat where "BPB_RootEntCnt = 17"
definition BPB_TotSec16 :: nat where "BPB_TotSec16 = 19"
definition BPB_FATSz16 :: nat where "BPB_FATSz16 = 22"
definition BPB_TotSec32 :: nat where "BPB_TotSec32 = 32"
definition BPB_FATSz32 :: nat where "BPB_FATSz32 = 36"
definition BS_FilSysType :: nat where "BS_FilSysType = 54"
definition BS_55AA :: nat where "BS_55AA = 510"
definition MBR_Table :: nat where "MBR_Table = 446"

definition DIR_Name :: nat where "DIR_Name = 0"
definition DIR_Attr :: nat where "DIR_Attr = 11"
definition DIR_NTres :: nat where "DIR_NTres = 12"
definition DIR_CrtTime :: nat where "DIR_CrtTime = 14"
definition DIR_WrtTime :: nat where "DIR_WrtTime = 22"
definition DIR_WrtDate :: nat where "DIR_WrtDate = 24"
definition DIR_FstClusLO :: nat where "DIR_FstClusLO = 26"
definition DIR_FileSize :: nat where "DIR_FileSize = 28"

named_theorems tff_consts \<open>the numeric constants of tff.h and diskio.h\<close>

lemmas tff_const_defs [tff_consts] =
  STA_NOINIT_def STA_NODISK_def STA_PROTECT_def
  FA_READ_def FA_WRITE_def FA_CREATE_NEW_def FA_CREATE_ALWAYS_def FA_OPEN_ALWAYS_def
  FA_WRITTEN_def FA_ERROR_def FS_FAT12_def FS_FAT16_def
  AM_RDO_def AM_HID_def AM_SYS_def AM_VOL_def AM_DIR_def AM_ARC_def
  BPB_BytsPerSec_def BPB_SecPerClus_def BPB_RsvdSecCnt_def BPB_NumFATs_def BPB_RootEntCnt_def
  BPB_TotSec16_def BPB_FATSz16_def BPB_TotSec32_def BPB_FATSz32_def BS_FilSysType_def BS_55AA_def
  MBR_Table_def DIR_Name_def DIR_Attr_def DIR_NTres_def DIR_CrtTime_def DIR_WrtTime_def
  DIR_WrtDate_def DIR_FstClusLO_def DIR_FileSize_def

section \<open>The module state\<close>

text \<open>
  \<open>FatFs\<close> is the pointer to the registered file system object, \<open>fsid\<close> the mount counter,
  \<open>fs_win\<close> the sector window \<^verbatim>\<open>fs__win\<close>, \<open>fsobj\<close> the memory that holds file system objects, by
  address, and \<open>disk\<close> the state of the disk driver.
\<close>

record 'd tff =
  FatFs :: fsptr
  fsid :: WORD
  fs_win :: "BYTE list"
  fsobj :: "fsptr \<Rightarrow> FATFS"
  disk :: 'd

abbreviation cur_fs :: "'d tff \<Rightarrow> FATFS" where
  "cur_fs s \<equiv> fsobj s (FatFs s)"

definition upd_fs :: "fsptr \<Rightarrow> (FATFS \<Rightarrow> FATFS) \<Rightarrow> 'd tff \<Rightarrow> 'd tff" where
  "upd_fs p f s = s\<lparr>fsobj := (fsobj s)(p := f (fsobj s p))\<rparr>"

abbreviation upd_cur :: "(FATFS \<Rightarrow> FATFS) \<Rightarrow> 'd tff \<Rightarrow> 'd tff" where
  "upd_cur f s \<equiv> upd_fs (FatFs s) f s"

lemma upd_fs_simps [simp]:
  "FatFs (upd_fs p f s) = FatFs s"
  "fsid (upd_fs p f s) = fsid s"
  "fs_win (upd_fs p f s) = fs_win s"
  "disk (upd_fs p f s) = disk s"
  "fsobj (upd_fs p f s) p = f (fsobj s p)"
  "q \<noteq> p \<Longrightarrow> fsobj (upd_fs p f s) q = fsobj s q"
  by (simp_all add: upd_fs_def)

text \<open>A NUL-terminated string is the list of its bytes; \<open>c_hd\<close> reads \<open>*p\<close> and \<open>c_tl\<close> is \<open>p + 1\<close>.\<close>

definition c_hd :: "BYTE list \<Rightarrow> BYTE" where
  "c_hd p = (case p of [] \<Rightarrow> 0 | c # _ \<Rightarrow> c)"

definition c_tl :: "BYTE list \<Rightarrow> BYTE list" where
  "c_tl p = (case p of [] \<Rightarrow> [] | _ # cs \<Rightarrow> cs)"

text \<open>\<open>get_fattime\<close> of \<^verbatim>\<open>main.c\<close>: there is no clock, the time is always 0.\<close>

definition get_fattime :: DWORD where
  "get_fattime = 0"

text \<open>
  32-bit unsigned division as the run-time library does it (\<^verbatim>\<open>ludiv.s\<close>: restoring shift and subtract):
  a zero divisor is subtracted in every round, so the quotient has every bit set.
\<close>

definition udiv32 :: "DWORD \<Rightarrow> DWORD \<Rightarrow> DWORD" where
  "udiv32 a b = (if b = 0 then - 1 else a div b)"

end
