(* ===== verification/TffFat.thy ===== *)
theory TffFat
  imports TffState
begin

text \<open>
  The private functions of \<^verbatim>\<open>tff.c\<close> that work on the sector window and the file allocation table:
  \<open>move_window\<close>, \<open>sync\<close>, \<open>get_cluster\<close>, \<open>put_cluster\<close>, \<open>remove_chain\<close>, \<open>create_chain\<close>, \<open>clust2sect\<close>.
  Each takes the disk interface \<open>io\<close> and the module state and returns its result with the new state;
  \<open>FS_READONLY io\<close> selects the code under \<^verbatim>\<open>#if !_FS_READONLY\<close>.
\<close>

section \<open>The window\<close>

text \<open>\<open>for (n = fs->n_fats; n >= 2; n--) { wsect += fs->sects_fat; disk_write(...); }\<close>: \<open>n\<close> more copies.\<close>

fun write_fat_copies :: "'d diskio \<Rightarrow> nat \<Rightarrow> DWORD \<Rightarrow> 'd tff \<Rightarrow> 'd tff" where
  "write_fat_copies io 0 wsect s = s"
| "write_fat_copies io (Suc n) wsect s =
     (let wsect = wsect + ucast (fs_sects_fat (cur_fs s));
          (_, d) = dio_write io 0 (fs_win s) wsect 1 (disk s)
      in write_fat_copies io n wsect (s\<lparr>disk := d\<rparr>))"

definition write_back :: "'d diskio \<Rightarrow> 'd tff \<Rightarrow> bool \<times> 'd tff" where
  "write_back io s =
     (let wsect = fs_winsect (cur_fs s) in
      if fs_winflag (cur_fs s) \<noteq> 0 then
        (case dio_write io 0 (fs_win s) wsect 1 (disk s) of (r, d) \<Rightarrow>
           let s = s\<lparr>disk := d\<rparr> in
           if r \<noteq> RES_OK then (False, s)
           else
             let s = upd_cur (fs_winflag_update (\<lambda>_. 0)) s in
             if wsect < fs_fatbase (cur_fs s) + ucast (fs_sects_fat (cur_fs s)) then
               (True, write_fat_copies io (unat (fs_n_fats (cur_fs s)) - 1) wsect s)
             else (True, s))
      else (True, s))"

definition move_window :: "'d diskio \<Rightarrow> DWORD \<Rightarrow> 'd tff \<Rightarrow> bool \<times> 'd tff" where
  "move_window io sector s =
     (let wsect = fs_winsect (cur_fs s) in
      if wsect \<noteq> sector then
        (case (if FS_READONLY io then (True, s) else write_back io s) of (ok, s) \<Rightarrow>
           if \<not> ok then (False, s)
           else if sector \<noteq> 0 then
             (case dio_read io 0 (fs_win s) sector 1 (disk s) of (r, win, d) \<Rightarrow>
                let s = s\<lparr>fs_win := win, disk := d\<rparr> in
                if r \<noteq> RES_OK then (False, s)
                else (True, upd_cur (fs_winsect_update (\<lambda>_. sector)) s))
           else (True, s))
      else (True, s))"

text \<open>\<open>sync\<close> (only in the read-write build).\<close>

definition sync :: "'d diskio \<Rightarrow> 'd tff \<Rightarrow> FRESULT \<times> 'd tff" where
  "sync io s =
     (case move_window io 0 (upd_cur (fs_winflag_update (\<lambda>_. 1)) s) of (ok, s) \<Rightarrow>
        if \<not> ok then (FR_RW_ERROR, s)
        else
          case dio_ioctl_sync io 0 (disk s) of (r, d) \<Rightarrow>
            ((if r \<noteq> RES_OK then FR_RW_ERROR else FR_OK), s\<lparr>disk := d\<rparr>))"

section \<open>FAT entries\<close>

text \<open>
  \<open>get_cluster\<close> returns the link of a cluster, or 1 for an invalid cluster number, a disk error or an
  unknown FAT type.  In FAT12 a 12-bit entry may straddle two sectors, so the window may move twice.
\<close>

definition get_cluster :: "'d diskio \<Rightarrow> WORD \<Rightarrow> 'd tff \<Rightarrow> WORD \<times> 'd tff" where
  "get_cluster io clust s =
     (let fs = cur_fs s; fatsect = fs_fatbase fs in
      if 2 \<le> clust \<and> clust < fs_max_clust fs then
        if fs_type fs = FS_FAT12 then
          let bc = clust * 3 div 2 in
          (case move_window io (fatsect + ucast (bc div 512)) s of (ok, s) \<Rightarrow>
             if \<not> ok then (1, s)
             else
               let wc = ucast (fs_win s ! unat (bc mod 512)) :: WORD; bc = bc + 1 in
               (case move_window io (fatsect + ucast (bc div 512)) s of (ok, s) \<Rightarrow>
                  if \<not> ok then (1, s)
                  else
                    let wc = wc OR push_bit 8 (ucast (fs_win s ! unat (bc mod 512))) in
                    ((if clust AND 1 \<noteq> 0 then drop_bit 4 wc else wc AND 0xFFF), s)))
        else if fs_type fs = FS_FAT16 then
          (case move_window io (fatsect + ucast (clust div 256)) s of (ok, s) \<Rightarrow>
             if \<not> ok then (1, s)
             else (LD_WORD (fs_win s) (unat (clust * 2 mod 512)), s))
        else (1, s)
      else (1, s))"

definition put_cluster :: "'d diskio \<Rightarrow> WORD \<Rightarrow> WORD \<Rightarrow> 'd tff \<Rightarrow> bool \<times> 'd tff" where
  "put_cluster io clust val s =
     (let fs = cur_fs s; fatsect = fs_fatbase fs;
          dirty = (\<lambda>s. upd_cur (fs_winflag_update (\<lambda>_. 1)) s) in
      if fs_type fs = FS_FAT12 then
        let bc = clust * 3 div 2 in
        (case move_window io (fatsect + ucast (bc div 512)) s of (ok, s) \<Rightarrow>
           if \<not> ok then (False, s)
           else
             let p = unat (bc mod 512); c = fs_win s ! p;
                 c = (if clust AND 1 \<noteq> 0 then (c AND 0x0F) OR push_bit 4 (ucast val) else ucast val);
                 bc = bc + 1;
                 s = dirty (s\<lparr>fs_win := (fs_win s)[p := c]\<rparr>) in
             (case move_window io (fatsect + ucast (bc div 512)) s of (ok, s) \<Rightarrow>
                if \<not> ok then (False, s)
                else
                  let p = unat (bc mod 512); c = fs_win s ! p;
                      c = (if clust AND 1 \<noteq> 0 then ucast (drop_bit 4 val)
                           else (c AND 0xF0) OR (ucast (drop_bit 8 val) AND 0x0F)) in
                  (True, dirty (s\<lparr>fs_win := (fs_win s)[p := c]\<rparr>))))
      else if fs_type fs = FS_FAT16 then
        (case move_window io (fatsect + ucast (clust div 256)) s of (ok, s) \<Rightarrow>
           if \<not> ok then (False, s)
           else (True, dirty (s\<lparr>fs_win := ST_WORD (fs_win s) (unat (clust * 2 mod 512)) val\<rparr>)))
      else (False, s))"

text \<open>
  \<open>(CLUST)0xFFFFFFFF\<close> is 0xFFFF: the free count is unknown.  The loop of \<open>remove_chain\<close> follows the
  links of the table, so it is a partial function.
\<close>

definition bump_free :: "WORD \<Rightarrow> 'd tff \<Rightarrow> 'd tff" where
  "bump_free delta s =
     (if fs_free_clust (cur_fs s) \<noteq> 0xFFFF
      then upd_cur (fs_free_clust_update (\<lambda>n. n + delta)) s else s)"

partial_function (option) remove_chain :: "'d diskio \<Rightarrow> WORD \<Rightarrow> 'd tff \<Rightarrow> (bool \<times> 'd tff) option" where
  "remove_chain io clust s =
     (if 2 \<le> clust \<and> clust < fs_max_clust (cur_fs s) then
        (case get_cluster io clust s of (nxt, s) \<Rightarrow>
           if nxt = 1 then Some (False, s)
           else
             (case put_cluster io clust 0 s of (ok, s) \<Rightarrow>
                if \<not> ok then Some (False, s)
                else remove_chain io nxt (bump_free 1 s)))
      else Some (True, s))"

text \<open>
  The search of \<open>create_chain\<close>: \<open>Inl c\<close> is the function's early return with \<open>c\<close>, \<open>Inr ncl\<close> the free
  cluster found.
\<close>

partial_function (option) find_free ::
  "'d diskio \<Rightarrow> WORD \<Rightarrow> WORD \<Rightarrow> WORD \<Rightarrow> 'd tff \<Rightarrow> ((WORD + WORD) \<times> 'd tff) option" where
  "find_free io mcl scl ncl s =
     (let ncl = ncl + 1; wrap = ncl \<ge> mcl; ncl = (if wrap then 2 else ncl) in
      if wrap \<and> ncl > scl then Some (Inl 0, s)
      else
        (case get_cluster io ncl s of (cstat, s) \<Rightarrow>
           if cstat = 0 then Some (Inr ncl, s)
           else if cstat = 1 then Some (Inl 1, s)
           else if ncl = scl then Some (Inl 0, s)
           else find_free io mcl scl ncl s))"

definition link_new :: "'d diskio \<Rightarrow> WORD \<Rightarrow> WORD \<Rightarrow> 'd tff \<Rightarrow> WORD \<times> 'd tff" where
  "link_new io clust ncl s =
     (case put_cluster io ncl 0xFFFF s of (ok, s) \<Rightarrow>
        if \<not> ok then (1, s)
        else
          (case (if clust \<noteq> 0 then put_cluster io clust ncl s else (True, s)) of (ok, s) \<Rightarrow>
             if \<not> ok then (1, s)
             else (ncl, bump_free (- 1) (upd_cur (fs_last_clust_update (\<lambda>_. ncl)) s))))"

definition create_chain :: "'d diskio \<Rightarrow> WORD \<Rightarrow> 'd tff \<Rightarrow> (WORD \<times> 'd tff) option" where
  "create_chain io clust s =
     (let mcl = fs_max_clust (cur_fs s);
          search = (\<lambda>scl s. do {
            (r, s) \<leftarrow> find_free io mcl scl scl s;
            (case r of Inl c \<Rightarrow> Some (c, s) | Inr ncl \<Rightarrow> Some (link_new io clust ncl s)) }) in
      if clust = 0 then
        let scl = fs_last_clust (cur_fs s) in
        search (if scl < 2 \<or> scl \<ge> mcl then 1 else scl) s
      else
        (case get_cluster io clust s of (cstat, s) \<Rightarrow>
           if cstat < 2 then Some (1, s)
           else if cstat < mcl then Some (cstat, s)
           else search clust s))"

section \<open>Cluster to sector\<close>

definition clust2sect :: "FATFS \<Rightarrow> WORD \<Rightarrow> DWORD" where
  "clust2sect fs clust =
     (let clust = clust - 2 in
      if clust \<ge> fs_max_clust fs - 2 then 0
      else ucast clust * ucast (fs_sects_clust fs) + fs_database fs)"

end
