(* ===== verification/TffDir.thy ===== *)
theory TffDir
  imports TffFat
begin

text \<open>
  Directory tables and path names of \<^verbatim>\<open>tff.c\<close>: stepping a directory object, decoding an entry, turning
  a path segment into the 11-byte form of an entry, tracing a path, reserving an entry.  A pointer
  to an entry in the window is its offset; \<open>None\<close> is \<open>NULL\<close>.
\<close>

section \<open>Stepping through a directory table\<close>

definition next_dir_entry :: "'d diskio \<Rightarrow> DIR \<Rightarrow> 'd tff \<Rightarrow> bool \<times> DIR \<times> 'd tff" where
  "next_dir_entry io dj s =
     (let fs = cur_fs s; idx = dir_index dj + 1 in
      if idx AND 15 = 0 then
        let dj = dj\<lparr>dir_sect := dir_sect dj + 1\<rparr> in
        if dir_clust dj = 0 then
          if idx \<ge> fs_n_rootdir fs then (False, dj, s)
          else (True, dj\<lparr>dir_index := idx\<rparr>, s)
        else if (idx div 16) AND (ucast (fs_sects_clust fs) - 1) = 0 then
          (case get_cluster io (dir_clust dj) s of (clust, s) \<Rightarrow>
             if clust < 2 \<or> clust \<ge> fs_max_clust fs then (False, dj, s)
             else (True, dj\<lparr>dir_clust := clust, dir_sect := clust2sect (cur_fs s) clust,
                          dir_index := idx\<rparr>, s))
        else (True, dj\<lparr>dir_index := idx\<rparr>, s)
      else (True, dj\<lparr>dir_index := idx\<rparr>, s))"

text \<open>\<open>(dirobj->index & 15) * 32\<close>: the offset in the window of the entry the object is at.\<close>

definition entry_off :: "DIR \<Rightarrow> nat" where
  "entry_off dj = unat (dir_index dj AND 15) * 32"

section \<open>Decoding an entry\<close>

text \<open>
  \<open>get_fileinfo\<close> without the NT flag: the copying loops stop at a space, and a byte 0x05
  of the body stands for 0xE5.  The name is written over the front of \<open>fname\<close>, which has 13 bytes.
\<close>

fun copy_body :: "nat \<Rightarrow> BYTE list \<Rightarrow> BYTE list" where
  "copy_body 0 dir = []"
| "copy_body (Suc n) dir =
     (let c = c_hd dir in
      if c = 0x20 then []
      else (if c = 0x05 then 0xE5 else c) # copy_body n (c_tl dir))"

fun copy_ext :: "nat \<Rightarrow> BYTE list \<Rightarrow> BYTE list" where
  "copy_ext 0 dir = []"
| "copy_ext (Suc n) dir =
     (let c = c_hd dir in
      if c = 0x20 then [] else c # copy_ext n (c_tl dir))"

definition entry_name :: "BYTE list \<Rightarrow> BYTE list" where
  "entry_name dir =
     copy_body 8 dir @ (if dir ! 8 \<noteq> 0x20 then 0x2E # copy_ext 3 (drop 8 dir) else [])"

definition get_fileinfo :: "FILINFO \<Rightarrow> BYTE list \<Rightarrow> FILINFO" where
  "get_fileinfo finfo dir =
     finfo\<lparr>fi_fname := blit (fi_fname finfo) 0 (entry_name dir @ [0]),
       fi_fattrib := dir ! DIR_Attr,
       fi_fsize := LD_DWORD dir DIR_FileSize,
       fi_fdate := LD_WORD dir DIR_WrtDate,
       fi_ftime := LD_WORD dir DIR_WrtTime\<rparr>"

section \<open>From a path segment to an entry name\<close>

text \<open>
  The loop of \<open>make_dirfile\<close>, one character per round.  Without Shift-JIS and the NT flag the state is
  the write index \<open>n\<close>, its limit \<open>t\<close> and the buffer.  The result is the function's return value (1 for
  an invalid name, otherwise the separator), the rest of the path and the buffer.  \<open>md_reject\<close> is the
  chain of character tests, \<open>md_upper\<close> the conversion to upper case.
\<close>

definition md_reject :: "BYTE \<Rightarrow> bool" where
  "md_reject c \<longleftrightarrow>
     (c = 0x22 \<or>
      (\<not> c \<le> 0x29 \<and>
       (c \<le> 0x2C \<or>
        (\<not> c \<le> 0x39 \<and>
         (c \<le> 0x3F \<or> c = 0x7C \<or> (0x5B \<le> c \<and> c \<le> 0x5D))))))"

definition md_upper :: "BYTE \<Rightarrow> BYTE" where
  "md_upper c = (if 0x61 \<le> c \<and> c \<le> 0x7A then c - 0x20 else c)"

fun md_loop :: "BYTE list \<Rightarrow> nat \<Rightarrow> nat \<Rightarrow> BYTE list \<Rightarrow> BYTE \<times> BYTE list \<times> BYTE list" where
  "md_loop [] n t dirname =
     (if n = 0 then (1, [], dirname) else (0, [], dirname[11 := 0]))"
| "md_loop (c # path) n t dirname =
     (if c = 0 \<or> c = 0x2F then
        (if n = 0 then (1, path, dirname) else (c, path, dirname[11 := 0]))
      else if c \<le> 0x20 \<or> c = 0x7F then (1, path, dirname)
      else if c = 0x2E then
        (if 1 \<le> n \<and> n \<le> 8 then md_loop path 8 11 dirname else (1, path, dirname))
      else if md_reject c then (1, path, dirname)
      else if n \<ge> t then (1, path, dirname)
      else md_loop path (n + 1) t (dirname[n := md_upper c]))"

definition make_dirfile :: "BYTE list \<Rightarrow> BYTE list \<Rightarrow> BYTE \<times> BYTE list \<times> BYTE list" where
  "make_dirfile path dirname = md_loop path 0 8 (blit dirname 0 (replicate 11 0x20))"

section \<open>Tracing a path\<close>

text \<open>
  The inner loop of \<open>trace_path\<close>: scan the table from the object's position for the name \<open>fn\<close>.  It
  follows cluster links, so it is a partial function.
\<close>

datatype scan = ScanFound | ScanEnd | ScanError

definition entry_matches :: "BYTE list \<Rightarrow> nat \<Rightarrow> BYTE list \<Rightarrow> bool" where
  "entry_matches win p fn \<longleftrightarrow>
     win ! (p + DIR_Name) \<noteq> 0xE5 \<and> \<not> has (win ! (p + DIR_Attr)) AM_VOL \<and>
     slice (p + DIR_Name) 11 win = take 11 fn"

partial_function (option) trace_scan ::
  "'d diskio \<Rightarrow> BYTE list \<Rightarrow> DIR \<Rightarrow> 'd tff \<Rightarrow> (scan \<times> DIR \<times> 'd tff) option" where
  "trace_scan io fn dj s =
     (case move_window io (dir_sect dj) s of (ok, s) \<Rightarrow>
        if \<not> ok then Some (ScanError, dj, s)
        else if fs_win s ! (entry_off dj + DIR_Name) = 0 then Some (ScanEnd, dj, s)
        else if entry_matches (fs_win s) (entry_off dj) fn then Some (ScanFound, dj, s)
        else
          (case next_dir_entry io dj s of (ok, dj, s) \<Rightarrow>
             if \<not> ok then Some (ScanEnd, dj, s) else trace_scan io fn dj s))"

partial_function (option) trace_loop ::
  "'d diskio \<Rightarrow> DIR \<Rightarrow> BYTE list \<Rightarrow> BYTE list \<Rightarrow> 'd tff \<Rightarrow>
     (FRESULT \<times> DIR \<times> BYTE list \<times> nat option \<times> 'd tff) option" where
  "trace_loop io dj fn path s =
     (case make_dirfile path fn of (ds, path, fn) \<Rightarrow>
        if ds = 1 then Some (FR_INVALID_NAME, dj, fn, None, s)
        else do {
          (sc, dj, s) \<leftarrow> trace_scan io fn dj s;
          (case sc of
             ScanError \<Rightarrow> Some (FR_RW_ERROR, dj, fn, None, s)
           | ScanEnd \<Rightarrow> Some (if ds = 0 then FR_NO_FILE else FR_NO_PATH, dj, fn, None, s)
           | ScanFound \<Rightarrow>
               let p = entry_off dj in
               if ds = 0 then Some (FR_OK, dj, fn, Some p, s)
               else if \<not> has (fs_win s ! (p + DIR_Attr)) AM_DIR then
                 Some (FR_NO_PATH, dj, fn, None, s)
               else
                 let clust = LD_WORD (fs_win s) (p + DIR_FstClusLO) in
                 trace_loop io
                   (dj\<lparr>dir_clust := clust, dir_sclust := clust,
                       dir_sect := clust2sect (cur_fs s) clust, dir_index := 2\<rparr>) fn path s) })"

text \<open>
  The root directory's first sector goes through the 16-bit variable \<open>clust\<close>, as in the source.  The
  directory object is the caller's: fields the function does not assign keep their values.
\<close>

definition trace_path ::
  "'d diskio \<Rightarrow> DIR \<Rightarrow> BYTE list \<Rightarrow> BYTE list \<Rightarrow> 'd tff \<Rightarrow>
     (FRESULT \<times> DIR \<times> BYTE list \<times> nat option \<times> 'd tff) option" where
  "trace_path io dj fn path s =
     (let clust = ucast (fs_dirbase (cur_fs s)) :: WORD;
          dj = dj\<lparr>dir_clust := 0, dir_sclust := 0, dir_sect := ucast clust, dir_index := 0,
                  dir_fs := FatFs s\<rparr> in
      if c_hd path = 0 then Some (FR_OK, dj, fn, None, s)
      else trace_loop io dj fn path s)"

section \<open>Reserving an entry\<close>

text \<open>\<open>reserve_scan\<close> is the \<open>do ... while (next_dir_entry(dirobj))\<close> loop.\<close>

partial_function (option) reserve_scan ::
  "'d diskio \<Rightarrow> DIR \<Rightarrow> 'd tff \<Rightarrow> (scan \<times> DIR \<times> 'd tff) option" where
  "reserve_scan io dj s =
     (case move_window io (dir_sect dj) s of (ok, s) \<Rightarrow>
        if \<not> ok then Some (ScanError, dj, s)
        else
          let c = fs_win s ! (entry_off dj + DIR_Name) in
          if c = 0 \<or> c = 0xE5 then Some (ScanFound, dj, s)
          else
            (case next_dir_entry io dj s of (ok, dj, s) \<Rightarrow>
               if \<not> ok then Some (ScanEnd, dj, s) else reserve_scan io dj s))"

text \<open>\<open>for (n = fs->sects_clust; n; n--) { disk_write(0, fs__win, sector, 1); sector++; }\<close>\<close>

fun clear_sectors :: "'d diskio \<Rightarrow> nat \<Rightarrow> DWORD \<Rightarrow> 'd tff \<Rightarrow> bool \<times> 'd tff" where
  "clear_sectors io 0 sector s = (True, s)"
| "clear_sectors io (Suc n) sector s =
     (case dio_write io 0 (fs_win s) sector 1 (disk s) of (r, d) \<Rightarrow>
        if r \<noteq> RES_OK then (False, s\<lparr>disk := d\<rparr>)
        else clear_sectors io n (sector + 1) (s\<lparr>disk := d\<rparr>))"

definition stretch_dir ::
  "'d diskio \<Rightarrow> DIR \<Rightarrow> 'd tff \<Rightarrow> (FRESULT \<times> DIR \<times> nat option \<times> 'd tff) option" where
  "stretch_dir io dj s = do {
     (clust, s) \<leftarrow> create_chain io (dir_clust dj) s;
     if clust = 0 then Some (FR_DENIED, dj, None, s)
     else
       (case (if clust = 1 then (False, s) else move_window io 0 s) of (ok, s) \<Rightarrow>
          if \<not> ok then Some (FR_RW_ERROR, dj, None, s)
          else
            let sector = clust2sect (cur_fs s) clust;
                s = upd_cur (fs_winsect_update (\<lambda>_. sector)) s;
                s = s\<lparr>fs_win := replicate 512 0\<rparr> in
            (case clear_sectors io (unat (fs_sects_clust (cur_fs s))) sector s of (ok, s) \<Rightarrow>
               if \<not> ok then Some (FR_RW_ERROR, dj, None, s)
               else Some (FR_OK, dj, Some 0, upd_cur (fs_winflag_update (\<lambda>_. 1)) s))) }"

definition reserve_direntry ::
  "'d diskio \<Rightarrow> DIR \<Rightarrow> 'd tff \<Rightarrow> (FRESULT \<times> DIR \<times> nat option \<times> 'd tff) option" where
  "reserve_direntry io dj s =
     (let clust = dir_sclust dj;
          dj = (if clust \<noteq> 0
                then dj\<lparr>dir_clust := clust, dir_sect := clust2sect (cur_fs s) clust\<rparr>
                else dj\<lparr>dir_sect := fs_dirbase (cur_fs s)\<rparr>);
          dj = dj\<lparr>dir_index := 0\<rparr>
      in do {
        (sc, dj, s) \<leftarrow> reserve_scan io dj s;
        (case sc of
           ScanError \<Rightarrow> Some (FR_RW_ERROR, dj, None, s)
         | ScanFound \<Rightarrow> Some (FR_OK, dj, Some (entry_off dj), s)
         | ScanEnd \<Rightarrow>
             if clust = 0 then Some (FR_DENIED, dj, None, s) else stretch_dir io dj s) })"

end
