(* ===== verification/TffNameProps.thy ===== *)
theory TffNameProps
  imports TffDir
begin

text \<open>
  Names: \<open>make_dirfile\<close> turns an 8.3 name of a path into the 11 bytes of a directory entry, \<open>get_fileinfo\<close>
  turns them back.  The round trip, and the form of every name that is accepted.
\<close>

section \<open>8.3 names\<close>

text \<open>\<open>legal_char\<close>: the characters a name may have.  \<open>pad n xs\<close> fills up with spaces.\<close>

definition legal_char :: "BYTE \<Rightarrow> bool" where
  "legal_char c \<longleftrightarrow>
     c > 0x20 \<and> c \<noteq> 0x7F \<and> c \<noteq> 0x2E \<and> c \<noteq> 0x2F
     \<and> c \<notin> {0x22, 0x2A, 0x2B, 0x2C, 0x3A, 0x3B, 0x3C, 0x3D, 0x3E, 0x3F, 0x5B, 0x5C, 0x5D, 0x7C}"

definition pad :: "nat \<Rightarrow> BYTE list \<Rightarrow> BYTE list" where
  "pad n xs = take n (xs @ replicate n 0x20)"

definition separator :: "BYTE \<Rightarrow> bool" where
  "separator c \<longleftrightarrow> c = 0 \<or> c = 0x2F"

text \<open>The text of a name in a path, and the 11 bytes of its directory entry.\<close>

definition name_text :: "BYTE list \<Rightarrow> BYTE list \<Rightarrow> BYTE list" where
  "name_text body ext = body @ (if ext = [] then [] else 0x2E # ext)"

definition name_83 :: "BYTE list \<Rightarrow> BYTE list \<Rightarrow> BYTE list" where
  "name_83 body ext = pad 8 (map md_upper body) @ pad 3 (map md_upper ext)"

lemma md_reject_cases:
  "md_reject c \<longleftrightarrow> c \<in> {0x22, 0x2A, 0x2B, 0x2C, 0x3A, 0x3B, 0x3C, 0x3D, 0x3E, 0x3F, 0x5B, 0x5C, 0x5D, 0x7C}"
proof -
  have r: "(\<not> n \<le> 41 \<and> (n \<le> 44 \<or> (\<not> n \<le> 57 \<and> (n \<le> 63 \<or> P)))) \<longleftrightarrow>
      n \<in> {42, 43, 44, 58, 59, 60, 61, 62, 63} \<or> 57 < n \<and> P" for n :: nat and P
    by auto
  have "md_reject c \<longleftrightarrow> unat c = 34 \<or> unat c \<in> {42, 43, 44, 58, 59, 60, 61, 62, 63}
      \<or> 57 < unat c \<and> (unat c = 124 \<or> 91 \<le> unat c \<and> unat c \<le> 93)"
    unfolding md_reject_def word_eq_unat word_le_nat_alt by (simp add: r)
  also have "\<dots> \<longleftrightarrow> unat c = 34 \<or> unat c \<in> {42, 43, 44, 58, 59, 60, 61, 62, 63} \<or> unat c \<in> {91, 92, 93, 124}"
    by auto
  finally show ?thesis by (auto simp add: word_eq_unat)
qed

lemma legal_char_step:
  assumes "legal_char c"
  shows "c \<noteq> 0" "c \<noteq> 0x2F" "\<not> c \<le> 0x20" "c \<noteq> 0x7F" "c \<noteq> 0x2E" "\<not> md_reject c"
  using assms by (auto simp: legal_char_def md_reject_cases)

lemma md_loop_chars:
  assumes "list_all legal_char cs" "n + length cs \<le> t" "t \<le> length d"
  shows "md_loop (cs @ rest) n t d = md_loop rest (n + length cs) t (blit d n (map md_upper cs))"
  using assms
proof (induction cs arbitrary: n d)
  case Nil
  then show ?case by simp
next
  case (Cons c cs)
  have "md_loop ((c # cs) @ rest) n t d = md_loop (cs @ rest) (n + 1) t (d[n := md_upper c])"
    using Cons.prems legal_char_step [of c] by simp
  also have "\<dots> = md_loop rest (n + 1 + length cs) t (blit (d[n := md_upper c]) (n + 1) (map md_upper cs))"
    using Cons by (subst Cons.IH) auto
  also have "blit (d[n := md_upper c]) (n + 1) (map md_upper cs) = blit d n (map md_upper (c # cs))"
    using Cons.prems by (simp add: blit_def upd_conv_take_nth_drop ac_simps)
  finally show ?case by simp
qed

lemma length_pad [simp]: "length (pad n xs) = n"
  by (simp add: pad_def)

lemma blit_spaces:
  assumes "length xs \<le> n" "n + k \<le> length d" "slice k n d = replicate n 0x20"
  shows "blit d k xs = blit d k (pad n xs)"
proof (rule nth_equalityI)
  show "length (blit d k xs) = length (blit d k (pad n xs))" using assms by simp
next
  fix i assume "i < length (blit d k xs)"
  then have i: "i < length d" using assms by simp
  show "blit d k xs ! i = blit d k (pad n xs) ! i"
  proof (cases "k + length xs \<le> i \<and> i < k + n")
    case True
    then have "d ! i = slice k n d ! (i - k)" using i by (subst slice_nth) auto
    then have "d ! i = 0x20" using assms(3) True by auto
    then show ?thesis using True i assms by (auto simp: nth_blit_same nth_blit_other pad_def nth_append)
  next
    case False
    then show ?thesis using i assms
      by (cases "i < k \<or> k + n \<le> i") (auto simp: nth_blit_same nth_blit_other pad_def nth_append)
  qed
qed

lemma drop_last: "length xs = Suc n \<Longrightarrow> drop n xs = [xs ! n]"
  by (simp flip: Cons_nth_drop_Suc)

lemma blit_name:
  assumes "length d = 12" "length a = 8" "length b = 3"
  shows "blit (blit d 0 a) 8 b = a @ b @ [d ! 11]"
  using assms drop_last [of d 11] by (simp add: blit_def)

lemma make_dirfile_name_83:
  assumes body: "list_all legal_char body" "body \<noteq> []" "length body \<le> 8"
    and ext: "list_all legal_char ext" "length ext \<le> 3"
    and sep: "separator c" and len: "length dirname = 12"
  shows "make_dirfile (name_text body ext @ c # rest) dirname = (c, rest, name_83 body ext @ [0])"
proof -
  let ?d0 = "blit dirname 0 (replicate 11 0x20)"
  have l0: "length ?d0 = 12" using len by simp
  have d0: "take 11 ?d0 = replicate 11 0x20" by (simp add: blit_def)
  let ?b = "map md_upper body" and ?e = "map md_upper ext"
  let ?d1 = "blit ?d0 0 ?b"
  have d1: "?d1 = blit ?d0 0 (pad 8 ?b)"
    by (rule blit_spaces) (use body l0 in \<open>auto simp: slice_def blit_def take_replicate\<close>)
  have fin: "md_loop (c # rest) n t d = (c, rest, take 11 d @ [0])" if "n \<noteq> 0" "length d = 12" for n t d
    using sep that by (auto simp: separator_def upd_conv_take_nth_drop)
  have pads: "blit ?d1 8 (pad 3 ?e) = pad 8 ?b @ pad 3 ?e @ [?d0 ! 11]"
    unfolding d1 by (rule blit_name) (use l0 in simp_all)
  show ?thesis
  proof (cases "ext = []")
    case True
    have "make_dirfile (name_text body ext @ c # rest) dirname = md_loop (c # rest) (length body) 8 ?d1"
      using md_loop_chars [OF body(1), of 0 8 ?d0 "c # rest"] body l0 True
      by (simp add: make_dirfile_def name_text_def)
    also have "\<dots> = (c, rest, take 11 ?d1 @ [0])" using body l0 by (intro fin) simp_all
    also have "take 11 ?d1 = name_83 body ext"
    proof -
      have "?d1 = blit ?d1 8 (pad 3 [])"
        using d1 l0 by (intro trans [OF blit_Nil [symmetric] blit_spaces])
          (auto simp: slice_def blit_def take_replicate)
      then show ?thesis using pads True by (simp add: name_83_def)
    qed
    finally show ?thesis .
  next
    case False
    have "make_dirfile (name_text body ext @ c # rest) dirname
        = md_loop (0x2E # ext @ c # rest) (length body) 8 ?d1"
      using md_loop_chars [OF body(1), of 0 8 ?d0 "0x2E # ext @ c # rest"] body l0 False
      by (simp add: make_dirfile_def name_text_def)
    also have "\<dots> = md_loop (ext @ c # rest) 8 11 ?d1"
      using body by (cases body) auto
    also have "\<dots> = md_loop (c # rest) (8 + length ext) 11 (blit ?d1 8 ?e)"
      using ext l0 body by (intro md_loop_chars) auto
    also have "\<dots> = (c, rest, take 11 (blit ?d1 8 ?e) @ [0])" using l0 body ext by (intro fin) simp_all
    also have "blit ?d1 8 ?e = blit ?d1 8 (pad 3 ?e)"
      using d1 l0 ext body by (intro blit_spaces) (auto simp: slice_def blit_def take_replicate)
    finally show ?thesis using pads by (simp add: name_83_def)
  qed
qed

lemma pad_alt: "length xs \<le> n \<Longrightarrow> pad n xs = xs @ replicate (n - length xs) 0x20"
  by (simp add: pad_def take_replicate)

text \<open>Reading the name back from the entry.\<close>

lemma md_upper_legal:
  assumes "legal_char c"
  shows "legal_char (md_upper c)" "md_upper (md_upper c) = md_upper c" "md_upper c \<noteq> 0x20" "md_upper c \<noteq> 5"
proof -
  have u: "unat (md_upper c) = (if 0x61 \<le> unat c \<and> unat c \<le> 0x7A then unat c - 0x20 else unat c)"
    by (simp add: md_upper_def word_le_nat_alt unat_sub)
  note l = legal_char_def word_eq_unat word_less_nat_alt
  show "legal_char (md_upper c)"
  proof (cases "0x61 \<le> unat c \<and> unat c \<le> 0x7A")
    case True
    then have "65 \<le> unat (md_upper c)" "unat (md_upper c) \<le> 90" using u by auto
    then show ?thesis by (simp add: l)
  next
    case False
    then have "md_upper c = c" by (auto simp: word_eq_unat u)
    then show ?thesis using assms by simp
  qed
  show "md_upper (md_upper c) = md_upper c" by (auto simp add: md_upper_def [of "md_upper c"] word_le_nat_alt u)
  show "md_upper c \<noteq> 0x20" "md_upper c \<noteq> 5" using assms by (auto simp add: l u)
qed

lemma c_hd_tl_simps [simp]: "c_hd (c # cs) = c" "c_tl (c # cs) = cs"
  by (simp_all add: c_hd_def c_tl_def)

lemma copy_body_pad:
  "length xs \<le> n \<Longrightarrow> \<forall>x \<in> set xs. x \<noteq> 0x20 \<and> x \<noteq> 5 \<Longrightarrow> copy_body n (pad n xs @ rest) = xs"
proof (induction xs arbitrary: n)
  case Nil
  then show ?case by (cases n) (simp_all add: pad_def)
next
  case (Cons x xs)
  then obtain m where n: "n = Suc m" by (cases n) auto
  have "pad n (x # xs) = x # pad m xs"
    using Cons.prems n by (simp add: pad_alt)
  then show ?case using Cons n by (simp add: Let_def)
qed

lemma copy_ext_pad:
  "length xs \<le> n \<Longrightarrow> \<forall>x \<in> set xs. x \<noteq> 0x20 \<Longrightarrow> copy_ext n (pad n xs @ rest) = xs"
proof (induction xs arbitrary: n)
  case Nil
  then show ?case by (cases n) (simp_all add: pad_def)
next
  case (Cons x xs)
  then obtain m where n: "n = Suc m" by (cases n) auto
  have "pad n (x # xs) = x # pad m xs"
    using Cons.prems n by (simp add: pad_alt)
  then show ?case using Cons n by (simp add: Let_def)
qed

lemma upper_chars:
  assumes "list_all legal_char cs"
  shows "\<forall>x \<in> set (map md_upper cs). x \<noteq> 0x20 \<and> x \<noteq> 5" "list_all legal_char (map md_upper cs)"
    "map md_upper (map md_upper cs) = map md_upper cs"
  using assms md_upper_legal by (auto simp: list_all_iff)

lemma entry_name_83:
  assumes "list_all legal_char body" "length body \<le> 8" "list_all legal_char ext" "length ext \<le> 3"
  shows "entry_name (name_83 body ext @ rest) = name_text (map md_upper body) (map md_upper ext)"
proof -
  have b: "copy_body 8 (name_83 body ext @ rest) = map md_upper body"
    using assms upper_chars [OF assms(1)] by (simp add: name_83_def copy_body_pad)
  have e: "copy_ext 3 (drop 8 (name_83 body ext @ rest)) = map md_upper ext"
    using assms upper_chars [OF assms(3)] by (simp add: name_83_def copy_ext_pad)
  have "(name_83 body ext @ rest) ! 8 = pad 3 (map md_upper ext) ! 0"
    by (simp add: name_83_def nth_append)
  also have "\<dots> = 0x20 \<longleftrightarrow> ext = []"
    using upper_chars(1) [OF assms(3)] by (cases ext) (auto simp: pad_def)
  finally show ?thesis using b e by (simp add: entry_name_def name_text_def)
qed

text \<open>The string in a name buffer.\<close>

definition name_of :: "BYTE list \<Rightarrow> BYTE list" where
  "name_of buf = takeWhile (\<lambda>c. c \<noteq> 0) buf"

lemma md_upper_nonzero: "legal_char c \<Longrightarrow> md_upper c \<noteq> 0"
  using md_upper_legal(1) [of c] unfolding legal_char_def [of "md_upper c"] by force

text \<open>Whatever is accepted is a well-formed entry name.\<close>

definition entry_char :: "BYTE \<Rightarrow> bool" where
  "entry_char c \<longleftrightarrow> c = 0x20 \<or> legal_char c \<and> md_upper c = c"

lemma md_loop_safe:
  assumes "md_loop path n t d = (ds, rest, fn)" "ds \<noteq> 1"
    and "length d = 12" "\<forall>i < 11. entry_char (d ! i)" "n > 0 \<longrightarrow> d ! 0 \<noteq> 0x20" "t \<le> 11"
  shows "separator ds \<and> length fn = 12 \<and> fn ! 11 = 0 \<and> fn ! 0 \<noteq> 0x20 \<and> (\<forall>i < 11. entry_char (fn ! i))"
  using assms
proof (induction path n t d rule: md_loop.induct)
  case (1 n t d)
  then show ?case by (auto simp: separator_def nth_list_update split: if_splits)
next
  case (2 c path n t d)
  show ?case
  proof (cases "c = 0 \<or> c = 0x2F")
    case True
    then show ?thesis using "2.prems" by (auto simp: separator_def nth_list_update split: if_splits)
  next
    case ns: False
    show ?thesis
    proof (cases "c \<le> 0x20 \<or> c = 0x7F")
      case True
      then show ?thesis using ns "2.prems" by simp
    next
      case ctl: False
      show ?thesis
      proof (cases "c = 0x2E")
        case True
        then show ?thesis using ns ctl 2 by (auto split: if_splits)
      next
        case dot: False
        show ?thesis
        proof (cases "md_reject c \<or> t \<le> n")
          case True
          then show ?thesis using ns ctl dot "2.prems" by (auto split: if_splits)
        next
          case False
          have lc: "legal_char c"
            using ns ctl dot False by (auto simp: legal_char_def md_reject_cases not_le)
          have ec: "entry_char (md_upper c)" "md_upper c \<noteq> 0x20"
            using md_upper_legal [OF lc] by (simp_all add: entry_char_def)
          have "md_loop path (n + 1) t (d[n := md_upper c]) = (ds, rest, fn)"
            using "2.prems"(1) ns ctl dot False by simp
          then show ?thesis
            using "2.IH"(2) [OF ns ctl dot] False "2.prems" ec
            by (auto simp: nth_list_update)
        qed
      qed
    qed
  qed
qed

lemma make_dirfile_safe:
  assumes "make_dirfile path dirname = (ds, rest, fn)" "ds \<noteq> 1" "length dirname = 12"
  shows "separator ds \<and> length fn = 12 \<and> fn ! 11 = 0 \<and> fn ! 0 \<noteq> 0x20 \<and> (\<forall>i < 11. entry_char (fn ! i))"
proof (rule md_loop_safe)
  show "md_loop path 0 8 (blit dirname 0 (replicate 11 0x20)) = (ds, rest, fn)"
    using assms(1) by (simp add: make_dirfile_def)
  show "\<forall>i<11. entry_char (blit dirname 0 (replicate 11 0x20) ! i)"
    using assms(3) by (simp add: blit_def nth_append entry_char_def)
qed (use assms in simp_all)

end
