(* ===== verification/TffMount.thy ===== *)
theory TffMount
  imports TffDir
begin

text \<open>
  Mounting (\<^verbatim>\<open>check_fs\<close>, \<^verbatim>\<open>auto_mount\<close>, \<^verbatim>\<open>f_mount\<close>) and the validity check of file and directory objects
  (\<^verbatim>\<open>validate\<close>) of \<^verbatim>\<open>tff.c\<close>.
\<close>

section \<open>Boot record\<close>

definition check_fs :: "'d diskio \<Rightarrow> DWORD \<Rightarrow> 'd tff \<Rightarrow> BYTE \<times> 'd tff" where
  "check_fs io sect s =
     (case dio_read io 0 (fs_win s) sect 1 (disk s) of (r, win, d) \<Rightarrow>
        let s = s\<lparr>fs_win := win, disk := d\<rparr> in
        if r \<noteq> RES_OK then (2, s)
        else if LD_WORD (fs_win s) BS_55AA \<noteq> 0xAA55 then (2, s)
        else if slice BS_FilSysType 3 (fs_win s) = [0x46, 0x41, 0x54] then (0, s)
        else (1, s))"

text \<open>Sector 0 is tried as a boot record, then the first entry of the partition table.\<close>

definition find_volume :: "'d diskio \<Rightarrow> 'd tff \<Rightarrow> BYTE \<times> DWORD \<times> 'd tff" where
  "find_volume io s =
     (case check_fs io 0 s of (fmt, s) \<Rightarrow>
        if fmt = 1 \<and> fs_win s ! (MBR_Table + 4) \<noteq> 0 then
          let bootsect = LD_DWORD (fs_win s) (MBR_Table + 8) in
          (case check_fs io bootsect s of (fmt, s) \<Rightarrow> (fmt, bootsect, s))
        else (fmt, 0, s))"

section \<open>The file system object\<close>

text \<open>
  The geometry computed from the BIOS parameter block in the window: the object with the fields set so
  far, and the cluster limit at its full width.
\<close>

definition total_sectors :: "BYTE list \<Rightarrow> DWORD" where
  "total_sectors win =
     (let totalsect = ucast (LD_WORD win BPB_TotSec16) :: DWORD in
      if totalsect = 0 then LD_DWORD win BPB_TotSec32 else totalsect)"

definition fat_size :: "BYTE list \<Rightarrow> DWORD" where
  "fat_size win =
     (let fatsize = ucast (LD_WORD win BPB_FATSz16) :: DWORD in
      if fatsize = 0 then LD_DWORD win BPB_FATSz32 else fatsize)"

definition init_fs :: "BYTE list \<Rightarrow> DWORD \<Rightarrow> FATFS \<Rightarrow> FATFS \<times> DWORD \<times> DWORD" where
  "init_fs win bootsect fs =
     (let fatsize = fat_size win;
          fs = fs\<lparr>fs_sects_fat := ucast fatsize, fs_n_fats := win ! BPB_NumFATs\<rparr>;
          fatsize = fatsize * ucast (fs_n_fats fs);
          rsvd = ucast (LD_WORD win BPB_RsvdSecCnt);
          fs = fs\<lparr>fs_fatbase := bootsect + rsvd,
                  fs_sects_clust := win ! BPB_SecPerClus,
                  fs_n_rootdir := LD_WORD win BPB_RootEntCnt\<rparr>;
          maxclust = udiv32 (total_sectors win - rsvd - fatsize - ucast (fs_n_rootdir fs div 16))
                       (ucast (fs_sects_clust fs)) + 2
      in (fs\<lparr>fs_max_clust := ucast maxclust\<rparr>, maxclust, fatsize))"

definition load_fs :: "'d diskio \<Rightarrow> DWORD \<Rightarrow> 'd tff \<Rightarrow> FRESULT \<times> 'd tff" where
  "load_fs io bootsect s =
     (case init_fs (fs_win s) bootsect (cur_fs s) of (fs, maxclust, fatsize) \<Rightarrow>
        let fmt = (if maxclust > 0xFF7 then FS_FAT16 else FS_FAT12);
            s = upd_cur (\<lambda>_. fs) s in
        if maxclust > 0xFFF7 then (FR_NO_FILESYSTEM, s)
        else
          let fs = fs\<lparr>fs_dirbase := fs_fatbase fs + fatsize,
                      fs_database := fs_fatbase fs + fatsize + ucast (fs_n_rootdir fs div 16),
                      fs_type := fmt\<rparr>;
              fs = (if FS_READONLY io then fs else fs\<lparr>fs_free_clust := 0xFFFF\<rparr>);
              s = s\<lparr>fsid := fsid s + 1\<rparr>;
              fs = fs\<lparr>fs_id := fsid s\<rparr>
          in (FR_OK, upd_cur (\<lambda>_. fs) s))"

text \<open>Leading spaces and one leading slash are stripped from the path.\<close>

definition strip_path :: "BYTE list \<Rightarrow> BYTE list" where
  "strip_path path =
     (let p = dropWhile (\<lambda>c. c = 0x20) path in if c_hd p = 0x2F then c_tl p else p)"

definition mount_drive :: "'d diskio \<Rightarrow> bool \<Rightarrow> 'd tff \<Rightarrow> FRESULT \<times> 'd tff" where
  "mount_drive io chk_wp s =
     (let s = upd_cur (\<lambda>_. zero_FATFS) s in
      case dio_initialize io 0 (disk s) of (stat, d) \<Rightarrow>
        let s = s\<lparr>disk := d\<rparr> in
        if has stat STA_NOINIT then (FR_NOT_READY, s)
        else if \<not> FS_READONLY io \<and> chk_wp \<and> has stat STA_PROTECT then (FR_WRITE_PROTECTED, s)
        else
          (case find_volume io s of (fmt, bootsect, s) \<Rightarrow>
             if fmt \<noteq> 0 \<or> LD_WORD (fs_win s) BPB_BytsPerSec \<noteq> 512 then (FR_NO_FILESYSTEM, s)
             else load_fs io bootsect s))"

definition auto_mount ::
  "'d diskio \<Rightarrow> BYTE list \<Rightarrow> bool \<Rightarrow> 'd tff \<Rightarrow> FRESULT \<times> BYTE list \<times> 'd tff" where
  "auto_mount io path chk_wp s =
     (let p = strip_path path in
      if FatFs s = 0 then (FR_NOT_ENABLED, p, s)
      else
        let stat = dio_status io 0 (disk s) in
        if fs_type (cur_fs s) \<noteq> 0 \<and> \<not> has stat STA_NOINIT then
          (if \<not> FS_READONLY io \<and> chk_wp \<and> has stat STA_PROTECT then (FR_WRITE_PROTECTED, p, s)
           else (FR_OK, p, s))
        else (case mount_drive io chk_wp s of (res, s) \<Rightarrow> (res, p, s)))"

section \<open>Validity of objects\<close>

definition validate :: "'d diskio \<Rightarrow> fsptr \<Rightarrow> WORD \<Rightarrow> 'd tff \<Rightarrow> FRESULT" where
  "validate io p oid s =
     (if p = 0 \<or> fs_id (fsobj s p) \<noteq> oid then FR_INVALID_OBJECT
      else if has (dio_status io 0 (disk s)) STA_NOINIT then FR_NOT_READY
      else FR_OK)"

definition f_mount :: "BYTE \<Rightarrow> fsptr \<Rightarrow> 'd tff \<Rightarrow> FRESULT \<times> 'd tff" where
  "f_mount drv p s =
     (if drv \<noteq> 0 then (FR_INVALID_DRIVE, s)
      else
        let old = FatFs s;
            s = s\<lparr>FatFs := p\<rparr>;
            s = (if old \<noteq> 0 then upd_fs old (\<lambda>_. zero_FATFS) s else s);
            s = (if p \<noteq> 0 then upd_fs p (\<lambda>_. zero_FATFS) s else s)
        in (FR_OK, s))"

end
