(* ===== verification/TffFile.thy ===== *)
theory TffFile
  imports TffMount
begin

text \<open>
  The file operations of \<^verbatim>\<open>tff.c\<close>: \<open>f_open\<close>, \<open>f_read_or_wr\<close> with its two callers \<open>f_read\<close> and
  \<open>f_write_inplace\<close>, \<open>f_write\<close>, \<open>f_sync\<close>, \<open>f_close\<close> and \<open>f_lseek\<close>.  A file object is passed in and
  returned; the caller's buffer is a byte list and \<open>rbuff\<close> an offset in it.  Loops that follow
  cluster links are partial functions.
\<close>

section \<open>Opening\<close>

text \<open>The part of \<open>f_open\<close> that runs for a creating mode; the result is the final mode and entry.\<close>

definition new_entry :: "BYTE list \<Rightarrow> nat \<Rightarrow> 'd tff \<Rightarrow> 'd tff" where
  "new_entry fn p s =
     (let win = blit (fs_win s) p (replicate 32 0);
          win = blit win (p + DIR_Name) (take 11 fn);
          win = win[p + DIR_NTres := fn ! 11]
      in s\<lparr>fs_win := win\<rparr>)"

definition stamp_entry :: "nat \<Rightarrow> 'd tff \<Rightarrow> 'd tff" where
  "stamp_entry p s =
     (let win = (fs_win s)[p + DIR_Attr := AM_ARC];
          win = ST_DWORD win (p + DIR_WrtTime) get_fattime;
          win = ST_DWORD win (p + DIR_CrtTime) get_fattime
      in upd_cur (fs_winflag_update (\<lambda>_. 1)) (s\<lparr>fs_win := win\<rparr>))"

definition truncate_entry :: "'d diskio \<Rightarrow> nat \<Rightarrow> 'd tff \<Rightarrow> (FRESULT \<times> 'd tff) option" where
  "truncate_entry io p s =
     (let rs = LD_WORD (fs_win s) (p + DIR_FstClusLO);
          win = ST_WORD (fs_win s) (p + DIR_FstClusLO) 0;
          win = ST_DWORD win (p + DIR_FileSize) 0;
          s = upd_cur (fs_winflag_update (\<lambda>_. 1)) (s\<lparr>fs_win := win\<rparr>);
          dw = fs_winsect (cur_fs s)
      in do {
        (ok, s) \<leftarrow> remove_chain io rs s;
        if \<not> ok then Some (FR_RW_ERROR, s)
        else
          (case move_window io dw s of (ok, s) \<Rightarrow>
             if \<not> ok then Some (FR_RW_ERROR, s)
             else Some (FR_OK, upd_cur (fs_last_clust_update (\<lambda>_. rs - 1)) s)) })"

definition create_mode :: "BYTE \<Rightarrow> bool" where
  "create_mode mode \<longleftrightarrow> has mode (FA_CREATE_ALWAYS OR FA_OPEN_ALWAYS OR FA_CREATE_NEW)"

definition f_create ::
  "'d diskio \<Rightarrow> BYTE \<Rightarrow> FRESULT \<Rightarrow> DIR \<Rightarrow> BYTE list \<Rightarrow> nat option \<Rightarrow> 'd tff \<Rightarrow>
     (FRESULT \<times> BYTE \<times> nat option \<times> 'd tff) option" where
  "f_create io mode res dj fn dir s =
     (let finish = (\<lambda>mode p s. Some (FR_OK, mode, Some p,
            if has mode FA_CREATE_ALWAYS then stamp_entry p s else s)) in
      if res \<noteq> FR_OK then
        (if res \<noteq> FR_NO_FILE then Some (res, mode, dir, s)
         else do {
           (res, dj, dir, s) \<leftarrow> reserve_direntry io dj s;
           (case (res, dir) of
              (FR_OK, Some p) \<Rightarrow> finish (mode OR FA_CREATE_ALWAYS) p (new_entry fn p s)
            | _ \<Rightarrow> Some (res, mode, dir, s)) })
      else if has mode FA_CREATE_NEW then Some (FR_EXIST, mode, dir, s)
      else
        (case dir of
           None \<Rightarrow> Some (FR_DENIED, mode, dir, s)
         | Some p \<Rightarrow>
             if has (fs_win s ! (p + DIR_Attr)) (AM_RDO OR AM_DIR) then Some (FR_DENIED, mode, dir, s)
             else if has mode FA_CREATE_ALWAYS then do {
               (res, s) \<leftarrow> truncate_entry io p s;
               (if res \<noteq> FR_OK then Some (res, mode, dir, s) else finish mode p s) }
             else finish mode p s))"

text \<open>The opening of an existing file, and the initialisation of the file object from its entry.\<close>

definition f_existing ::
  "'d diskio \<Rightarrow> BYTE \<Rightarrow> FRESULT \<Rightarrow> nat option \<Rightarrow> 'd tff \<Rightarrow> FRESULT" where
  "f_existing io mode res dir s =
     (if res \<noteq> FR_OK then res
      else
        (case dir of
           None \<Rightarrow> FR_NO_FILE
         | Some p \<Rightarrow>
             if has (fs_win s ! (p + DIR_Attr)) AM_DIR then FR_NO_FILE
             else if \<not> FS_READONLY io \<and> has mode FA_WRITE \<and> has (fs_win s ! (p + DIR_Attr)) AM_RDO
             then FR_DENIED
             else FR_OK))"

definition init_file :: "'d diskio \<Rightarrow> FIL \<Rightarrow> BYTE \<Rightarrow> nat \<Rightarrow> 'd tff \<Rightarrow> FIL" where
  "init_file io fp mode p s =
     (let fp = (if FS_READONLY io then fp
                else fp\<lparr>fp_dir_sect := fs_winsect (cur_fs s), fp_dir_ptr := p\<rparr>)
      in fp\<lparr>fp_flag := mode,
            fp_org_clust := LD_WORD (fs_win s) (p + DIR_FstClusLO),
            fp_fsize := LD_DWORD (fs_win s) (p + DIR_FileSize),
            fp_fptr := 0, fp_sect_clust := 1, fp_fs := FatFs s, fp_id := fs_id (cur_fs s)\<rparr>)"

text \<open>\<open>dj0\<close> and \<open>fn0\<close> are the uninitialised contents of the locals \<open>dirobj\<close> and \<open>fn\<close>.\<close>

definition f_open ::
  "'d diskio \<Rightarrow> DIR \<Rightarrow> BYTE list \<Rightarrow> FIL \<Rightarrow> BYTE list \<Rightarrow> BYTE \<Rightarrow> 'd tff \<Rightarrow>
     (FRESULT \<times> FIL \<times> 'd tff) option" where
  "f_open io dj0 fn0 fp path mode s =
     (let fp = fp\<lparr>fp_fs := 0\<rparr>;
          creating = FA_CREATE_ALWAYS OR FA_OPEN_ALWAYS OR FA_CREATE_NEW;
          mode = mode AND (if FS_READONLY io then FA_READ else FA_READ OR FA_WRITE OR creating);
          chk_wp = (\<not> FS_READONLY io \<and> has mode (FA_WRITE OR creating))
      in case auto_mount io path chk_wp s of (res, path, s) \<Rightarrow>
        if res \<noteq> FR_OK then Some (res, fp, s)
        else do {
          (res, dj, fn, dir, s) \<leftarrow> trace_path io dj0 fn0 path s;
          (res, mode, dir, s) \<leftarrow>
            (if \<not> FS_READONLY io \<and> create_mode mode then f_create io mode res dj fn dir s
             else Some (f_existing io mode res dir s, mode, dir, s));
          (case (res, dir) of
             (FR_OK, Some p) \<Rightarrow> Some (FR_OK, init_file io fp mode p s, s)
           | _ \<Rightarrow> Some (res, fp, s)) })"

section \<open>Reading, and writing in place\<close>

text \<open>
  The start of a round on a sector boundary: the sector counter is decremented, and at the end of a
  cluster the next one is looked up.  \<open>None\<close> is the jump to \<open>fr_error\<close>.
\<close>

definition next_sector :: "'d diskio \<Rightarrow> FIL \<Rightarrow> 'd tff \<Rightarrow> (DWORD option) \<times> FIL \<times> 'd tff" where
  "next_sector io fp s =
     (let fs = fsobj s (fp_fs fp); fp = fp\<lparr>fp_sect_clust := fp_sect_clust fp - 1\<rparr> in
      if fp_sect_clust fp \<noteq> 0 then (Some (fp_curr_sect fp + 1), fp, s)
      else
        (case (if fp_fptr fp = 0 then (fp_org_clust fp, s)
               else get_cluster io (fp_curr_clust fp) s) of (clust, s) \<Rightarrow>
           if clust < 2 \<or> clust \<ge> fs_max_clust fs then (None, fp, s)
           else (Some (clust2sect (cur_fs s) clust),
                 fp\<lparr>fp_curr_clust := clust, fp_sect_clust := fs_sects_clust fs\<rparr>, s)))"

text \<open>
  The direct transfer of \<open>cc\<close> whole sectors between the buffer and the disk.
\<close>

definition transfer_sectors ::
  "'d diskio \<Rightarrow> bool \<Rightarrow> BYTE list \<Rightarrow> nat \<Rightarrow> DWORD \<Rightarrow> WORD \<Rightarrow> 'd tff \<Rightarrow> DRESULT \<times> BYTE list \<times> 'd tff" where
  "transfer_sectors io mode_wr buf rbuff sect cc s =
     (if mode_wr then
        (case dio_write io 0 (drop rbuff buf) sect (ucast cc) (disk s) of (r, d) \<Rightarrow>
           (r, buf, s\<lparr>disk := d\<rparr>))
      else
        (case dio_read io 0 (drop rbuff buf) sect (ucast cc) (disk s) of (r, bs, d) \<Rightarrow>
           (r, take rbuff buf @ bs, s\<lparr>disk := d\<rparr>)))"

text \<open>
  How a round of the loop moves its bytes: on a sector boundary with at least 512 bytes left, \<open>Direct cc\<close>
  transfers whole sectors (the count limited to the rest of the cluster); otherwise the bytes go through
  the window.  \<open>RoundError\<close> is the jump to \<open>fr_error\<close>.
\<close>

datatype round = RoundError | Direct WORD | Windowed

definition begin_round :: "'d diskio \<Rightarrow> FIL \<Rightarrow> WORD \<Rightarrow> 'd tff \<Rightarrow> round \<times> FIL \<times> 'd tff" where
  "begin_round io fp btr s =
     (if fp_fptr fp mod 512 = 0 then
        (case next_sector io fp s of (sect, fp, s) \<Rightarrow>
           (case sect of
              None \<Rightarrow> (RoundError, fp, s)
            | Some sect \<Rightarrow>
                let fp = fp\<lparr>fp_curr_sect := sect\<rparr>; cc = btr div 512 in
                if cc \<noteq> 0 then
                  (Direct (if cc > ucast (fp_sect_clust fp) then ucast (fp_sect_clust fp) else cc), fp, s)
                else (Windowed, fp, s)))
      else (Windowed, fp, s))"

text \<open>
  The loop of \<open>f_read_or_wr\<close>.  Bytes that go through the window are copied from the window to the
  buffer in both modes.  The first component of the result is \<open>False\<close> for \<open>fr_error\<close>.
\<close>

partial_function (option) rw_loop ::
  "'d diskio \<Rightarrow> bool \<Rightarrow> FIL \<Rightarrow> BYTE list \<Rightarrow> nat \<Rightarrow> WORD \<Rightarrow> WORD \<Rightarrow> 'd tff \<Rightarrow>
     (bool \<times> FIL \<times> BYTE list \<times> WORD \<times> 'd tff) option" where
  "rw_loop io mode_wr fp buf rbuff btr br s =
     (if btr = 0 then Some (True, fp, buf, br, s)
      else
        (case begin_round io fp btr s of (rd, fp, s) \<Rightarrow>
           (case rd of
              RoundError \<Rightarrow> Some (False, fp, buf, br, s)
            | Direct cc \<Rightarrow>
                (case transfer_sectors io mode_wr buf rbuff (fp_curr_sect fp) cc s of (r, buf, s) \<Rightarrow>
                   if r \<noteq> RES_OK then Some (False, fp, buf, br, s)
                   else
                     let rcnt = cc * 512;
                         fp = fp\<lparr>fp_sect_clust := fp_sect_clust fp - ucast (cc - 1),
                                 fp_curr_sect := fp_curr_sect fp + ucast (cc - 1),
                                 fp_fptr := fp_fptr fp + ucast rcnt\<rparr>
                     in rw_loop io mode_wr fp buf (rbuff + unat rcnt) (btr - rcnt) (br + rcnt) s)
            | Windowed \<Rightarrow>
                (case move_window io (fp_curr_sect fp) s of (ok, s) \<Rightarrow>
                   if \<not> ok then Some (False, fp, buf, br, s)
                   else
                     let ofs = fp_fptr fp mod 512;
                         rcnt = 512 - ucast ofs;
                         rcnt = (if rcnt > btr then btr else rcnt);
                         buf = blit buf rbuff (slice (unat ofs) (unat rcnt) (fs_win s));
                         fp = fp\<lparr>fp_fptr := fp_fptr fp + ucast rcnt\<rparr>
                     in rw_loop io mode_wr fp buf (rbuff + unat rcnt) (btr - rcnt) (br + rcnt) s))))"

definition f_read_or_wr ::
  "'d diskio \<Rightarrow> FIL \<Rightarrow> BYTE list \<Rightarrow> WORD \<Rightarrow> bool \<Rightarrow> 'd tff \<Rightarrow>
     (FRESULT \<times> FIL \<times> BYTE list \<times> WORD \<times> 'd tff) option" where
  "f_read_or_wr io fp buf btr mode_wr s =
     (let res = validate io (fp_fs fp) (fp_id fp) s in
      if res \<noteq> FR_OK then Some (res, fp, buf, 0, s)
      else if has (fp_flag fp) FA_ERROR then Some (FR_RW_ERROR, fp, buf, 0, s)
      else if \<not> has (fp_flag fp) FA_READ then Some (FR_DENIED, fp, buf, 0, s)
      else
        let remain = fp_fsize fp - fp_fptr fp;
            btr = (if ucast btr > remain then ucast remain else btr)
        in do {
          (ok, fp, buf, br, s) \<leftarrow> rw_loop io mode_wr fp buf 0 btr 0 s;
          Some (if ok then (FR_OK, fp, buf, br, s)
                else (FR_RW_ERROR, fp\<lparr>fp_flag := fp_flag fp OR FA_ERROR\<rparr>, buf, br, s)) })"

definition f_read ::
  "'d diskio \<Rightarrow> FIL \<Rightarrow> BYTE list \<Rightarrow> WORD \<Rightarrow> 'd tff \<Rightarrow>
     (FRESULT \<times> FIL \<times> BYTE list \<times> WORD \<times> 'd tff) option" where
  "f_read io fp buf btr s = f_read_or_wr io fp buf btr False s"

definition f_write_inplace ::
  "'d diskio \<Rightarrow> FIL \<Rightarrow> BYTE list \<Rightarrow> WORD \<Rightarrow> 'd tff \<Rightarrow>
     (FRESULT \<times> FIL \<times> BYTE list \<times> WORD \<times> 'd tff) option" where
  "f_write_inplace io fp buf btw s = f_read_or_wr io fp buf btw True s"

section \<open>Writing (read-write build)\<close>

text \<open>
  The start of a round of \<open>f_write\<close>: like \<open>next_sector\<close>, but the chain is stretched.  \<open>Inl True\<close> is the
  \<open>break\<close> for a full disk, \<open>Inl False\<close> the jump to \<open>fw_error\<close>.
\<close>

definition next_sector_w ::
  "'d diskio \<Rightarrow> FIL \<Rightarrow> 'd tff \<Rightarrow> ((bool + DWORD) \<times> FIL \<times> 'd tff) option" where
  "next_sector_w io fp s =
     (let fs = fsobj s (fp_fs fp); fp = fp\<lparr>fp_sect_clust := fp_sect_clust fp - 1\<rparr> in
      if fp_sect_clust fp \<noteq> 0 then Some (Inr (fp_curr_sect fp + 1), fp, s)
      else do {
        (clust, fp, s) \<leftarrow>
          (if fp_fptr fp = 0 then
             (if fp_org_clust fp = 0 then do {
                (c, s) \<leftarrow> create_chain io 0 s; Some (c, fp\<lparr>fp_org_clust := c\<rparr>, s) }
              else Some (fp_org_clust fp, fp, s))
           else do {
             (c, s) \<leftarrow> create_chain io (fp_curr_clust fp) s; Some (c, fp, s) });
        Some (if clust = 0 then (Inl True, fp, s)
              else if clust = 1 \<or> clust \<ge> fs_max_clust fs then (Inl False, fp, s)
              else (Inr (clust2sect (cur_fs s) clust),
                    fp\<lparr>fp_curr_clust := clust, fp_sect_clust := fs_sects_clust fs\<rparr>, s)) })"

text \<open>The copy of fractional bytes into the window; a sector past the end of file is not read first.\<close>

definition write_fraction ::
  "'d diskio \<Rightarrow> bool \<Rightarrow> FIL \<Rightarrow> BYTE list \<Rightarrow> nat \<Rightarrow> WORD \<Rightarrow> 'd tff \<Rightarrow> bool \<times> WORD \<times> 'd tff" where
  "write_fraction io fresh fp buf wbuff btw s =
     (case (if fresh \<and> fp_fptr fp \<ge> fp_fsize fp then
              (case move_window io 0 s of (ok, s) \<Rightarrow>
                 (ok, if ok then upd_fs (fp_fs fp) (fs_winsect_update (\<lambda>_. fp_curr_sect fp)) s else s))
            else (True, s)) of (ok, s) \<Rightarrow>
        if \<not> ok then (False, 0, s)
        else
          (case move_window io (fp_curr_sect fp) s of (ok, s) \<Rightarrow>
             if \<not> ok then (False, 0, s)
             else
               let wcnt = 512 - ucast (fp_fptr fp mod 512);
                   wcnt = (if wcnt > btw then btw else wcnt);
                   win = blit (fs_win s) (unat (fp_fptr fp mod 512)) (slice wbuff (unat wcnt) buf)
               in (True, wcnt,
                   upd_fs (fp_fs fp) (fs_winflag_update (\<lambda>_. 1)) (s\<lparr>fs_win := win\<rparr>))))"

partial_function (option) write_loop ::
  "'d diskio \<Rightarrow> FIL \<Rightarrow> BYTE list \<Rightarrow> nat \<Rightarrow> WORD \<Rightarrow> WORD \<Rightarrow> 'd tff \<Rightarrow>
     (bool \<times> FIL \<times> WORD \<times> 'd tff) option" where
  "write_loop io fp buf wbuff btw bw s =
     (if btw = 0 then Some (True, fp, bw, s)
      else
        Option.bind
          (if fp_fptr fp mod 512 = 0 then next_sector_w io fp s
           else Some (Inr (fp_curr_sect fp), fp, s))
          (\<lambda>(sect, fp', s).
             case sect of
               Inl full \<Rightarrow> Some (full, fp', bw, s)
             | Inr sect \<Rightarrow>
                 let fresh = (fp_fptr fp mod 512 = 0);
                     fp = fp'\<lparr>fp_curr_sect := sect\<rparr>;
                     cc = btw div 512;
                     cc' = (if cc > ucast (fp_sect_clust fp) then ucast (fp_sect_clust fp) else cc)
                 in
                   if fresh \<and> cc \<noteq> 0 then
                     (case dio_write io 0 (drop wbuff buf) sect (ucast cc') (disk s) of (r, d) \<Rightarrow>
                        if r \<noteq> RES_OK then Some (False, fp, bw, s\<lparr>disk := d\<rparr>)
                        else
                          let fp = fp\<lparr>fp_sect_clust := fp_sect_clust fp - ucast (cc' - 1),
                                       fp_curr_sect := fp_curr_sect fp + ucast (cc' - 1)\<rparr>;
                              wcnt = cc' * 512;
                              fp = fp\<lparr>fp_fptr := fp_fptr fp + ucast wcnt\<rparr>
                          in write_loop io fp buf (wbuff + unat wcnt) (btw - wcnt) (bw + wcnt)
                               (s\<lparr>disk := d\<rparr>))
                   else
                     (case write_fraction io fresh fp buf wbuff btw s of (ok, wcnt, s) \<Rightarrow>
                        if \<not> ok then Some (False, fp, bw, s)
                        else
                          let fp = fp\<lparr>fp_fptr := fp_fptr fp + ucast wcnt\<rparr>
                          in write_loop io fp buf (wbuff + unat wcnt) (btw - wcnt) (bw + wcnt) s)))"

definition f_write ::
  "'d diskio \<Rightarrow> FIL \<Rightarrow> BYTE list \<Rightarrow> WORD \<Rightarrow> 'd tff \<Rightarrow> (FRESULT \<times> FIL \<times> WORD \<times> 'd tff) option" where
  "f_write io fp buf btw s =
     (let res = validate io (fp_fs fp) (fp_id fp) s in
      if res \<noteq> FR_OK then Some (res, fp, 0, s)
      else if has (fp_flag fp) FA_ERROR then Some (FR_RW_ERROR, fp, 0, s)
      else if \<not> has (fp_flag fp) FA_WRITE then Some (FR_DENIED, fp, 0, s)
      else if fp_fsize fp + ucast btw < fp_fsize fp then Some (FR_OK, fp, 0, s)
      else do {
        (ok, fp, bw, s) \<leftarrow> write_loop io fp buf 0 btw 0 s;
        Some (if ok then
                let fp = (if fp_fptr fp > fp_fsize fp then fp\<lparr>fp_fsize := fp_fptr fp\<rparr> else fp)
                in (FR_OK, fp\<lparr>fp_flag := fp_flag fp OR FA_WRITTEN\<rparr>, bw, s)
              else (FR_RW_ERROR, fp\<lparr>fp_flag := fp_flag fp OR FA_ERROR\<rparr>, bw, s)) })"

definition f_sync :: "'d diskio \<Rightarrow> FIL \<Rightarrow> 'd tff \<Rightarrow> FRESULT \<times> FIL \<times> 'd tff" where
  "f_sync io fp s =
     (let res = validate io (fp_fs fp) (fp_id fp) s in
      if res = FR_OK \<and> has (fp_flag fp) FA_WRITTEN then
        (case move_window io (fp_dir_sect fp) s of (ok, s) \<Rightarrow>
           if \<not> ok then (FR_RW_ERROR, fp, s)
           else
             let p = fp_dir_ptr fp; win = fs_win s;
                 win = win[p + DIR_Attr := (win ! (p + DIR_Attr)) OR AM_ARC];
                 win = ST_DWORD win (p + DIR_FileSize) (fp_fsize fp);
                 win = ST_WORD win (p + DIR_FstClusLO) (fp_org_clust fp);
                 win = ST_DWORD win (p + DIR_WrtTime) get_fattime;
                 fp = fp\<lparr>fp_flag := fp_flag fp AND NOT FA_WRITTEN\<rparr>
             in (case sync io (s\<lparr>fs_win := win\<rparr>) of (res, s) \<Rightarrow> (res, fp, s)))
      else (res, fp, s))"

section \<open>Closing and seeking\<close>

definition f_close :: "'d diskio \<Rightarrow> FIL \<Rightarrow> 'd tff \<Rightarrow> FRESULT \<times> FIL \<times> 'd tff" where
  "f_close io fp s =
     (case (if FS_READONLY io then (validate io (fp_fs fp) (fp_id fp) s, fp, s)
            else f_sync io fp s) of (res, fp, s) \<Rightarrow>
        (res, if res = FR_OK then fp\<lparr>fp_fs := 0\<rparr> else fp, s))"

text \<open>
  The loop of \<open>f_lseek\<close> that skips leading clusters.  The result is the cluster and the offset in it,
  or \<open>None\<close> for \<open>fk_error\<close>.
\<close>

partial_function (option) lseek_loop ::
  "'d diskio \<Rightarrow> DWORD \<Rightarrow> FIL \<Rightarrow> WORD \<Rightarrow> DWORD \<Rightarrow> 'd tff \<Rightarrow>
     ((WORD \<times> DWORD) option \<times> FIL \<times> 'd tff) option" where
  "lseek_loop io csize fp clust ofs s =
     (let fp = fp\<lparr>fp_curr_clust := clust\<rparr> in
      if ofs \<le> csize then Some (Some (clust, ofs), fp, s)
      else
        Option.bind
          (if \<not> FS_READONLY io \<and> has (fp_flag fp) FA_WRITE then create_chain io clust s
           else Some (get_cluster io clust s))
          (\<lambda>(clust, s).
             if clust = 0 then Some (Some (clust, csize), fp, s)
             else if clust = 1 \<or> clust \<ge> fs_max_clust (fsobj s (fp_fs fp)) then Some (None, fp, s)
             else lseek_loop io csize (fp\<lparr>fp_fptr := fp_fptr fp + csize\<rparr>) clust (ofs - csize) s))"

definition lseek_move ::
  "'d diskio \<Rightarrow> FIL \<Rightarrow> DWORD \<Rightarrow> 'd tff \<Rightarrow> (bool \<times> FIL \<times> 'd tff) option" where
  "lseek_move io fp ofs s =
     Option.bind
       (if \<not> FS_READONLY io \<and> fp_org_clust fp = 0 then do {
          (c, s) \<leftarrow> create_chain io 0 s;
          Some (c \<noteq> 1, (if c = 1 then fp else fp\<lparr>fp_org_clust := c\<rparr>), c, s) }
        else Some (True, fp, fp_org_clust fp, s))
       (\<lambda>(ok, fp, clust, s).
          if \<not> ok then Some (False, fp, s)
          else if clust = 0 then Some (True, fp, s)
          else
            let fs = fsobj s (fp_fs fp); csize = ucast (fs_sects_clust fs) * 512 :: DWORD in do {
              (r, fp, s) \<leftarrow> lseek_loop io csize fp clust ofs s;
              (case r of
                 None \<Rightarrow> Some (False, fp, s)
               | Some (clust, ofs) \<Rightarrow>
                   let csect = ucast ((ofs - 1) div 512) :: BYTE in
                   Some (True,
                     fp\<lparr>fp_curr_sect := clust2sect (cur_fs s) clust + ucast csect,
                        fp_sect_clust := fs_sects_clust fs - csect,
                        fp_fptr := fp_fptr fp + ofs\<rparr>, s)) })"

definition f_lseek :: "'d diskio \<Rightarrow> FIL \<Rightarrow> DWORD \<Rightarrow> 'd tff \<Rightarrow> (FRESULT \<times> FIL \<times> 'd tff) option" where
  "f_lseek io fp ofs s =
     (let res = validate io (fp_fs fp) (fp_id fp) s in
      if res \<noteq> FR_OK then Some (res, fp, s)
      else if has (fp_flag fp) FA_ERROR then Some (FR_RW_ERROR, fp, s)
      else
        let ofs = (if ofs > fp_fsize fp \<and> (FS_READONLY io \<or> \<not> has (fp_flag fp) FA_WRITE)
                   then fp_fsize fp else ofs);
            fp = fp\<lparr>fp_fptr := 0, fp_sect_clust := 1\<rparr>
        in do {
          (ok, fp, s) \<leftarrow> (if ofs \<noteq> 0 then lseek_move io fp ofs s else Some (True, fp, s));
          (if \<not> ok then Some (FR_RW_ERROR, fp\<lparr>fp_flag := fp_flag fp OR FA_ERROR\<rparr>, s)
           else
             Some (FR_OK,
               (if \<not> FS_READONLY io \<and> has (fp_flag fp) FA_WRITE \<and> fp_fptr fp > fp_fsize fp
                then fp\<lparr>fp_fsize := fp_fptr fp, fp_flag := fp_flag fp OR FA_WRITTEN\<rparr> else fp), s)) })"

end
