(* ===== verification/TffFatProps.thy ===== *)
theory TffFatProps
  imports TffFat
begin

text \<open>
  The allocation table and the window: the entries of the table as bit fields of the medium, the coherence of
  the one-sector window, the geometry of a well-formed volume, and that \<open>get_cluster\<close> and \<open>clust2sect\<close>
  compute what the geometry says.
\<close>

definition fat_byte :: "(nat \<Rightarrow> BYTE list) \<Rightarrow> nat \<Rightarrow> nat \<Rightarrow> BYTE" where
  "fat_byte sec fb k = sec (fb + k div 512) ! (k mod 512)"

definition fat_bit :: "(nat \<Rightarrow> BYTE list) \<Rightarrow> nat \<Rightarrow> nat \<Rightarrow> bool" where
  "fat_bit sec fb i = bit (fat_byte sec fb (i div 8)) (i mod 8)"

definition fat_field :: "nat \<Rightarrow> (nat \<Rightarrow> BYTE list) \<Rightarrow> nat \<Rightarrow> nat \<Rightarrow> WORD" where
  "fat_field w sec fb n = horner_sum of_bool 2 (map (\<lambda>i. fat_bit sec fb (w * n + i)) [0 ..< w])"

lemma bit_fat_field: "w \<le> 16 \<Longrightarrow> bit (fat_field w sec fb n) i \<longleftrightarrow> i < w \<and> fat_bit sec fb (w * n + i)"
  by (auto simp: fat_field_def bit_horner_sum_bit_iff bit_simps) 

lemma byte_index: "j < 8 \<Longrightarrow> n = 8 * m + j \<Longrightarrow> n div 8 = m \<and> n mod 8 = (j :: nat)"
  by simp

lemma fat12_odd:
  assumes "odd c" "lo = fat_byte sec fb (c * 3 div 2)" "hi = fat_byte sec fb (c * 3 div 2 + 1)"
  shows "drop_bit 4 ((ucast lo :: WORD) OR push_bit 8 (ucast hi)) = fat_field 12 sec fb c"
proof (rule bit_word_eqI)
  fix i :: nat assume i: "i < LENGTH(16)"
  from assms obtain k where k: "c = 2 * k + 1" by (auto elim: oddE)
  have lo: "lo = fat_byte sec fb (3 * k + 1)" and hi: "hi = fat_byte sec fb (3 * k + 2)"
  proof -
    have "c * 3 div 2 = 3 * k + 1" using k by presburger
    then show "lo = fat_byte sec fb (3 * k + 1)" "hi = fat_byte sec fb (3 * k + 2)"
      using assms(2,3) by simp_all
  qed
  consider "i < 4" | "4 \<le> i" "i < 12" | "12 \<le> i" by linarith
  then show "bit (drop_bit 4 ((ucast lo :: WORD) OR push_bit 8 (ucast hi))) i = bit (fat_field 12 sec fb c) i"
  proof cases
    case 1
    then have "(12 * c + i) div 8 = 3 * k + 1 \<and> (12 * c + i) mod 8 = 4 + i"
      by (intro byte_index) (simp_all add: k)
    with 1 show ?thesis by (auto simp: bit_fat_field bit_simps fat_bit_def lo)
  next
    case 2
    then have "(12 * c + i) div 8 = 3 * k + 2 \<and> (12 * c + i) mod 8 = i - 4"
      by (intro byte_index) (simp_all add: k)
    with 2 show ?thesis by (auto simp: bit_fat_field bit_simps fat_bit_def hi dest: bit_imp_le_length)
  next
    case 3
    then show ?thesis using i by (auto simp: bit_fat_field bit_simps)
  qed
qed

lemma fat12_even:
  assumes "even c" "lo = fat_byte sec fb (c * 3 div 2)" "hi = fat_byte sec fb (c * 3 div 2 + 1)"
  shows "((ucast lo :: WORD) OR push_bit 8 (ucast hi)) AND 0xFFF = fat_field 12 sec fb c"
proof (rule bit_word_eqI)
  fix i :: nat assume i: "i < LENGTH(16)"
  from assms obtain k where k: "c = 2 * k" by (auto elim: evenE)
  have lo: "lo = fat_byte sec fb (3 * k)" and hi: "hi = fat_byte sec fb (3 * k + 1)"
    using assms k by simp_all
  have m: "(0xFFF :: WORD) = mask 12" by (simp add: mask_eq_exp_minus_1)
  consider "i < 8" | "8 \<le> i" "i < 12" | "12 \<le> i" by linarith
  then show "bit (((ucast lo :: WORD) OR push_bit 8 (ucast hi)) AND 0xFFF) i = bit (fat_field 12 sec fb c) i"
  proof cases
    case 1
    then have "(12 * c + i) div 8 = 3 * k \<and> (12 * c + i) mod 8 = i"
      by (intro byte_index) (simp_all add: k)
    with 1 show ?thesis unfolding m by (auto simp: bit_fat_field bit_simps fat_bit_def lo)
  next
    case 2
    then have "(12 * c + i) div 8 = 3 * k + 1 \<and> (12 * c + i) mod 8 = i - 8"
      by (intro byte_index) (simp_all add: k)
    with 2 show ?thesis unfolding m
      by (auto simp: bit_fat_field bit_simps fat_bit_def hi dest: bit_imp_le_length)
  next
    case 3
    then show ?thesis using i unfolding m by (auto simp: bit_fat_field bit_simps)
  qed
qed

lemma fat16:
  assumes "lo = fat_byte sec fb (2 * c)" "hi = fat_byte sec fb (2 * c + 1)"
  shows "push_bit 8 (ucast hi) OR (ucast lo :: WORD) = fat_field 16 sec fb c"
proof (rule bit_word_eqI)
  fix i :: nat assume i: "i < LENGTH(16)"
  consider "i < 8" | "8 \<le> i" "i < 16" using i by fastforce
  then show "bit (push_bit 8 (ucast hi) OR (ucast lo :: WORD)) i = bit (fat_field 16 sec fb c) i"
  proof cases
    case 1
    then have "(16 * c + i) div 8 = 2 * c \<and> (16 * c + i) mod 8 = i"
      by (intro byte_index) simp_all
    with 1 show ?thesis by (auto simp: bit_fat_field bit_simps fat_bit_def assms)
  next
    case 2
    then have "(16 * c + i) div 8 = 2 * c + 1 \<and> (16 * c + i) mod 8 = i - 8"
      by (intro byte_index) simp_all
    with 2 show ?thesis by (auto simp: bit_fat_field bit_simps fat_bit_def assms dest: bit_imp_le_length)
  qed
qed


section \<open>The window\<close>

definition coherent ::
  "('d \<Rightarrow> bool) \<Rightarrow> ('d \<Rightarrow> nat \<Rightarrow> BYTE list) \<Rightarrow> nat \<Rightarrow> 'd tff \<Rightarrow> bool" where
  "coherent dinv dsec dcap s \<longleftrightarrow>
     dinv (disk s) \<and> length (fs_win s) = 512 \<and> fs_winflag (cur_fs s) = 0
     \<and> unat (fs_winsect (cur_fs s)) < dcap
     \<and> (fs_winsect (cur_fs s) \<noteq> 0 \<longrightarrow> fs_win s = dsec (disk s) (unat (fs_winsect (cur_fs s))))"

definition same_vol :: "'d diskio \<Rightarrow> ('d \<Rightarrow> nat \<Rightarrow> BYTE list) \<Rightarrow> 'd tff \<Rightarrow> 'd tff \<Rightarrow> bool" where
  "same_vol io dsec s s' \<longleftrightarrow>
     FatFs s' = FatFs s \<and> fsid s' = fsid s \<and> dsec (disk s') = dsec (disk s)
     \<and> dio_status io 0 (disk s') = dio_status io 0 (disk s)
     \<and> (\<exists>n. fsobj s' = (fsobj s)(FatFs s := (cur_fs s)\<lparr>fs_winsect := n\<rparr>))"

lemma same_vol_refl [simp]: "same_vol io dsec s s"
  by (auto simp: same_vol_def intro!: exI [of _ "fs_winsect (cur_fs s)"])

lemma same_vol_trans: "same_vol io dsec s t \<Longrightarrow> same_vol io dsec t u \<Longrightarrow> same_vol io dsec s u"
  by (auto simp: same_vol_def)

lemma same_vol_simps:
  assumes "same_vol io dsec s s'"
  shows "FatFs s' = FatFs s" "dio_status io 0 (disk s') = dio_status io 0 (disk s)" "fsid s' = fsid s" "dsec (disk s') = dsec (disk s)"
    "fs_id (fsobj s' p) = fs_id (fsobj s p)"
    "fs_max_clust (fsobj s' p) = fs_max_clust (fsobj s p)"
    "fs_type (fsobj s' p) = fs_type (fsobj s p)"
    "fs_fatbase (fsobj s' p) = fs_fatbase (fsobj s p)"
    "fs_database (fsobj s' p) = fs_database (fsobj s p)"
    "fs_dirbase (fsobj s' p) = fs_dirbase (fsobj s p)"
    "fs_n_rootdir (fsobj s' p) = fs_n_rootdir (fsobj s p)"
    "fs_sects_fat (fsobj s' p) = fs_sects_fat (fsobj s p)"
    "fs_sects_clust (fsobj s' p) = fs_sects_clust (fsobj s p)"
    "fs_winflag (fsobj s' p) = fs_winflag (fsobj s p)"
    "(fsobj s' p)\<lparr>fs_winsect := 0\<rparr> = (fsobj s p)\<lparr>fs_winsect := 0\<rparr>"
  using assms by (auto simp: same_vol_def)

context disk_device
begin

abbreviation coh :: "'d tff \<Rightarrow> bool" where "coh \<equiv> coherent dinv dsec dcap"
abbreviation sv :: "'d tff \<Rightarrow> 'd tff \<Rightarrow> bool" where "sv \<equiv> same_vol io dsec"

lemma move_window_coh:
  assumes coh: "coh s" and cap: "unat sector < dcap" and mw: "move_window io sector s = (ok, s')"
  shows "coh s' \<and> sv s s' \<and> (ok \<and> sector \<noteq> 0 \<longrightarrow> fs_win s' = dsec (disk s) (unat sector))
    \<and> (reads_ok \<longrightarrow> ok)"
proof (cases "fs_winsect (cur_fs s) = sector")
  case True
  then show ?thesis using mw coh by (auto simp: move_window_def coherent_def)
next
  case False
  have wb: "(if FS_READONLY io then (True, s) else write_back io s) = (True, s)"
    using coh by (simp add: write_back_def coherent_def)
  show ?thesis
  proof (cases "sector = 0")
    case True
    then show ?thesis using False mw coh by (simp add: move_window_def wb)
  next
    case ns: False
    obtain r win d where rd: "dio_read io 0 (fs_win s) sector 1 (disk s) = (r, win, d)"
      by (metis prod_cases3)
    have len: "length (fs_win s) = 512" and di: "dinv (disk s)"
      using coh by (auto simp: coherent_def)
    have frame: "dinv d \<and> dsec d = dsec (disk s) \<and> length win = 512
        \<and> dio_status io 0 d = dio_status io 0 (disk s)"
      using read_frame [OF di rd] len cap by simp
    have mw': "(ok, s') = (if r \<noteq> RES_OK then (False, s\<lparr>fs_win := win, disk := d\<rparr>)
        else (True, upd_cur (fs_winsect_update (\<lambda>_. sector)) (s\<lparr>fs_win := win, disk := d\<rparr>)))"
      using mw ns False by (simp add: move_window_def wb rd Let_def split: if_splits)
    show ?thesis
    proof (cases "r = RES_OK")
      case True
      have "win = dsec (disk s) (unat sector)"
        using read_data [OF di rd [unfolded True]] len cap dsec_len [OF di, of "unat sector"]
        by (simp add: blit_whole)
      then show ?thesis using True mw' frame coh cap
        by (auto simp: coherent_def same_vol_def upd_fs_def)
    next
      case False
      then have "\<not> reads_ok" using reads_okD [OF _ di rd] len cap by auto
      moreover have "win = fs_win s" using read_failed [OF di rd] len cap False by simp
      ultimately show ?thesis using False mw' frame coh
        by (auto simp: coherent_def same_vol_def intro!: exI [of _ "fs_winsect (cur_fs s)"])
    qed
  qed
qed

end


section \<open>The volume\<close>

definition fat_width :: "FATFS \<Rightarrow> nat" where
  "fat_width fs = (if fs_type fs = FS_FAT12 then 12 else 16)"

definition fat_entry :: "(nat \<Rightarrow> BYTE list) \<Rightarrow> FATFS \<Rightarrow> WORD \<Rightarrow> WORD" where
  "fat_entry sec fs c = fat_field (fat_width fs) sec (unat (fs_fatbase fs)) (unat c)"

definition vol_ok :: "nat \<Rightarrow> FATFS \<Rightarrow> bool" where
  "vol_ok cap fs \<longleftrightarrow>
     (fs_type fs = FS_FAT12 \<and> unat (fs_max_clust fs) \<le> 0xFF7
      \<or> fs_type fs = FS_FAT16 \<and> unat (fs_max_clust fs) \<le> 0xFFF7)
     \<and> 2 \<le> unat (fs_max_clust fs)
     \<and> fs_fatbase fs \<noteq> 0
     \<and> fat_width fs * unat (fs_max_clust fs) \<le> unat (fs_sects_fat fs) * 4096
     \<and> unat (fs_fatbase fs) + unat (fs_sects_fat fs) \<le> unat (fs_database fs)
     \<and> fs_sects_clust fs \<noteq> 0
     \<and> unat (fs_database fs) + (unat (fs_max_clust fs) - 2) * unat (fs_sects_clust fs) \<le> cap
     \<and> cap < 2 ^ 32"

definition first_sector :: "FATFS \<Rightarrow> WORD \<Rightarrow> nat" where
  "first_sector fs c = unat (fs_database fs) + (unat c - 2) * unat (fs_sects_clust fs)"

definition valid_clust :: "FATFS \<Rightarrow> WORD \<Rightarrow> bool" where
  "valid_clust fs c \<longleftrightarrow> 2 \<le> c \<and> c < fs_max_clust fs"

lemma vol_ok_same: "same_vol io dsec s s' \<Longrightarrow> vol_ok cap (fsobj s' p) = vol_ok cap (fsobj s p)"
  by (simp add: vol_ok_def fat_width_def same_vol_simps)

lemma fat_entry_same: "same_vol io dsec s s' \<Longrightarrow> fat_entry sec (fsobj s' p) = fat_entry sec (fsobj s p)"
  by (simp add: fat_entry_def [abs_def] fat_width_def same_vol_simps)

lemma unat_add_ucast_small:
  fixes a :: DWORD and b :: WORD
  assumes "unat a + unat b < 2 ^ 32"
  shows "unat (a + ucast b) = unat a + unat b"
  using assms by (simp add: unat_word_ariths unsigned_ucast_eq take_bit_nat_eq_self)

lemma even_mod_div:
  "(2 * n + 1) div 512 = 2 * n div 512 \<and> (2 * n + 1) mod 512 = 2 * n mod (512 :: nat) + 1"
proof -
  have "even (2 * n mod 512)" by (simp add: dvd_mod)
  then have "Suc (2 * n mod 512) \<noteq> 512" by (metis even_Suc even_numeral)
  then show ?thesis by (simp add: mod_Suc div_Suc)
qed

lemma unat_half3:
  fixes c :: WORD
  assumes "unat c < 0xFF7"
  shows "unat (c * 3 div 2) = unat c * 3 div 2" "unat (c * 3 div 2 + 1) = unat c * 3 div 2 + 1"
proof -
  have *: "unat (c * 3) = unat c * 3" using assms by (simp add: unat_word_ariths)
  show a: "unat (c * 3 div 2) = unat c * 3 div 2"
    using * by (simp add: unat_div)
  show "unat (c * 3 div 2 + 1) = unat c * 3 div 2 + 1"
    using a assms by (simp add: unat_word_ariths)
qed

lemma fat_byte_of_window:
  fixes fb :: DWORD and bc :: WORD
  assumes "win = sec (unat (fb + ucast (bc div 512)))" "unat fb + unat bc div 512 < 2 ^ 32"
  shows "win ! unat (bc mod 512) = fat_byte sec (unat fb) (unat bc)"
proof -
  have "unat (fb + ucast (bc div 512)) = unat fb + unat bc div 512"
    using assms(2) by (subst unat_add_ucast_small) (simp_all add: unat_div)
  then show ?thesis using assms(1) by (simp add: fat_byte_def unat_mod)
qed

lemma and1_odd: "(c :: WORD) AND 1 \<noteq> 0 \<longleftrightarrow> odd (unat c)"
proof -
  have "odd (unat c) \<longleftrightarrow> odd c" by (simp flip: bit_0 add: bit_unsigned_iff)
  then show ?thesis by (simp add: and_one_eq mod_2_eq_odd)
qed

lemma vol_ok_pos:
  assumes "vol_ok cap fs"
  shows "0 < unat (fs_fatbase fs)" "0 < unat (fs_sects_clust fs)" "0 < unat (fs_database fs)"
    "unat (fs_sects_clust fs) < 256" "cap < 4294967296"
proof -
  show f: "0 < unat (fs_fatbase fs)" and "0 < unat (fs_sects_clust fs)" and "cap < 4294967296"
    using assms by (auto simp: vol_ok_def unat_gt_0)
  show "0 < unat (fs_database fs)" using f assms unfolding vol_ok_def by linarith
  show "unat (fs_sects_clust fs) < 256" using unsigned_less [of "fs_sects_clust fs", where ?'a = nat] by simp
qed

lemma first_sector_bound:
  assumes "vol_ok cap fs" "valid_clust fs c"
  shows "first_sector fs c + unat (fs_sects_clust fs) \<le> cap" "unat (fs_database fs) \<le> first_sector fs c"
proof -
  have c: "unat c - 2 + 1 \<le> unat (fs_max_clust fs) - 2"
    using assms(2) by (auto simp: valid_clust_def word_less_nat_alt word_le_nat_alt)
  have "(unat c - 2 + 1) * unat (fs_sects_clust fs) \<le> (unat (fs_max_clust fs) - 2) * unat (fs_sects_clust fs)"
    using c by (rule mult_le_mono1)
  then show "first_sector fs c + unat (fs_sects_clust fs) \<le> cap"
    using assms(1) by (simp add: first_sector_def vol_ok_def)
  show "unat (fs_database fs) \<le> first_sector fs c" by (simp add: first_sector_def)
qed

lemma first_sector_disjoint:
  assumes "valid_clust fs c" "valid_clust fs c'" "c' \<noteq> c"
  shows "first_sector fs c + unat (fs_sects_clust fs) \<le> first_sector fs c'
    \<or> first_sector fs c' + unat (fs_sects_clust fs) \<le> first_sector fs c"
proof -
  have "unat c \<noteq> unat c'" "2 \<le> unat c" "2 \<le> unat c'"
    using assms by (auto simp: valid_clust_def word_le_nat_alt word_eq_unat)
  then have "unat c - 2 + 1 \<le> unat c' - 2 \<or> unat c' - 2 + 1 \<le> unat c - 2" by linarith
  then have "(unat c - 2 + 1) * unat (fs_sects_clust fs) \<le> (unat c' - 2) * unat (fs_sects_clust fs)
      \<or> (unat c' - 2 + 1) * unat (fs_sects_clust fs) \<le> (unat c - 2) * unat (fs_sects_clust fs)"
    using mult_le_mono1 by blast
  then show ?thesis by (simp add: first_sector_def add.commute)
qed

lemma first_sector_pos: "vol_ok cap fs \<Longrightarrow> valid_clust fs c \<Longrightarrow> 0 < first_sector fs c"
  using first_sector_bound(2) [of cap fs c] vol_ok_pos(3) [of cap fs] by linarith

lemma clust2sect_valid:
  assumes "vol_ok cap fs" "valid_clust fs c"
  shows "unat (clust2sect fs c) = first_sector fs c"
proof -
  have c: "2 \<le> unat c" "unat c < unat (fs_max_clust fs)"
    using assms(2) by (auto simp: valid_clust_def word_less_nat_alt word_le_nat_alt)
  have m: "2 \<le> unat (fs_max_clust fs)" using assms(1) by (simp add: vol_ok_def)
  have u: "unat (c - 2) = unat c - 2" "unat (fs_max_clust fs - 2) = unat (fs_max_clust fs) - 2"
    using c m by (simp_all add: unat_sub word_le_nat_alt)
  have nle: "\<not> fs_max_clust fs - 2 \<le> c - 2" using u c by (simp add: word_le_nat_alt)
  have b: "first_sector fs c < 4294967296"
    using first_sector_bound(1) [OF assms] vol_ok_pos [OF assms(1)] by linarith
  then have p: "(unat c - 2) * unat (fs_sects_clust fs) < 2 ^ 32" by (simp add: first_sector_def)
  have "unat (ucast (c - 2) * ucast (fs_sects_clust fs) :: DWORD) = (unat c - 2) * unat (fs_sects_clust fs)"
    using p by (simp add: unat_word_ariths u)
  then have "unat (ucast (c - 2) * ucast (fs_sects_clust fs) + fs_database fs :: DWORD) = first_sector fs c"
    using b by (subst unat_word_ariths(1)) (simp add: first_sector_def)
  then show ?thesis using nle by (simp add: clust2sect_def)
qed

lemma unat_minus_numeral: "unat (- 1 :: WORD) = 65535" "unat (- 2 :: WORD) = 65534"
proof -
  have a: "(- 1 :: WORD) = 65535" by (transfer, simp)
  show "unat (- 1 :: WORD) = 65535" by (simp add: a)
  show "unat (- 2 :: WORD) = 65534" by (transfer, simp)
qed

lemma clust2sect_invalid:
  assumes "vol_ok cap fs" "\<not> valid_clust fs c"
  shows "clust2sect fs c = 0"
proof -
  have m: "2 \<le> unat (fs_max_clust fs)" "unat (fs_max_clust fs) \<le> 0xFFF7"
    using assms(1) by (auto simp: vol_ok_def)
  have um: "unat (fs_max_clust fs - 2) = unat (fs_max_clust fs) - 2"
    using m by (simp add: unat_sub word_le_nat_alt)
  have "unat (fs_max_clust fs) - 2 \<le> unat (c - 2)"
  proof (cases "2 \<le> c")
    case True
    then have "unat (c - 2) = unat c - 2" by (simp add: unat_sub)
    then show ?thesis using True assms(2) by (simp add: valid_clust_def word_less_nat_alt)
  next
    case False
    then have "unat c < 2" by (simp add: word_le_nat_alt)
    then have "c = 0 \<or> c = 1" by (auto simp: word_eq_unat less_2_cases_iff)
    then have "65534 \<le> unat (c - 2)" by (elim disjE) (simp_all add: unat_minus_numeral)
    then show ?thesis using m by linarith
  qed
  then show ?thesis by (simp add: clust2sect_def word_le_nat_alt um)
qed

context disk_device
begin

lemma fat_sector_ok:
  fixes bc :: WORD
  assumes "vol_ok dcap fs" "unat bc < 512 * unat (fs_sects_fat fs)"
  shows "unat (fs_fatbase fs + ucast (bc div 512)) < dcap"
    "fs_fatbase fs + ucast (bc div 512) \<noteq> 0"
    "unat (fs_fatbase fs) + unat bc div 512 < 2 ^ 32"
proof -
  have l: "unat (fs_fatbase fs) + unat bc div 512 < dcap"
    using assms unfolding vol_ok_def by linarith
  then show l2: "unat (fs_fatbase fs) + unat bc div 512 < 2 ^ 32" using dcap_bound by linarith
  have e: "unat (fs_fatbase fs + ucast (bc div 512)) = unat (fs_fatbase fs) + unat bc div 512"
    using l2 by (subst unat_add_ucast_small) (simp_all add: unat_div)
  show "unat (fs_fatbase fs + ucast (bc div 512)) < dcap" using e l by simp
  have "unat (fs_fatbase fs) \<noteq> 0" using assms(1) by (simp add: vol_ok_def unat_eq_zero)
  then have "unat (fs_fatbase fs + ucast (bc div 512)) \<noteq> 0" using e by simp
  then show "fs_fatbase fs + ucast (bc div 512) \<noteq> 0" by (simp add: unat_eq_zero)
qed

lemma fat_fetch:
  fixes bc :: WORD
  assumes coh: "coh s" and vol: "vol_ok dcap (cur_fs s)"
    and bc: "unat bc < 512 * unat (fs_sects_fat (cur_fs s))"
    and mw: "move_window io (fs_fatbase (cur_fs s) + ucast (bc div 512)) s = (ok, s')"
  shows "coh s' \<and> sv s s' \<and>
    (ok \<longrightarrow> fs_win s' ! unat (bc mod 512) = fat_byte (dsec (disk s)) (unat (fs_fatbase (cur_fs s))) (unat bc))
    \<and> (reads_ok \<longrightarrow> ok)"
  using move_window_coh [OF coh fat_sector_ok(1) [OF vol bc] mw] fat_sector_ok [OF vol bc]
  by (auto intro!: fat_byte_of_window)

lemma get_cluster_coh:
  assumes coh: "coh s" and vol: "vol_ok dcap (cur_fs s)" and gc: "get_cluster io c s = (r, s')"
  shows "coh s' \<and> sv s s' \<and>
    (r \<noteq> 1 \<longrightarrow> 2 \<le> c \<and> c < fs_max_clust (cur_fs s) \<and> r = fat_entry (dsec (disk s)) (cur_fs s) c)
    \<and> (reads_ok \<longrightarrow> valid_clust (cur_fs s) c \<longrightarrow> r = fat_entry (dsec (disk s)) (cur_fs s) c)"
proof (cases "2 \<le> c \<and> c < fs_max_clust (cur_fs s)")
  case False
  then show ?thesis using gc coh by (auto simp: get_cluster_def Let_def valid_clust_def)
next
  case range: True
  define fs where "fs = cur_fs s"
  have cm: "unat c < unat (fs_max_clust fs)" using range by (simp add: fs_def word_less_nat_alt)
  show ?thesis
  proof (cases "fs_type fs = FS_FAT12")
    case t12: True
    then have w: "fat_width fs = 12" and m: "unat (fs_max_clust fs) \<le> 0xFF7"
      and sz: "12 * unat (fs_max_clust fs) \<le> unat (fs_sects_fat fs) * 4096"
      using vol by (auto simp: vol_ok_def fat_width_def fs_def FS_FAT12_def FS_FAT16_def)
    define bc where "bc = c * 3 div 2"
    have cl: "unat c < 0xFF7" using cm m by linarith
    have ub: "unat bc = unat c * 3 div 2" "unat (bc + 1) = unat c * 3 div 2 + 1"
      using unat_half3 [OF cl] by (simp_all add: bc_def)
    have in1: "unat bc < 512 * unat (fs_sects_fat fs)" and in2: "unat (bc + 1) < 512 * unat (fs_sects_fat fs)"
      using ub cm sz by linarith+
    obtain ok1 s1 where m1: "move_window io (fs_fatbase fs + ucast (bc div 512)) s = (ok1, s1)"
      by (metis prod.exhaust)
    have f1: "coh s1 \<and> sv s s1 \<and> (ok1 \<longrightarrow> fs_win s1 ! unat (bc mod 512) = fat_byte (dsec (disk s)) (unat (fs_fatbase fs)) (unat bc)) \<and> (reads_ok \<longrightarrow> ok1)"
      using fat_fetch [OF coh vol _ m1 [unfolded fs_def]] in1 by (simp add: fs_def)
    obtain ok2 s2 where m2: "move_window io (fs_fatbase fs + ucast ((bc + 1) div 512)) s1 = (ok2, s2)"
      by (metis prod.exhaust)
    have c1: "coh s1" and v1: "sv s s1" using f1 by auto
    have vol1: "vol_ok dcap (cur_fs s1)" using vol vol_ok_same [OF v1] same_vol_simps(1) [OF v1] by simp
    have fb: "fs_fatbase (cur_fs s1) = fs_fatbase fs" "fs_sects_fat (cur_fs s1) = fs_sects_fat fs"
      using same_vol_simps [OF v1] by (simp_all add: fs_def)
    have f2: "coh s2 \<and> sv s1 s2 \<and> (ok2 \<longrightarrow> fs_win s2 ! unat ((bc + 1) mod 512) = fat_byte (dsec (disk s)) (unat (fs_fatbase fs)) (unat (bc + 1))) \<and> (reads_ok \<longrightarrow> ok2)"
      using fat_fetch [OF c1 vol1 _ m2 [folded fb(1)]] in2 fb same_vol_simps [OF v1] by simp
    have v2: "sv s s2" using v1 f2 same_vol_trans by blast
    let ?wc = "ucast (fs_win s1 ! unat (bc mod 512)) OR push_bit 8 (ucast (fs_win s2 ! unat ((bc + 1) mod 512))) :: WORD"
    have gc': "(r, s') = (if \<not> ok1 then (1, s1) else if \<not> ok2 then (1, s2)
        else (if c AND 1 \<noteq> 0 then drop_bit 4 ?wc else ?wc AND 0xFFF, s2))"
      using gc range t12 m1 m2 by (auto simp: get_cluster_def Let_def fs_def bc_def)
    have "ok1 \<Longrightarrow> ok2 \<Longrightarrow> (if c AND 1 \<noteq> 0 then drop_bit 4 ?wc else ?wc AND 0xFFF)
        = fat_entry (dsec (disk s)) fs c"
      using f1 f2 fat12_odd [OF _ refl refl] fat12_even [OF _ refl refl]
      by (simp add: and1_odd ub fat_entry_def w)
    then show ?thesis using gc' f1 f2 v2 range by (auto simp: fs_def split: if_splits)
  next
    case t16: False
    then have ty: "fs_type fs = FS_FAT16" and w: "fat_width fs = 16"
      and sz: "16 * unat (fs_max_clust fs) \<le> unat (fs_sects_fat fs) * 4096"
      using vol by (auto simp: vol_ok_def fat_width_def fs_def)
    have e: "unat c div 256 = 2 * unat c div 512" "unat (c * 2 mod 512) = 2 * unat c mod 512"
    proof -
      show "unat c div 256 = 2 * unat c div 512" by linarith
      have "unat (c * 2) = (2 * unat c) mod 65536" by (simp add: unat_word_ariths mult.commute)
      then show "unat (c * 2 mod 512) = 2 * unat c mod 512" by (simp add: unat_mod mod_mod_cancel)
    qed
    have fit: "unat (fs_fatbase fs) + unat c div 256 < dcap" "unat (fs_fatbase fs) \<noteq> 0"
      using cm sz vol by (auto simp: vol_ok_def fs_def unat_eq_zero)
    then have us: "unat (fs_fatbase fs + ucast (c div 256)) = unat (fs_fatbase fs) + unat c div 256"
      using dcap_bound by (subst unat_add_ucast_small) (simp_all add: unat_div)
    obtain ok1 s1 where m1: "move_window io (fs_fatbase fs + ucast (c div 256)) s = (ok1, s1)"
      by (metis prod.exhaust)
    have n0: "fs_fatbase fs + ucast (c div 256) \<noteq> 0"
      using us fit by (metis add_is_0 unat_0)
    have f1: "coh s1 \<and> sv s s1 \<and> (ok1 \<longrightarrow> fs_win s1 = dsec (disk s) (unat (fs_fatbase fs) + unat c div 256)) \<and> (reads_ok \<longrightarrow> ok1)"
      using move_window_coh [OF coh _ m1] us fit n0 by auto
    have gc': "(r, s') = (if \<not> ok1 then (1, s1) else (LD_WORD (fs_win s1) (unat (c * 2 mod 512)), s1))"
      using gc range t16 ty m1 by (simp add: get_cluster_def Let_def fs_def split: if_splits)
    have "ok1 \<Longrightarrow> LD_WORD (fs_win s1) (unat (c * 2 mod 512)) = fat_entry (dsec (disk s)) fs c"
    proof -
      assume ok1
      have d1: "(2 * unat c + 1) div 512 = 2 * unat c div 512" "(2 * unat c + 1) mod 512 = 2 * unat c mod 512 + 1"
        using even_mod_div [of "unat c"] by simp_all
      have w0: "fs_win s1 = dsec (disk s) (unat (fs_fatbase fs) + 2 * unat c div 512)"
        using f1 \<open>ok1\<close> e(1) by metis
      have "fs_win s1 ! (2 * unat c mod 512) = fat_byte (dsec (disk s)) (unat (fs_fatbase fs)) (2 * unat c)"
        "fs_win s1 ! (2 * unat c mod 512 + 1) = fat_byte (dsec (disk s)) (unat (fs_fatbase fs)) (2 * unat c + 1)"
        unfolding fat_byte_def d1 w0 by simp_all
      then show ?thesis
        using fat16 [OF refl refl, of "dsec (disk s)" "unat (fs_fatbase fs)" "unat c"]
        by (simp add: LD_WORD_def e fat_entry_def w)
    qed
    then show ?thesis using gc' f1 range by (auto simp: fs_def split: if_splits)
  qed
qed

end

end
