(* ===== verification/TffFileProps.thy ===== *)
theory TffFileProps
  imports TffFile TffFatProps
begin

text \<open>
  Reading and seeking in a file: the bytes of a cluster chain, the position invariant of a file object,
  and what \<open>f_read\<close> and \<open>f_lseek\<close> do on every device that meets the contract \<open>disk_device\<close>.

  A chain \<open>cl\<close> holds \<open>chain_bytes\<close>; sector \<open>n\<close> of the file is sector \<open>file_sector fs cl n\<close> of the disk.
  A file object is positioned (\<open>pos_ok\<close>) when its cluster, sector and sector counter are those of the
  sector that holds the byte before the file pointer.
\<close>

section \<open>The contents of a cluster chain\<close>

definition chain_sectors :: "FATFS \<Rightarrow> WORD list \<Rightarrow> nat list" where
  "chain_sectors fs cl =
     concat (map (\<lambda>c. [first_sector fs c ..< first_sector fs c + unat (fs_sects_clust fs)]) cl)"

definition chain_bytes :: "(nat \<Rightarrow> BYTE list) \<Rightarrow> FATFS \<Rightarrow> WORD list \<Rightarrow> BYTE list" where
  "chain_bytes sec fs cl = concat (map sec (chain_sectors fs cl))"

definition chain_ok :: "(nat \<Rightarrow> BYTE list) \<Rightarrow> FATFS \<Rightarrow> WORD list \<Rightarrow> bool" where
  "chain_ok sec fs cl \<longleftrightarrow>
     (\<forall>c \<in> set cl. valid_clust fs c) \<and> successively (\<lambda>a b. fat_entry sec fs a = b) cl"

abbreviation spc :: "FATFS \<Rightarrow> nat" where "spc fs \<equiv> unat (fs_sects_clust fs)"

definition file_sector :: "FATFS \<Rightarrow> WORD list \<Rightarrow> nat \<Rightarrow> nat" where
  "file_sector fs cl n = first_sector fs (cl ! (n div spc fs)) + n mod spc fs"

lemma length_chain_sectors: "length (chain_sectors fs cl) = length cl * spc fs"
  unfolding chain_sectors_def by (subst length_concat_chunks [where m = "spc fs"]) auto

lemma chain_sectors_nth:
  assumes "n < length cl * spc fs"
  shows "chain_sectors fs cl ! n = file_sector fs cl n"
proof -
  have p: "0 < spc fs" using assms by (cases "spc fs") auto
  then have "n div spc fs < length cl" "n mod spc fs < spc fs"
    using assms by (simp_all add: less_mult_imp_div_less)
  moreover have "chain_sectors fs cl ! n =
    map (\<lambda>c. [first_sector fs c ..< first_sector fs c + spc fs]) cl ! (n div spc fs) ! (n mod spc fs)"
    unfolding chain_sectors_def by (rule concat_chunk_nth) (use assms in auto)
  ultimately show ?thesis by (simp add: file_sector_def)
qed

lemma chain_sectors_slice:
  assumes "n mod spc fs + k \<le> spc fs" "n < length cl * spc fs" "0 < k"
  shows "slice n k (chain_sectors fs cl) = [file_sector fs cl n ..< file_sector fs cl n + k]"
    and "n + k \<le> length cl * spc fs"
proof -
  have "n + (k - 1) < length cl * spc fs"
  proof -
    have "(n + (k - 1)) div spc fs = n div spc fs" using assms by (intro add_within) simp
    moreover have "n div spc fs < length cl" using assms(2) by (simp add: less_mult_imp_div_less)
    ultimately show ?thesis
      by (metis (no_types, lifting) assms(2) div_less_iff_less_mult gr_zeroI mult_0_right not_less_zero)
  qed
  then show b: "n + k \<le> length cl * spc fs" using assms(3) by simp
  show "slice n k (chain_sectors fs cl) = [file_sector fs cl n ..< file_sector fs cl n + k]"
  proof (rule nth_equalityI)
    show "length (slice n k (chain_sectors fs cl)) = length [file_sector fs cl n ..< file_sector fs cl n + k]"
      using b by (simp add: length_slice length_chain_sectors)
  next
    fix j assume "j < length (slice n k (chain_sectors fs cl))"
    then have j: "j < k" by (simp add: length_slice)
    then have a: "(n + j) div spc fs = n div spc fs" "(n + j) mod spc fs = n mod spc fs + j"
      using assms(1) by (auto intro!: add_within)
    have "slice n k (chain_sectors fs cl) ! j = file_sector fs cl (n + j)"
      using j b by (simp add: slice_nth length_chain_sectors chain_sectors_nth)
    then show "slice n k (chain_sectors fs cl) ! j = [file_sector fs cl n ..< file_sector fs cl n + k] ! j"
      using j by (simp add: file_sector_def a)
  qed
qed

lemma chain_bytes_slice:
  assumes "\<And>m. length (sec m) = 512"
    and "n mod spc fs + k \<le> spc fs" "n < length cl * spc fs" "0 < k"
  shows "slice (n * 512) (k * 512) (chain_bytes sec fs cl) = sectors sec (file_sector fs cl n) k"
proof -
  have "n + k \<le> length (map sec (chain_sectors fs cl))"
    using chain_sectors_slice(2) [OF assms(2-4)] by (simp add: length_chain_sectors)
  then have "slice (n * 512) (k * 512) (chain_bytes sec fs cl)
      = concat (slice n k (map sec (chain_sectors fs cl)))"
    unfolding chain_bytes_def by (intro slice_concat_chunks) (auto simp: assms(1))
  then show ?thesis
    by (simp add: slice_map chain_sectors_slice(1) [OF assms(2-4)] sectors_def)
qed

lemma length_chain_bytes:
  assumes "\<And>m. length (sec m) = 512"
  shows "length (chain_bytes sec fs cl) = length cl * spc fs * 512"
  unfolding chain_bytes_def
  by (subst length_concat_chunks [where m = 512]) (auto simp: assms length_chain_sectors)

section \<open>Files and positions\<close>

definition file_on :: "(nat \<Rightarrow> BYTE list) \<Rightarrow> FATFS \<Rightarrow> FIL \<Rightarrow> WORD list \<Rightarrow> bool" where
  "file_on sec fs fp cl \<longleftrightarrow>
     chain_ok sec fs cl \<and> (cl \<noteq> [] \<longrightarrow> hd cl = fp_org_clust fp)
     \<and> unat (fp_fsize fp) \<le> length cl * (spc fs * 512)"

definition at_sector :: "FATFS \<Rightarrow> WORD list \<Rightarrow> FIL \<Rightarrow> nat \<Rightarrow> bool" where
  "at_sector fs cl fp n \<longleftrightarrow>
     n < length cl * spc fs
     \<and> fp_curr_clust fp = cl ! (n div spc fs)
     \<and> unat (fp_curr_sect fp) = file_sector fs cl n
     \<and> unat (fp_sect_clust fp) = spc fs - n mod spc fs"

definition pos_ok :: "FATFS \<Rightarrow> WORD list \<Rightarrow> FIL \<Rightarrow> bool" where
  "pos_ok fs cl fp \<longleftrightarrow>
     fp_fptr fp \<le> fp_fsize fp
     \<and> (if fp_fptr fp = 0 then fp_sect_clust fp = 1
        else at_sector fs cl fp ((unat (fp_fptr fp) - 1) div 512))"

definition same_file :: "FIL \<Rightarrow> FIL \<Rightarrow> bool" where
  "same_file fp fp' \<longleftrightarrow>
     fp' = fp\<lparr>fp_sect_clust := fp_sect_clust fp', fp_fptr := fp_fptr fp',
             fp_curr_clust := fp_curr_clust fp', fp_curr_sect := fp_curr_sect fp'\<rparr>"

lemma same_file_simps:
  assumes "same_file fp fp'"
  shows "fp_id fp' = fp_id fp" "fp_flag fp' = fp_flag fp" "fp_fs fp' = fp_fs fp"
    "fp_fsize fp' = fp_fsize fp" "fp_org_clust fp' = fp_org_clust fp"
    "fp_dir_sect fp' = fp_dir_sect fp" "fp_dir_ptr fp' = fp_dir_ptr fp"
  by (subst assms [unfolded same_file_def], simp)+

lemma same_file_refl [simp]: "same_file fp fp"
  by (simp add: same_file_def)

lemma same_file_trans: "same_file a b \<Longrightarrow> same_file b c \<Longrightarrow> same_file a c"
  by (cases a; cases b; cases c) (simp add: same_file_def)

lemma file_on_same: "same_file fp fp' \<Longrightarrow> file_on sec fs fp' cl = file_on sec fs fp cl"
  by (simp add: file_on_def same_file_simps)

lemma vol_funs_same:
  assumes "same_vol io dsec s s'"
  shows "first_sector (fsobj s' p) = first_sector (fsobj s p)"
    "valid_clust (fsobj s' p) = valid_clust (fsobj s p)"
    "chain_sectors (fsobj s' p) = chain_sectors (fsobj s p)"
    "chain_bytes sec (fsobj s' p) = chain_bytes sec (fsobj s p)"
    "chain_ok sec (fsobj s' p) = chain_ok sec (fsobj s p)"
    "file_sector (fsobj s' p) = file_sector (fsobj s p)"
    "file_on sec (fsobj s' p) = file_on sec (fsobj s p)"
    "at_sector (fsobj s' p) = at_sector (fsobj s p)"
    "pos_ok (fsobj s' p) = pos_ok (fsobj s p)"
    "clust2sect (fsobj s' p) = clust2sect (fsobj s p)"
  unfolding fun_eq_iff first_sector_def valid_clust_def chain_sectors_def chain_bytes_def chain_ok_def
    file_sector_def file_on_def at_sector_def pos_ok_def clust2sect_def
    same_vol_simps [OF assms] fat_entry_same [OF assms] by simp_all

section \<open>One step to the next sector\<close>

lemma chain_valid:
  assumes "chain_ok sec fs cl" "i < length cl"
  shows "valid_clust fs (cl ! i)"
  using assms by (simp add: chain_ok_def)

lemma chain_link:
  assumes "chain_ok sec fs cl" "i + 1 < length cl"
  shows "fat_entry sec fs (cl ! i) = cl ! (i + 1)"
  using assms by (auto simp: chain_ok_def successively_conv_nth)

lemma valid_clust_not:
  assumes "valid_clust fs c"
  shows "\<not> c < 2" "\<not> fs_max_clust fs \<le> c" "c \<noteq> 1" "c \<noteq> 0"
  using assms by (auto simp: valid_clust_def word_le_nat_alt word_less_nat_alt)

lemma file_sector_bound:
  assumes "vol_ok cap fs" "chain_ok sec fs cl" "n < length cl * spc fs"
  shows "file_sector fs cl n + (spc fs - n mod spc fs) \<le> cap" "0 < file_sector fs cl n"
    "n mod spc fs < spc fs"
proof -
  have v: "valid_clust fs (cl ! (n div spc fs))"
    using assms by (intro chain_valid) (auto simp: less_mult_imp_div_less)
  show "n mod spc fs < spc fs" using vol_ok_pos(2) [OF assms(1)] by simp
  then show "file_sector fs cl n + (spc fs - n mod spc fs) \<le> cap"
    using first_sector_bound(1) [OF assms(1) v] by (simp add: file_sector_def)
  show "0 < file_sector fs cl n"
    using first_sector_pos [OF assms(1) v] by (simp add: file_sector_def)
qed

lemma unat_eq_Suc_0: "unat (x :: BYTE) = Suc 0 \<longleftrightarrow> x = 1"
  by (metis One_nat_def unat_1 unsigned_word_eqI)

lemma unat_mod_512: "unat (x mod 512 :: DWORD) = unat x mod 512"
  by (simp add: unat_mod)

lemma mod_512_0: "(x :: DWORD) mod 512 = 0 \<longleftrightarrow> unat x mod 512 = 0"
  by (metis unat_mod_512 unat_eq_zero)

lemma unat_dec: "x \<noteq> 0 \<Longrightarrow> unat (x - 1 :: BYTE) = unat x - 1"
  by (metis unat_minus_one)

context disk_device
begin

lemma next_sector_coh:
  assumes coh: "coh s" and vol: "vol_ok dcap (cur_fs s)" and fp: "fp_fs fp = FatFs s"
    and fo: "file_on (dsec (disk s)) (cur_fs s) fp cl" and po: "pos_ok (cur_fs s) cl fp"
    and al: "unat (fp_fptr fp) mod 512 = 0" and lt: "fp_fptr fp < fp_fsize fp"
    and ns: "next_sector io fp s = (r, fp', s')"
  shows "coh s' \<and> sv s s' \<and> same_file fp fp' \<and> fp_fptr fp' = fp_fptr fp \<and>
    (\<forall>sect. r = Some sect \<longrightarrow>
       at_sector (cur_fs s) cl (fp'\<lparr>fp_curr_sect := sect\<rparr>) (unat (fp_fptr fp) div 512))
    \<and> (reads_ok \<longrightarrow> r \<noteq> None)"
proof -
  define n where "n = unat (fp_fptr fp) div 512"
  let ?fs = "cur_fs s"
  have chain: "chain_ok (dsec (disk s)) ?fs cl" and sz: "unat (fp_fsize fp) \<le> length cl * spc ?fs * 512"
    using fo by (auto simp: file_on_def)
  have p: "unat (fp_fptr fp) = n * 512" using al by (simp add: n_def nat_512_split [symmetric])
  have nl: "n < length cl * spc ?fs" using lt sz p by (simp add: word_less_nat_alt)
  have spos: "0 < spc ?fs" using vol_ok_pos [OF vol] by simp
  have nm: "n mod spc ?fs < spc ?fs" using spos by simp
  show ?thesis
  proof (cases "n = 0")
    case True
    then have z: "fp_fptr fp = 0" using p by (simp add: unat_eq_zero)
    then have sc: "fp_sect_clust fp = 1" using po by (simp add: pos_ok_def)
    have ne: "cl \<noteq> []" using nl by auto
    then have hd: "fp_org_clust fp = cl ! 0" using fo by (simp add: file_on_def hd_conv_nth)
    have v: "valid_clust ?fs (cl ! 0)" using chain ne by (auto intro: chain_valid)
    have "r = Some (clust2sect ?fs (cl ! 0))" "s' = s"
      "fp' = fp\<lparr>fp_sect_clust := fs_sects_clust ?fs, fp_curr_clust := cl ! 0\<rparr>"
      using ns z sc hd valid_clust_not [OF v] fp by (auto simp: next_sector_def Let_def split: if_splits)
    then show ?thesis
      using coh nl True z clust2sect_valid [OF vol v]
      by (simp add: at_sector_def file_sector_def same_file_def)
  next
    case n0: False
    then have nz: "fp_fptr fp \<noteq> 0" using p by auto
    have q: "(unat (fp_fptr fp) - 1) div 512 = n - 1" using p n0 by (cases n) auto
    have at: "at_sector ?fs cl fp (n - 1)" using po nz q by (simp add: pos_ok_def)
    show ?thesis
    proof (cases "n mod spc ?fs = 0")
      case False
      have d: "(n - 1) div spc ?fs = n div spc ?fs" "(n - 1) mod spc ?fs = n mod spc ?fs - 1"
      proof -
        have "n - 1 = n div spc ?fs * spc ?fs + (n mod spc ?fs - 1)"
          using False div_mult_mod_eq [of n "spc ?fs"] by linarith
        from div_mod_of [OF this] nm
        show "(n - 1) div spc ?fs = n div spc ?fs" "(n - 1) mod spc ?fs = n mod spc ?fs - 1"
          by linarith+
      qed
      have sc: "unat (fp_sect_clust fp) = spc ?fs - n mod spc ?fs + 1"
        using at d False nm by (simp add: at_sector_def)
      then have sc0: "fp_sect_clust fp \<noteq> 0" by auto
      then have sc1: "unat (fp_sect_clust fp - 1) = spc ?fs - n mod spc ?fs" using sc by (simp add: unat_dec)
      then have "fp_sect_clust fp - 1 \<noteq> 0" using nm by auto
      then have r: "r = Some (fp_curr_sect fp + 1)" "s' = s"
        "fp' = fp\<lparr>fp_sect_clust := fp_sect_clust fp - 1\<rparr>"
        using ns by (auto simp: next_sector_def Let_def)
      have fsn: "file_sector ?fs cl n = file_sector ?fs cl (n - 1) + 1"
        using d False by (simp add: file_sector_def)
      have "file_sector ?fs cl n < 4294967296"
        using file_sector_bound [OF vol chain nl] vol_ok_pos [OF vol] by linarith
      then have "unat (fp_curr_sect fp + 1) = file_sector ?fs cl n"
        using at fsn by (simp add: at_sector_def unat_word_ariths)
      then show ?thesis using r sc1 nl at d coh by (simp add: at_sector_def n_def [symmetric] same_file_def)
    next
      case True
      define i where "i = n div spc ?fs"
      have ni: "n = i * spc ?fs" using True by (metis i_def div_mult_mod_eq add.right_neutral)
      have i0: "0 < i" using n0 ni by (cases i) auto
      have il: "i < length cl" using nl ni spos by simp
      have d: "(n - 1) div spc ?fs = i - 1 \<and> (n - 1) mod spc ?fs = spc ?fs - 1"
      proof -
        have "n - 1 = (i - 1) * spc ?fs + (spc ?fs - 1)"
          using ni i0 spos by (cases i) auto
        then show ?thesis by (rule div_mod_of) (use spos in simp)
      qed
      have sc: "fp_sect_clust fp = 1"
        using at d spos by (simp add: at_sector_def unat_eq_Suc_0)
      have cc: "fp_curr_clust fp = cl ! (i - 1)" using at d by (simp add: at_sector_def)
      have lk: "fat_entry (dsec (disk s)) ?fs (cl ! (i - 1)) = cl ! i"
        using chain_link [OF chain, of "i - 1"] i0 il by simp
      have v: "valid_clust ?fs (cl ! i)" using chain il by (rule chain_valid)
      have vp: "valid_clust ?fs (cl ! (i - 1))" using chain il by (auto intro: chain_valid)
      obtain c s1 where gc: "get_cluster io (fp_curr_clust fp) s = (c, s1)" by (metis prod.exhaust)
      note g = get_cluster_coh [OF coh vol gc]
      have res: "(r, fp', s') = (if c < 2 \<or> fs_max_clust ?fs \<le> c
          then (None, fp\<lparr>fp_sect_clust := 0\<rparr>, s1)
          else (Some (clust2sect (cur_fs s1) c),
                fp\<lparr>fp_sect_clust := fs_sects_clust ?fs, fp_curr_clust := c\<rparr>, s1))"
        using ns sc nz gc fp by (auto simp: next_sector_def Let_def)
      show ?thesis
      proof (cases "c < 2 \<or> fs_max_clust ?fs \<le> c")
        case True
        then have "\<not> reads_ok" using g cc vp lk valid_clust_not [OF v] by auto
        then show ?thesis using True res g by (simp add: same_file_def)
      next
        case False
        then have "c \<noteq> 1" by (auto simp: word_less_nat_alt)
        then have "c = cl ! i" using g lk cc by simp
        have v1: "sv s s1" using g by simp
        show ?thesis
          using \<open>c = cl ! i\<close> False res g clust2sect_valid [OF vol v] nl True
          by (simp add: same_file_def at_sector_def n_def [symmetric] i_def file_sector_def vol_funs_same [OF v1] same_vol_simps(1) [OF v1])
      qed
    qed
  qed
qed

end

section \<open>The read loop\<close>

lemma same_file_fptr [simp]:
  "same_file fp (fp'\<lparr>fp_fptr := x\<rparr>) = same_file fp fp'"
  "same_file fp (fp'\<lparr>fp_curr_sect := y\<rparr>) = same_file fp fp'"
  "same_file fp (fp'\<lparr>fp_sect_clust := z\<rparr>) = same_file fp fp'"
  "same_file fp (fp'\<lparr>fp_curr_clust := c\<rparr>) = same_file fp fp'"
  by (cases fp; cases fp'; simp add: same_file_def)+

lemma at_sector_upd [simp]:
  "at_sector fs cl (fp\<lparr>fp_fptr := x\<rparr>) n = at_sector fs cl fp n"
  by (simp add: at_sector_def)

context disk_device
begin

lemma begin_round_coh:
  assumes coh: "coh s" and vol: "vol_ok dcap (cur_fs s)" and fp: "fp_fs fp = FatFs s"
    and fo: "file_on (dsec (disk s)) (cur_fs s) fp cl" and po: "pos_ok (cur_fs s) cl fp"
    and lt: "fp_fptr fp < fp_fsize fp"
    and br: "begin_round io fp btr s = (rd, fp', s')"
  shows "coh s' \<and> sv s s' \<and> same_file fp fp' \<and> fp_fptr fp' = fp_fptr fp \<and> (reads_ok \<longrightarrow> rd \<noteq> RoundError)"
    and "rd \<noteq> RoundError \<Longrightarrow> at_sector (cur_fs s) cl fp' (unat (fp_fptr fp) div 512)"
    and "rd = Direct cc \<Longrightarrow> unat (fp_fptr fp) mod 512 = 0 \<and> 0 < unat cc \<and> unat cc * 512 \<le> unat btr
      \<and> (unat (fp_fptr fp) div 512) mod spc (cur_fs s) + unat cc \<le> spc (cur_fs s) \<and> unat cc < 256"
proof -
  define n where "n = unat (fp_fptr fp) div 512"
  have "(coh s' \<and> sv s s' \<and> same_file fp fp' \<and> fp_fptr fp' = fp_fptr fp \<and> (reads_ok \<longrightarrow> rd \<noteq> RoundError))
    \<and> (rd \<noteq> RoundError \<longrightarrow> at_sector (cur_fs s) cl fp' n)
    \<and> (rd = Direct cc \<longrightarrow> unat (fp_fptr fp) mod 512 = 0 \<and> 0 < unat cc \<and> unat cc * 512 \<le> unat btr
      \<and> n mod spc (cur_fs s) + unat cc \<le> spc (cur_fs s) \<and> unat cc < 256)"
  proof (cases "fp_fptr fp mod 512 = 0")
    case False
    then have m: "unat (fp_fptr fp) mod 512 \<noteq> 0" by (simp add: mod_512_0)
    then have "fp_fptr fp \<noteq> 0" by auto
    then have "at_sector (cur_fs s) cl fp n"
      using po pred_div_512 [OF m] by (simp add: pos_ok_def n_def)
    then show ?thesis using False br coh by (auto simp: begin_round_def)
  next
    case True
    then have m: "unat (fp_fptr fp) mod 512 = 0" by (simp add: mod_512_0)
    obtain r fp1 s1 where ns: "next_sector io fp s = (r, fp1, s1)" by (metis prod_cases3)
    note n1 = next_sector_coh [OF coh vol fp fo po m lt ns, folded n_def]
    show ?thesis
    proof (cases r)
      case None
      then show ?thesis using True ns br n1 by (auto simp: begin_round_def)
    next
      case (Some sect)
      let ?fp = "fp1\<lparr>fp_curr_sect := sect\<rparr>"
      let ?cc = "btr div 512"
      let ?c2 = "if ?cc > ucast (fp_sect_clust ?fp) then ucast (fp_sect_clust ?fp) else ?cc"
      have at: "at_sector (cur_fs s) cl ?fp n" using n1 Some by simp
      have res: "(rd, fp', s') = (if ?cc \<noteq> 0 then (Direct ?c2, ?fp, s1) else (Windowed, ?fp, s1))"
        using True ns br Some by (simp add: begin_round_def Let_def)
      have spos: "0 < spc (cur_fs s)" "spc (cur_fs s) < 256" using vol_ok_pos [OF vol] by auto
      have sc: "unat (fp_sect_clust ?fp) = spc (cur_fs s) - n mod spc (cur_fs s)"
        using at by (simp add: at_sector_def)
      have nm: "n mod spc (cur_fs s) < spc (cur_fs s)" using spos by simp
      have ub: "unat ?cc = unat btr div 512" by (simp add: unat_div)
      have u2: "unat ?c2 = min (unat btr div 512) (unat (fp_sect_clust ?fp))"
        using ub by (auto simp: min_def word_less_nat_alt not_less)
      have "rd = Direct cc \<Longrightarrow> 0 < unat cc \<and> unat cc * 512 \<le> unat btr
        \<and> n mod spc (cur_fs s) + unat cc \<le> spc (cur_fs s) \<and> unat cc < 256"
      proof -
        assume rd: "rd = Direct cc"
        then have c0: "?cc \<noteq> 0" and cc: "cc = ?c2" using res by (auto split: if_splits)
        have b0: "0 < unat btr div 512" using c0 ub by (metis gr0I unat_eq_zero)
        have u: "unat cc = min (unat btr div 512) (spc (cur_fs s) - n mod spc (cur_fs s))"
          unfolding cc u2 sc ..
        have "unat cc * 512 \<le> unat btr div 512 * 512" using u by (intro mult_le_mono1) simp
        also have "\<dots> \<le> unat btr" by simp
        finally have "unat cc * 512 \<le> unat btr" .
        moreover have "0 < unat cc" "n mod spc (cur_fs s) + unat cc \<le> spc (cur_fs s)" "unat cc < 256"
          using u b0 nm spos by linarith+
        ultimately show ?thesis by blast
      qed
      then show ?thesis using res n1 at m by (auto split: if_splits)
    qed
  qed
  then show "coh s' \<and> sv s s' \<and> same_file fp fp' \<and> fp_fptr fp' = fp_fptr fp \<and> (reads_ok \<longrightarrow> rd \<noteq> RoundError)"
    and "rd \<noteq> RoundError \<Longrightarrow> at_sector (cur_fs s) cl fp' (unat (fp_fptr fp) div 512)"
    and "rd = Direct cc \<Longrightarrow> unat (fp_fptr fp) mod 512 = 0 \<and> 0 < unat cc \<and> unat cc * 512 \<le> unat btr
      \<and> (unat (fp_fptr fp) div 512) mod spc (cur_fs s) + unat cc \<le> spc (cur_fs s) \<and> unat cc < 256"
    by (auto simp: n_def)
qed

lemma sector_in_range:
  assumes "coh s" "vol_ok dcap (cur_fs s)" "file_on (dsec (disk s)) (cur_fs s) fp cl"
    and at: "at_sector (cur_fs s) cl fp n"
  shows "unat (fp_curr_sect fp) < dcap" "fp_curr_sect fp \<noteq> 0" "n < length cl * spc (cur_fs s)"
    "unat (fp_curr_sect fp) + (spc (cur_fs s) - n mod spc (cur_fs s)) \<le> dcap"
proof -
  show n: "n < length cl * spc (cur_fs s)" using at by (simp add: at_sector_def)
  note b = file_sector_bound [OF assms(2) _ n, of "dsec (disk s)"]
  have f: "chain_ok (dsec (disk s)) (cur_fs s) cl" using assms(3) by (simp add: file_on_def)
  have e: "unat (fp_curr_sect fp) = file_sector (cur_fs s) cl n" using at by (simp add: at_sector_def)
  show "unat (fp_curr_sect fp) < dcap"
    "unat (fp_curr_sect fp) + (spc (cur_fs s) - n mod spc (cur_fs s)) \<le> dcap"
    using b [OF f] e by linarith+
  show "fp_curr_sect fp \<noteq> 0" using b(2) [OF f] e by auto
qed

end

context disk_device
begin

lemma transfer_read:
  assumes coh: "coh s" and len: "rbuff + unat cc * 512 \<le> length buf" and cc: "unat cc < 256"
    and cap: "unat sect + unat cc \<le> dcap"
    and tr: "transfer_sectors io False buf rbuff sect cc s = (r, buf', s')"
  shows "coh s' \<and> sv s s' \<and> length buf' = length buf
    \<and> (r = RES_OK \<longrightarrow> buf' = blit buf rbuff (sectors (dsec (disk s)) (unat sect) (unat cc)))
    \<and> (reads_ok \<and> 0 < unat cc \<longrightarrow> r = RES_OK)"
proof -
  obtain r0 bs d where rd: "dio_read io 0 (drop rbuff buf) sect (ucast cc) (disk s) = (r0, bs, d)"
    by (metis prod_cases3)
  have u: "unat (ucast cc :: BYTE) = unat cc" using cc by (simp add: unat_ucast_down)
  have di: "dinv (disk s)" using coh by (simp add: coherent_def)
  have l: "512 * unat (ucast cc :: BYTE) \<le> length (drop rbuff buf)" using len u by simp
  have c: "unat sect + unat (ucast cc :: BYTE) \<le> dcap" using cap u by simp
  have res: "r = r0" "buf' = take rbuff buf @ bs" "s' = s\<lparr>disk := d\<rparr>"
    using tr rd by (auto simp: transfer_sectors_def)
  note fr = read_frame [OF di rd l c]
  have "r0 = RES_OK \<Longrightarrow> buf' = blit buf rbuff (sectors (dsec (disk s)) (unat sect) (unat cc))"
    using read_data [OF di _ l c, of bs d] rd u length_sectors [OF di] res len
    by (simp add: blit_def ac_simps)
  moreover have "reads_ok \<Longrightarrow> 0 < unat cc \<Longrightarrow> r0 = RES_OK"
    using reads_okD [OF _ di rd _ l c] u by fastforce
  ultimately show ?thesis using res fr coh len
    by (auto simp: coherent_def same_vol_def intro!: exI [of _ "fs_winsect (cur_fs s)"])
qed

text \<open>
  \<open>readable\<close>: the loop may start.  \<open>round_ok\<close>: a round has moved \<open>k\<close> bytes.  \<open>rw_spec\<close>: what the loop
  has done when it ends.
\<close>

definition readable :: "FIL \<Rightarrow> BYTE list \<Rightarrow> nat \<Rightarrow> WORD \<Rightarrow> WORD \<Rightarrow> 'd tff \<Rightarrow> WORD list \<Rightarrow> bool" where
  "readable fp buf rbuff btr br s cl \<longleftrightarrow>
     coh s \<and> vol_ok dcap (cur_fs s) \<and> fp_fs fp = FatFs s
     \<and> file_on (dsec (disk s)) (cur_fs s) fp cl \<and> pos_ok (cur_fs s) cl fp
     \<and> unat (fp_fptr fp) + unat btr \<le> unat (fp_fsize fp)
     \<and> rbuff + unat btr \<le> length buf \<and> unat br + unat btr < 65536"

definition round_ok :: "FIL \<Rightarrow> BYTE list \<Rightarrow> nat \<Rightarrow> 'd tff \<Rightarrow> WORD list \<Rightarrow> FIL \<Rightarrow> BYTE list \<Rightarrow> nat \<Rightarrow> 'd tff \<Rightarrow> bool" where
  "round_ok fp buf rbuff s cl fp2 buf2 k s2 \<longleftrightarrow>
     coh s2 \<and> sv s s2 \<and> same_file fp fp2 \<and> pos_ok (cur_fs s) cl fp2
     \<and> unat (fp_fptr fp2) = unat (fp_fptr fp) + k
     \<and> buf2 = blit buf rbuff (slice (unat (fp_fptr fp)) k (chain_bytes (dsec (disk s)) (cur_fs s) cl))"

definition rw_spec :: "FIL \<Rightarrow> BYTE list \<Rightarrow> nat \<Rightarrow> WORD \<Rightarrow> WORD \<Rightarrow> 'd tff \<Rightarrow> WORD list
    \<Rightarrow> bool \<Rightarrow> FIL \<Rightarrow> BYTE list \<Rightarrow> WORD \<Rightarrow> 'd tff \<Rightarrow> bool" where
  "rw_spec fp buf rbuff btr br s cl ok fp' buf' br' s' \<longleftrightarrow>
     coh s' \<and> sv s s' \<and> same_file fp fp' \<and> length buf' = length buf
     \<and> (reads_ok \<longrightarrow> ok)
     \<and> (ok \<longrightarrow> pos_ok (cur_fs s) cl fp' \<and> unat (fp_fptr fp') = unat (fp_fptr fp) + unat btr
         \<and> unat br' = unat br + unat btr
         \<and> buf' = blit buf rbuff (slice (unat (fp_fptr fp)) (unat btr) (chain_bytes (dsec (disk s)) (cur_fs s) cl)))"

lemma readable_content:
  assumes "readable fp buf rbuff btr br s cl"
  shows "length (dsec (disk s) m) = 512"
    "unat (fp_fptr fp) + unat btr \<le> length (chain_bytes (dsec (disk s)) (cur_fs s) cl)"
proof -
  have len: "\<And>m. length (dsec (disk s) m) = 512"
    using assms dsec_len by (simp add: readable_def coherent_def)
  then show "length (dsec (disk s) m) = 512" .
  show "unat (fp_fptr fp) + unat btr \<le> length (chain_bytes (dsec (disk s)) (cur_fs s) cl)"
    using assms by (simp add: readable_def file_on_def length_chain_bytes [OF len])
qed

lemma transported:
  assumes v: "sv s s'" and sf: "same_file fp fp'"
  shows "vol_ok dcap (cur_fs s') = vol_ok dcap (cur_fs s)"
    "file_on sec (cur_fs s') fp' cl = file_on sec (cur_fs s) fp cl"
    "at_sector (cur_fs s') cl = at_sector (cur_fs s) cl"
    "pos_ok (cur_fs s') cl = pos_ok (cur_fs s) cl"
    "chain_bytes sec (cur_fs s') cl = chain_bytes sec (cur_fs s) cl"
    "spc (cur_fs s') = spc (cur_fs s)" "dsec (disk s') = dsec (disk s)"
    "fp_fs fp' = FatFs s' \<longleftrightarrow> fp_fs fp = FatFs s"
proof -
  have fs: "cur_fs s' = fsobj s' (FatFs s)" using same_vol_simps(1) [OF v] by simp
  show "vol_ok dcap (cur_fs s') = vol_ok dcap (cur_fs s)"
    "file_on sec (cur_fs s') fp' cl = file_on sec (cur_fs s) fp cl"
    "at_sector (cur_fs s') cl = at_sector (cur_fs s) cl"
    "pos_ok (cur_fs s') cl = pos_ok (cur_fs s) cl"
    "chain_bytes sec (cur_fs s') cl = chain_bytes sec (cur_fs s) cl"
    "spc (cur_fs s') = spc (cur_fs s)" "dsec (disk s') = dsec (disk s)"
    "fp_fs fp' = FatFs s' \<longleftrightarrow> fp_fs fp = FatFs s"
    unfolding fs by (simp_all add: vol_ok_same [OF v] vol_funs_same [OF v] same_vol_simps [OF v]
        file_on_same [OF sf] same_file_simps [OF sf])
qed

lemma pos_ok_step:
  assumes at: "at_sector fs cl fp' m" and m: "m = (unat (fp_fptr fp) + k - 1) div 512"
    and fp: "fp_fptr fp' = fp_fptr fp + ucast (rc :: WORD)" and rc: "unat rc = k" "0 < k"
    and le: "unat (fp_fptr fp) + k \<le> unat (fp_fsize fp')"
  shows "pos_ok fs cl fp' \<and> unat (fp_fptr fp') = unat (fp_fptr fp) + k"
proof -
  have "unat (fp_fptr fp) + k < 4294967296" using le unat_bounds(3) [of "fp_fsize fp'"] by linarith
  then have u: "unat (fp_fptr fp') = unat (fp_fptr fp) + k"
    using fp rc by (simp add: unat_word_ariths)
  then have "fp_fptr fp' \<noteq> 0" using rc by auto
  then show ?thesis using u at m le by (simp add: pos_ok_def word_le_nat_alt)
qed

lemma count_step:
  assumes "unat (rc :: WORD) = k" "k \<le> unat (btr :: WORD)" "unat (br :: WORD) + unat btr < 65536"
  shows "unat (btr - rc) = unat btr - k" "unat (br + rc) = unat br + k"
  using assms by (simp_all add: unat_sub word_le_nat_alt unat_word_ariths)

lemma readable_step:
  assumes rd: "readable fp buf rbuff btr br s cl" and ro: "round_ok fp buf rbuff s cl fp2 buf2 k s2"
    and k: "unat rc = k" "k \<le> unat btr"
  shows "readable fp2 buf2 (rbuff + k) (btr - rc) (br + rc) s2 cl"
proof -
  have v: "sv s s2" and sf: "same_file fp fp2" using ro by (auto simp: round_ok_def)
  have "length buf2 = length buf"
    using ro rd k readable_content(2) [OF rd] by (simp add: round_ok_def readable_def length_slice)
  then show ?thesis
    using rd ro k count_step [OF k, of br]
    by (simp add: readable_def round_ok_def transported [OF v sf] same_file_simps(4) [OF sf])
qed

lemma rw_spec_step:
  assumes sp: "rw_spec fp2 buf2 (rbuff + k) (btr - rc) (br + rc) s2 cl ok fp' buf' br' s'"
    and rd: "readable fp buf rbuff btr br s cl" and ro: "round_ok fp buf rbuff s cl fp2 buf2 k s2"
    and k: "unat rc = k" "k \<le> unat btr"
  shows "rw_spec fp buf rbuff btr br s cl ok fp' buf' br' s'"
proof -
  let ?cb = "chain_bytes (dsec (disk s)) (cur_fs s) cl" and ?p = "unat (fp_fptr fp)"
  have v: "sv s s2" and sf: "same_file fp fp2" using ro by (auto simp: round_ok_def)
  have brb: "unat br + unat btr < 65536" and len: "rbuff + unat btr \<le> length buf"
    using rd by (auto simp: readable_def)
  have b: "buf2 = blit buf rbuff (slice ?p k ?cb)" using ro by (simp add: round_ok_def)
  have l: "length (slice ?p k ?cb) = k" "length (slice (?p + k) (unat btr - k) ?cb) = unat btr - k"
    using readable_content(2) [OF rd] k by (simp_all add: length_slice)
  have lb: "length buf2 = length buf" using b l len k by simp
  have "blit buf2 (rbuff + k) (slice (?p + k) (unat btr - k) ?cb) = blit buf rbuff (slice ?p (unat btr) ?cb)"
    using blit_blit_adjacent [of rbuff "slice ?p k ?cb" "slice (?p + k) (unat btr - k) ?cb" buf] l len k b
    by (simp add: slice_append_slice)
  then show ?thesis
    using sp ro same_vol_trans [OF v, of s'] same_file_trans [OF sf, of fp'] lb count_step [OF k brb] k
    by (auto simp: rw_spec_def round_ok_def transported [OF v sf])
qed

text \<open>The position after a round that moves whole sectors.\<close>

lemma direct_position:
  assumes rd: "readable fp buf rbuff btr br s cl" and b0: "btr \<noteq> 0"
    and bg: "begin_round io fp btr s = (Direct cc, fp1, s1)"
    and fp2: "fp2 = fp1\<lparr>fp_sect_clust := fp_sect_clust fp1 - ucast (cc - 1),
      fp_curr_sect := fp_curr_sect fp1 + ucast (cc - 1), fp_fptr := fp_fptr fp1 + ucast (cc * 512)\<rparr>"
    and n: "n = unat (fp_fptr fp) div 512"
  shows "coh s1" "sv s s1" "same_file fp fp1" "same_file fp fp2" "unat (fp_fptr fp) = n * 512"
    and "n < length cl * spc (cur_fs s)" "n mod spc (cur_fs s) + unat cc \<le> spc (cur_fs s)"
      "unat (fp_curr_sect fp1) = file_sector (cur_fs s) cl n"
    and "unat (fp_curr_sect fp1) + unat cc \<le> dcap" "unat cc < 256" "0 < unat cc"
    and "unat (cc * 512) = unat cc * 512" "unat cc * 512 \<le> unat btr" "rbuff + unat cc * 512 \<le> length buf"
    and "pos_ok (cur_fs s) cl fp2 \<and> unat (fp_fptr fp2) = unat (fp_fptr fp) + unat cc * 512"
proof -
  let ?fs = "cur_fs s" and ?p = "unat (fp_fptr fp)" and ?k = "unat cc * 512"
  have lt: "fp_fptr fp < fp_fsize fp"
    using rd b0 by (auto simp: readable_def word_less_nat_alt simp flip: unat_gt_0)
  note R = rd [unfolded readable_def]
  note bg' = begin_round_coh [OF _ _ _ _ _ lt bg, where cl = cl]
  have v1: "coh s1" "sv s s1" "same_file fp fp1" "fp_fptr fp1 = fp_fptr fp" using bg'(1) R by auto
  then show "coh s1" "sv s s1" "same_file fp fp1" by blast+
  have at: "at_sector ?fs cl fp1 n" using bg'(2) R by (simp add: n)
  have d: "?p mod 512 = 0" "0 < unat cc" "?k \<le> unat btr" "n mod spc ?fs + unat cc \<le> spc ?fs" "unat cc < 256"
    using bg'(3) R by (simp_all add: n)
  then show "?k \<le> unat btr" "0 < unat cc" "n mod spc ?fs + unat cc \<le> spc ?fs" "unat cc < 256" by blast+
  show "rbuff + unat cc * 512 \<le> length buf" using R d(3) by linarith
  show urc: "unat (cc * 512) = ?k" using d(3) unat_bounds(2) [of btr] by (simp add: unat_word_ariths)
  note tp = transported [OF v1(2,3)]
  show cap: "unat (fp_curr_sect fp1) + unat cc \<le> dcap"
    using sector_in_range(4) [OF v1(1), where fp = fp1 and cl = cl and n = n] R at d(4) by (simp add: tp)
  show pn: "?p = n * 512" using d(1) by (simp add: n nat_512_split [symmetric])
  obtain j where j: "unat cc = Suc j" using d(2) by (cases "unat cc") auto
  have ucc: "unat (cc - 1) = unat cc - 1" using d(2) by (metis unat_minus_one unat_gt_0)
  show nl: "n < length cl * spc ?fs" and "unat (fp_curr_sect fp1) = file_sector ?fs cl n"
    using at by (simp_all add: at_sector_def)
  have nm: "(n + (unat cc - 1)) div spc ?fs = n div spc ?fs"
    "(n + (unat cc - 1)) mod spc ?fs = n mod spc ?fs + (unat cc - 1)"
    using d(2,4) by (intro add_within; linarith)+
  have "unat (fp_sect_clust fp1 - ucast (cc - 1)) = spc ?fs - n mod spc ?fs - (unat cc - 1)"
    using d(4,5) at by (subst unat_sub) (simp_all add: word_le_nat_alt unat_ucast_down ucc at_sector_def)
  moreover have "unat (fp_curr_sect fp1 + ucast (cc - 1)) = unat (fp_curr_sect fp1) + (unat cc - 1)"
    using cap d(2) dcap_bound by (simp add: unat_word_ariths ucc)
  ultimately have at2: "at_sector ?fs cl fp2 (n + (unat cc - 1))"
    using at nm chain_sectors_slice(2) [OF d(4) nl d(2)] j by (simp add: at_sector_def fp2 file_sector_def)
  have "?p + ?k - 1 = (n + (unat cc - 1)) * 512 + 511" using pn d(2) by (simp add: algebra_simps)
  then have m: "n + (unat cc - 1) = (?p + ?k - 1) div 512"
    using div_mod_of [of "?p + ?k - 1" "n + (unat cc - 1)" 512 511] by simp
  show sf2: "same_file fp fp2" using v1 by (simp add: fp2)
  show "pos_ok ?fs cl fp2 \<and> unat (fp_fptr fp2) = ?p + ?k"
    using pos_ok_step [OF at2 m _ urc] d R same_file_simps(4) [OF sf2] v1 by (simp add: fp2)
qed

lemma direct_round:
  assumes rd: "readable fp buf rbuff btr br s cl" and b0: "btr \<noteq> 0"
    and bg: "begin_round io fp btr s = (Direct cc, fp1, s1)"
    and tr: "transfer_sectors io False buf rbuff (fp_curr_sect fp1) cc s1 = (r, buf2, s2)"
    and fp2: "fp2 = fp1\<lparr>fp_sect_clust := fp_sect_clust fp1 - ucast (cc - 1),
      fp_curr_sect := fp_curr_sect fp1 + ucast (cc - 1), fp_fptr := fp_fptr fp1 + ucast (cc * 512)\<rparr>"
  shows "coh s2 \<and> sv s s2 \<and> same_file fp fp1 \<and> length buf2 = length buf \<and> (reads_ok \<longrightarrow> r = RES_OK)"
    and "r = RES_OK \<Longrightarrow> round_ok fp buf rbuff s cl fp2 buf2 (unat cc * 512) s2"
    and "unat (cc * 512) = unat cc * 512" "unat cc * 512 \<le> unat btr" "0 < unat cc"
proof -
  note p = direct_position [OF rd b0 bg fp2 refl]
  show "unat (cc * 512) = unat cc * 512" "unat cc * 512 \<le> unat btr" "0 < unat cc" by (fact p)+
  note tp = transported [OF p(2,3)]
  note t = transfer_read [OF p(1,14,10,9) tr]
  have v2: "sv s s2" using t p(2) same_vol_trans by blast
  show "coh s2 \<and> sv s s2 \<and> same_file fp fp1 \<and> length buf2 = length buf \<and> (reads_ok \<longrightarrow> r = RES_OK)"
    using t p(3,11) v2 by blast
  assume ok: "r = RES_OK"
  have "buf2 = blit buf rbuff (slice (unat (fp_fptr fp)) (unat cc * 512) (chain_bytes (dsec (disk s)) (cur_fs s) cl))"
    using t ok chain_bytes_slice [OF readable_content(1) [OF rd] p(7,6,11)] p(8) tp p(5) by simp
  then show "round_ok fp buf rbuff s cl fp2 buf2 (unat cc * 512) s2"
    using t p(4,15) v2 by (auto simp: round_ok_def)
qed

lemma windowed_round:
  assumes rd: "readable fp buf rbuff btr br s cl" and b0: "btr \<noteq> 0"
    and bg: "begin_round io fp btr s = (Windowed, fp1, s1)"
    and mw: "move_window io (fp_curr_sect fp1) s1 = (ok, s2)"
    and rc: "rc = (if 512 - ucast (fp_fptr fp1 mod 512) > btr then btr else 512 - ucast (fp_fptr fp1 mod 512))"
    and fp2: "fp2 = fp1\<lparr>fp_fptr := fp_fptr fp1 + ucast rc\<rparr>"
  shows "coh s2 \<and> sv s s2 \<and> same_file fp fp1 \<and> (reads_ok \<longrightarrow> ok)"
    and "ok \<Longrightarrow> round_ok fp buf rbuff s cl fp2
      (blit buf rbuff (slice (unat (fp_fptr fp1 mod 512)) (unat rc) (fs_win s2))) (unat rc) s2"
    and "unat rc \<le> unat btr" "0 < unat rc"
proof -
  let ?fs = "cur_fs s" and ?p = "unat (fp_fptr fp)"
  define n where "n = ?p div 512"
  have lt: "fp_fptr fp < fp_fsize fp"
    using rd b0 by (auto simp: readable_def word_less_nat_alt simp flip: unat_gt_0)
  note R = rd [unfolded readable_def]
  note bg' = begin_round_coh [OF _ _ _ _ _ lt bg, where cl = cl]
  have v1: "coh s1" "sv s s1" "same_file fp fp1" "fp_fptr fp1 = fp_fptr fp" using bg'(1) R by auto
  have at: "at_sector ?fs cl fp1 n" using bg'(2) R by (simp add: n_def)
  note tp = transported [OF v1(2,3)]
  have rg: "unat (fp_curr_sect fp1) < dcap" "fp_curr_sect fp1 \<noteq> 0"
    using sector_in_range(1,2) [OF v1(1), where fp = fp1 and cl = cl and n = n] R at
    by (simp_all add: tp del: word_neq_0_conv)
  note t = move_window_coh [OF v1(1) rg(1) mw]
  have v2: "sv s s2" using t v1 same_vol_trans by blast
  show "coh s2 \<and> sv s s2 \<and> same_file fp fp1 \<and> (reads_ok \<longrightarrow> ok)" using t v1 v2 by blast
  have uo: "unat (512 - ucast (fp_fptr fp1 mod 512) :: WORD) = 512 - ?p mod 512"
    using v1 by (subst unat_sub) (simp_all add: word_le_nat_alt unat_ucast_down unat_mod_512)
  have urc: "unat rc = min (unat btr) (512 - ?p mod 512)"
    using rc uo by (auto simp: word_less_nat_alt min_def not_less)
  then show le: "unat rc \<le> unat btr" by simp
  show pos: "0 < unat rc" using urc b0 by (simp add: unat_gt_0)
  assume ok
  have in512: "?p mod 512 + unat rc \<le> 512" using urc mod_less_divisor [of 512 ?p] by linarith
  have at2: "at_sector ?fs cl fp2 n" using at by (simp add: fp2)
  have sf2: "same_file fp fp2" using v1 by (simp add: fp2)
  have m: "n = (?p + unat rc - 1) div 512" using add_div_512 [OF in512 pos] by (simp add: n_def)
  have "pos_ok ?fs cl fp2 \<and> unat (fp_fptr fp2) = ?p + unat rc"
    using pos_ok_step [OF at2 m _ refl pos] le R same_file_simps(4) [OF sf2] v1 by (simp add: fp2)
  moreover have "slice (unat (fp_fptr fp1 mod 512)) (unat rc) (fs_win s2)
      = slice ?p (unat rc) (chain_bytes (dsec (disk s)) ?fs cl)"
  proof -
    have nl: "n < length cl * spc ?fs" "n mod spc ?fs + 1 \<le> spc ?fs"
      using at R vol_ok_pos(2) [of dcap ?fs] by (auto simp: at_sector_def Suc_le_eq)
    have "slice (n * 512) 512 (chain_bytes (dsec (disk s)) ?fs cl) = fs_win s2"
      using chain_bytes_slice [OF readable_content(1) [OF rd] nl(2,1)] t \<open>ok\<close> rg at
      by (simp add: tp at_sector_def)
    from slice_within_sector [OF this n_def [symmetric] in512]
    show ?thesis using v1 by (simp add: unat_mod_512)
  qed
  ultimately show "round_ok fp buf rbuff s cl fp2
      (blit buf rbuff (slice (unat (fp_fptr fp1 mod 512)) (unat rc) (fs_win s2))) (unat rc) s2"
    using t sf2 v1 v2 by (auto simp: round_ok_def)
qed

lemma rw_loop_read:
  assumes "readable fp buf rbuff btr br s cl"
  shows "\<exists>ok fp' buf' br' s'. rw_loop io False fp buf rbuff btr br s = Some (ok, fp', buf', br', s')
    \<and> rw_spec fp buf rbuff btr br s cl ok fp' buf' br' s'"
  using assms
proof (induction "unat btr" arbitrary: btr fp buf rbuff br s rule: less_induct)
  case less
  note rd = less.prems
  show ?case
  proof (cases "btr = 0")
    case True
    then show ?thesis using rd
      by (subst rw_loop.simps) (auto simp: rw_spec_def readable_def)
  next
    case b0: False
    have continue: ?thesis
      if ro: "round_ok fp buf rbuff s cl fp2 buf2 k s2" and k: "unat rc = k" "k \<le> unat btr" "0 < k"
        and lp: "rw_loop io False fp buf rbuff btr br s
          = rw_loop io False fp2 buf2 (rbuff + k) (btr - rc) (br + rc) s2"
      for fp2 buf2 k s2 rc
    proof -
      have "unat (btr - rc) < unat btr" using count_step(1) [OF k(1,2), of 0] k(2,3) unat_bounds(2) [of btr] by simp
      from less.hyps [OF this readable_step [OF rd ro k(1,2)]]
      show ?thesis using rw_spec_step [OF _ rd ro k(1,2)] lp by fastforce
    qed
    obtain r1 fp1 s1 where bg: "begin_round io fp btr s = (r1, fp1, s1)" by (metis prod_cases3)
    show ?thesis
    proof (cases r1)
      case RoundError
      have "fp_fptr fp < fp_fsize fp"
        using rd b0 by (auto simp: readable_def word_less_nat_alt simp flip: unat_gt_0)
      then show ?thesis using b0 bg RoundError begin_round_coh(1) [OF _ _ _ _ _ _ bg] rd
        by (subst rw_loop.simps) (auto simp: rw_spec_def readable_def)
    next
      case (Direct cc)
      obtain r bs s2 where tr: "transfer_sectors io False buf rbuff (fp_curr_sect fp1) cc s1 = (r, bs, s2)"
        by (metis prod_cases3)
      note D = direct_round [OF rd b0 bg [unfolded Direct] tr refl]
      show ?thesis
      proof (cases "r = RES_OK")
        case False
        then show ?thesis using b0 bg Direct tr D(1)
          by (subst rw_loop.simps) (auto simp: rw_spec_def)
      next
        case True
        show ?thesis
          by (rule continue [OF D(2) [OF True] D(3,4)], simp add: D(5), subst rw_loop.simps)
             (use b0 bg Direct tr True D(3) in \<open>simp add: Let_def\<close>)
      qed
    next
      case Windowed
      obtain ok s2 where mw: "move_window io (fp_curr_sect fp1) s1 = (ok, s2)" by (metis prod.exhaust)
      note W = windowed_round [OF rd b0 bg [unfolded Windowed] mw refl refl]
      show ?thesis
      proof (cases ok)
        case False
        then show ?thesis using b0 bg Windowed mw W(1)
          by (subst rw_loop.simps) (auto simp: rw_spec_def)
      next
        case True
        show ?thesis
          by (rule continue [OF W(2) [OF True] refl W(3,4)], subst rw_loop.simps)
             (use b0 bg Windowed mw True in \<open>simp add: Let_def\<close>)
      qed
    qed
  qed
qed

end

section \<open>\<open>f_read\<close> and \<open>f_lseek\<close>\<close>

lemma error_flag: "has (x OR FA_ERROR) FA_ERROR"
proof -
  have "bit ((x OR FA_ERROR) AND FA_ERROR) 7" by (simp add: FA_ERROR_def bit_simps)
  then show ?thesis by (auto simp: has_def)
qed

definition file_bytes :: "(nat \<Rightarrow> BYTE list) \<Rightarrow> FATFS \<Rightarrow> FIL \<Rightarrow> WORD list \<Rightarrow> BYTE list" where
  "file_bytes sec fs fp cl = take (unat (fp_fsize fp)) (chain_bytes sec fs cl)"

lemma length_file_bytes:
  assumes "\<And>m. length (sec m) = 512" "file_on sec fs fp cl"
  shows "length (file_bytes sec fs fp cl) = unat (fp_fsize fp)"
  using assms(2) length_chain_bytes [where fs = fs and cl = cl, OF assms(1)] by (simp add: file_bytes_def file_on_def)

text \<open>The handle is open for reading on the file system object in use.\<close>

definition open_on :: "'d diskio \<Rightarrow> FIL \<Rightarrow> 'd tff \<Rightarrow> bool" where
  "open_on io fp s \<longleftrightarrow>
     fp_fs fp = FatFs s \<and> validate io (FatFs s) (fp_id fp) s = FR_OK
     \<and> \<not> has (fp_flag fp) FA_ERROR \<and> has (fp_flag fp) FA_READ"

lemma validate_same:
  "same_vol io dsec s s' \<Longrightarrow> validate io p i s' = validate io p i s"
  by (simp add: validate_def same_vol_simps)

text \<open>The number of bytes asked for is cut to what is left of the file.\<close>

lemma clipped_count:
  assumes "fp_fptr fp \<le> fp_fsize fp"
  shows "unat (if ucast btr > fp_fsize fp - fp_fptr fp then ucast (fp_fsize fp - fp_fptr fp) else btr :: WORD)
    = min (unat btr) (unat (fp_fsize fp) - unat (fp_fptr fp))"
proof -
  have ur: "unat (fp_fsize fp - fp_fptr fp) = unat (fp_fsize fp) - unat (fp_fptr fp)"
    using assms by (rule unat_sub)
  show ?thesis
  proof (cases "ucast btr > fp_fsize fp - fp_fptr fp")
    case True
    then have "unat (fp_fsize fp - fp_fptr fp) < unat btr" by (simp add: word_less_nat_alt)
    then show ?thesis using True ur unat_bounds(2) [of btr] by (simp add: unat_ucast_down)
  next
    case False
    then have "unat btr \<le> unat (fp_fsize fp - fp_fptr fp)" by (simp add: word_le_nat_alt not_less)
    then show ?thesis using False ur by simp
  qed
qed

context disk_device
begin

lemma f_read_content:
  assumes coh: "coh s" and vol: "vol_ok dcap (cur_fs s)" and op: "open_on io fp s"
    and fo: "file_on (dsec (disk s)) (cur_fs s) fp cl" and po: "pos_ok (cur_fs s) cl fp"
    and n: "n = min (unat btr) (unat (fp_fsize fp) - unat (fp_fptr fp))" and len: "n \<le> length buf"
  shows "\<exists>r fp' buf' br s'. f_read io fp buf btr s = Some (r, fp', buf', br, s')
    \<and> coh s' \<and> sv s s' \<and> length buf' = length buf \<and> (reads_ok \<longrightarrow> r = FR_OK)
    \<and> (r = FR_OK \<and> same_file fp fp' \<and> pos_ok (cur_fs s) cl fp'
        \<and> unat br = n \<and> unat (fp_fptr fp') = unat (fp_fptr fp) + n
        \<and> buf' = blit buf 0 (slice (unat (fp_fptr fp)) n (file_bytes (dsec (disk s)) (cur_fs s) fp cl))
       \<or> r = FR_RW_ERROR \<and> has (fp_flag fp') FA_ERROR)"
proof -
  have lw: "fp_fptr fp \<le> fp_fsize fp" using po by (simp add: pos_ok_def)
  then have le: "unat (fp_fptr fp) \<le> unat (fp_fsize fp)" by (simp add: word_le_nat_alt)
  define b where "b = (if ucast btr > fp_fsize fp - fp_fptr fp then ucast (fp_fsize fp - fp_fptr fp) else btr)"
  have ub: "unat b = n" unfolding b_def n by (rule clipped_count [OF lw])
  have "unat (fp_fptr fp) + unat b \<le> unat (fp_fsize fp)" using ub n le by linarith
  then have "readable fp buf 0 b 0 s cl"
    using coh vol op fo po len ub unat_bounds(2) [of b] by (simp add: readable_def open_on_def)
  from rw_loop_read [OF this] obtain ok fp' buf' br' s' where
    lp: "rw_loop io False fp buf 0 b 0 s = Some (ok, fp', buf', br', s')"
    and sp: "rw_spec fp buf 0 b 0 s cl ok fp' buf' br' s'" by blast
  have f: "f_read io fp buf btr s = Some (if ok then (FR_OK, fp', buf', br', s')
      else (FR_RW_ERROR, fp'\<lparr>fp_flag := fp_flag fp' OR FA_ERROR\<rparr>, buf', br', s'))"
    unfolding f_read_def f_read_or_wr_def Let_def b_def [symmetric]
    using op lp by (simp add: open_on_def)
  note e = error_flag
  have sl: "slice (unat (fp_fptr fp)) n (file_bytes (dsec (disk s)) (cur_fs s) fp cl)
      = slice (unat (fp_fptr fp)) n (chain_bytes (dsec (disk s)) (cur_fs s) cl)"
    unfolding file_bytes_def by (rule slice_take) (use n le in linarith)
  show ?thesis
    using f sp e ub sl by (cases ok) (auto simp: rw_spec_def)
qed

text \<open>Seeking without extending the file: the loop stops in the cluster of the byte before the target.\<close>

lemma lseek_loop_ro:
  assumes "coh s" "vol_ok dcap (cur_fs s)" "fp_fs fp = FatFs s"
    and "file_on (dsec (disk s)) (cur_fs s) fp cl" "FS_READONLY io \<or> \<not> has (fp_flag fp) FA_WRITE"
    and "k < length cl" "clust = cl ! k" "0 < unat ofs" "unat (fp_fptr fp) = k * m"
    and "t = k * m + unat ofs" "t \<le> unat (fp_fsize fp)" "m = spc (cur_fs s) * 512" "unat csize = m"
  shows "\<exists>r fp' s'. lseek_loop io csize fp clust ofs s = Some (r, fp', s')
    \<and> coh s' \<and> sv s s' \<and> same_file fp fp' \<and> (reads_ok \<longrightarrow> r \<noteq> None)
    \<and> (\<forall>c o'. r = Some (c, o') \<longrightarrow> (\<exists>j < length cl. c = cl ! j \<and> fp_curr_clust fp' = c
          \<and> t = j * m + unat o' \<and> 0 < unat o' \<and> unat o' \<le> m \<and> unat (fp_fptr fp') = j * m))"
  using assms
proof (induction "unat ofs" arbitrary: fp clust ofs s k rule: less_induct)
  case less
  note coh = less.prems(1) and vol = less.prems(2) and fp = less.prems(3) and fo = less.prems(4)
    and ro = less.prems(5) and k = less.prems(6) and cl = less.prems(7) and o0 = less.prems(8)
    and pt = less.prems(9) and t = less.prems(10) and tle = less.prems(11) and m = less.prems(12)
    and cs = less.prems(13)
  let ?fp = "fp\<lparr>fp_curr_clust := clust\<rparr>"
  have m0: "0 < m" using vol_ok_pos(2) [OF vol] m by simp
  have chain: "chain_ok (dsec (disk s)) (cur_fs s) cl" using fo by (simp add: file_on_def)
  show ?case
  proof (cases "ofs \<le> csize")
    case True
    then show ?thesis using coh k cl o0 pt t cs
      by (subst lseek_loop.simps) (auto simp: Let_def word_le_nat_alt)
  next
    case False
    then have om: "m < unat ofs" using cs by (simp add: word_le_nat_alt)
    have k1: "k + 1 < length cl"
    proof -
      have "(k + 1) * m < length cl * m" using t tle om fo m by (simp add: file_on_def)
      then show ?thesis by (metis mult_less_cancel2)
    qed
    obtain c s1 where gc: "get_cluster io clust s = (c, s1)" by (metis prod.exhaust)
    note g = get_cluster_coh [OF coh vol gc]
    have v1: "sv s s1" and coh1: "coh s1" using g by auto
    have lk: "c = 1 \<or> c = cl ! (k + 1)" using g chain_link [OF chain k1] cl by auto
    note cv = valid_clust_not [OF chain_valid [OF chain k1]]
    show ?thesis
    proof (cases "c = 1")
      case True
      then have "\<not> reads_ok"
        using g chain_valid [OF chain k] cl chain_link [OF chain k1] cv(3) by auto
      then show ?thesis using True False ro gc g
        by (subst lseek_loop.simps) (auto simp: Let_def)
    next
      case c1: False
      then have c: "c = cl ! (k + 1)" using lk by simp
      define fp2 where "fp2 = ?fp\<lparr>fp_fptr := fp_fptr fp + csize\<rparr>"
      have sf2: "same_file fp fp2" by (simp add: fp2_def)
      note tp = transported [OF v1 sf2]
      have mx: "fs_max_clust (fsobj s1 (fp_fs fp)) = fs_max_clust (cur_fs s)"
        using same_vol_simps [OF v1] fp by simp
      have step: "lseek_loop io csize fp clust ofs s = lseek_loop io csize fp2 c (ofs - csize) s1"
        using False ro gc c1 cv c mx by (subst lseek_loop.simps) (auto simp: Let_def fp2_def)
      have uo: "unat (ofs - csize) = unat ofs - m" using om cs by (simp add: unat_sub word_le_nat_alt)
      have "unat (fp_fptr fp) + unat csize < 4294967296"
        using pt cs t om tle unat_bounds(3) [of "fp_fsize fp"] by linarith
      then have up: "unat (fp_fptr fp2) = (k + 1) * m"
        using pt cs by (simp add: fp2_def unat_word_ariths)
      have "\<exists>r fp' s'. lseek_loop io csize fp2 c (ofs - csize) s1 = Some (r, fp', s')
        \<and> coh s' \<and> sv s1 s' \<and> same_file fp2 fp' \<and> (reads_ok \<longrightarrow> r \<noteq> None)
        \<and> (\<forall>c o'. r = Some (c, o') \<longrightarrow> (\<exists>j < length cl. c = cl ! j \<and> fp_curr_clust fp' = c
              \<and> t = j * m + unat o' \<and> 0 < unat o' \<and> unat o' \<le> m \<and> unat (fp_fptr fp') = j * m))"
      proof (rule less.hyps [OF _ coh1 _ _ _ _ k1 c _ up _ _ _ cs])
        show "unat (ofs - csize) < unat ofs" using uo m0 om by simp
        show "vol_ok dcap (cur_fs s1)" "m = spc (cur_fs s1) * 512" using tp vol m by simp_all
        show "fp_fs fp2 = FatFs s1" using tp(8) fp by blast
        show "file_on (dsec (disk s1)) (cur_fs s1) fp2 cl" using tp fo by simp
        show "FS_READONLY io \<or> \<not> has (fp_flag fp2) FA_WRITE" using ro by (simp add: fp2_def)
        show "0 < unat (ofs - csize)" using uo om by simp
        show "t = (k + 1) * m + unat (ofs - csize)" using uo om t by simp
        show "t \<le> unat (fp_fsize fp2)" using tle by (simp add: fp2_def)
      qed
      then show ?thesis using step same_vol_trans [OF v1] same_file_trans [OF sf2] by metis
    qed
  qed
qed

end

context disk_device
begin

lemma lseek_move_ro:
  assumes coh: "coh s" and vol: "vol_ok dcap (cur_fs s)" and fp: "fp_fs fp = FatFs s"
    and fo: "file_on (dsec (disk s)) (cur_fs s) fp cl" and ro: "FS_READONLY io \<or> \<not> has (fp_flag fp) FA_WRITE"
    and p0: "fp_fptr fp = 0" and o0: "ofs \<noteq> 0" and ole: "ofs \<le> fp_fsize fp"
  shows "\<exists>ok fp' s'. lseek_move io fp ofs s = Some (ok, fp', s') \<and> coh s' \<and> sv s s' \<and> same_file fp fp'
    \<and> (reads_ok \<longrightarrow> ok) \<and> (ok \<longrightarrow> fp_fptr fp' = ofs \<and> pos_ok (cur_fs s) cl fp')"
proof -
  let ?m = "spc (cur_fs s) * 512" and ?t = "unat ofs"
  define csize :: DWORD where "csize = ucast (fs_sects_clust (cur_fs s)) * 512"
  have spos: "0 < spc (cur_fs s)" "spc (cur_fs s) < 256" using vol_ok_pos [OF vol] by auto
  have ucs: "unat csize = ?m" using spos by (simp add: csize_def unat_word_ariths)
  have t0: "0 < ?t" and tle: "?t \<le> unat (fp_fsize fp)"
    using o0 ole by (simp_all add: unat_gt_0 word_le_nat_alt)
  have sz: "unat (fp_fsize fp) \<le> length cl * ?m" and chain: "chain_ok (dsec (disk s)) (cur_fs s) cl"
    using fo by (auto simp: file_on_def)
  have ne: "cl \<noteq> []" using t0 tle sz by auto
  then have hd: "fp_org_clust fp = cl ! 0" using fo by (simp add: file_on_def hd_conv_nth)
  have c0: "cl ! 0 \<noteq> 0" using valid_clust_not(4) [OF chain_valid [OF chain]] ne by simp
  have "\<exists>r fp' s'. lseek_loop io csize fp (cl ! 0) ofs s = Some (r, fp', s')
    \<and> coh s' \<and> sv s s' \<and> same_file fp fp' \<and> (reads_ok \<longrightarrow> r \<noteq> None)
    \<and> (\<forall>c o'. r = Some (c, o') \<longrightarrow> (\<exists>j < length cl. c = cl ! j \<and> fp_curr_clust fp' = c
          \<and> ?t = j * ?m + unat o' \<and> 0 < unat o' \<and> unat o' \<le> ?m \<and> unat (fp_fptr fp') = j * ?m))"
    by (rule lseek_loop_ro [OF coh vol fp fo ro, where k = 0]) (use ne t0 p0 tle ucs in auto)
  then obtain r fp1 s1 where lp: "lseek_loop io csize fp (cl ! 0) ofs s = Some (r, fp1, s1)"
    and s1: "coh s1" "sv s s1" "same_file fp fp1" "reads_ok \<longrightarrow> r \<noteq> None"
    and r: "\<And>c o'. r = Some (c, o') \<Longrightarrow> \<exists>j < length cl. c = cl ! j \<and> fp_curr_clust fp1 = c
          \<and> ?t = j * ?m + unat o' \<and> 0 < unat o' \<and> unat o' \<le> ?m \<and> unat (fp_fptr fp1) = j * ?m"
    by blast
  have fs1: "cur_fs s1 = fsobj s1 (FatFs s)" using same_vol_simps(1) [OF s1(2)] by simp
  have mv: "lseek_move io fp ofs s = (case r of None \<Rightarrow> Some (False, fp1, s1)
      | Some (c, o') \<Rightarrow> Some (True, fp1\<lparr>fp_curr_sect := clust2sect (cur_fs s1) c + ucast (ucast ((o' - 1) div 512) :: BYTE),
          fp_sect_clust := fs_sects_clust (cur_fs s) - ucast ((o' - 1) div 512), fp_fptr := fp_fptr fp1 + o'\<rparr>, s1))"
    using hd c0 lp fp by (simp add: lseek_move_def csize_def Let_def split: option.splits prod.splits)
  show ?thesis
  proof (cases r)
    case None
    then show ?thesis using mv s1 by auto
  next
    case (Some co)
    obtain c o' where co: "co = (c, o')" by fastforce
    from r [OF Some [unfolded co]] obtain j where j: "j < length cl" "c = cl ! j" "fp_curr_clust fp1 = c"
      "?t = j * ?m + unat o'" "0 < unat o'" "unat o' \<le> ?m" "unat (fp_fptr fp1) = j * ?m" by blast
    define n where "n = (?t - 1) div 512"
    let ?x = "(unat o' - 1) div 512"
    let ?cs = "ucast ((o' - 1) div 512) :: BYTE"
    define fp2 where "fp2 = fp1\<lparr>fp_curr_sect := clust2sect (cur_fs s1) c + ucast ?cs,
      fp_sect_clust := fs_sects_clust (cur_fs s) - ?cs, fp_fptr := fp_fptr fp1 + o'\<rparr>"
    note n = sector_of_target [OF j(4-6), folded n_def]
    have o1: "unat (o' - 1) = unat o' - 1" using j(5) by (metis unat_minus_one unat_gt_0)
    have ucs': "unat ?cs = ?x" using n(3) spos by (simp add: unat_ucast_down unat_div o1)
    have v: "valid_clust (cur_fs s) c" using chain_valid [OF chain j(1)] j(2) by simp
    have c2: "unat (clust2sect (cur_fs s1) c) = first_sector (cur_fs s) c"
      using clust2sect_valid [OF vol v] vol_funs_same(10) [OF s1(2)] fs1 by simp
    have nl: "n < length cl * spc (cur_fs s)"
      using n(1) j(1) spos by (metis div_less_iff_less_mult)
    note b = file_sector_bound [OF vol chain nl]
    have fsn: "file_sector (cur_fs s) cl n = first_sector (cur_fs s) c + ?x"
      by (simp add: file_sector_def n(1,2) j(2))
    then have "first_sector (cur_fs s) c + ?x < 4294967296"
      using b vol_ok_pos(5) [OF vol] by linarith
    then have "unat (clust2sect (cur_fs s1) c + ucast ?cs) = file_sector (cur_fs s) cl n"
      using c2 fsn ucs' by (simp add: unat_word_ariths)
    moreover have "unat (fs_sects_clust (cur_fs s) - ?cs) = spc (cur_fs s) - ?x"
      using ucs' n(3) by (subst unat_sub) (simp_all add: word_le_nat_alt)
    ultimately have at: "at_sector (cur_fs s) cl fp2 n"
      using nl n j by (simp add: at_sector_def fp2_def)
    have "unat (fp_fptr fp1 + o') = ?t"
      using j(4,7) unat_bounds(3) [of ofs] by (simp add: unat_word_ariths)
    then have pt: "fp_fptr fp2 = ofs" by (simp add: fp2_def unsigned_word_eqI)
    have sf2: "same_file fp fp2" using s1(3) by (simp add: fp2_def)
    have "pos_ok (cur_fs s) cl fp2"
      using at pt o0 ole same_file_simps(4) [OF sf2] by (simp add: pos_ok_def n_def)
    moreover have "lseek_move io fp ofs s = Some (True, fp2, s1)" using mv Some co by (simp add: fp2_def)
    ultimately show ?thesis using s1 sf2 pt by blast
  qed
qed

lemma f_lseek_position:
  assumes coh: "coh s" and vol: "vol_ok dcap (cur_fs s)" and op: "open_on io fp s"
    and fo: "file_on (dsec (disk s)) (cur_fs s) fp cl" and ro: "FS_READONLY io \<or> \<not> has (fp_flag fp) FA_WRITE"
  shows "\<exists>r fp' s'. f_lseek io fp ofs s = Some (r, fp', s') \<and> coh s' \<and> sv s s'
    \<and> (reads_ok \<longrightarrow> r = FR_OK)
    \<and> (r = FR_OK \<and> same_file fp fp' \<and> fp_fptr fp' = min ofs (fp_fsize fp) \<and> pos_ok (cur_fs s) cl fp'
       \<or> r = FR_RW_ERROR \<and> has (fp_flag fp') FA_ERROR)"
proof -
  define t where "t = (if ofs > fp_fsize fp then fp_fsize fp else ofs)"
  have t: "t = min ofs (fp_fsize fp)" "t \<le> fp_fsize fp" by (auto simp: t_def min_def)
  define fp0 where "fp0 = fp\<lparr>fp_fptr := 0, fp_sect_clust := 1\<rparr>"
  have sf0: "same_file fp fp0" by (simp add: fp0_def)
  have cond: "(ofs > fp_fsize fp \<and> (FS_READONLY io \<or> \<not> has (fp_flag fp) FA_WRITE)) \<longleftrightarrow> ofs > fp_fsize fp"
    using ro by blast
  show ?thesis
  proof (cases "t = 0")
    case True
    have "f_lseek io fp ofs s = Some (FR_OK, fp0, s)"
      unfolding f_lseek_def cond t_def [symmetric] using op True ro
      by (auto simp: open_on_def fp0_def Let_def)
    then show ?thesis using coh sf0 True t by (simp add: pos_ok_def fp0_def)
  next
    case False
    have "\<exists>ok fp' s'. lseek_move io fp0 t s = Some (ok, fp', s') \<and> coh s' \<and> sv s s' \<and> same_file fp0 fp'
      \<and> (reads_ok \<longrightarrow> ok) \<and> (ok \<longrightarrow> fp_fptr fp' = t \<and> pos_ok (cur_fs s) cl fp')"
      by (rule lseek_move_ro [OF coh vol])
         (use op fo ro t False in \<open>simp_all add: open_on_def fp0_def file_on_def\<close>)
    then obtain ok fp1 s1 where mv: "lseek_move io fp0 t s = Some (ok, fp1, s1)"
      and s1: "coh s1" "sv s s1" "same_file fp0 fp1" "reads_ok \<longrightarrow> ok"
        "ok \<Longrightarrow> fp_fptr fp1 = t \<and> pos_ok (cur_fs s) cl fp1"
      by blast
    have sf1: "same_file fp fp1" using sf0 s1(3) same_file_trans by blast
    have "f_lseek io fp ofs s = Some (if ok then (FR_OK, fp1, s1)
        else (FR_RW_ERROR, fp1\<lparr>fp_flag := fp_flag fp1 OR FA_ERROR\<rparr>, s1))"
      unfolding f_lseek_def cond t_def [symmetric] Let_def fp0_def [symmetric]
      using op False ro mv same_file_simps [OF sf1] by (auto simp: open_on_def)
    then show ?thesis using s1 sf1 t error_flag by (cases ok) auto
  qed
qed

end

end
