(* ===== verification/TffPathProps.thy ===== *)
theory TffPathProps
  imports TffNameProps TffFileProps
begin

text \<open>
  Directory tables and paths: stepping a directory object through the root directory or a cluster chain,
  the search for a name (\<open>scan_entries\<close> is its specification), and the tracing of a path through
  sub-directories (\<open>resolve\<close> is its specification).
\<close>

section \<open>Directory tables\<close>

text \<open>
  A table is the root directory or the chain of a sub-directory.  \<open>tab_entry i\<close> is entry \<open>i\<close> as 32
  bytes of the medium.
\<close>

datatype dirtab = RootTab | ChainTab "WORD list"

fun tab_sectors :: "FATFS \<Rightarrow> dirtab \<Rightarrow> nat list" where
  "tab_sectors fs RootTab = [unat (fs_dirbase fs) ..< unat (fs_dirbase fs) + unat (fs_n_rootdir fs) div 16]"
| "tab_sectors fs (ChainTab cl) = chain_sectors fs cl"

definition tab_size :: "FATFS \<Rightarrow> dirtab \<Rightarrow> nat" where
  "tab_size fs tab = 16 * length (tab_sectors fs tab)"

definition tab_entry :: "(nat \<Rightarrow> BYTE list) \<Rightarrow> FATFS \<Rightarrow> dirtab \<Rightarrow> nat \<Rightarrow> BYTE list" where
  "tab_entry sec fs tab i = slice (i mod 16 * 32) 32 (sec (tab_sectors fs tab ! (i div 16)))"

definition tab_entries :: "(nat \<Rightarrow> BYTE list) \<Rightarrow> FATFS \<Rightarrow> dirtab \<Rightarrow> BYTE list list" where
  "tab_entries sec fs tab = map (tab_entry sec fs tab) [0 ..< tab_size fs tab]"

fun tab_clust :: "FATFS \<Rightarrow> dirtab \<Rightarrow> nat \<Rightarrow> WORD" where
  "tab_clust fs RootTab i = 0"
| "tab_clust fs (ChainTab cl) i = cl ! (i div 16 div spc fs)"

fun tab_ok :: "nat \<Rightarrow> (nat \<Rightarrow> BYTE list) \<Rightarrow> FATFS \<Rightarrow> dirtab \<Rightarrow> bool" where
  "tab_ok cap sec fs RootTab \<longleftrightarrow>
     unat (fs_n_rootdir fs) mod 16 = 0 \<and> 0 < unat (fs_n_rootdir fs) \<and> fs_dirbase fs \<noteq> 0
     \<and> unat (fs_dirbase fs) + unat (fs_n_rootdir fs) div 16 \<le> cap"
| "tab_ok cap sec fs (ChainTab cl) \<longleftrightarrow>
     chain_ok sec fs cl \<and> cl \<noteq> [] \<and> \<not> valid_clust fs (fat_entry sec fs (last cl))
     \<and> (\<exists>k. spc fs = 2 ^ k) \<and> 16 * (length cl * spc fs) < 65536"

definition dir_at :: "FATFS \<Rightarrow> dirtab \<Rightarrow> DIR \<Rightarrow> nat \<Rightarrow> bool" where
  "dir_at fs tab dj i \<longleftrightarrow>
     i < tab_size fs tab \<and> unat (dir_index dj) = i
     \<and> unat (dir_sect dj) = tab_sectors fs tab ! (i div 16) \<and> dir_clust dj = tab_clust fs tab i"

lemma tab_size_bound: "tab_ok cap sec fs tab \<Longrightarrow> tab_size fs tab < 65536"
proof (cases tab)
  case RootTab
  then show ?thesis using unat_bounds(2) [of "fs_n_rootdir fs"]
    by (simp add: tab_size_def)
qed (simp add: tab_size_def length_chain_sectors)

lemma tab_sector_bound:
  assumes vol: "vol_ok cap fs" and tab: "tab_ok cap sec fs tab" and i: "i < tab_size fs tab"
  shows "tab_sectors fs tab ! (i div 16) < cap" "0 < tab_sectors fs tab ! (i div 16)"
proof -
  have n: "i div 16 < length (tab_sectors fs tab)" using i by (simp add: tab_size_def)
  have "tab_sectors fs tab ! (i div 16) < cap \<and> 0 < tab_sectors fs tab ! (i div 16)"
  proof (cases tab)
    case RootTab
    then show ?thesis using tab n by (auto simp: unat_gt_0)
  next
    case (ChainTab cl)
    then have l: "i div 16 < length cl * spc fs" and ch: "chain_ok sec fs cl"
      using n tab by (simp_all add: length_chain_sectors)
    note b = file_sector_bound [OF vol ch l]
    have "file_sector fs cl (i div 16) < cap" "0 < file_sector fs cl (i div 16)" using b by linarith+
    then show ?thesis using ChainTab l by (simp add: chain_sectors_nth)
  qed
  then show "tab_sectors fs tab ! (i div 16) < cap" "0 < tab_sectors fs tab ! (i div 16)" by auto
qed

lemma and_mask_mod: "x AND (2 ^ k - 1) = x mod (2 ^ k :: 'a :: len word)"
  by (simp add: take_bit_eq_mod flip: mask_eq_exp_minus_1 take_bit_eq_mask)

lemma and_15: "(x :: WORD) AND 15 = 0 \<longleftrightarrow> unat x mod 16 = 0"
proof -
  have "x AND 15 = x mod 16" using and_mask_mod [of x 4] by simp
  then show ?thesis by (simp add: unat_mod flip: unat_eq_zero)
qed

lemma unat_and_15: "unat ((x :: WORD) AND 15) = unat x mod 16"
proof -
  have "x AND 15 = x mod 16" using and_mask_mod [of x 4] by simp
  then show ?thesis by (simp add: unat_mod)
qed

lemma and_spc:
  fixes x :: WORD
  assumes "spc fs = 2 ^ k"
  shows "x AND (ucast (fs_sects_clust fs) - 1) = 0 \<longleftrightarrow> unat x mod spc fs = 0"
proof -
  have k: "k < 8"
  proof (rule ccontr)
    assume "\<not> k < 8"
    then have "(2 :: nat) ^ 8 \<le> 2 ^ k" by (intro power_increasing) auto
    then show False using assms unat_bounds(1) [of "fs_sects_clust fs"] by simp
  qed
  have "k \<in> {0, 1, 2, 3, 4, 5, 6, 7}" using k by auto
  then have p: "unat (2 ^ k :: WORD) = 2 ^ k" by auto
  then have "ucast (fs_sects_clust fs) = (2 ^ k :: WORD)"
    using assms by (subst word_eq_unat) simp
  then have "x AND (ucast (fs_sects_clust fs) - 1) = x mod 2 ^ k" using and_mask_mod by simp
  then show ?thesis using p assms by (simp add: unat_mod flip: unat_eq_zero)
qed

lemma succ_div:
  fixes n m :: nat
  assumes "0 < m"
  shows "(n + 1) mod m \<noteq> 0 \<Longrightarrow> (n + 1) div m = n div m \<and> (n + 1) mod m = n mod m + 1"
    and "(n + 1) mod m = 0 \<Longrightarrow> (n + 1) div m = n div m + 1 \<and> n mod m = m - 1"
  using assms by (auto simp: div_Suc mod_Suc split: if_splits)

lemma not_valid_clust: "\<not> valid_clust fs c \<Longrightarrow> c < 2 \<or> fs_max_clust fs \<le> c"
  by (auto simp: valid_clust_def)

context disk_device
begin

lemma next_chain_clust:
  assumes coh: "coh s" and vol: "vol_ok dcap (cur_fs s)" and ch: "chain_ok (dsec (disk s)) (cur_fs s) cl"
    and fin: "\<not> valid_clust (cur_fs s) (fat_entry (dsec (disk s)) (cur_fs s) (last cl))"
    and j: "j < length cl" and rd: reads_ok and gc: "get_cluster io (cl ! j) s = (c, s')"
  shows "coh s' \<and> sv s s' \<and> (if j + 1 < length cl then c = cl ! (j + 1) \<and> valid_clust (cur_fs s) c
      else c < 2 \<or> fs_max_clust (cur_fs s) \<le> c)"
proof -
  note g = get_cluster_coh [OF coh vol gc]
  have v: "valid_clust (cur_fs s) (cl ! j)" using chain_valid [OF ch j] .
  then have c: "c = fat_entry (dsec (disk s)) (cur_fs s) (cl ! j)" using g rd by blast
  show ?thesis
  proof (cases "j + 1 < length cl")
    case True
    then show ?thesis using g c chain_link [OF ch True] chain_valid [OF ch True] by simp
  next
    case False
    then have "j = length cl - 1" "cl \<noteq> []" using j by auto
    then have "cl ! j = last cl" by (simp add: last_conv_nth)
    then show ?thesis using False g c fin not_valid_clust by auto
  qed
qed

lemma next_dir_entry_ok:
  assumes coh: "coh s" and vol: "vol_ok dcap (cur_fs s)" and tab: "tab_ok dcap (dsec (disk s)) (cur_fs s) tab"
    and at: "dir_at (cur_fs s) tab dj i" and rd: reads_ok
    and nx: "next_dir_entry io dj s = (ok, dj', s')"
  shows "coh s' \<and> sv s s' \<and> (ok \<longleftrightarrow> i + 1 < tab_size (cur_fs s) tab)
    \<and> (ok \<longrightarrow> dir_at (cur_fs s) tab dj' (i + 1))
    \<and> dir_fs dj' = dir_fs dj \<and> dir_id dj' = dir_id dj \<and> dir_sclust dj' = dir_sclust dj"
proof -
  let ?fs = "cur_fs s"
  define n where "n = i div 16"
  have il: "i < tab_size ?fs tab" and ix: "unat (dir_index dj) = i"
    and sx: "unat (dir_sect dj) = tab_sectors ?fs tab ! n" and cx: "dir_clust dj = tab_clust ?fs tab i"
    using at by (auto simp: dir_at_def n_def)
  have u: "unat (dir_index dj + 1) = i + 1"
    using il ix tab_size_bound [OF tab] by (simp add: unat_word_ariths)
  have nl: "n < length (tab_sectors ?fs tab)" using il by (simp add: tab_size_def n_def)
  note s16 = succ_div [of 16 i, folded n_def, simplified]
  show ?thesis
  proof (cases "(i + 1) mod 16 = 0")
    case False
    then have d: "(i + 1) div 16 = n" using s16(1) by (simp add: n_def)
    have "i + 1 < tab_size ?fs tab"
      using il False by (metis tab_size_def mod_mult_self1_is_0 Suc_eq_plus1 Suc_lessI)
    moreover have "(ok, dj', s') = (True, dj\<lparr>dir_index := dir_index dj + 1\<rparr>, s)"
      using nx False u by (simp add: next_dir_entry_def and_15 Let_def)
    moreover have "tab_clust ?fs tab (i + 1) = tab_clust ?fs tab i"
      using d by (cases tab) (simp_all add: n_def)
    ultimately show ?thesis using coh u sx cx d by (simp add: dir_at_def)
  next
    case True
    then have d: "(i + 1) div 16 = n + 1" and e: "i + 1 = 16 * (n + 1)"
      using s16(2) div_mult_mod_eq [of "i + 1" 16] by (simp_all add: n_def)
    have more: "i + 1 < tab_size ?fs tab \<longleftrightarrow> n + 1 < length (tab_sectors ?fs tab)"
      unfolding e tab_size_def by (rule mult_less_cancel1 [THEN trans]) simp
    have us: "unat (dir_sect dj + 1) = tab_sectors ?fs tab ! n + 1"
      using tab_sector_bound(1) [OF vol tab il, folded n_def] sx vol_ok_pos(5) [OF vol]
      by (simp add: unat_word_ariths)
    show ?thesis
    proof (cases tab)
      case RootTab
      then have sz: "tab_size ?fs tab = unat (fs_n_rootdir ?fs)"
        using tab by (auto simp: tab_size_def)
      have "(ok, dj', s') = (if fs_n_rootdir ?fs \<le> dir_index dj + 1
          then (False, dj\<lparr>dir_sect := dir_sect dj + 1\<rparr>, s)
          else (True, dj\<lparr>dir_sect := dir_sect dj + 1, dir_index := dir_index dj + 1\<rparr>, s))"
        using nx True u cx RootTab by (auto simp: next_dir_entry_def and_15 Let_def)
      then show ?thesis
        using RootTab u us more sz d cx coh nl by (auto simp: dir_at_def word_le_nat_alt)
    next
      case (ChainTab cl)
      then have ch: "chain_ok (dsec (disk s)) ?fs cl" and ne: "cl \<noteq> []"
        and fin: "\<not> valid_clust ?fs (fat_entry (dsec (disk s)) ?fs (last cl))"
        and p2: "\<exists>k. spc ?fs = 2 ^ k" using tab by auto
      have nlc: "n < length cl * spc ?fs" using nl ChainTab by (simp add: length_chain_sectors)
      have spos: "0 < spc ?fs" using vol_ok_pos(2) [OF vol] .
      define j where "j = n div spc ?fs"
      have jl: "j < length cl" using nlc by (simp add: j_def less_mult_imp_div_less)
      have cj: "dir_clust dj = cl ! j" using cx ChainTab by (simp add: j_def n_def)
      have c0: "dir_clust dj \<noteq> 0" using valid_clust_not(4) [OF chain_valid [OF ch jl]] cj by simp
      have ui: "unat ((dir_index dj + 1) div 16) = n + 1" using u d by (simp add: unat_div)
      have sn: "unat (dir_sect dj) = file_sector ?fs cl n"
        using sx ChainTab nlc by (simp add: chain_sectors_nth)
      show ?thesis
      proof (cases "(n + 1) mod spc ?fs = 0")
        case False
        note sd = succ_div(1) [OF spos False]
        have nl1: "n + 1 < length cl * spc ?fs"
          using nlc False by (metis Suc_eq_plus1 Suc_lessI mod_mult_self2_is_0)
        have "(ok, dj', s') = (True, dj\<lparr>dir_sect := dir_sect dj + 1, dir_index := dir_index dj + 1\<rparr>, s)"
          using nx True u c0 False ui p2 and_spc [of ?fs] by (auto simp: next_dir_entry_def and_15 Let_def)
        moreover have "file_sector ?fs cl (n + 1) = file_sector ?fs cl n + 1"
          using sd by (simp add: file_sector_def)
        ultimately show ?thesis
          using ChainTab nl1 u us more d sd cj coh nlc sn sx
          by (simp add: dir_at_def chain_sectors_nth length_chain_sectors j_def)
      next
        case wrap: True
        note sd = succ_div(2) [OF spos wrap]
        obtain c s1 where gc: "get_cluster io (cl ! j) s = (c, s1)" by (metis prod.exhaust)
        note g = next_chain_clust [OF coh vol ch fin jl rd gc]
        have v1: "sv s s1" using g by simp
        have "(ok, dj', s') = (if c < 2 \<or> fs_max_clust ?fs \<le> c then (False, dj\<lparr>dir_sect := dir_sect dj + 1\<rparr>, s1)
          else (True, dj\<lparr>dir_clust := c, dir_sect := clust2sect (cur_fs s1) c, dir_index := dir_index dj + 1\<rparr>, s1))"
          using nx True u c0 wrap ui p2 and_spc [of ?fs] gc cj by (auto simp: next_dir_entry_def and_15 Let_def)
        moreover have "j + 1 < length cl \<longleftrightarrow> n + 1 < length cl * spc ?fs"
          using sd spos j_def by (metis div_less_iff_less_mult)
        moreover have "unat (clust2sect (cur_fs s1) c) = first_sector ?fs c" if "valid_clust ?fs c"
          using clust2sect_valid [OF vol that] vol_funs_same(10) [OF v1] same_vol_simps(1) [OF v1] by simp
        ultimately show ?thesis
          using ChainTab g u more d sd wrap valid_clust_not [of ?fs c]
          by (auto simp: dir_at_def chain_sectors_nth length_chain_sectors j_def file_sector_def split: if_splits)
      qed
    qed
  qed
qed

end

section \<open>Searching a table\<close>

definition entry_is :: "BYTE list \<Rightarrow> BYTE list \<Rightarrow> bool" where
  "entry_is e fn \<longleftrightarrow> e ! 0 \<noteq> 0xE5 \<and> \<not> has (e ! 11) AM_VOL \<and> take 11 e = take 11 fn"

text \<open>The index of the first live entry with the name \<open>fn\<close> before the end mark of the table.\<close>

fun scan_entries :: "BYTE list list \<Rightarrow> BYTE list \<Rightarrow> nat option" where
  "scan_entries [] fn = None"
| "scan_entries (e # es) fn =
     (if e ! 0 = 0 then None
      else if entry_is e fn then Some 0
      else map_option Suc (scan_entries es fn))"

lemma entry_matches_slice:
  assumes "p + 32 \<le> length win"
  shows "entry_matches win p fn \<longleftrightarrow> entry_is (slice p 32 win) fn" "win ! (p + DIR_Name) = slice p 32 win ! 0"
  using assms slice_nth [of p 0 win 32] slice_nth [of p 11 win 32]
  by (simp_all add: entry_matches_def entry_is_def tff_consts slice_def min_def)

text \<open>The window shows entry \<open>i\<close> of the table at the object's position.\<close>

definition shows_entry :: "(nat \<Rightarrow> BYTE list) \<Rightarrow> FATFS \<Rightarrow> dirtab \<Rightarrow> DIR \<Rightarrow> nat \<Rightarrow> BYTE list \<Rightarrow> bool" where
  "shows_entry sec fs tab dj i win \<longleftrightarrow>
     length win = 512 \<and> entry_off dj = i mod 16 * 32 \<and> slice (entry_off dj) 32 win = tab_entry sec fs tab i"

context disk_device
begin

lemma window_on_entry:
  assumes coh: "coh s" and vol: "vol_ok dcap (cur_fs s)" and tab: "tab_ok dcap (dsec (disk s)) (cur_fs s) tab"
    and at: "dir_at (cur_fs s) tab dj i" and mw: "move_window io (dir_sect dj) s = (ok, s')"
  shows "coh s' \<and> sv s s' \<and> (reads_ok \<longrightarrow> ok) \<and>
    (ok \<longrightarrow> shows_entry (dsec (disk s)) (cur_fs s) tab dj i (fs_win s'))"
proof -
  note b = tab_sector_bound [OF vol tab, of i]
  have at': "i < tab_size (cur_fs s) tab" "unat (dir_index dj) = i"
    "unat (dir_sect dj) = tab_sectors (cur_fs s) tab ! (i div 16)" using at by (auto simp: dir_at_def)
  have nz: "dir_sect dj \<noteq> 0" using b(2) at' by auto
  note m = move_window_coh [OF coh _ mw]
  have len: "length (dsec (disk s) m) = 512" for m using coh dsec_len by (simp add: coherent_def)
  have "ok \<Longrightarrow> shows_entry (dsec (disk s)) (cur_fs s) tab dj i (fs_win s')"
    using m b(1) at' nz by (simp add: shows_entry_def entry_off_def unat_and_15 tab_entry_def len)
  then show ?thesis using m b at' by simp
qed

lemma tab_transported:
  assumes v: "sv s s'"
  shows "tab_sectors (cur_fs s') tab = tab_sectors (cur_fs s) tab"
    "tab_size (cur_fs s') tab = tab_size (cur_fs s) tab"
    "tab_entry sec (cur_fs s') tab = tab_entry sec (cur_fs s) tab"
    "tab_entries sec (cur_fs s') tab = tab_entries sec (cur_fs s) tab"
    "tab_ok cap sec (cur_fs s') tab = tab_ok cap sec (cur_fs s) tab"
    "dir_at (cur_fs s') tab = dir_at (cur_fs s) tab"
proof -
  have fs: "cur_fs s' = fsobj s' (FatFs s)" using same_vol_simps(1) [OF v] by simp
  note sv' = same_vol_simps(2-) [OF v] vol_funs_same [OF v] fat_entry_same [OF v]
  have sec: "tab_sectors (fsobj s' (FatFs s)) t = tab_sectors (cur_fs s) t" for t
    by (cases t) (simp_all add: sv')
  have cl: "tab_clust (fsobj s' (FatFs s)) t i = tab_clust (cur_fs s) t i" for t i
    by (cases t) (simp_all add: sv')
  show "tab_sectors (cur_fs s') tab = tab_sectors (cur_fs s) tab"
    "tab_size (cur_fs s') tab = tab_size (cur_fs s) tab"
    "tab_entry sec (cur_fs s') tab = tab_entry sec (cur_fs s) tab"
    "tab_entries sec (cur_fs s') tab = tab_entries sec (cur_fs s) tab"
    "dir_at (cur_fs s') tab = dir_at (cur_fs s) tab"
    unfolding fs by (simp_all add: sec cl tab_size_def tab_entry_def [abs_def] tab_entries_def dir_at_def [abs_def])
  show "tab_ok cap sec (cur_fs s') tab = tab_ok cap sec (cur_fs s) tab"
    unfolding fs by (cases tab) (simp_all add: sv')
qed

lemma drop_tab_entries:
  "i < tab_size fs tab \<Longrightarrow>
    drop i (tab_entries sec fs tab) = tab_entry sec fs tab i # drop (i + 1) (tab_entries sec fs tab)"
  by (simp add: tab_entries_def Cons_nth_drop_Suc [symmetric])

lemma trace_scan_first:
  assumes "coh s" "vol_ok dcap (cur_fs s)" "tab_ok dcap (dsec (disk s)) (cur_fs s) tab"
    and "dir_at (cur_fs s) tab dj i" and rd: reads_ok
  shows "\<exists>r dj' s'. trace_scan io fn dj s = Some (r, dj', s') \<and> coh s' \<and> sv s s'
    \<and> dir_fs dj' = dir_fs dj \<and> dir_id dj' = dir_id dj \<and> dir_sclust dj' = dir_sclust dj
    \<and> (case scan_entries (drop i (tab_entries (dsec (disk s)) (cur_fs s) tab)) fn of
         None \<Rightarrow> r = ScanEnd
       | Some k \<Rightarrow> r = ScanFound \<and> dir_at (cur_fs s) tab dj' (i + k)
           \<and> shows_entry (dsec (disk s)) (cur_fs s) tab dj' (i + k) (fs_win s'))"
  using assms(1-4)
proof (induction "tab_size (cur_fs s) tab - i" arbitrary: i dj s rule: less_induct)
  case less
  note coh = less.prems(1) and vol = less.prems(2) and tab = less.prems(3) and at = less.prems(4)
  let ?es = "drop i (tab_entries (dsec (disk s)) (cur_fs s) tab)"
  let ?e = "tab_entry (dsec (disk s)) (cur_fs s) tab i"
  have il: "i < tab_size (cur_fs s) tab" using at by (simp add: dir_at_def)
  note dr = drop_tab_entries [OF il, where sec = "dsec (disk s)"]
  obtain ok s1 where mw: "move_window io (dir_sect dj) s = (ok, s1)" by (metis prod.exhaust)
  note w = window_on_entry [OF coh vol tab at mw]
  have s1: ok "coh s1" "sv s s1" "shows_entry (dsec (disk s)) (cur_fs s) tab dj i (fs_win s1)"
    using w rd by auto
  have off: "entry_off dj + 32 \<le> length (fs_win s1)" using s1(4) by (simp add: shows_entry_def)
  note em = entry_matches_slice [OF off]
  have e: "slice (entry_off dj) 32 (fs_win s1) = ?e" using s1(4) unfolding shows_entry_def by blast
  show ?case
  proof (cases "?e ! 0 = 0 \<or> entry_is ?e fn")
    case True
    then show ?thesis
      using mw s1 at em e by (subst trace_scan.simps) (auto simp: dr)
  next
    case False
    obtain ok2 dj2 s2 where nx: "next_dir_entry io dj s1 = (ok2, dj2, s2)" by (metis prod_cases3)
    note t1 = tab_transported [OF s1(3)] transported(1) [OF s1(3) same_file_refl] transported(7) [OF s1(3) same_file_refl]
    have "vol_ok dcap (cur_fs s1)" "tab_ok dcap (dsec (disk s1)) (cur_fs s1) tab" "dir_at (cur_fs s1) tab dj i"
      using vol tab at by (simp_all add: t1)
    note n = next_dir_entry_ok [OF s1(2) this rd nx, unfolded t1]
    have v2: "sv s s2" using s1(3) n same_vol_trans by blast
    have step: "trace_scan io fn dj s = (if ok2 then trace_scan io fn dj2 s2 else Some (ScanEnd, dj2, s2))"
      using mw s1(1) em e False nx by (subst trace_scan.simps) simp
    show ?thesis
    proof (cases ok2)
      case nok: False
      then have "drop (i + 1) (tab_entries (dsec (disk s)) (cur_fs s) tab) = []"
        using n by (simp add: tab_entries_def)
      then show ?thesis using step nok n v2 False dr by simp
    next
      case True
      note t2 = tab_transported [OF v2] transported(1) [OF v2 same_file_refl] transported(7) [OF v2 same_file_refl]
      have "\<exists>r dj' s'. trace_scan io fn dj2 s2 = Some (r, dj', s') \<and> coh s' \<and> sv s2 s'
        \<and> dir_fs dj' = dir_fs dj2 \<and> dir_id dj' = dir_id dj2 \<and> dir_sclust dj' = dir_sclust dj2
        \<and> (case scan_entries (drop (i + 1) (tab_entries (dsec (disk s2)) (cur_fs s2) tab)) fn of
             None \<Rightarrow> r = ScanEnd
           | Some k \<Rightarrow> r = ScanFound \<and> dir_at (cur_fs s2) tab dj' (i + 1 + k)
               \<and> shows_entry (dsec (disk s2)) (cur_fs s2) tab dj' (i + 1 + k) (fs_win s'))"
      proof (rule less.hyps)
        show "tab_size (cur_fs s2) tab - (i + 1) < tab_size (cur_fs s) tab - i" using il by (simp add: t2)
      qed (use n True vol tab in \<open>simp_all add: t2\<close>)
      then obtain r dj' s' where r: "trace_scan io fn dj2 s2 = Some (r, dj', s')" "coh s'" "sv s2 s'"
        "dir_fs dj' = dir_fs dj2" "dir_id dj' = dir_id dj2" "dir_sclust dj' = dir_sclust dj2"
        "case scan_entries (drop (i + 1) (tab_entries (dsec (disk s2)) (cur_fs s2) tab)) fn of
             None \<Rightarrow> r = ScanEnd
           | Some k \<Rightarrow> r = ScanFound \<and> dir_at (cur_fs s2) tab dj' (i + 1 + k)
               \<and> shows_entry (dsec (disk s2)) (cur_fs s2) tab dj' (i + 1 + k) (fs_win s')" by blast
      have sh: "shows_entry sec (cur_fs s2) tab = shows_entry sec (cur_fs s) tab" for sec
        by (simp add: shows_entry_def [abs_def] t2)
      show ?thesis
        using step True r n same_vol_trans [OF v2 r(3)] False
        by (simp add: dr t2 sh split: option.splits)
    qed
  qed
qed

end

section \<open>Tracing a path\<close>

text \<open>
  A path is a list of names, given by body and extension.  \<open>resolve\<close> looks it up in the directory
  tables of the medium: the last name may be any entry, the names before it must be directories,
  whose tables are searched from their third entry on.
\<close>

fun legal_name :: "BYTE list \<times> BYTE list \<Rightarrow> bool" where
  "legal_name (body, ext) \<longleftrightarrow>
     list_all legal_char body \<and> body \<noteq> [] \<and> length body \<le> 8 \<and> list_all legal_char ext \<and> length ext \<le> 3"

fun path_text :: "(BYTE list \<times> BYTE list) list \<Rightarrow> BYTE list" where
  "path_text [] = []"
| "path_text [(b, e)] = name_text b e"
| "path_text ((b, e) # ns) = name_text b e @ 0x2F # path_text ns"

fun chain_from :: "(nat \<Rightarrow> BYTE list) \<Rightarrow> FATFS \<Rightarrow> nat \<Rightarrow> WORD \<Rightarrow> WORD list" where
  "chain_from sec fs 0 c = []"
| "chain_from sec fs (Suc n) c =
     (if valid_clust fs c then c # chain_from sec fs n (fat_entry sec fs c) else [])"

definition sub_table :: "(nat \<Rightarrow> BYTE list) \<Rightarrow> FATFS \<Rightarrow> BYTE list \<Rightarrow> dirtab" where
  "sub_table sec fs e = ChainTab (chain_from sec fs (unat (fs_max_clust fs)) (LD_WORD e DIR_FstClusLO))"

fun resolve ::
  "(nat \<Rightarrow> BYTE list) \<Rightarrow> FATFS \<Rightarrow> dirtab \<Rightarrow> nat \<Rightarrow> (BYTE list \<times> BYTE list) list \<Rightarrow> FRESULT \<times> (dirtab \<times> nat) option"
where
  "resolve sec fs tab st [] = (FR_OK, None)"
| "resolve sec fs tab st ((b, e) # ns) =
     (case scan_entries (drop st (tab_entries sec fs tab)) (name_83 b e) of
        None \<Rightarrow> (if ns = [] then FR_NO_FILE else FR_NO_PATH, None)
      | Some k \<Rightarrow>
          if ns = [] then (FR_OK, Some (tab, st + k))
          else
            let ent = tab_entry sec fs tab (st + k) in
            if \<not> has (ent ! DIR_Attr) AM_DIR then (FR_NO_PATH, None)
            else resolve sec fs (sub_table sec fs ent) 2 ns)"

text \<open>Every table that \<open>resolve\<close> searches is well-formed.\<close>

fun tables_ok ::
  "nat \<Rightarrow> (nat \<Rightarrow> BYTE list) \<Rightarrow> FATFS \<Rightarrow> dirtab \<Rightarrow> nat \<Rightarrow> (BYTE list \<times> BYTE list) list \<Rightarrow> bool"
where
  "tables_ok cap sec fs tab st [] \<longleftrightarrow> True"
| "tables_ok cap sec fs tab st ((b, e) # ns) \<longleftrightarrow>
     tab_ok cap sec fs tab \<and>
     (case scan_entries (drop st (tab_entries sec fs tab)) (name_83 b e) of
        None \<Rightarrow> True
      | Some k \<Rightarrow>
          let ent = tab_entry sec fs tab (st + k) in
          ns = [] \<or> \<not> has (ent ! DIR_Attr) AM_DIR
          \<or> tables_ok cap sec fs (sub_table sec fs ent) 2 ns)"

lemma md_loop_drop_0:
  "md_loop (cs @ [0]) n t d0 = (0, [], fn) \<Longrightarrow> md_loop cs n t d0 = (0, [], fn)"
proof (induction cs n t d0 rule: md_loop.induct)
  case (1 n t d)
  then show ?case by (auto split: if_splits)
next
  case (2 c path n t d)
  show ?case
  proof (cases "c = 0 \<or> c = 0x2F")
    case True
    then show ?thesis using "2.prems" by (auto split: if_splits)
  next
    case ns: False
    show ?thesis
    proof (cases "c \<le> 0x20 \<or> c = 0x7F")
      case True
      then show ?thesis using ns "2.prems" by simp
    next
      case ctl: False
      show ?thesis
      proof (cases "c = 0x2E")
        case True
        then show ?thesis using ns ctl "2.prems" "2.IH"(1) [OF ns ctl True] by (auto split: if_splits)
      next
        case dot: False
        show ?thesis
        proof (cases "md_reject c \<or> t \<le> n")
          case True
          then show ?thesis using ns ctl dot "2.prems" by (cases "md_reject c") simp_all
        next
          case False
          then show ?thesis using ns ctl dot "2.prems" "2.IH"(2) [OF ns ctl dot] by simp
        qed
      qed
    qed
  qed
qed

lemma make_dirfile_last:
  assumes "legal_name (body, ext)" "length dirname = 12"
  shows "make_dirfile (name_text body ext) dirname = (0, [], name_83 body ext @ [0])"
proof -
  have "make_dirfile (name_text body ext @ [0]) dirname = (0, [], name_83 body ext @ [0])"
    by (rule make_dirfile_name_83) (use assms in \<open>simp_all add: separator_def\<close>)
  then show ?thesis unfolding make_dirfile_def by (rule md_loop_drop_0)
qed

lemma mod_0_pos: "n mod 16 = 0 \<Longrightarrow> 0 < n \<Longrightarrow> 0 < n div (16 :: nat)"
  by presburger

lemma shows_attr:
  assumes "shows_entry sec fs tab dj i win"
  shows "win ! (entry_off dj + DIR_Attr) = tab_entry sec fs tab i ! DIR_Attr"
    "LD_WORD win (entry_off dj + DIR_FstClusLO) = LD_WORD (tab_entry sec fs tab i) DIR_FstClusLO"
proof -
  have l: "entry_off dj + 32 \<le> length win" "slice (entry_off dj) 32 win = tab_entry sec fs tab i"
    using assms by (auto simp: shows_entry_def)
  have "win ! (entry_off dj + k) = tab_entry sec fs tab i ! k" if "k < 32" for k
    using l(1) that by (subst l(2) [symmetric]) (simp add: slice_nth)
  from this [of 11] this [of 26] this [of 27]
  show "win ! (entry_off dj + DIR_Attr) = tab_entry sec fs tab i ! DIR_Attr"
    "LD_WORD win (entry_off dj + DIR_FstClusLO) = LD_WORD (tab_entry sec fs tab i) DIR_FstClusLO"
    by (simp_all add: LD_WORD_def tff_consts add.commute)
qed

lemma dir_at_sub:
  assumes vol: "vol_ok cap fs" and ok: "tab_ok cap sec fs (sub_table sec fs e)"
  shows "dir_at fs (sub_table sec fs e)
    (dj\<lparr>dir_clust := LD_WORD e DIR_FstClusLO, dir_sclust := x,
        dir_sect := clust2sect fs (LD_WORD e DIR_FstClusLO), dir_index := 2\<rparr>) 2"
proof -
  let ?c = "LD_WORD e DIR_FstClusLO"
  let ?cl = "chain_from sec fs (unat (fs_max_clust fs)) ?c"
  have ne: "?cl \<noteq> []" using ok by (simp add: sub_table_def)
  then have v: "valid_clust fs ?c" and h: "?cl ! 0 = ?c"
    by (cases "unat (fs_max_clust fs)"; auto split: if_splits)+
  have p: "0 < spc fs" using vol_ok_pos(2) [OF vol] .
  then have l: "0 < length ?cl * spc fs" using ne by simp
  then have "2 < 16 * (length ?cl * spc fs)" by linarith
  then show ?thesis
    using l h clust2sect_valid [OF vol v]
    by (simp add: dir_at_def sub_table_def tab_size_def length_chain_sectors chain_sectors_nth file_sector_def)
qed

context disk_device
begin

definition traced :: "DIR \<Rightarrow> 'd tff \<Rightarrow> FRESULT \<times> (dirtab \<times> nat) option \<Rightarrow>
    FRESULT \<times> DIR \<times> BYTE list \<times> nat option \<times> 'd tff \<Rightarrow> bool" where
  "traced dj s spec = (\<lambda>(res, dj', fn', dir, s').
     coh s' \<and> sv s s' \<and> length fn' = 12 \<and> dir_fs dj' = dir_fs dj \<and> res = fst spec
     \<and> (case snd spec of
          None \<Rightarrow> dir = None
        | Some (t, i) \<Rightarrow> dir = Some (entry_off dj') \<and> dir_at (cur_fs s) t dj' i
            \<and> shows_entry (dsec (disk s)) (cur_fs s) t dj' i (fs_win s')))"

lemma trace_loop_resolves:
  assumes rd: reads_ok
    and "coh s" "vol_ok dcap (cur_fs s)" "tables_ok dcap (dsec (disk s)) (cur_fs s) tab st names"
    and "dir_at (cur_fs s) tab dj st" "names \<noteq> []" "list_all legal_name names" "length fn = 12"
  shows "\<exists>out. trace_loop io dj fn (path_text names) s = Some out
    \<and> traced dj s (resolve (dsec (disk s)) (cur_fs s) tab st names) out"
  using assms(2-)
proof (induction names arbitrary: tab st dj fn s)
  case Nil
  then show ?case by simp
next
  case (Cons n ns)
  note coh = Cons.prems(1) and vol = Cons.prems(2) and tok = Cons.prems(3) and at = Cons.prems(4)
    and leg = Cons.prems(6) and len = Cons.prems(7)
  let ?sec = "dsec (disk s)" and ?fs = "cur_fs s"
  obtain b e where n: "n = (b, e)" by fastforce
  have lb: "legal_name (b, e)" using leg n by simp
  let ?nm = "name_83 b e"
  let ?fn = "?nm @ [0]"
  have lnm: "length ?nm = 11" by (simp add: name_83_def)
  have tab: "tab_ok dcap ?sec ?fs tab" using tok n by simp
  define ds rest where "ds = (if ns = [] then 0 else 0x2F :: BYTE)" and "rest = (if ns = [] then [] else path_text ns)"
  have md: "make_dirfile (path_text (n # ns)) fn = (ds, rest, ?fn)"
    using make_dirfile_last [OF lb len] make_dirfile_name_83 [of b e "0x2F" fn "path_text ns"] lb len
    by (cases ns) (simp_all add: n ds_def rest_def separator_def)
  have ds: "ds \<noteq> 1" "ds = 0 \<longleftrightarrow> ns = []" by (auto simp: ds_def)
  from trace_scan_first [OF coh vol tab at rd, of ?fn] obtain r dj1 s1 where
    sc: "trace_scan io ?fn dj s = Some (r, dj1, s1)" and c1: "coh s1" and v1: "sv s s1" and f1: "dir_fs dj1 = dir_fs dj"
    and r: "case scan_entries (drop st (tab_entries ?sec ?fs tab)) ?fn of
         None \<Rightarrow> r = ScanEnd
       | Some k \<Rightarrow> r = ScanFound \<and> dir_at ?fs tab dj1 (st + k)
           \<and> shows_entry ?sec ?fs tab dj1 (st + k) (fs_win s1)" by blast
  have sce: "scan_entries es ?fn = scan_entries es ?nm" for es
    by (induction es) (simp_all add: entry_is_def lnm)
  note tl = trace_loop.simps [of io dj fn "path_text (n # ns)" s, unfolded md, simplified ds(1) sc]
  show ?case
  proof (cases "scan_entries (drop st (tab_entries ?sec ?fs tab)) ?nm")
    case None
    then show ?thesis
      using r sce tl c1 v1 f1 ds sc by (auto simp: traced_def n lnm split: if_splits)
  next
    case (Some k)
    then have f: "r = ScanFound" "dir_at ?fs tab dj1 (st + k)"
      and sh: "shows_entry ?sec ?fs tab dj1 (st + k) (fs_win s1)"
      using r sce by auto
    note sa = shows_attr [OF sh]
    let ?ent = "tab_entry ?sec ?fs tab (st + k)"
    show ?thesis
    proof (cases "ns = []")
      case True
      then show ?thesis using tl f sh c1 v1 f1 ds sc Some by (simp add: traced_def n lnm)
    next
      case more: False
      show ?thesis
      proof (cases "has (?ent ! DIR_Attr) AM_DIR")
        case False
        then show ?thesis using more tl f c1 v1 f1 ds sc Some sa by (simp add: traced_def n lnm)
      next
        case True
        let ?c = "LD_WORD ?ent DIR_FstClusLO"
        let ?dj = "dj1\<lparr>dir_clust := ?c, dir_sclust := ?c, dir_sect := clust2sect (cur_fs s1) ?c, dir_index := 2\<rparr>"
        have step: "trace_loop io dj fn (path_text (n # ns)) s = trace_loop io ?dj ?fn (path_text ns) s1"
          using more tl f ds sc sa True by (simp add: rest_def Let_def)
        note t1 = tab_transported [OF v1] transported(1) [OF v1 same_file_refl] transported(7) [OF v1 same_file_refl]
        have fs1: "cur_fs s1 = fsobj s1 (FatFs s)" using same_vol_simps(1) [OF v1] by simp
        have cf: "chain_from sec (cur_fs s1) m c = chain_from sec ?fs m c" for sec m c
          by (induction m arbitrary: c) (simp_all add: fs1 vol_funs_same [OF v1] fat_entry_same [OF v1])
        have mx: "fs_max_clust (cur_fs s1) = fs_max_clust ?fs" using same_vol_simps [OF v1] by simp
        have st: "sub_table sec (cur_fs s1) ent = sub_table sec ?fs ent" for sec ent
          by (simp add: sub_table_def cf mx)
        have te: "tab_entry sec (cur_fs s1) t = tab_entry sec ?fs t"
          "tab_entries sec (cur_fs s1) t = tab_entries sec ?fs t"
          "tab_ok cap sec (cur_fs s1) t = tab_ok cap sec ?fs t"
          "dir_at (cur_fs s1) t = dir_at ?fs t" for sec t cap
          using tab_transported [OF v1] by auto
        have rs: "resolve sec (cur_fs s1) t i ms = resolve sec ?fs t i ms" for sec t i ms
          by (induction sec ?fs t i ms rule: resolve.induct) (auto simp: te st Let_def split: option.splits)
        have ts: "tables_ok dcap sec (cur_fs s1) t i ms = tables_ok dcap sec ?fs t i ms" for sec t i ms
          by (induction "dcap" sec ?fs t i ms rule: tables_ok.induct) (auto simp: te st Let_def split: option.splits)
        have sub: "tables_ok dcap ?sec ?fs (sub_table ?sec ?fs ?ent) 2 ns"
          using tok Some more True by (simp add: n)
        then have subok: "tab_ok dcap ?sec ?fs (sub_table ?sec ?fs ?ent)"
          using more by (cases ns) auto
        have c2: "clust2sect (cur_fs s1) = clust2sect ?fs" by (simp add: fs1 vol_funs_same [OF v1])
        have "\<exists>out. trace_loop io ?dj ?fn (path_text ns) s1 = Some out
          \<and> traced ?dj s1 (resolve (dsec (disk s1)) (cur_fs s1) (sub_table ?sec ?fs ?ent) 2 ns) out"
        proof (rule Cons.IH [OF c1 _ _ _ more])
          show "vol_ok dcap (cur_fs s1)" using vol by (simp add: t1)
          show "tables_ok dcap (dsec (disk s1)) (cur_fs s1) (sub_table ?sec ?fs ?ent) 2 ns"
            using sub by (simp add: t1 ts)
          show "dir_at (cur_fs s1) (sub_table ?sec ?fs ?ent) ?dj 2"
            using dir_at_sub [OF vol subok] by (simp add: te c2)
          show "list_all legal_name ns" using leg by simp
          show "length ?fn = 12" using lnm by simp
        qed
        then obtain out where out: "trace_loop io ?dj ?fn (path_text ns) s1 = Some out"
          "traced ?dj s1 (resolve ?sec ?fs (sub_table ?sec ?fs ?ent) 2 ns) out"
          by (auto simp: t1 rs)
        have sh1: "shows_entry sec (cur_fs s1) t = shows_entry sec ?fs t" for sec t
          by (simp add: shows_entry_def [abs_def] te)
        have "traced dj s (resolve ?sec ?fs (sub_table ?sec ?fs ?ent) 2 ns) out"
          using out(2) f1 same_vol_trans [OF v1] by (auto simp: traced_def te sh1 t1 split: option.splits prod.splits)
        then show ?thesis using out(1) step more Some True by (simp add: n)
      qed
    qed
  qed
qed

lemma trace_path_resolves:
  assumes rd: reads_ok
    and coh: "coh s" and vol: "vol_ok dcap (cur_fs s)"
    and tok: "tables_ok dcap (dsec (disk s)) (cur_fs s) RootTab 0 names"
    and names: "names \<noteq> []" "list_all legal_name names" and len: "length fn = 12"
    and root: "unat (fs_dirbase (cur_fs s)) < 65536"
  shows "\<exists>res dj' fn' dir s'. trace_path io dj fn (path_text names) s = Some (res, dj', fn', dir, s')
    \<and> dir_fs dj' = FatFs s
    \<and> traced (dj\<lparr>dir_fs := FatFs s\<rparr>) s (resolve (dsec (disk s)) (cur_fs s) RootTab 0 names) (res, dj', fn', dir, s')"
proof -
  obtain b e ns where n: "names = (b, e) # ns" using names(1) by (cases names) auto
  have "c_hd (path_text names) \<noteq> 0"
  proof -
    obtain c cs where b: "b = c # cs" "legal_char c" using names n by (cases b) auto
    then have "c_hd (path_text names) = c" using n by (cases ns) (simp_all add: name_text_def)
    then show ?thesis using b(2) by (auto simp: legal_char_def)
  qed
  moreover
  let ?dj = "dj\<lparr>dir_clust := 0, dir_sclust := 0, dir_sect := ucast (ucast (fs_dirbase (cur_fs s)) :: WORD),
    dir_index := 0, dir_fs := FatFs s\<rparr>"
  have tab: "tab_ok dcap (dsec (disk s)) (cur_fs s) RootTab" using tok n by simp
  have "dir_at (cur_fs s) RootTab ?dj 0"
    using tab root by (auto simp: dir_at_def tab_size_def unat_ucast_down elim!: mod_0_pos)
  note trace_loop_resolves [OF rd coh vol tok this names len]
  ultimately show ?thesis
    by (auto simp: trace_path_def Let_def traced_def)
qed

end

end
