(* ===== verification/TffMountProps.thy ===== *)
theory TffMountProps
  imports TffMount TffFatProps
begin

text \<open>
  Mounting: \<open>f_mount\<close> invalidates the objects of the old file system, and \<open>auto_mount\<close> finds the volume
  and computes its geometry from the BIOS parameter block so that every table and cluster lies within
  the medium.
\<close>

section \<open>Mounting invalidates objects\<close>

lemma f_mount_invalidates:
  assumes "f_mount 0 p s = (r, s')" "q = 0 \<or> q = p \<or> q = FatFs s"
  shows "r = FR_OK \<and> FatFs s' = p \<and> fs_type (fsobj s' p) = (if p = 0 then fs_type (fsobj s' 0) else 0)
    \<and> validate io q oid s' =
      (if q = 0 \<or> oid \<noteq> 0 then FR_INVALID_OBJECT
       else if has (dio_status io 0 (disk s)) STA_NOINIT then FR_NOT_READY else FR_OK)"
  using assms by (auto simp: f_mount_def Let_def validate_def upd_fs_def zero_FATFS_def split: if_splits)

section \<open>The geometry of a volume\<close>

text \<open>The fields of the BIOS parameter block as numbers.\<close>

definition bpb_rsvd :: "BYTE list \<Rightarrow> nat" where "bpb_rsvd win = unat (LD_WORD win BPB_RsvdSecCnt)"
definition bpb_fats :: "BYTE list \<Rightarrow> nat" where "bpb_fats win = unat (win ! BPB_NumFATs)"
definition bpb_fatsz :: "BYTE list \<Rightarrow> nat" where "bpb_fatsz win = unat (fat_size win)"
definition bpb_root :: "BYTE list \<Rightarrow> nat" where "bpb_root win = unat (LD_WORD win BPB_RootEntCnt)"
definition bpb_total :: "BYTE list \<Rightarrow> nat" where "bpb_total win = unat (total_sectors win)"
definition bpb_spc :: "BYTE list \<Rightarrow> nat" where "bpb_spc win = unat (win ! BPB_SecPerClus)"

lemmas bpb_defs = bpb_rsvd_def bpb_fats_def bpb_fatsz_def bpb_root_def bpb_total_def bpb_spc_def

definition bpb_system :: "BYTE list \<Rightarrow> nat" where
  "bpb_system win = bpb_rsvd win + bpb_fatsz win * bpb_fats win + bpb_root win div 16"

definition bpb_clusters :: "BYTE list \<Rightarrow> nat" where
  "bpb_clusters win = (bpb_total win - bpb_system win) div bpb_spc win"

text \<open>A volume from sector \<open>boot\<close> on a medium of \<open>cap\<close> sectors, with tables that cover its clusters.\<close>

definition volume_fits :: "nat \<Rightarrow> nat \<Rightarrow> BYTE list \<Rightarrow> bool" where
  "volume_fits cap boot win \<longleftrightarrow>
     0 < bpb_spc win \<and> 0 < boot + bpb_rsvd win \<and> 0 < bpb_fats win \<and> bpb_fatsz win < 65536
     \<and> bpb_system win \<le> bpb_total win \<and> boot + bpb_total win \<le> cap \<and> cap < 2 ^ 32
     \<and> bpb_clusters win + 2 \<le> 0xFFF7
     \<and> (if bpb_clusters win + 2 \<le> 0xFF7 then 12 else 16) * (bpb_clusters win + 2) \<le> bpb_fatsz win * 4096"

definition geometry_of :: "nat \<Rightarrow> BYTE list \<Rightarrow> FATFS \<Rightarrow> bool" where
  "geometry_of boot win fs \<longleftrightarrow>
     unat (fs_fatbase fs) = boot + bpb_rsvd win
     \<and> unat (fs_dirbase fs) = boot + bpb_rsvd win + bpb_fatsz win * bpb_fats win
     \<and> unat (fs_database fs) = boot + bpb_system win
     \<and> unat (fs_sects_fat fs) = bpb_fatsz win \<and> unat (fs_n_fats fs) = bpb_fats win
     \<and> unat (fs_n_rootdir fs) = bpb_root win \<and> unat (fs_sects_clust fs) = bpb_spc win
     \<and> unat (fs_max_clust fs) = bpb_clusters win + 2
     \<and> fs_type fs = (if bpb_clusters win + 2 \<le> 0xFF7 then FS_FAT12 else FS_FAT16)"

lemma geometry_vol_ok:
  assumes fits: "volume_fits cap boot win" and geo: "geometry_of boot win fs"
  shows "vol_ok cap fs"
proof -
  have f: "0 < bpb_fats win" "bpb_system win \<le> bpb_total win" "boot + bpb_total win \<le> cap"
    using fits by (auto simp: volume_fits_def)
  have m: "bpb_clusters win * bpb_spc win \<le> bpb_total win - bpb_system win"
    by (simp add: bpb_clusters_def)
  have s: "bpb_fatsz win \<le> bpb_fatsz win * bpb_fats win" using f(1) by simp
  have "unat (fs_fatbase fs) + unat (fs_sects_fat fs) \<le> unat (fs_database fs)"
    using geo s unfolding geometry_of_def bpb_system_def by linarith
  moreover have "unat (fs_database fs) + (unat (fs_max_clust fs) - 2) * unat (fs_sects_clust fs) \<le> cap"
    using geo m f by (simp add: geometry_of_def)
  moreover have "fs_fatbase fs \<noteq> 0" "fs_sects_clust fs \<noteq> 0"
    using geo fits by (auto simp: geometry_of_def volume_fits_def)
  ultimately show ?thesis
    using geo fits unfolding vol_ok_def fat_width_def
    by (auto simp: geometry_of_def volume_fits_def FS_FAT12_def FS_FAT16_def)
qed

lemma init_fs_geometry:
  assumes fits: "volume_fits cap (unat boot) win"
    and ini: "init_fs win boot fs = (fs', maxclust, fatsize)"
  shows "unat maxclust = bpb_clusters win + 2" "unat fatsize = bpb_fatsz win * bpb_fats win"
    "unat (fs_fatbase fs') = unat boot + bpb_rsvd win"
    "unat (fs_sects_fat fs') = bpb_fatsz win" "unat (fs_n_fats fs') = bpb_fats win"
    "unat (fs_n_rootdir fs') = bpb_root win" "unat (fs_sects_clust fs') = bpb_spc win"
    "unat (fs_max_clust fs') = bpb_clusters win + 2"
    "fs_winsect fs' = fs_winsect fs" "fs_winflag fs' = fs_winflag fs"
proof -
  have f: "0 < bpb_spc win" "bpb_fatsz win < 65536" "bpb_system win \<le> bpb_total win"
    "unat boot + bpb_total win \<le> cap" "cap < 4294967296" "bpb_clusters win + 2 \<le> 65527"
    using fits by (auto simp: volume_fits_def)
  let ?n = "ucast (win ! BPB_NumFATs) :: DWORD" and ?rsvd = "ucast (LD_WORD win BPB_RsvdSecCnt) :: DWORD"
  let ?root = "ucast (LD_WORD win BPB_RootEntCnt div 16) :: DWORD" and ?spc = "ucast (win ! BPB_SecPerClus) :: DWORD"
  let ?fsz = "fat_size win * ?n"
  let ?sum = "total_sectors win - ?rsvd - ?fsz - ?root"
  note d = ini [unfolded init_fs_def Let_def, simplified]
  have sys: "bpb_rsvd win + bpb_fatsz win * bpb_fats win + bpb_root win div 16 \<le> bpb_total win"
    using f(3) by (simp add: bpb_system_def)
  have fs: "unat ?fsz = bpb_fatsz win * bpb_fats win"
    using sys f by (subst unat_mult_lem [THEN iffD1]) (simp_all add: bpb_defs)
  have s1: "unat (total_sectors win - ?rsvd) = bpb_total win - bpb_rsvd win"
    using sys by (subst unat_sub) (simp_all add: bpb_defs word_le_nat_alt)
  have s2: "unat (total_sectors win - ?rsvd - ?fsz) = bpb_total win - bpb_rsvd win - bpb_fatsz win * bpb_fats win"
    using sys fs s1 by (subst unat_sub) (simp_all add: word_le_nat_alt)
  have s3: "unat ?sum = bpb_total win - bpb_system win"
    using sys s2 by (subst unat_sub) (simp_all add: word_le_nat_alt bpb_system_def unat_div bpb_root_def)
  have sp: "?spc \<noteq> 0" using f(1) by (auto simp: bpb_spc_def word_eq_unat)
  have mc: "unat (udiv32 ?sum ?spc + 2) = bpb_clusters win + 2"
    using s3 sp f(6) by (simp add: udiv32_def unat_word_ariths unat_div bpb_clusters_def bpb_spc_def)
  show "unat maxclust = bpb_clusters win + 2" "unat (fs_max_clust fs') = bpb_clusters win + 2"
    using d mc f(6) by (auto simp: unat_ucast_down)
  show "unat fatsize = bpb_fatsz win * bpb_fats win" using d fs by auto
  have "unat (boot + ?rsvd) = unat boot + bpb_rsvd win"
    using sys f by (subst unat_plus_simple [THEN iffD1]) (simp_all add: bpb_rsvd_def no_olen_add_nat)
  then show "unat (fs_fatbase fs') = unat boot + bpb_rsvd win" using d by auto
  show "unat (fs_sects_fat fs') = bpb_fatsz win" using d f(2) by (auto simp: unat_ucast_down bpb_fatsz_def)
  show "unat (fs_n_fats fs') = bpb_fats win" "unat (fs_n_rootdir fs') = bpb_root win"
    "unat (fs_sects_clust fs') = bpb_spc win" "fs_winsect fs' = fs_winsect fs" "fs_winflag fs' = fs_winflag fs"
    using d by (auto simp: bpb_defs)
qed

lemma load_fs_geometry:
  assumes fits: "volume_fits cap (unat boot) (fs_win s)" and ld: "load_fs io boot s = (r, s')"
  shows "r = FR_OK \<and> geometry_of (unat boot) (fs_win s) (cur_fs s') \<and> FatFs s' = FatFs s
    \<and> fsid s' = fsid s + 1 \<and> fs_id (cur_fs s') = fsid s + 1 \<and> fs_win s' = fs_win s \<and> disk s' = disk s
    \<and> fs_winsect (cur_fs s') = fs_winsect (cur_fs s) \<and> fs_winflag (cur_fs s') = fs_winflag (cur_fs s)"
proof -
  let ?win = "fs_win s"
  obtain fs maxclust fatsize where ini: "init_fs ?win boot (cur_fs s) = (fs, maxclust, fatsize)"
    by (metis prod_cases3)
  note g = init_fs_geometry [OF fits ini]
  have f: "bpb_system ?win \<le> bpb_total ?win" "unat boot + bpb_total ?win \<le> cap" "cap < 4294967296"
    "bpb_clusters ?win + 2 \<le> 65527"
    using fits by (auto simp: volume_fits_def)
  have small: "\<not> maxclust > 0xFFF7" and fat12: "maxclust > 0xFF7 \<longleftrightarrow> \<not> bpb_clusters ?win + 2 \<le> 0xFF7"
    using g(1) f(4) by (auto simp: word_less_nat_alt)
  have b1: "unat boot + bpb_rsvd ?win + bpb_fatsz ?win * bpb_fats ?win + bpb_root ?win div 16 < 4294967296"
    using f by (simp add: bpb_system_def)
  have d1: "unat (fs_fatbase fs + fatsize) = unat boot + bpb_rsvd ?win + bpb_fatsz ?win * bpb_fats ?win"
    using g(2,3) b1 by (simp add: unat_word_ariths)
  have d2: "unat (fs_fatbase fs + fatsize + ucast (fs_n_rootdir fs div 16)) = unat boot + bpb_system ?win"
    using d1 b1 g(6) by (simp add: unat_word_ariths(1) [of "fs_fatbase fs + fatsize"] unat_div bpb_system_def)
  show ?thesis
    using ld g d1 d2 small fat12
    by (auto simp: load_fs_def ini Let_def geometry_of_def)
qed

section \<open>Finding the volume\<close>

text \<open>\<open>boot_kind\<close>: 0 for a FAT boot record, 1 for another sector with the boot signature, 2 otherwise.\<close>

definition boot_kind :: "BYTE list \<Rightarrow> BYTE" where
  "boot_kind w =
     (if LD_WORD w BS_55AA \<noteq> 0xAA55 then 2
      else if slice BS_FilSysType 3 w = [0x46, 0x41, 0x54] then 0 else 1)"

text \<open>The sector of the volume: sector 0, or the start of the first partition.\<close>

definition volume_sector :: "(nat \<Rightarrow> BYTE list) \<Rightarrow> DWORD" where
  "volume_sector sec =
     (if boot_kind (sec 0) = 1 \<and> sec 0 ! (MBR_Table + 4) \<noteq> 0 then LD_DWORD (sec 0) (MBR_Table + 8) else 0)"

context disk_device
begin

lemma check_fs_reads:
  assumes rd: reads_ok and di: "dinv (disk s)" and len: "length (fs_win s) = 512" and n: "unat n < dcap"
    and cf: "check_fs io n s = (k, s')"
  shows "k = boot_kind (dsec (disk s) (unat n)) \<and> fs_win s' = dsec (disk s) (unat n)
    \<and> dinv (disk s') \<and> dsec (disk s') = dsec (disk s)
    \<and> dio_status io 0 (disk s') = dio_status io 0 (disk s)
    \<and> s' = s\<lparr>fs_win := fs_win s', disk := disk s'\<rparr>"
proof -
  obtain r win d where dr: "dio_read io 0 (fs_win s) n 1 (disk s) = (r, win, d)" by (metis prod_cases3)
  have pre: "(1 :: BYTE) \<noteq> 0" "512 * unat (1 :: BYTE) \<le> length (fs_win s)" "unat n + unat (1 :: BYTE) \<le> dcap"
    using len n by auto
  have ok: "r = RES_OK" using reads_okD [OF rd di dr pre] .
  have w: "win = dsec (disk s) (unat n)"
    using read_data [OF di dr [unfolded ok] pre(2,3)] len dsec_len [OF di, of "unat n"] by (simp add: blit_whole)
  show ?thesis
    using cf dr ok w read_frame [OF di dr pre(2,3)]
    by (auto simp: check_fs_def boot_kind_def Let_def split: if_splits)
qed

lemma find_volume_reads:
  assumes rd: reads_ok and di: "dinv (disk s)" and len: "length (fs_win s) = 512"
    and cap: "0 < dcap" "unat (volume_sector (dsec (disk s))) < dcap"
    and fv: "find_volume io s = (k, b, s')"
  shows "b = volume_sector (dsec (disk s)) \<and> k = boot_kind (dsec (disk s) (unat b))
    \<and> fs_win s' = dsec (disk s) (unat b) \<and> dinv (disk s') \<and> dsec (disk s') = dsec (disk s)
    \<and> s' = s\<lparr>fs_win := fs_win s', disk := disk s'\<rparr>"
proof -
  obtain k0 s0 where c0: "check_fs io 0 s = (k0, s0)" by (metis prod.exhaust)
  note a = check_fs_reads [OF rd di len _ c0] cap
  show ?thesis
  proof (cases "k0 = 1 \<and> fs_win s0 ! (MBR_Table + 4) \<noteq> 0")
    case False
    then show ?thesis using a fv c0 by (auto simp: find_volume_def volume_sector_def)
  next
    case True
    let ?b = "LD_DWORD (fs_win s0) (MBR_Table + 8)"
    obtain k1 s1 where c1: "check_fs io ?b s0 = (k1, s1)" by (metis prod.exhaust)
    have vs: "volume_sector (dsec (disk s)) = ?b" using True a by (simp add: volume_sector_def)
    have l0: "length (fs_win s0) = 512" using a di dsec_len by simp
    have "dinv (disk s0)" "unat ?b < dcap" using a vs cap by auto
    from check_fs_reads [OF rd this(1) l0 this(2) c1]
    have f: "k1 = boot_kind (dsec (disk s0) (unat ?b))" "fs_win s1 = dsec (disk s0) (unat ?b)"
      "dinv (disk s1)" "dsec (disk s1) = dsec (disk s0)" "s1 = s0\<lparr>fs_win := fs_win s1, disk := disk s1\<rparr>"
      by auto
    have s0: "s0 = s\<lparr>fs_win := fs_win s0, disk := disk s0\<rparr>" "dsec (disk s0) = dsec (disk s)"
      using a by auto
    have "s1 = s\<lparr>fs_win := fs_win s1, disk := disk s1\<rparr>"
      using f(5) s0(1) by (metis tff.surjective tff.update_convs(3,5))
    moreover have "k = k1" "b = ?b" "s' = s1" using fv c0 c1 True by (simp_all add: find_volume_def)
    ultimately show ?thesis using f vs s0(2) by metis
  qed
qed

lemma auto_mount_fresh:
  assumes rd: reads_ok
    and p: "FatFs s \<noteq> 0" and un: "fs_type (cur_fs s) = 0" and len: "length (fs_win s) = 512"
    and init: "dio_initialize io 0 (disk s) = (stat, d)" "\<not> has stat STA_NOINIT" "\<not> has stat STA_PROTECT" "dinv d"
    and b: "b = volume_sector (dsec d)" "unat b < dcap"
    and kind: "boot_kind (dsec d (unat b)) = 0" "LD_WORD (dsec d (unat b)) BPB_BytsPerSec = 512"
    and fits: "volume_fits dcap (unat b) (dsec d (unat b))"
  shows "\<exists>s'. auto_mount io path chk s = (FR_OK, strip_path path, s')
    \<and> coh s' \<and> vol_ok dcap (cur_fs s') \<and> geometry_of (unat b) (dsec d (unat b)) (cur_fs s')
    \<and> FatFs s' = FatFs s \<and> fs_id (cur_fs s') = fsid s + 1 \<and> dsec (disk s') = dsec d"
proof -
  let ?s0 = "(upd_cur (\<lambda>_. zero_FATFS) s)\<lparr>disk := d\<rparr>"
  obtain k bb s1 where fv: "find_volume io ?s0 = (k, bb, s1)" by (metis prod_cases3)
  have "find_volume io ?s0 = (k, bb, s1)" "dinv (disk ?s0)" "length (fs_win ?s0) = 512"
    "0 < dcap" "unat (volume_sector (dsec (disk ?s0))) < dcap"
    using fv init len b by auto
  from find_volume_reads [OF rd this(2-5) this(1)]
  have f: "bb = b" "k = 0" "fs_win s1 = dsec d (unat b)" "dinv (disk s1)" "dsec (disk s1) = dsec d"
    "s1 = ?s0\<lparr>fs_win := fs_win s1, disk := disk s1\<rparr>"
    using b kind by auto
  have cf: "cur_fs s1 = zero_FATFS" "FatFs s1 = FatFs s" "fsid s1 = fsid s"
    by (subst f(6), simp add: upd_fs_def)+
  obtain r s2 where ld: "load_fs io b s1 = (r, s2)" by (metis prod.exhaust)
  have "volume_fits dcap (unat b) (fs_win s1)" using fits f by simp
  note g = load_fs_geometry [OF this ld]
  have am: "auto_mount io path chk s = (FR_OK, strip_path path, s2)"
    using p un init fv f kind ld g by (simp add: auto_mount_def mount_drive_def Let_def)
  have geo: "geometry_of (unat b) (dsec d (unat b)) (cur_fs s2)" using g unfolding f(3) by blast
  have wz: "fs_winsect (cur_fs s2) = 0" "fs_winflag (cur_fs s2) = 0"
    using g cf(1) by (auto simp: zero_FATFS_def)
  have ds: "disk s2 = disk s1" "fs_win s2 = fs_win s1" using g by auto
  have "coh s2"
    using wz ds f(3,4) b dsec_len [OF init(4)] by (simp add: coherent_def)
  moreover have "FatFs s2 = FatFs s" "fs_id (cur_fs s2) = fsid s + 1" "dsec (disk s2) = dsec d"
    using g cf(2,3) ds(1) f(5) by auto
  ultimately show ?thesis using am geo geometry_vol_ok [OF fits geo] by blast
qed

end

end
