(* ===== verification/Ram_Volume.thy ===== *)
theory Ram_Volume
  imports TffPathProps TffMountProps
begin

text \<open>
  A medium in memory that meets the device contract, and a small FAT12 volume on it: the concrete input
  at which the properties of the file system are applied.

  The volume has one FAT sector (sector 1), a root directory of 16 entries (sector 2) and 17 clusters of
  one sector from sector 3 on.  The root directory holds the file \<open>A.FDD\<close> (clusters 2 and 3, 1000 bytes)
  and the directory \<open>D\<close> (cluster 4), which holds \<open>B.FDD\<close> (clusters 5 and 6, 600 bytes).
\<close>

section \<open>The device\<close>

definition ram_cap :: nat where "ram_cap = 32"

definition ram_ok :: "(nat \<Rightarrow> BYTE list) \<Rightarrow> bool" where
  "ram_ok d \<longleftrightarrow> (\<forall>m. length (d m) = 512)"

definition ram_io :: "(nat \<Rightarrow> BYTE list) diskio" where
  "ram_io =
     \<lparr>FS_READONLY = True,
      dio_initialize = (\<lambda>drv d. (0, d)),
      dio_status = (\<lambda>drv d. 0),
      dio_read = (\<lambda>drv buf n cnt d.
        if cnt = 0 \<or> ram_cap < unat n + unat cnt then (RES_PARERR, buf, d)
        else (RES_OK, blit buf 0 (sectors d (unat n) (unat cnt)), d)),
      dio_write = (\<lambda>drv buf n cnt d.
        if cnt = 0 \<or> ram_cap < unat n + unat cnt then (RES_PARERR, d)
        else (RES_OK, store_sectors d (unat n) (unat cnt) buf)),
      dio_ioctl_sync = (\<lambda>drv d. (RES_OK, d))\<rparr>"

lemma ram_sectors_len: "ram_ok d \<Longrightarrow> length (sectors d n k) = k * 512"
  by (induction k) (simp_all add: sectors_def ram_ok_def)

lemma ram_store_ok:
  assumes "ram_ok d" "512 * k \<le> length buf"
  shows "ram_ok (store_sectors d n k buf)"
proof -
  have "(m - n) * 512 + 512 \<le> length buf" if "m < n + k" "n \<le> m" for m
  proof -
    have "(m - n + 1) * 512 \<le> k * 512" using that by (intro mult_le_mono1) linarith
    then show ?thesis using assms(2) by (simp add: algebra_simps)
  qed
  then have "length (slice ((m - n) * 512) 512 buf) = 512" if "n \<le> m" "m < n + k" for m
    using that by (fastforce simp: length_slice)
  then show ?thesis using assms(1) by (simp add: ram_ok_def store_sectors_def)
qed

interpretation ram: reliable_device ram_io ram_ok "\<lambda>d. d" ram_cap
proof unfold_locales
  show "ram_ok d \<Longrightarrow> length (d m) = 512" for d m by (simp add: ram_ok_def)
  show "ram_cap < 2 ^ 32" by (simp add: ram_cap_def)
  show "ram_ok d' \<and> (\<forall>m. m < unat n \<or> unat n + unat cnt \<le> m \<longrightarrow> d' m = d m)
      \<and> dio_status ram_io 0 d' = dio_status ram_io 0 d"
    if "ram_ok d" "dio_write ram_io 0 buf n cnt d = (r, d')" "512 * unat cnt \<le> length buf"
    for d buf n cnt r d'
    using that ram_store_ok [OF that(1,3), of "unat n"]
    by (auto simp: ram_io_def store_sectors_def split: if_splits)
qed (auto simp: ram_io_def ram_sectors_len has_def split: if_splits)

section \<open>The volume\<close>

definition demo_boot :: "BYTE list" where
  "demo_boot = blit (blit (blit (replicate 512 0) 11 [0x00, 0x02, 1, 1, 0, 1, 16, 0, 20, 0, 0xF8, 1, 0])
     54 [0x46, 0x41, 0x54]) 510 [0x55, 0xAA]"

definition demo_fat :: "BYTE list" where
  "demo_fat = [0xF8, 0xFF, 0xFF, 0x03, 0xF0, 0xFF, 0xFF, 0x6F, 0x00, 0xFF, 0x0F, 0x00] @ replicate 500 0"

definition demo_entry :: "BYTE list \<Rightarrow> BYTE \<Rightarrow> BYTE \<Rightarrow> BYTE \<Rightarrow> BYTE \<Rightarrow> BYTE list" where
  "demo_entry nm attr clust size_lo size_hi =
     nm @ [attr] @ replicate 14 0 @ [clust, 0, size_lo, size_hi, 0, 0]"

definition demo_root :: "BYTE list" where
  "demo_root =
     demo_entry (name_83 [0x41] [0x46, 0x44, 0x44]) 0x20 2 0xE8 0x03
     @ demo_entry (name_83 [0x44] []) 0x10 4 0 0 @ replicate 448 0"

definition demo_dir :: "BYTE list" where
  "demo_dir =
     demo_entry (name_83 [0x2E] []) 0x10 4 0 0 @ demo_entry (name_83 [0x2E, 0x2E] []) 0x10 0 0 0
     @ demo_entry (name_83 [0x42] [0x46, 0x44, 0x44]) 0x20 5 0x58 0x02 @ replicate 416 0"

fun demo_sec :: "nat \<Rightarrow> BYTE list" where
  "demo_sec m =
     (if m = 0 then demo_boot else if m = 1 then demo_fat else if m = 2 then demo_root
      else if m = 5 then demo_dir else replicate 512 (of_nat m))"

declare demo_sec.simps [simp del]

lemma demo_ok: "ram_ok demo_sec"
  by (simp add: ram_ok_def demo_sec.simps demo_boot_def demo_fat_def demo_root_def demo_dir_def
      demo_entry_def name_83_def)

definition demo_fs :: FATFS where
  "demo_fs = zero_FATFS\<lparr>fs_id := 1, fs_n_rootdir := 16, fs_fatbase := 1, fs_dirbase := 2, fs_database := 3,
     fs_sects_fat := 1, fs_max_clust := 19, fs_type := FS_FAT12, fs_sects_clust := 1, fs_n_fats := 1\<rparr>"

text \<open>The state after mounting, with the object at address 1.\<close>

definition demo_state :: "(nat \<Rightarrow> BYTE list) tff" where
  "demo_state = \<lparr>FatFs = 1, fsid = 1, fs_win = demo_boot, fsobj = (\<lambda>_. zero_FATFS)(1 := demo_fs), disk = demo_sec\<rparr>"

lemma demo_coherent: "coherent ram_ok (\<lambda>d. d) ram_cap demo_state"
  using demo_ok
  by (simp add: coherent_def demo_state_def demo_fs_def zero_FATFS_def demo_boot_def ram_cap_def)

lemma demo_vol: "vol_ok ram_cap demo_fs"
  by (simp add: vol_ok_def demo_fs_def zero_FATFS_def ram_cap_def fat_width_def)

lemma demo_state_simps [simp]:
  "FatFs demo_state = 1" "fsobj demo_state 1 = demo_fs" "disk demo_state = demo_sec" "fs_win demo_state = demo_boot"
  by (simp_all add: demo_state_def)

lemma demo_links:
  "fat_entry demo_sec demo_fs 2 = 3" "fat_entry demo_sec demo_fs 3 = 0xFFF"
  "fat_entry demo_sec demo_fs 4 = 0xFFF" "fat_entry demo_sec demo_fs 5 = 6"
  by code_simp+

text \<open>Looking up \<open>D/B.FDD\<close>.\<close>

lemma demo_sub_table: "sub_table demo_sec demo_fs (tab_entry demo_sec demo_fs RootTab 1) = ChainTab [4]"
  by code_simp

lemma demo_resolve:
  "resolve demo_sec demo_fs RootTab 0 [([0x64], []), ([0x62], [0x66, 0x64, 0x64])] = (FR_OK, Some (ChainTab [4], 2))"
  by code_simp

lemma demo_tables:
  "tables_ok ram_cap demo_sec demo_fs RootTab 0 [([0x64], []), ([0x62], [0x66, 0x64, 0x64])]"
proof -
  have r: "tab_ok ram_cap demo_sec demo_fs RootTab"
    by (simp add: demo_fs_def zero_FATFS_def ram_cap_def)
  have c: "tab_ok ram_cap demo_sec demo_fs (ChainTab [4])"
    by (simp add: chain_ok_def demo_links) (auto simp: valid_clust_def demo_fs_def zero_FATFS_def intro!: exI [of _ 0])
  have s1: "scan_entries (drop 0 (tab_entries demo_sec demo_fs RootTab)) (name_83 [0x64] []) = Some 1"
    by code_simp
  have s2: "scan_entries (drop 2 (tab_entries demo_sec demo_fs (ChainTab [4]))) (name_83 [0x62] [0x66, 0x64, 0x64]) = Some 0"
    by code_simp
  show ?thesis using r c s1 s2 demo_sub_table by (simp del: tab_ok.simps drop_0)
qed

text \<open>The handle of \<open>A.FDD\<close> after opening.\<close>

definition demo_file :: FIL where
  "demo_file = \<lparr>fp_id = 1, fp_flag = FA_READ, fp_sect_clust = 1, fp_fs = 1, fp_fptr = 0, fp_fsize = 1000,
     fp_org_clust = 2, fp_curr_clust = 0, fp_curr_sect = 0, fp_dir_sect = 0, fp_dir_ptr = 0\<rparr>"

lemma demo_open: "open_on ram_io demo_file demo_state"
  by (simp add: open_on_def demo_file_def validate_def ram_io_def has_def demo_fs_def tff_consts)

lemma demo_chain: "chain_ok demo_sec demo_fs [2, 3]"
  by (simp add: chain_ok_def demo_links) (simp add: valid_clust_def demo_fs_def)

lemma demo_file_on: "file_on demo_sec demo_fs demo_file [2, 3]"
  using demo_chain by (simp add: file_on_def demo_file_def) (simp add: demo_fs_def zero_FATFS_def)

lemma demo_pos: "pos_ok (cur_fs demo_state) cl demo_file"
  by (simp add: pos_ok_def demo_file_def)

lemma demo_bytes:
  "file_bytes demo_sec demo_fs demo_file [2, 3] = replicate 512 3 @ replicate 488 4"
proof -
  have "chain_sectors demo_fs [2, 3] = [3, 4]" by code_simp
  then have "chain_bytes demo_sec demo_fs [2, 3] = replicate 512 3 @ replicate 512 4"
    by (simp add: chain_bytes_def demo_sec.simps)
  then show ?thesis by (simp add: file_bytes_def demo_file_def take_replicate)
qed

end
