(* ===== verification/TffVolume.thy ===== *)
theory TffVolume
  imports TffFile
begin

text \<open>
  Directory enumeration (\<open>f_opendir\<close>, \<open>f_readdir\<close>, in the shipped build) and the volume operations of
  the full build of \<^verbatim>\<open>tff.c\<close>: \<open>f_stat\<close>, \<open>f_getfree\<close>, \<open>f_unlink\<close>, \<open>f_mkdir\<close>, \<open>f_chmod\<close>, \<open>f_rename\<close>.
  The parameters \<open>dj0\<close> and \<open>fn0\<close> are the uninitialised contents of the locals \<open>dirobj\<close> and \<open>fn\<close>.
\<close>

section \<open>Enumerating a directory\<close>

definition f_opendir ::
  "'d diskio \<Rightarrow> BYTE list \<Rightarrow> DIR \<Rightarrow> BYTE list \<Rightarrow> 'd tff \<Rightarrow> (FRESULT \<times> DIR \<times> 'd tff) option" where
  "f_opendir io fn0 dj path s =
     (case auto_mount io path False s of (res, path, s) \<Rightarrow>
        if res \<noteq> FR_OK then Some (res, dj, s)
        else do {
          (res, dj, fn, dir, s) \<leftarrow> trace_path io dj fn0 path s;
          if res \<noteq> FR_OK then Some (res, dj, s)
          else
            let (res, dj) =
              (case dir of
                 None \<Rightarrow> (FR_OK, dj)
               | Some p \<Rightarrow>
                   if has (fs_win s ! (p + DIR_Attr)) AM_DIR then
                     let clust = LD_WORD (fs_win s) (p + DIR_FstClusLO) in
                     (FR_OK, dj\<lparr>dir_clust := clust, dir_sect := clust2sect (cur_fs s) clust,
                                dir_index := 2\<rparr>)
                   else (FR_NO_FILE, dj))
            in Some (res, dj\<lparr>dir_id := fs_id (cur_fs s)\<rparr>, s) })"

text \<open>The loop of \<open>f_readdir\<close>; the result is \<open>False\<close> for a failed \<open>move_window\<close>.\<close>

partial_function (option) readdir_loop ::
  "'d diskio \<Rightarrow> DIR \<Rightarrow> FILINFO \<Rightarrow> 'd tff \<Rightarrow> (bool \<times> DIR \<times> FILINFO \<times> 'd tff) option" where
  "readdir_loop io dj finfo s =
     (if dir_sect dj = 0 then Some (True, dj, finfo, s)
      else
        (case move_window io (dir_sect dj) s of (ok, s) \<Rightarrow>
           if \<not> ok then Some (False, dj, finfo, s)
           else
             let dir = slice (entry_off dj) 32 (fs_win s); c = dir ! DIR_Name in
             if c = 0 then Some (True, dj, finfo, s)
             else
               let finfo = (if c \<noteq> 0xE5 \<and> \<not> has (dir ! DIR_Attr) AM_VOL
                            then get_fileinfo finfo dir else finfo) in
               (case next_dir_entry io dj s of (ok, dj, s) \<Rightarrow>
                  let dj = (if ok then dj else dj\<lparr>dir_sect := 0\<rparr>) in
                  if fi_fname finfo ! 0 \<noteq> 0 then Some (True, dj, finfo, s)
                  else readdir_loop io dj finfo s)))"

definition f_readdir ::
  "'d diskio \<Rightarrow> DIR \<Rightarrow> FILINFO \<Rightarrow> 'd tff \<Rightarrow> (FRESULT \<times> DIR \<times> FILINFO \<times> 'd tff) option" where
  "f_readdir io dj finfo s =
     (let res = validate io (dir_fs dj) (dir_id dj) s in
      if res \<noteq> FR_OK then Some (res, dj, finfo, s)
      else do {
        (ok, dj, finfo, s) \<leftarrow>
          readdir_loop io dj (finfo\<lparr>fi_fname := (fi_fname finfo)[0 := 0]\<rparr>) s;
        Some (if ok then FR_OK else FR_RW_ERROR, dj, finfo, s) })"

section \<open>Status and free space\<close>

definition f_stat ::
  "'d diskio \<Rightarrow> DIR \<Rightarrow> BYTE list \<Rightarrow> BYTE list \<Rightarrow> FILINFO \<Rightarrow> 'd tff \<Rightarrow>
     (FRESULT \<times> FILINFO \<times> 'd tff) option" where
  "f_stat io dj0 fn0 path finfo s =
     (case auto_mount io path False s of (res, path, s) \<Rightarrow>
        if res \<noteq> FR_OK then Some (res, finfo, s)
        else do {
          (res, dj, fn, dir, s) \<leftarrow> trace_path io dj0 fn0 path s;
          if res \<noteq> FR_OK then Some (res, finfo, s)
          else
            (case dir of
               Some p \<Rightarrow> Some (FR_OK, get_fileinfo finfo (slice p 32 (fs_win s)), s)
             | None \<Rightarrow> Some (FR_INVALID_NAME, finfo, s)) })"

text \<open>
  The FAT12 scan looks every cluster up; the FAT16 scan reads the table sector by sector.  \<open>f\<close> counts the
  entries of the sector seen so far, modulo 256, and \<open>p\<close> is twice that.  Both loops run at least once.
\<close>

fun getfree12 :: "'d diskio \<Rightarrow> nat \<Rightarrow> WORD \<Rightarrow> DWORD \<Rightarrow> 'd tff \<Rightarrow> DWORD \<times> 'd tff" where
  "getfree12 io 0 clust n s = (n, s)"
| "getfree12 io (Suc k) clust n s =
     (case get_cluster io clust s of (c, s) \<Rightarrow>
        getfree12 io k (clust + 1) (if c = 0 then n + 1 else n) s)"

fun getfree16 :: "'d diskio \<Rightarrow> nat \<Rightarrow> DWORD \<Rightarrow> BYTE \<Rightarrow> DWORD \<Rightarrow> 'd tff \<Rightarrow> DWORD option \<times> 'd tff" where
  "getfree16 io 0 sect f n s = (Some n, s)"
| "getfree16 io (Suc k) sect f n s =
     (case (if f = 0 then move_window io sect s else (True, s)) of (ok, s) \<Rightarrow>
        if \<not> ok then (None, s)
        else
          getfree16 io k (if f = 0 then sect + 1 else sect) (f + 1)
            (if LD_WORD (fs_win s) (2 * unat f) = 0 then n + 1 else n) s)"

text \<open>
  The number of rounds: \<open>do ... while (++clust < max_clust)\<close> from 2, and
  \<open>do ... while (--clust)\<close> from \<open>max_clust\<close> (65536 when that is 0).
\<close>

definition f_getfree ::
  "'d diskio \<Rightarrow> BYTE list \<Rightarrow> DWORD \<Rightarrow> fsptr \<Rightarrow> 'd tff \<Rightarrow> FRESULT \<times> DWORD \<times> fsptr \<times> 'd tff" where
  "f_getfree io drv nclust fatfs s =
     (case auto_mount io drv False s of (res, _, s) \<Rightarrow>
        if res \<noteq> FR_OK then (res, nclust, fatfs, s)
        else
          let fs = cur_fs s; fatfs = FatFs s in
          if fs_free_clust fs \<le> fs_max_clust fs - 2 then (FR_OK, ucast (fs_free_clust fs), fatfs, s)
          else
            (case (if fs_type fs = FS_FAT12 then
                     (case getfree12 io (max 1 (unat (fs_max_clust fs) - 2)) 2 0 s of (n, s) \<Rightarrow>
                        (Some n, s))
                   else
                     getfree16 io (if fs_max_clust fs = 0 then 65536 else unat (fs_max_clust fs))
                       (fs_fatbase fs) 0 0 s) of (r, s) \<Rightarrow>
               (case r of
                  None \<Rightarrow> (FR_RW_ERROR, nclust, fatfs, s)
                | Some n \<Rightarrow>
                    (FR_OK, n, fatfs, upd_cur (fs_free_clust_update (\<lambda>_. ucast n)) s))))"

section \<open>Removing and creating entries\<close>

text \<open>The loop of \<open>f_unlink\<close> over a sub-directory: \<open>ScanFound\<close> is a live entry, \<open>ScanEnd\<close> an empty directory.\<close>

partial_function (option) unlink_scan ::
  "'d diskio \<Rightarrow> DIR \<Rightarrow> 'd tff \<Rightarrow> (scan \<times> DIR \<times> 'd tff) option" where
  "unlink_scan io dj s =
     (case move_window io (dir_sect dj) s of (ok, s) \<Rightarrow>
        if \<not> ok then Some (ScanError, dj, s)
        else
          let c = fs_win s ! (entry_off dj + DIR_Name); a = fs_win s ! (entry_off dj + DIR_Attr) in
          if c = 0 then Some (ScanEnd, dj, s)
          else if c \<noteq> 0xE5 \<and> \<not> has a AM_VOL then Some (ScanFound, dj, s)
          else
            (case next_dir_entry io dj s of (ok, dj, s) \<Rightarrow>
               if \<not> ok then Some (ScanEnd, dj, s) else unlink_scan io dj s))"

definition unlink_entry ::
  "'d diskio \<Rightarrow> nat \<Rightarrow> DWORD \<Rightarrow> WORD \<Rightarrow> 'd tff \<Rightarrow> (FRESULT \<times> 'd tff) option" where
  "unlink_entry io p dsect dclust s =
     (case move_window io dsect s of (ok, s) \<Rightarrow>
        if \<not> ok then Some (FR_RW_ERROR, s)
        else
          let s = upd_cur (fs_winflag_update (\<lambda>_. 1)) (s\<lparr>fs_win := (fs_win s)[p + DIR_Name := 0xE5]\<rparr>)
          in do {
            (ok, s) \<leftarrow> remove_chain io dclust s;
            Some (if \<not> ok then (FR_RW_ERROR, s) else sync io s) })"

definition f_unlink ::
  "'d diskio \<Rightarrow> DIR \<Rightarrow> BYTE list \<Rightarrow> BYTE list \<Rightarrow> 'd tff \<Rightarrow> (FRESULT \<times> 'd tff) option" where
  "f_unlink io dj0 fn0 path s =
     (case auto_mount io path True s of (res, path, s) \<Rightarrow>
        if res \<noteq> FR_OK then Some (res, s)
        else do {
          (res, dj, fn, dir, s) \<leftarrow> trace_path io dj0 fn0 path s;
          (case (res, dir) of
             (FR_OK, Some p) \<Rightarrow>
               let attr = fs_win s ! (p + DIR_Attr); dsect = fs_winsect (cur_fs s);
                   dclust = LD_WORD (fs_win s) (p + DIR_FstClusLO)
               in
                 if has attr AM_RDO then Some (FR_DENIED, s)
                 else if has attr AM_DIR then do {
                   (sc, dj, s) \<leftarrow> unlink_scan io
                     (dj\<lparr>dir_clust := dclust, dir_sect := clust2sect (cur_fs s) dclust,
                         dir_index := 2\<rparr>) s;
                   (case sc of
                      ScanError \<Rightarrow> Some (FR_RW_ERROR, s)
                    | ScanFound \<Rightarrow> Some (FR_DENIED, s)
                    | ScanEnd \<Rightarrow> unlink_entry io p dsect dclust s) }
                 else unlink_entry io p dsect dclust s
           | (FR_OK, None) \<Rightarrow> Some (FR_INVALID_NAME, s)
           | _ \<Rightarrow> Some (res, s)) })"

text \<open>
  \<open>dir_table\<close> is the first sector of a new directory: the entries \<open>.\<close> and \<open>..\<close>.  The sectors after the
  first are cleared with the window's contents while it is zero.
\<close>

definition dir_table :: "WORD \<Rightarrow> WORD \<Rightarrow> BYTE list" where
  "dir_table dclust pclust =
     (let fw = blit (replicate 512 0) DIR_Name (replicate 11 0x20);
          fw = fw[DIR_Name := 0x2E];
          fw = fw[DIR_Attr := AM_DIR];
          fw = ST_DWORD fw DIR_WrtTime get_fattime;
          fw = blit fw 32 (take 32 fw);
          fw = fw[33 := 0x2E];
          fw = ST_WORD fw DIR_FstClusLO dclust
      in ST_WORD fw (32 + DIR_FstClusLO) pclust)"

definition dir_entry_image :: "BYTE list \<Rightarrow> WORD \<Rightarrow> nat \<Rightarrow> BYTE list \<Rightarrow> BYTE list" where
  "dir_entry_image fn dclust p win =
     (let win = blit win p (replicate 32 0);
          win = blit win (p + DIR_Name) (take 11 fn);
          win = win[p + DIR_NTres := fn ! 11];
          win = win[p + DIR_Attr := AM_DIR];
          win = ST_DWORD win (p + DIR_WrtTime) get_fattime
      in ST_WORD win (p + DIR_FstClusLO) dclust)"

definition fill_dir ::
  "'d diskio \<Rightarrow> DIR \<Rightarrow> BYTE list \<Rightarrow> nat \<Rightarrow> DWORD \<Rightarrow> WORD \<Rightarrow> 'd tff \<Rightarrow> FRESULT \<times> 'd tff" where
  "fill_dir io dj fn p sect dclust s =
     (let dsect = clust2sect (cur_fs s) dclust in
      if dsect = 0 then (FR_DENIED, s)
      else
        (case move_window io dsect s of (ok, s) \<Rightarrow>
           if \<not> ok then (FR_RW_ERROR, s)
           else
             (case clear_sectors io (unat (fs_sects_clust (cur_fs s)) - 1) (dsect + 1)
                     (s\<lparr>fs_win := replicate 512 0\<rparr>) of (ok, s) \<Rightarrow>
                if \<not> ok then (FR_RW_ERROR, s)
                else
                  let s = upd_cur (fs_winflag_update (\<lambda>_. 1))
                            (s\<lparr>fs_win := dir_table dclust (dir_sclust dj)\<rparr>) in
                  (case move_window io sect s of (ok, s) \<Rightarrow>
                     if \<not> ok then (FR_RW_ERROR, s)
                     else sync io (s\<lparr>fs_win := dir_entry_image fn dclust p (fs_win s)\<rparr>)))))"

definition f_mkdir ::
  "'d diskio \<Rightarrow> DIR \<Rightarrow> BYTE list \<Rightarrow> BYTE list \<Rightarrow> 'd tff \<Rightarrow> (FRESULT \<times> 'd tff) option" where
  "f_mkdir io dj0 fn0 path s =
     (case auto_mount io path True s of (res, path, s) \<Rightarrow>
        if res \<noteq> FR_OK then Some (res, s)
        else do {
          (res, dj, fn, dir, s) \<leftarrow> trace_path io dj0 fn0 path s;
          if res = FR_OK then Some (FR_EXIST, s)
          else if res \<noteq> FR_NO_FILE then Some (res, s)
          else do {
            (res, dj, dir, s) \<leftarrow> reserve_direntry io dj s;
            (case (res, dir) of
               (FR_OK, Some p) \<Rightarrow>
                 let sect = fs_winsect (cur_fs s) in do {
                   (dclust, s) \<leftarrow> create_chain io 0 s;
                   Some (if dclust = 1 then (FR_RW_ERROR, s)
                         else fill_dir io dj fn p sect dclust s) }
             | _ \<Rightarrow> Some (res, s)) } })"

section \<open>Changing entries\<close>

definition f_chmod ::
  "'d diskio \<Rightarrow> DIR \<Rightarrow> BYTE list \<Rightarrow> BYTE list \<Rightarrow> BYTE \<Rightarrow> BYTE \<Rightarrow> 'd tff \<Rightarrow>
     (FRESULT \<times> 'd tff) option" where
  "f_chmod io dj0 fn0 path value msk s =
     (case auto_mount io path True s of (res, path, s) \<Rightarrow>
        if res \<noteq> FR_OK then Some (res, s)
        else do {
          (res, dj, fn, dir, s) \<leftarrow> trace_path io dj0 fn0 path s;
          (case (res, dir) of
             (FR_OK, Some p) \<Rightarrow>
               let msk = msk AND (AM_RDO OR AM_HID OR AM_SYS OR AM_ARC);
                   attr = (value AND msk) OR (fs_win s ! (p + DIR_Attr) AND NOT msk)
               in Some (sync io (s\<lparr>fs_win := (fs_win s)[p + DIR_Attr := attr]\<rparr>))
           | (FR_OK, None) \<Rightarrow> Some (FR_INVALID_NAME, s)
           | _ \<Rightarrow> Some (res, s)) })"

definition move_entry ::
  "'d diskio \<Rightarrow> BYTE list \<Rightarrow> BYTE list \<Rightarrow> DWORD \<Rightarrow> nat \<Rightarrow> nat \<Rightarrow> 'd tff \<Rightarrow> FRESULT \<times> 'd tff" where
  "move_entry io fn direntry sect_old p_old p_new s =
     (let win = blit (fs_win s) (p_new + DIR_Attr) direntry;
          win = blit win (p_new + DIR_Name) (take 11 fn);
          win = win[p_new + DIR_NTres := fn ! 11];
          s = upd_cur (fs_winflag_update (\<lambda>_. 1)) (s\<lparr>fs_win := win\<rparr>)
      in case move_window io sect_old s of (ok, s) \<Rightarrow>
        if \<not> ok then (FR_RW_ERROR, s)
        else sync io (s\<lparr>fs_win := (fs_win s)[p_old + DIR_Name := 0xE5]\<rparr>))"

definition f_rename ::
  "'d diskio \<Rightarrow> DIR \<Rightarrow> BYTE list \<Rightarrow> BYTE list \<Rightarrow> BYTE list \<Rightarrow> 'd tff \<Rightarrow> (FRESULT \<times> 'd tff) option" where
  "f_rename io dj0 fn0 path_old path_new s =
     (case auto_mount io path_old True s of (res, path_old, s) \<Rightarrow>
        if res \<noteq> FR_OK then Some (res, s)
        else do {
          (res, dj, fn, dir, s) \<leftarrow> trace_path io dj0 fn0 path_old s;
          (case (res, dir) of
             (FR_OK, Some p_old) \<Rightarrow>
               let sect_old = fs_winsect (cur_fs s);
                   direntry = slice (p_old + 11) 21 (fs_win s)
               in do {
                 (res, dj, fn, dir, s) \<leftarrow> trace_path io dj fn path_new s;
                 if res = FR_OK then Some (FR_EXIST, s)
                 else if res \<noteq> FR_NO_FILE then Some (res, s)
                 else do {
                   (res, dj, dir, s) \<leftarrow> reserve_direntry io dj s;
                   (case (res, dir) of
                      (FR_OK, Some p_new) \<Rightarrow>
                        Some (move_entry io fn direntry sect_old p_old p_new s)
                    | _ \<Rightarrow> Some (res, s)) } }
           | (FR_OK, None) \<Rightarrow> Some (FR_NO_FILE, s)
           | _ \<Rightarrow> Some (res, s)) })"

end
