(* ===== verification/Fddimage.thy ===== *)
theory Fddimage
  imports TffVolume
begin

text \<open>
  The floppy image layer (\<^verbatim>\<open>fddimage.c\<close>, \<^verbatim>\<open>fddimage.h\<close>, \<^verbatim>\<open>config.h\<close>): a disk image file seen as tracks,
  sides and sectors of 1024 bytes.  The pointers \<open>file\<close> and \<open>buffer\<close> of the structure are the file
  object and the byte list passed to the operations that follow them.
\<close>

section \<open>Geometry\<close>

definition FDD_SECTOR_SIZE :: WORD where "FDD_SECTOR_SIZE = 1024"
definition FDD_NSIDES :: WORD where "FDD_NSIDES = 2"
definition FDD_NSECTORS :: WORD where "FDD_NSECTORS = 5"
definition SECTOR_SIZE_CODE :: BYTE where "SECTOR_SIZE_CODE = 3"

lemmas fdd_consts = FDD_SECTOR_SIZE_def FDD_NSIDES_def FDD_NSECTORS_def SECTOR_SIZE_CODE_def

record FDDImage =
  fd_nsides :: BYTE
  fd_ntracks :: BYTE
  fd_nsectors :: BYTE
  fd_sectorsize :: WORD
  fd_cur_side :: BYTE
  fd_cur_sector :: BYTE
  fd_cur_track :: BYTE
  fd_offset :: WORD
  fd_ready :: BYTE

text \<open>The errors \<open>FDD_OK\<close>, \<open>FDD_SEEK_ERROR\<close>, \<open>FDD_READ_ERROR\<close> as they are kept in \<open>fdderror\<close>.\<close>

definition FDD_OK :: BYTE where "FDD_OK = 0"
definition FDD_SEEK_ERROR :: BYTE where "FDD_SEEK_ERROR = 1"

section \<open>Operations\<close>

text \<open>\<open>fdd_clearerror\<close>: the old error, and the cleared variable.\<close>

definition fdd_clearerror :: "BYTE \<Rightarrow> BYTE \<times> BYTE" where
  "fdd_clearerror fdderror = (fdderror, 0)"

text \<open>The track count is \<open>(fsize >> 10) / 2 * FDD_NSECTORS\<close> in 32 bits, stored in a byte.\<close>

definition fdd_load :: "FIL \<Rightarrow> FDDImage \<Rightarrow> BYTE \<Rightarrow> BYTE \<times> FDDImage \<times> BYTE" where
  "fdd_load file fdd fdderror =
     (let (_, fdderror) = fdd_clearerror fdderror
      in (0,
          fdd\<lparr>fd_ntracks := ucast (drop_bit 10 (fp_fsize file) div 2 * ucast FDD_NSECTORS),
              fd_nsides := ucast FDD_NSIDES, fd_nsectors := ucast FDD_NSECTORS,
              fd_sectorsize := FDD_SECTOR_SIZE\<rparr>,
          fdderror))"

definition fdd_seek :: "FDDImage \<Rightarrow> BYTE \<Rightarrow> BYTE \<Rightarrow> BYTE \<Rightarrow> BYTE \<Rightarrow> FDDImage \<times> BYTE" where
  "fdd_seek fdd side track sector fdderror =
     (let (_, fdderror) = fdd_clearerror fdderror;
          fdderror = (if (ucast side :: WORD) > FDD_NSIDES \<or> track > fd_ntracks fdd
                         \<or> (ucast sector :: WORD) > FDD_NSECTORS
                      then FDD_SEEK_ERROR else fdderror)
      in (fdd\<lparr>fd_cur_side := side, fd_cur_track := track, fd_cur_sector := sector,
              fd_offset := 0, fd_ready := 0\<rparr>, fdderror))"

text \<open>
  The first line is 16-bit unsigned arithmetic, the rest 32-bit; \<open>cur_sector - 1\<close> is a 16-bit \<open>int\<close>
  whose sign is extended.
\<close>

definition calc_offset :: "FDDImage \<Rightarrow> DWORD" where
  "calc_offset fdd =
     (let offset = ucast (FDD_NSIDES * ucast (fd_cur_track fdd) + (1 - ucast (fd_cur_side fdd))) :: DWORD;
          offset = offset * ucast FDD_NSECTORS;
          offset = offset + scast (ucast (fd_cur_sector fdd) - 1 :: WORD)
      in offset * ucast FDD_SECTOR_SIZE)"

definition fdd_readsector ::
  "'d diskio \<Rightarrow> FDDImage \<Rightarrow> FIL \<Rightarrow> BYTE list \<Rightarrow> 'd tff \<Rightarrow>
     (FRESULT \<times> FIL \<times> BYTE list \<times> 'd tff) option" where
  "fdd_readsector io fdd file buffer s =
     (let offset = calc_offset fdd in do {
        (r, file, s) \<leftarrow> f_lseek io file offset s;
        if r \<noteq> FR_OK then Some (r, file, buffer, s)
        else do {
          (r, file, buffer, bytesread, s) \<leftarrow> f_read io file buffer FDD_SECTOR_SIZE s;
          Some (r, file, buffer, s) } })"

definition fdd_writesector ::
  "'d diskio \<Rightarrow> FDDImage \<Rightarrow> FIL \<Rightarrow> BYTE list \<Rightarrow> 'd tff \<Rightarrow>
     (FRESULT \<times> FIL \<times> BYTE list \<times> 'd tff) option" where
  "fdd_writesector io fdd file buffer s =
     (let offset = calc_offset fdd in do {
        (r, file, s) \<leftarrow> f_lseek io file offset s;
        if r \<noteq> FR_OK then Some (r, file, buffer, s)
        else do {
          (r, file, buffer, bytesread, s) \<leftarrow> f_write_inplace io file buffer FDD_SECTOR_SIZE s;
          Some (r, file, buffer, s) } })"

definition fdd_readadr :: "FDDImage \<Rightarrow> BYTE list \<Rightarrow> FRESULT \<times> BYTE list" where
  "fdd_readadr fdd buffer =
     (FR_OK,
      buffer[0 := fd_cur_track fdd, 1 := fd_cur_side fdd, 2 := fd_cur_sector fdd,
             3 := SECTOR_SIZE_CODE, 4 := 0, 5 := 0])"

end
