(* ===== verification/TffWriteProps.thy ===== *)
theory TffWriteProps
  imports TffFatProps
begin

text \<open>
  The allocation table in the build with write access.  The window may be dirty, so the volume is what
  \<open>vol_view\<close> shows: the medium with the dirty window laid over its sector.  On every device that meets
  \<open>disk_device\<close>, \<open>get_cluster\<close> reads the entry the volume shows, and \<open>put_cluster\<close> changes the entry it
  is asked to and no other, also in FAT12, where an entry shares a byte with its neighbour.
\<close>

section \<open>Setting the bits of an entry\<close>

lemma nibble_bits:
  "j < 8 \<Longrightarrow> bit (0x0F :: int) j \<longleftrightarrow> j < 4" "j < 8 \<Longrightarrow> bit (0xF0 :: int) j \<longleftrightarrow> 4 \<le> j"
proof -
  assume "j < 8"
  then have "j = 0 \<or> j = 1 \<or> j = 2 \<or> j = 3 \<or> j = 4 \<or> j = 5 \<or> j = 6 \<or> j = 7" by linarith
  then show "bit (0x0F :: int) j \<longleftrightarrow> j < 4" "bit (0xF0 :: int) j \<longleftrightarrow> 4 \<le> j"
    by (elim disjE; simp)+
qed

lemma fat12_put:
  fixes B B' :: "nat \<Rightarrow> BYTE" and v :: WORD
  assumes p: "p = c * 3 div 2" and other: "\<And>k. k \<noteq> p \<Longrightarrow> k \<noteq> p + 1 \<Longrightarrow> B' k = B k"
    and odd: "odd c \<Longrightarrow> B' p = (B p AND 0x0F) OR push_bit 4 (ucast v) \<and> B' (p + 1) = ucast (drop_bit 4 v)"
    and even: "even c \<Longrightarrow> B' p = ucast v \<and> B' (p + 1) = (B (p + 1) AND 0xF0) OR (ucast (drop_bit 8 v) AND 0x0F)"
  shows "bit (B' (x div 8)) (x mod 8)
    = (if 12 * c \<le> x \<and> x < 12 * c + 12 then bit v (x - 12 * c) else bit (B (x div 8)) (x mod 8))"
proof -
  define k j where "k = x div 8" and "j = x mod 8"
  have x: "x = 8 * k + j" "j < 8" by (simp_all add: k_def j_def)
  note l = nibble_bits [OF x(2)]
  show ?thesis unfolding k_def [symmetric] j_def [symmetric]
  proof (cases "odd c")
    case True
    then obtain m where m: "c = 2 * m + 1" by (auto elim: oddE)
    then have pm: "p = 3 * m + 1" using p by presburger
    consider "k = p" | "k = p + 1" | "k \<noteq> p" "k \<noteq> p + 1" by blast
    then show "bit (B' k) j = (if 12 * c \<le> x \<and> x < 12 * c + 12 then bit v (x - 12 * c) else bit (B k) j)"
    proof cases
      case 1
      then show ?thesis using odd [OF True] x m pm
        by (auto simp: bit_simps l dest: bit_imp_le_length)
    next
      case 2
      then have "x - 12 * c = j + 4" "12 * c \<le> x" "x < 12 * c + 12" using x m pm by simp_all
      then show ?thesis using odd [OF True] x 2 by (simp add: bit_simps add.commute)
    next
      case 3
      then have "\<not> (12 * c \<le> x \<and> x < 12 * c + 12)" using x m pm by (cases "k < p") auto
      then show ?thesis using other 3 by auto
    qed
  next
    case False
    then obtain m where m: "c = 2 * m" by (auto elim: evenE)
    then have pm: "p = 3 * m" using p by simp
    consider "k = p" | "k = p + 1" | "k \<noteq> p" "k \<noteq> p + 1" by blast
    then show "bit (B' k) j = (if 12 * c \<le> x \<and> x < 12 * c + 12 then bit v (x - 12 * c) else bit (B k) j)"
    proof cases
      case 1
      then show ?thesis using even False x m pm by (auto simp: bit_simps)
    next
      case 2
      then have "j < 4 \<Longrightarrow> x - 12 * c = 8 + j" "j < 4 \<longleftrightarrow> 12 * c \<le> x \<and> x < 12 * c + 12" using x m pm by auto
      then show ?thesis using even False x 2
        by (auto simp: bit_simps l)
    next
      case 3
      then have "\<not> (12 * c \<le> x \<and> x < 12 * c + 12)" using x m pm by (cases "k < p") auto
      then show ?thesis using other 3 by auto
    qed
  qed
qed

lemma fat16_put:
  fixes B B' :: "nat \<Rightarrow> BYTE" and v :: WORD
  assumes other: "\<And>k. k \<noteq> 2 * c \<Longrightarrow> k \<noteq> 2 * c + 1 \<Longrightarrow> B' k = B k"
    and new: "B' (2 * c) = ucast v" "B' (2 * c + 1) = ucast (drop_bit 8 v)"
  shows "bit (B' (x div 8)) (x mod 8)
    = (if 16 * c \<le> x \<and> x < 16 * c + 16 then bit v (x - 16 * c) else bit (B (x div 8)) (x mod 8))"
proof -
  define k j where "k = x div 8" and "j = x mod 8"
  have x: "x = 8 * k + j" "j < 8" by (simp_all add: k_def j_def)
  consider "k = 2 * c" | "k = 2 * c + 1" | "k \<noteq> 2 * c" "k \<noteq> 2 * c + 1" by blast
  then show ?thesis unfolding k_def [symmetric] j_def [symmetric]
  proof cases
    case 1
    then show "bit (B' k) j = (if 16 * c \<le> x \<and> x < 16 * c + 16 then bit v (x - 16 * c) else bit (B k) j)"
      using new x by (simp add: bit_simps)
  next
    case 2
    then have "x - 16 * c = 8 + j" "16 * c \<le> x" "x < 16 * c + 16" using x by simp_all
    then show "bit (B' k) j = (if 16 * c \<le> x \<and> x < 16 * c + 16 then bit v (x - 16 * c) else bit (B k) j)"
      using new x 2 by (simp add: bit_simps)
  next
    case 3
    then have "\<not> (16 * c \<le> x \<and> x < 16 * c + 16)" using x by (cases "k < 2 * c") auto
    then show "bit (B' k) j = (if 16 * c \<le> x \<and> x < 16 * c + 16 then bit v (x - 16 * c) else bit (B k) j)"
      using other 3 by auto
  qed
qed

section \<open>The volume behind a window that may be dirty\<close>

definition vol_view :: "('d \<Rightarrow> nat \<Rightarrow> BYTE list) \<Rightarrow> 'd tff \<Rightarrow> nat \<Rightarrow> BYTE list" where
  "vol_view dsec s =
     (if fs_winflag (cur_fs s) = 0 then dsec (disk s)
      else (dsec (disk s))(unat (fs_winsect (cur_fs s)) := fs_win s))"

text \<open>A dirty window is at or behind the table, so that the copies of the table do not overwrite it.\<close>

definition held :: "('d \<Rightarrow> bool) \<Rightarrow> ('d \<Rightarrow> nat \<Rightarrow> BYTE list) \<Rightarrow> nat \<Rightarrow> 'd tff \<Rightarrow> bool" where
  "held dinv dsec dcap s \<longleftrightarrow>
     dinv (disk s) \<and> length (fs_win s) = 512 \<and> unat (fs_winsect (cur_fs s)) < dcap
     \<and> (fs_winsect (cur_fs s) \<noteq> 0 \<longrightarrow> fs_win s = vol_view dsec s (unat (fs_winsect (cur_fs s))))
     \<and> (fs_winflag (cur_fs s) \<noteq> 0 \<longrightarrow> unat (fs_fatbase (cur_fs s)) \<le> unat (fs_winsect (cur_fs s)))"

lemma coherent_held: "coherent dinv dsec dcap s \<Longrightarrow> held dinv dsec dcap s \<and> vol_view dsec s = dsec (disk s)"
  by (simp add: coherent_def held_def vol_view_def)

text \<open>The copies of the table: all of them lie before the data area.\<close>

definition fat_end :: "FATFS \<Rightarrow> nat" where
  "fat_end fs = unat (fs_fatbase fs) + max 1 (unat (fs_n_fats fs)) * unat (fs_sects_fat fs)"

definition in_copies :: "FATFS \<Rightarrow> nat \<Rightarrow> bool" where
  "in_copies fs n \<longleftrightarrow> unat (fs_fatbase fs) + unat (fs_sects_fat fs) \<le> n \<and> n < fat_end fs"

text \<open>The fields of the object that the functions of the table leave alone.\<close>

definition geo :: "FATFS \<Rightarrow> FATFS" where
  "geo fs = fs\<lparr>fs_winsect := 0, fs_winflag := 0, fs_free_clust := 0, fs_last_clust := 0\<rparr>"

definition same_geo :: "'d tff \<Rightarrow> 'd tff \<Rightarrow> bool" where
  "same_geo s s' \<longleftrightarrow> FatFs s' = FatFs s \<and> fsid s' = fsid s \<and> geo (fsobj s' (FatFs s)) = geo (cur_fs s)
     \<and> (\<forall>q. q \<noteq> FatFs s \<longrightarrow> fsobj s' q = fsobj s q)"

lemma same_geo_refl [simp]: "same_geo s s"
  by (simp add: same_geo_def)

lemma same_geo_trans: "same_geo s t \<Longrightarrow> same_geo t u \<Longrightarrow> same_geo s u"
  by (auto simp: same_geo_def)

lemma geo_fields:
  "geo fs = geo fs' \<Longrightarrow> fs_fatbase fs = fs_fatbase fs'" "geo fs = geo fs' \<Longrightarrow> fs_sects_fat fs = fs_sects_fat fs'"
  "geo fs = geo fs' \<Longrightarrow> fs_n_fats fs = fs_n_fats fs'" "geo fs = geo fs' \<Longrightarrow> fs_type fs = fs_type fs'"
  "geo fs = geo fs' \<Longrightarrow> fs_max_clust fs = fs_max_clust fs'" "geo fs = geo fs' \<Longrightarrow> fs_database fs = fs_database fs'"
  "geo fs = geo fs' \<Longrightarrow> fs_sects_clust fs = fs_sects_clust fs'"
  by (cases fs; cases fs'; simp add: geo_def)+

lemma same_geo_funs:
  assumes "same_geo s s'"
  shows "vol_ok cap (cur_fs s') = vol_ok cap (cur_fs s)" "fat_end (cur_fs s') = fat_end (cur_fs s)"
    "in_copies (cur_fs s') n = in_copies (cur_fs s) n" "valid_clust (cur_fs s') c = valid_clust (cur_fs s) c"
    "fat_width (cur_fs s') = fat_width (cur_fs s)" "fat_entry sec (cur_fs s') c = fat_entry sec (cur_fs s) c"
    "fs_fatbase (cur_fs s') = fs_fatbase (cur_fs s)" "fs_sects_fat (cur_fs s') = fs_sects_fat (cur_fs s)"
    "fs_type (cur_fs s') = fs_type (cur_fs s)" "fs_max_clust (cur_fs s') = fs_max_clust (cur_fs s)"
    "fs_n_fats (cur_fs s') = fs_n_fats (cur_fs s)" "fs_database (cur_fs s') = fs_database (cur_fs s)"
proof -
  have "geo (cur_fs s') = geo (cur_fs s)" using assms by (simp add: same_geo_def)
  note f = geo_fields [OF this]
  show "vol_ok cap (cur_fs s') = vol_ok cap (cur_fs s)" "fat_end (cur_fs s') = fat_end (cur_fs s)"
    "in_copies (cur_fs s') n = in_copies (cur_fs s) n" "valid_clust (cur_fs s') c = valid_clust (cur_fs s) c"
    "fat_width (cur_fs s') = fat_width (cur_fs s)" "fat_entry sec (cur_fs s') c = fat_entry sec (cur_fs s) c"
    "fs_fatbase (cur_fs s') = fs_fatbase (cur_fs s)" "fs_sects_fat (cur_fs s') = fs_sects_fat (cur_fs s)"
    "fs_type (cur_fs s') = fs_type (cur_fs s)" "fs_max_clust (cur_fs s') = fs_max_clust (cur_fs s)"
    "fs_n_fats (cur_fs s') = fs_n_fats (cur_fs s)" "fs_database (cur_fs s') = fs_database (cur_fs s)"
    by (simp_all add: f vol_ok_def fat_end_def in_copies_def valid_clust_def fat_width_def fat_entry_def)
qed

text \<open>\<open>s'\<close> shows what \<open>s\<close> shows, except perhaps in the copies of the table.\<close>

definition same_view :: "('d \<Rightarrow> nat \<Rightarrow> BYTE list) \<Rightarrow> 'd tff \<Rightarrow> 'd tff \<Rightarrow> bool" where
  "same_view dsec s s' \<longleftrightarrow> same_geo s s' \<and> (\<forall>n. \<not> in_copies (cur_fs s) n \<longrightarrow> vol_view dsec s' n = vol_view dsec s n)"

lemma same_view_refl [simp]: "same_view dsec s s"
  by (simp add: same_view_def)

lemma same_view_trans: "same_view dsec s t \<Longrightarrow> same_view dsec t u \<Longrightarrow> same_view dsec s u"
  using same_geo_trans by (auto simp: same_view_def same_geo_funs(3))

lemma same_view_geo: "same_view dsec s s' \<Longrightarrow> same_geo s s'"
  by (simp add: same_view_def)

context disk_device
begin

definition writes_ok :: bool where
  "writes_ok \<longleftrightarrow> (\<forall>buf n cnt d. dinv d \<longrightarrow> cnt \<noteq> 0 \<longrightarrow> 512 * unat cnt \<le> length buf \<longrightarrow>
      unat n + unat cnt \<le> dcap \<longrightarrow> fst (dio_write io 0 buf n cnt d) = RES_OK)"

abbreviation hld :: "'d tff \<Rightarrow> bool" where "hld \<equiv> held dinv dsec dcap"
abbreviation view :: "'d tff \<Rightarrow> nat \<Rightarrow> BYTE list" where "view \<equiv> vol_view dsec"

lemma write_sector:
  assumes "dinv d" "length win = 512" "unat n < dcap" "dio_write io 0 win n 1 d = (r, d')"
  shows "dinv d'" "m \<noteq> unat n \<Longrightarrow> dsec d' m = dsec d m" "r = RES_OK \<Longrightarrow> dsec d' = (dsec d)(unat n := win)"
    "writes_ok \<Longrightarrow> r = RES_OK"
proof -
  have l: "512 * unat (1 :: BYTE) \<le> length win" "unat n + unat (1 :: BYTE) \<le> dcap" using assms by simp_all
  note f = write_frame [OF assms(1,4) l]
  then show "dinv d'" "m \<noteq> unat n \<Longrightarrow> dsec d' m = dsec d m" by (auto simp: linorder_neq_iff)
  show "writes_ok \<Longrightarrow> r = RES_OK"
    using assms l unfolding writes_ok_def by (metis fst_conv one_neq_zero)
  assume "r = RES_OK"
  then have "dsec d' = store_sectors (dsec d) (unat n) 1 win"
    using write_data [OF assms(1) _ l] assms(4) by simp
  then show "dsec d' = (dsec d)(unat n := win)"
    using assms(2) by (auto simp: store_sectors_def slice_def)
qed

lemma fat_copies_frame:
  assumes "dinv (disk s)" "length (fs_win s) = 512"
    and "unat w + n * unat (fs_sects_fat (cur_fs s)) < dcap"
  shows "\<exists>d. write_fat_copies io n w s = s\<lparr>disk := d\<rparr> \<and> dinv d
    \<and> (\<forall>m. m < unat w + unat (fs_sects_fat (cur_fs s)) \<or> unat w + n * unat (fs_sects_fat (cur_fs s)) < m
           \<longrightarrow> dsec d m = dsec (disk s) m)"
  using assms
proof (induction n arbitrary: w s)
  case 0
  then show ?case by (intro exI [of _ "disk s"]) simp
next
  case (Suc n)
  let ?sf = "unat (fs_sects_fat (cur_fs s))"
  let ?w = "w + ucast (fs_sects_fat (cur_fs s))"
  have b: "unat w + ?sf < 2 ^ 32" using Suc.prems(3) dcap_bound by simp
  then have w: "unat ?w = unat w + ?sf" by (rule unat_add_ucast_small)
  obtain r d where d: "dio_write io 0 (fs_win s) ?w 1 (disk s) = (r, d)" by fastforce
  have wc: "unat ?w < dcap" using w Suc.prems(3) by simp
  note f = write_sector [OF Suc.prems(1,2) wc d]
  have "unat ?w + n * ?sf < dcap" using w Suc.prems(3) by simp
  with Suc.IH [of "s\<lparr>disk := d\<rparr>" ?w] f(1) Suc.prems(2)
  obtain d' where d': "write_fat_copies io n ?w (s\<lparr>disk := d\<rparr>) = s\<lparr>disk := d'\<rparr>" "dinv d'"
    "\<forall>m. m < unat ?w + ?sf \<or> unat ?w + n * ?sf < m \<longrightarrow> dsec d' m = dsec d m" by auto
  have "dsec d' m = dsec (disk s) m" if "m < unat w + ?sf \<or> unat w + Suc n * ?sf < m" for m
  proof -
    have "m \<noteq> unat ?w" "m < unat ?w + ?sf \<or> unat ?w + n * ?sf < m" using that w by auto
    then show ?thesis using d'(3) f(2) by auto
  qed
  then show ?case using d' d by (intro exI [of _ d']) (simp add: Let_def)
qed

text \<open>Writing a dirty window back.\<close>

lemma fat_end_bound:
  assumes "vol_ok dcap fs" "fat_end fs \<le> unat (fs_database fs)"
  shows "fat_end fs \<le> dcap"
proof -
  have "unat (fs_database fs) \<le> dcap" using assms(1) by (simp add: vol_ok_def)
  then show ?thesis using assms(2) by simp
qed

lemma write_back_view:
  assumes h: "hld s" and vol: "vol_ok dcap (cur_fs s)" "fat_end (cur_fs s) \<le> unat (fs_database (cur_fs s))"
    and wb: "write_back io s = (ok, s')"
  shows "hld s' \<and> same_view dsec s s' \<and> fs_win s' = fs_win s \<and> fs_winsect (cur_fs s') = fs_winsect (cur_fs s)
    \<and> (ok \<longrightarrow> fs_winflag (cur_fs s') = 0) \<and> (writes_ok \<longrightarrow> ok)"
proof (cases "fs_winflag (cur_fs s) = 0")
  case True
  then show ?thesis using wb h by (simp add: write_back_def Let_def)
next
  case dirty: False
  let ?w = "fs_winsect (cur_fs s)"
  let ?sf = "unat (fs_sects_fat (cur_fs s))"
  have b: "dinv (disk s)" "length (fs_win s) = 512" "unat ?w < dcap" "unat (fs_fatbase (cur_fs s)) \<le> unat ?w"
    using h dirty by (simp_all add: held_def)
  obtain r d where d: "dio_write io 0 (fs_win s) ?w 1 (disk s) = (r, d)" by fastforce
  note f = write_sector [OF b(1-3) d]
  have v: "view s = (dsec (disk s))(unat ?w := fs_win s)" using dirty by (simp add: vol_view_def)
  show ?thesis
  proof (cases "r = RES_OK")
    case False
    have e: "\<not> ok" "s' = s\<lparr>disk := d\<rparr>" using wb dirty False by (simp_all add: write_back_def Let_def d)
    have "view s' = view s" using dirty f(2) by (auto simp: e(2) vol_view_def)
    then show ?thesis
      using e f(1,4) False b h dirty by (auto simp: held_def same_view_def same_geo_def)
  next
    case True
    define s1 where "s1 = upd_cur (fs_winflag_update (\<lambda>_. 0)) (s\<lparr>disk := d\<rparr>)"
    have s1: "fs_winflag (cur_fs s1) = 0" "dsec (disk s1) = view s" "fs_win s1 = fs_win s" "FatFs s1 = FatFs s"
      "fs_winsect (cur_fs s1) = ?w" "fs_sects_fat (cur_fs s1) = fs_sects_fat (cur_fs s)"
      "fs_fatbase (cur_fs s1) = fs_fatbase (cur_fs s)" "fs_n_fats (cur_fs s1) = fs_n_fats (cur_fs s)" "disk s1 = d"
      using f(3) True by (simp_all add: s1_def v)
    have g1: "same_geo s s1" by (simp add: s1_def same_geo_def upd_fs_def geo_def)
    have e: "ok" "s' = (if ?w < fs_fatbase (cur_fs s) + ucast (fs_sects_fat (cur_fs s))
        then write_fat_copies io (unat (fs_n_fats (cur_fs s)) - 1) ?w s1 else s1)"
      using wb dirty True by (auto simp: write_back_def Let_def d s1_def split: if_splits)
    have fb: "unat (fs_fatbase (cur_fs s) + ucast (fs_sects_fat (cur_fs s))) = unat (fs_fatbase (cur_fs s)) + ?sf"
      using vol dcap_bound by (intro unat_add_ucast_small) (auto simp: vol_ok_def)
    have "\<exists>d'. s' = s1\<lparr>disk := d'\<rparr> \<and> dinv d' \<and> (\<forall>m. \<not> in_copies (cur_fs s) m \<longrightarrow> dsec d' m = dsec d m)
        \<and> dsec d' (unat ?w) = dsec d (unat ?w)"
    proof (cases "?w < fs_fatbase (cur_fs s) + ucast (fs_sects_fat (cur_fs s))")
      case False
      then show ?thesis using f(1) s1(9) e(2) by (intro exI [of _ d]) (simp add: s1_def)
    next
      case True
      let ?n = "unat (fs_n_fats (cur_fs s)) - 1"
      have w: "unat ?w < unat (fs_fatbase (cur_fs s)) + ?sf" using True fb by (simp add: word_less_nat_alt)
      have m: "?sf + ?n * ?sf = max 1 (unat (fs_n_fats (cur_fs s))) * ?sf"
        by (cases "unat (fs_n_fats (cur_fs s))") (simp_all add: max_def)
      then have l: "unat ?w + ?n * ?sf < fat_end (cur_fs s)" using w by (simp add: fat_end_def)
      then have "unat ?w + ?n * unat (fs_sects_fat (cur_fs s1)) < dcap"
        using fat_end_bound [OF vol] s1(6) by simp
      from fat_copies_frame [OF _ _ this] s1 f(1) b(2)
      obtain d' where d': "write_fat_copies io ?n ?w s1 = s1\<lparr>disk := d'\<rparr>" "dinv d'"
        "\<forall>m. m < unat ?w + ?sf \<or> unat ?w + ?n * ?sf < m \<longrightarrow> dsec d' m = dsec d m" by auto
      have "dsec d' m = dsec d m" if "\<not> in_copies (cur_fs s) m" for m
        using that d'(3) l b(4) by (auto simp: in_copies_def not_le not_less)
      moreover have "0 < ?sf" using w b(4) by simp
      ultimately show ?thesis using d' e(2) True by auto
    qed
    then obtain d' where d': "s' = s1\<lparr>disk := d'\<rparr>" "dinv d'" "dsec d' (unat ?w) = dsec d (unat ?w)"
      "\<And>m. \<not> in_copies (cur_fs s) m \<Longrightarrow> dsec d' m = dsec d m" by blast
    have "vol_view dsec s' = dsec d'" using d'(1) s1(1) by (simp add: vol_view_def)
    moreover have "same_geo s s'" using g1 d'(1) by (simp add: same_geo_def)
    ultimately show ?thesis
      using e(1) d' s1 b v by (simp add: held_def same_view_def)
  qed
qed

lemma move_window_view:
  assumes h: "hld s" and rw: "\<not> FS_READONLY io"
    and vol: "vol_ok dcap (cur_fs s)" "fat_end (cur_fs s) \<le> unat (fs_database (cur_fs s))"
    and n: "unat n < dcap" "n \<noteq> 0" "\<not> in_copies (cur_fs s) (unat n)"
    and mw: "move_window io n s = (ok, s')"
  shows "hld s' \<and> same_view dsec s s'
    \<and> (ok \<longrightarrow> fs_winsect (cur_fs s') = n \<and> fs_win s' = view s (unat n))
    \<and> (reads_ok \<and> writes_ok \<longrightarrow> ok)"
proof (cases "fs_winsect (cur_fs s) = n")
  case True
  then show ?thesis using mw h n(2) by (auto simp: move_window_def held_def)
next
  case False
  obtain ok1 s1 where wb: "write_back io s = (ok1, s1)" by fastforce
  note w = write_back_view [OF h vol wb]
  show ?thesis
  proof (cases ok1)
    case nok: False
    then show ?thesis using mw False rw w by (auto simp: move_window_def wb)
  next
    case True
    have h1: "hld s1" "same_view dsec s s1" "fs_winflag (cur_fs s1) = 0" using w True by auto
    have v1: "view s1 = dsec (disk s1)" using h1(3) by (simp add: vol_view_def)
    obtain r win d where rd: "dio_read io 0 (fs_win s1) n 1 (disk s1) = (r, win, d)" by (metis prod_cases3)
    have b: "dinv (disk s1)" "length (fs_win s1) = 512" using h1(1) by (simp_all add: held_def)
    have frame: "dinv d" "dsec d = dsec (disk s1)" "length win = 512"
      using read_frame [OF b(1) rd] b(2) n(1) by auto
    have mw': "(ok, s') = (if r \<noteq> RES_OK then (False, s1\<lparr>fs_win := win, disk := d\<rparr>)
        else (True, upd_cur (fs_winsect_update (\<lambda>_. n)) (s1\<lparr>fs_win := win, disk := d\<rparr>)))"
      using mw n(2) False rw True by (simp add: move_window_def wb rd Let_def split: if_splits)
    show ?thesis
    proof (cases "r = RES_OK")
      case True
      have "win = dsec (disk s1) (unat n)"
        using read_data [OF b(1) rd [unfolded True]] b(2) n(1) dsec_len [OF b(1), of "unat n"] by (simp add: blit_whole)
      then have win: "win = view s (unat n)" "win = dsec d (unat n)"
        using h1(2) n(3) v1 frame(2) by (simp_all add: same_view_def)
      have e: "ok" "s' = upd_cur (fs_winsect_update (\<lambda>_. n)) (s1\<lparr>fs_win := win, disk := d\<rparr>)"
        using mw' True by simp_all
      have f: "fs_winflag (cur_fs s') = 0" "fs_winsect (cur_fs s') = n" "fs_win s' = win" "disk s' = d"
        using h1(3) by (simp_all add: e(2))
      then have v: "view s' = dsec d" by (simp add: vol_view_def)
      have "same_geo s1 s'" by (simp add: e(2) same_geo_def upd_fs_def geo_def)
      then have "same_view dsec s s'"
        using h1(2) v v1 frame(2) same_geo_trans by (auto simp: same_view_def)
      then show ?thesis using e(1) f v win frame n(1) by (simp add: held_def)
    next
      case False
      then have nr: "\<not> reads_ok" using reads_okD [OF _ b(1) rd] b(2) n(1) by auto
      have "win = fs_win s1" using read_failed [OF b(1) rd] b(2) n(1) False by simp
      then have e: "\<not> ok" "s' = s1\<lparr>disk := d\<rparr>" using mw' False by simp_all
      have v: "view s' = view s1" using h1(3) frame(2) by (simp add: e(2) vol_view_def)
      have "same_view dsec s s'" using h1(2) v by (auto simp: e(2) same_view_def same_geo_def)
      then show ?thesis using e(1) nr h1(1) frame(1) v by (simp add: held_def e(2))
    qed
  qed
qed

end

section \<open>Entries of the table\<close>

lemma fat_field_cong:
  assumes "\<And>i. i < w \<Longrightarrow> fat_bit sec fb (w * n + i) = fat_bit sec' fb (w * n + i)"
  shows "fat_field w sec fb n = fat_field w sec' fb n"
  unfolding fat_field_def by (intro arg_cong [where f = "horner_sum of_bool 2"] map_cong) (auto simp: assms)

lemma entry_bits:
  assumes "vol_ok cap fs" "valid_clust fs c" "i < fat_width fs"
  shows "fat_width fs * unat c + i < 4096 * unat (fs_sects_fat fs)"
proof -
  have "unat c + 1 \<le> unat (fs_max_clust fs)" using assms(2) by (simp add: valid_clust_def word_less_nat_alt)
  then have "fat_width fs * (unat c + 1) \<le> fat_width fs * unat (fs_max_clust fs)" by (rule mult_le_mono2)
  then have "fat_width fs * unat c + i < fat_width fs * unat (fs_max_clust fs)" using assms(3) by simp
  then show ?thesis using assms(1) by (simp add: vol_ok_def)
qed

lemma same_view_byte:
  assumes "same_view dsec s s'" "k < 512 * unat (fs_sects_fat (cur_fs s))"
  shows "fat_byte (vol_view dsec s') (unat (fs_fatbase (cur_fs s))) k
    = fat_byte (vol_view dsec s) (unat (fs_fatbase (cur_fs s))) k"
proof -
  have "\<not> in_copies (cur_fs s) (unat (fs_fatbase (cur_fs s)) + k div 512)"
    using assms(2) by (simp add: in_copies_def less_mult_imp_div_less mult.commute not_le)
  then show ?thesis using assms(1) by (simp add: same_view_def fat_byte_def)
qed

lemma same_view_entry:
  assumes "same_view dsec s s'" "vol_ok cap (cur_fs s)" "valid_clust (cur_fs s) c"
  shows "fat_entry (vol_view dsec s') (cur_fs s) c = fat_entry (vol_view dsec s) (cur_fs s) c"
  unfolding fat_entry_def
proof (rule fat_field_cong)
  fix i assume "i < fat_width (cur_fs s)"
  from entry_bits [OF assms(2,3) this]
  have "(fat_width (cur_fs s) * unat c + i) div 8 < 512 * unat (fs_sects_fat (cur_fs s))" by simp
  from same_view_byte [OF assms(1) this]
  show "fat_bit (vol_view dsec s') (unat (fs_fatbase (cur_fs s))) (fat_width (cur_fs s) * unat c + i)
      = fat_bit (vol_view dsec s) (unat (fs_fatbase (cur_fs s))) (fat_width (cur_fs s) * unat c + i)"
    by (simp add: fat_bit_def)
qed

lemma fat16_sector:
  fixes c :: WORD and fb :: DWORD
  assumes "unat fb + unat c div 256 < 2 ^ 32"
  shows "unat (fb + ucast (c div 256)) = unat fb + 2 * unat c div 512"
    "unat (c * 2 mod 512) = 2 * unat c mod 512"
    "(2 * unat c + 1) div 512 = 2 * unat c div 512" "(2 * unat c + 1) mod 512 = 2 * unat c mod 512 + 1"
proof -
  have e: "unat c div 256 = 2 * unat c div 512" by linarith
  show "unat (fb + ucast (c div 256)) = unat fb + 2 * unat c div 512"
    unfolding e [symmetric] using assms by (subst unat_add_ucast_small) (simp_all add: unat_div)
  have "unat (c * 2) = (2 * unat c) mod 65536" by (simp add: unat_word_ariths mult.commute)
  then show "unat (c * 2 mod 512) = 2 * unat c mod 512" by (simp add: unat_mod mod_mod_cancel)
  show "(2 * unat c + 1) div 512 = 2 * unat c div 512" "(2 * unat c + 1) mod 512 = 2 * unat c mod 512 + 1"
    using even_mod_div [of "unat c"] by simp_all
qed

lemma fat12_sector:
  fixes bc :: WORD and fb :: DWORD
  assumes "unat fb + unat bc div 512 < 2 ^ 32"
  shows "unat (fb + ucast (bc div 512)) = unat fb + unat bc div 512" "unat (bc mod 512) = unat bc mod 512"
  using assms by (subst unat_add_ucast_small; simp add: unat_div) (simp add: unat_mod)

lemma entry_other:
  assumes "\<And>x. x < 4096 * unat (fs_sects_fat fs) \<Longrightarrow>
      \<not> (fat_width fs * unat c \<le> x \<and> x < fat_width fs * unat c + fat_width fs) \<Longrightarrow>
      fat_bit sec' (unat (fs_fatbase fs)) x = fat_bit sec (unat (fs_fatbase fs)) x"
    and "vol_ok cap fs" "valid_clust fs c'" "c' \<noteq> c"
  shows "fat_entry sec' fs c' = fat_entry sec fs c'"
  unfolding fat_entry_def
proof (rule fat_field_cong)
  let ?w = "fat_width fs"
  fix i assume i: "i < ?w"
  have "unat c' < unat c \<or> unat c < unat c'" using assms(4) by (auto simp: word_eq_unat linorder_neq_iff)
  then have "unat c' + 1 \<le> unat c \<or> unat c + 1 \<le> unat c'" by linarith
  then have "?w * (unat c' + 1) \<le> ?w * unat c \<or> ?w * (unat c + 1) \<le> ?w * unat c'" using mult_le_mono2 by blast
  then have "\<not> (?w * unat c \<le> ?w * unat c' + i \<and> ?w * unat c' + i < ?w * unat c + ?w)" using i by auto
  with assms(1) entry_bits [OF assms(2,3) i]
  show "fat_bit sec' (unat (fs_fatbase fs)) (?w * unat c' + i) = fat_bit sec (unat (fs_fatbase fs)) (?w * unat c' + i)"
    by blast
qed

lemma entry_new:
  assumes "\<And>i. i < fat_width fs \<Longrightarrow> fat_bit sec' (unat (fs_fatbase fs)) (fat_width fs * unat c + i) = bit v i"
  shows "fat_entry sec' fs c = v AND mask (fat_width fs)"
proof (rule bit_word_eqI)
  fix i
  have "fat_width fs \<le> 16" by (simp add: fat_width_def)
  then show "bit (fat_entry sec' fs c) i = bit (v AND mask (fat_width fs)) i"
    using assms by (auto simp: fat_entry_def bit_fat_field bit_simps dest: bit_imp_le_length)
qed

text \<open>The state of a mounted volume in the build with write access.\<close>

definition table_ok :: "nat \<Rightarrow> 'd diskio \<Rightarrow> 'd tff \<Rightarrow> bool" where
  "table_ok cap io s \<longleftrightarrow> \<not> FS_READONLY io \<and> vol_ok cap (cur_fs s)
     \<and> fat_end (cur_fs s) \<le> unat (fs_database (cur_fs s))"

lemma same_geo_table: "same_geo s s' \<Longrightarrow> table_ok cap io s' = table_ok cap io s"
  by (simp only: table_ok_def same_geo_funs)

context disk_device
begin

abbreviation tbl :: "'d tff \<Rightarrow> bool" where "tbl \<equiv> table_ok dcap io"
abbreviation fbase :: "'d tff \<Rightarrow> nat" where "fbase s \<equiv> unat (fs_fatbase (cur_fs s))"

text \<open>Byte \<open>p\<close> of the table is in the window.\<close>

definition shows_byte :: "nat \<Rightarrow> 'd tff \<Rightarrow> bool" where
  "shows_byte p s \<longleftrightarrow> unat (fs_winsect (cur_fs s)) = fbase s + p div 512"

lemma table_byte_sector:
  assumes "tbl s" "p < 512 * unat (fs_sects_fat (cur_fs s))"
  shows "fbase s + p div 512 < dcap" "fbase s + p div 512 < 2 ^ 32" "0 < fbase s"
    "\<not> in_copies (cur_fs s) (fbase s + p div 512)" "fbase s + p div 512 < fat_end (cur_fs s)"
proof -
  have l: "p div 512 < unat (fs_sects_fat (cur_fs s))" using assms(2) by (simp add: less_mult_imp_div_less mult.commute)
  then have "1 * unat (fs_sects_fat (cur_fs s)) \<le> max 1 (unat (fs_n_fats (cur_fs s))) * unat (fs_sects_fat (cur_fs s))"
    by (intro mult_le_mono1) simp
  then show e: "fbase s + p div 512 < fat_end (cur_fs s)" unfolding fat_end_def using l by linarith
  have "fat_end (cur_fs s) \<le> dcap" using fat_end_bound assms(1) by (simp add: table_ok_def)
  then show "fbase s + p div 512 < dcap" "fbase s + p div 512 < 2 ^ 32" using e dcap_bound by linarith+
  show "0 < fbase s" using assms(1) by (auto simp: table_ok_def vol_ok_def unat_gt_0)
  show "\<not> in_copies (cur_fs s) (fbase s + p div 512)" using l by (simp add: in_copies_def)
qed

lemma fetch_view:
  assumes h: "hld s" and t: "tbl s" and p: "p < 512 * unat (fs_sects_fat (cur_fs s))"
    and n: "unat n = fbase s + p div 512" and mw: "move_window io n s = (ok, s')"
  shows "hld s'" "same_view dsec s s'" "reads_ok \<and> writes_ok \<longrightarrow> ok" "ok \<Longrightarrow> shows_byte p s'"
proof -
  note b = table_byte_sector [OF t p]
  have n0: "n \<noteq> 0" using n b(3) by auto
  have cap: "unat n < dcap" "\<not> in_copies (cur_fs s) (unat n)" using n b by simp_all
  have t': "\<not> FS_READONLY io" "vol_ok dcap (cur_fs s)" "fat_end (cur_fs s) \<le> unat (fs_database (cur_fs s))"
    using t by (simp_all add: table_ok_def)
  note m = move_window_view [OF h t' cap(1) n0 cap(2) mw]
  show "hld s'" "same_view dsec s s'" "reads_ok \<and> writes_ok \<longrightarrow> ok" using m by auto
  show "ok \<Longrightarrow> shows_byte p s'"
    using m n same_geo_funs(7) [OF same_view_geo [of dsec s s']] by (simp add: shows_byte_def)
qed

lemma shown_byte:
  assumes "hld s" "tbl s" "p < 512 * unat (fs_sects_fat (cur_fs s))" "shows_byte p s"
  shows "fs_win s ! (p mod 512) = fat_byte (view s) (fbase s) p"
proof -
  have "fs_winsect (cur_fs s) \<noteq> 0"
    using assms(4) table_byte_sector(3) [OF assms(2,3)] by (auto simp: shows_byte_def)
  then show ?thesis using assms(1,4) by (simp add: held_def fat_byte_def shows_byte_def)
qed

lemma set_byte_view:
  assumes h: "hld s" and t: "tbl s" and p: "p < 512 * unat (fs_sects_fat (cur_fs s))" "shows_byte p s"
    and s': "s' = upd_cur (fs_winflag_update (\<lambda>_. 1)) (s\<lparr>fs_win := (fs_win s)[p mod 512 := b]\<rparr>)"
  shows "hld s'" "same_geo s s'" "n \<noteq> fbase s + p div 512 \<Longrightarrow> view s' n = view s n"
    "fat_byte (view s') (fbase s) k = (if k = p then b else fat_byte (view s) (fbase s) k)" "shows_byte p s'"
proof -
  note bs = table_byte_sector [OF t p(1)]
  let ?n = "fbase s + p div 512"
  have w: "unat (fs_winsect (cur_fs s)) = ?n" using p(2) by (simp add: shows_byte_def)
  have n0: "fs_winsect (cur_fs s) \<noteq> 0" using w bs(3) by auto
  have "length (fs_win s) = 512" "fs_win s = view s (unat (fs_winsect (cur_fs s)))"
    using h n0 unfolding held_def by blast+
  then have win: "fs_win s = view s ?n" "length (fs_win s) = 512" by (simp_all only: w)
  have v: "view s' = (dsec (disk s))(?n := (fs_win s)[p mod 512 := b])"
    by (simp add: s' vol_view_def w)
  show g: "same_geo s s'" by (simp add: s' same_geo_def upd_fs_def geo_def)
  have f: "fs_win s' = (fs_win s)[p mod 512 := b]" "fs_winsect (cur_fs s') = fs_winsect (cur_fs s)"
    "disk s' = disk s" "fs_fatbase (cur_fs s') = fs_fatbase (cur_fs s)" by (simp_all add: s')
  have "dinv (disk s)" "?n < dcap" using h bs(1) by (simp_all add: held_def)
  then show "hld s'" using v w win(2) unfolding held_def f by simp
  show other: "view s' n = view s n" if "n \<noteq> ?n" for n using that w unfolding v by (simp add: vol_view_def)
  show "shows_byte p s'" using p(2) by (simp add: shows_byte_def s')
  show "fat_byte (view s') (fbase s) k = (if k = p then b else fat_byte (view s) (fbase s) k)"
  proof (cases "k div 512 = p div 512")
    case True
    have "k = p \<longleftrightarrow> k mod 512 = p mod 512" using True by (metis div_mult_mod_eq)
    then show ?thesis using True win by (simp add: fat_byte_def v nth_list_update)
  next
    case False
    then have "view s' (fbase s + k div 512) = view s (fbase s + k div 512)" using other by simp
    then show ?thesis using False by (auto simp: fat_byte_def)
  qed
qed

text \<open>Looking at the volume, here through the entries of the table, does not change it.\<close>

definition looked_up :: "WORD \<Rightarrow> 'd tff \<Rightarrow> WORD \<Rightarrow> 'd tff \<Rightarrow> bool" where
  "looked_up c s r s' \<longleftrightarrow> hld s' \<and> same_view dsec s s'
     \<and> (r \<noteq> 1 \<longrightarrow> valid_clust (cur_fs s) c \<and> r = fat_entry (view s) (cur_fs s) c)
     \<and> (reads_ok \<and> writes_ok \<longrightarrow> valid_clust (cur_fs s) c \<longrightarrow> r = fat_entry (view s) (cur_fs s) c)"

text \<open>The bytes of an entry: where they are, and what the window shows when their sector has been fetched.\<close>

lemma fat12_bytes:
  assumes t: "tbl s" and v: "valid_clust (cur_fs s) c" and ty: "fs_type (cur_fs s) = FS_FAT12"
  shows "unat (c * 3 div 2) = unat c * 3 div 2" "unat (c * 3 div 2 + 1) = unat c * 3 div 2 + 1"
    "unat (c * 3 div 2) < 512 * unat (fs_sects_fat (cur_fs s))"
    "unat (c * 3 div 2 + 1) < 512 * unat (fs_sects_fat (cur_fs s))" "fat_width (cur_fs s) = 12"
proof -
  have vol: "vol_ok dcap (cur_fs s)" using t by (simp add: table_ok_def)
  have cm: "unat c < unat (fs_max_clust (cur_fs s))" using v by (simp add: valid_clust_def word_less_nat_alt)
  have m: "unat (fs_max_clust (cur_fs s)) \<le> 0xFF7"
    and sz: "12 * unat (fs_max_clust (cur_fs s)) \<le> unat (fs_sects_fat (cur_fs s)) * 4096"
    using vol ty by (auto simp: vol_ok_def fat_width_def FS_FAT12_def FS_FAT16_def)
  show u: "unat (c * 3 div 2) = unat c * 3 div 2" "unat (c * 3 div 2 + 1) = unat c * 3 div 2 + 1"
    using unat_half3 [of c] cm m by simp_all
  show "unat (c * 3 div 2) < 512 * unat (fs_sects_fat (cur_fs s))"
    "unat (c * 3 div 2 + 1) < 512 * unat (fs_sects_fat (cur_fs s))" using u cm sz by linarith+
  show "fat_width (cur_fs s) = 12" using ty by (simp add: fat_width_def)
qed

lemma fat16_bytes:
  assumes t: "tbl s" and v: "valid_clust (cur_fs s) c" and ty: "fs_type (cur_fs s) \<noteq> FS_FAT12"
  shows "2 * unat c < 512 * unat (fs_sects_fat (cur_fs s))" "2 * unat c + 1 < 512 * unat (fs_sects_fat (cur_fs s))"
    "fs_type (cur_fs s) = FS_FAT16" "fat_width (cur_fs s) = 16" "fbase s + unat c div 256 < 2 ^ 32"
proof -
  have vol: "vol_ok dcap (cur_fs s)" using t by (simp add: table_ok_def)
  show "fs_type (cur_fs s) = FS_FAT16" "fat_width (cur_fs s) = 16" using vol ty by (auto simp: vol_ok_def fat_width_def)
  have "16 * unat (fs_max_clust (cur_fs s)) \<le> unat (fs_sects_fat (cur_fs s)) * 4096"
    using vol ty by (auto simp: vol_ok_def fat_width_def)
  moreover have "unat c < unat (fs_max_clust (cur_fs s))" using v by (simp add: valid_clust_def word_less_nat_alt)
  ultimately show i: "2 * unat c < 512 * unat (fs_sects_fat (cur_fs s))"
    "2 * unat c + 1 < 512 * unat (fs_sects_fat (cur_fs s))" by linarith+
  show "fbase s + unat c div 256 < 2 ^ 32" using table_byte_sector(2) [OF t i(1)] by linarith
qed

lemma fetched:
  assumes h: "hld s" and t: "tbl s" and p: "p < 512 * unat (fs_sects_fat (cur_fs s))"
    and n: "unat n = fbase s + p div 512" and mw: "move_window io n s = (ok, s')"
  shows "hld s'" "tbl s'" "same_view dsec s s'" "reads_ok \<and> writes_ok \<Longrightarrow> ok"
    "ok \<Longrightarrow> p' < 512 * unat (fs_sects_fat (cur_fs s)) \<Longrightarrow> p' div 512 = p div 512 \<Longrightarrow>
      fs_win s' ! (p' mod 512) = fat_byte (view s) (fbase s) p' \<and> shows_byte p' s'"
    "fs_fatbase (cur_fs s') = fs_fatbase (cur_fs s)" "fs_sects_fat (cur_fs s') = fs_sects_fat (cur_fs s)"
proof -
  note f = fetch_view [OF h t p n mw]
  note g = same_view_geo [OF f(2)]
  show "hld s'" "same_view dsec s s'" "reads_ok \<and> writes_ok \<Longrightarrow> ok" using f by auto
  show t': "tbl s'" using t same_geo_table [OF g] by simp
  show e: "fs_fatbase (cur_fs s') = fs_fatbase (cur_fs s)" "fs_sects_fat (cur_fs s') = fs_sects_fat (cur_fs s)"
    using same_geo_funs [OF g] by simp_all
  assume ok and p': "p' < 512 * unat (fs_sects_fat (cur_fs s))" "p' div 512 = p div 512"
  then have "shows_byte p' s'" using f(4) by (simp add: shows_byte_def)
  moreover have "p' < 512 * unat (fs_sects_fat (cur_fs s'))" using p'(1) e by simp
  ultimately show "fs_win s' ! (p' mod 512) = fat_byte (view s) (fbase s) p' \<and> shows_byte p' s'"
    using shown_byte [OF f(1) t'] same_view_byte [OF f(2) p'(1)] e by simp
qed

lemma get_cluster12_view:
  assumes h: "hld s" and t: "tbl s" and v: "valid_clust (cur_fs s) c" and ty: "fs_type (cur_fs s) = FS_FAT12"
    and gc: "get_cluster io c s = (r, s')"
  shows "looked_up c s r s'"
proof -
  note b = fat12_bytes [OF t v ty]
  define bc where "bc = c * 3 div 2"
  note b = b [folded bc_def]
  note n1 = fat12_sector [OF table_byte_sector(2) [OF t b(3)]] and n2 = fat12_sector [OF table_byte_sector(2) [OF t b(4)]]
  obtain ok1 s1 where m1: "move_window io (fs_fatbase (cur_fs s) + ucast (bc div 512)) s = (ok1, s1)" by fastforce
  note f1 = fetched [OF h t b(3) n1(1) m1]
  obtain ok2 s2 where m2: "move_window io (fs_fatbase (cur_fs s) + ucast ((bc + 1) div 512)) s1 = (ok2, s2)" by fastforce
  note f2 = fetched [OF f1(1,2) _ _ m2, of "unat (bc + 1)", unfolded f1(6,7), OF b(4) n2(1)]
  note v2 = same_view_trans [OF f1(3) f2(3)]
  have b1: "fs_win s1 ! unat (bc mod 512) = fat_byte (view s) (fbase s) (unat bc)" if ok1
    using f1(5) [OF that b(3) refl] n1(2) by simp
  have b2: "fs_win s2 ! unat ((bc + 1) mod 512) = fat_byte (view s) (fbase s) (unat (bc + 1))" if ok2
    using f2(5) [OF that b(4) refl] n2(2) same_view_byte [OF f1(3) b(4)] by simp
  let ?wc = "ucast (fs_win s1 ! unat (bc mod 512)) OR push_bit 8 (ucast (fs_win s2 ! unat ((bc + 1) mod 512))) :: WORD"
  have gc': "(r, s') = (if \<not> ok1 then (1, s1) else if \<not> ok2 then (1, s2)
      else (if c AND 1 \<noteq> 0 then drop_bit 4 ?wc else ?wc AND 0xFFF, s2))"
    using gc v ty m1 m2 by (auto simp: get_cluster_def Let_def bc_def valid_clust_def)
  have "ok1 \<Longrightarrow> ok2 \<Longrightarrow> (if c AND 1 \<noteq> 0 then drop_bit 4 ?wc else ?wc AND 0xFFF) = fat_entry (view s) (cur_fs s) c"
    using b1 b2 fat12_odd [OF _ refl refl] fat12_even [OF _ refl refl] by (simp add: and1_odd b(1,2,5) fat_entry_def)
  then show ?thesis using gc' f1(1,3,4) f2(1,4) v2 v by (auto simp: looked_up_def split: if_splits)
qed

lemma get_cluster16_view:
  assumes h: "hld s" and t: "tbl s" and v: "valid_clust (cur_fs s) c" and ty: "fs_type (cur_fs s) \<noteq> FS_FAT12"
    and gc: "get_cluster io c s = (r, s')"
  shows "looked_up c s r s'"
proof -
  note b = fat16_bytes [OF t v ty]
  note n = fat16_sector [OF b(5)]
  obtain ok1 s1 where m1: "move_window io (fs_fatbase (cur_fs s) + ucast (c div 256)) s = (ok1, s1)" by fastforce
  note f = fetched [OF h t b(1) n(1) m1]
  have bs: "fs_win s1 ! (2 * unat c mod 512) = fat_byte (view s) (fbase s) (2 * unat c)"
    "fs_win s1 ! (2 * unat c mod 512 + 1) = fat_byte (view s) (fbase s) (2 * unat c + 1)" if ok1
    using f(5) [OF that b(1) refl] f(5) [OF that b(2) n(3)] n(4) by simp_all
  have gc': "(r, s') = (if \<not> ok1 then (1, s1) else (LD_WORD (fs_win s1) (unat (c * 2 mod 512)), s1))"
    using gc v ty b(3) m1 by (simp add: get_cluster_def Let_def valid_clust_def split: if_splits)
  have "ok1 \<Longrightarrow> LD_WORD (fs_win s1) (unat (c * 2 mod 512)) = fat_entry (view s) (cur_fs s) c"
    using bs fat16 [OF refl refl, of "view s" "fbase s" "unat c"] by (simp add: LD_WORD_def n(2) fat_entry_def b(4))
  then show ?thesis using gc' f(1,3,4) v by (auto simp: looked_up_def split: if_splits)
qed

lemma get_cluster_view:
  assumes h: "hld s" and t: "tbl s" and gc: "get_cluster io c s = (r, s')"
  shows "looked_up c s r s'"
proof (cases "valid_clust (cur_fs s) c")
  case False
  then show ?thesis using gc h by (auto simp: get_cluster_def Let_def valid_clust_def looked_up_def)
next
  case True
  then show ?thesis using get_cluster12_view [OF h t True _ gc] get_cluster16_view [OF h t True _ gc] by blast
qed

text \<open>Changing an entry: a byte of the table is fetched and set.\<close>

abbreviation set_byte :: "nat \<Rightarrow> BYTE \<Rightarrow> 'd tff \<Rightarrow> 'd tff" where
  "set_byte p b s \<equiv> upd_cur (fs_winflag_update (\<lambda>_. 1)) (s\<lparr>fs_win := (fs_win s)[p mod 512 := b]\<rparr>)"

definition outside :: "'d tff \<Rightarrow> 'd tff \<Rightarrow> bool" where
  "outside s s' \<longleftrightarrow> (\<forall>n. n < fbase s \<or> fat_end (cur_fs s) \<le> n \<longrightarrow> view s' n = view s n)"

definition patched :: "(nat \<Rightarrow> BYTE option) \<Rightarrow> 'd tff \<Rightarrow> nat \<Rightarrow> BYTE" where
  "patched f s k = (case f k of None \<Rightarrow> fat_byte (view s) (fbase s) k | Some b \<Rightarrow> b)"

definition bytes_set :: "(nat \<Rightarrow> BYTE option) \<Rightarrow> 'd tff \<Rightarrow> 'd tff \<Rightarrow> bool" where
  "bytes_set f s s' \<longleftrightarrow> hld s' \<and> tbl s' \<and> same_geo s s' \<and> outside s s'
     \<and> (\<forall>k < 512 * unat (fs_sects_fat (cur_fs s)).
          fat_byte (view s') (fbase s) k = patched f s k)"

lemma bytes_set_refl: "hld s \<Longrightarrow> tbl s \<Longrightarrow> bytes_set Map.empty s s"
  by (simp add: bytes_set_def outside_def patched_def)

lemma bytes_setD:
  assumes "bytes_set f s s'"
  shows "hld s'" "tbl s'" "same_geo s s'" "fs_fatbase (cur_fs s') = fs_fatbase (cur_fs s)"
    "fs_sects_fat (cur_fs s') = fs_sects_fat (cur_fs s)"
  using assms same_geo_funs [of s s'] by (auto simp: bytes_set_def)

lemma bytes_set_fetch:
  assumes f: "bytes_set f s s1" and p: "p < 512 * unat (fs_sects_fat (cur_fs s))"
    and n: "unat n = fbase s + p div 512" and mw: "move_window io n s1 = (ok, s2)"
  shows "bytes_set f s s2" "reads_ok \<and> writes_ok \<Longrightarrow> ok"
    "ok \<Longrightarrow> p' < 512 * unat (fs_sects_fat (cur_fs s)) \<Longrightarrow> p' div 512 = p div 512 \<Longrightarrow>
      fs_win s2 ! (p' mod 512) = fat_byte (view s1) (fbase s) p' \<and> shows_byte p' s2"
proof -
  note d = bytes_setD [OF f]
  note g = fetched [OF d(1,2) _ _ mw, of p, unfolded d(4,5), OF p n]
  show "reads_ok \<and> writes_ok \<Longrightarrow> ok" using g(4) .
  show "ok \<Longrightarrow> p' < 512 * unat (fs_sects_fat (cur_fs s)) \<Longrightarrow> p' div 512 = p div 512 \<Longrightarrow>
      fs_win s2 ! (p' mod 512) = fat_byte (view s1) (fbase s) p' \<and> shows_byte p' s2" using g(5) .
  have "same_geo s s2" using same_geo_trans [OF d(3) same_view_geo [OF g(3)]] .
  moreover have "outside s s2"
    using f g(3) same_geo_funs [OF d(3)] by (auto simp: bytes_set_def outside_def same_view_def in_copies_def)
  moreover have "fat_byte (view s2) (fbase s) k = fat_byte (view s1) (fbase s) k"
    if "k < 512 * unat (fs_sects_fat (cur_fs s))" for k
    using same_view_byte [OF g(3), of k] that by (simp add: d)
  ultimately show "bytes_set f s s2" using f g(1,2) by (simp add: bytes_set_def)
qed

lemma bytes_set_byte:
  assumes f: "bytes_set f s s1" and p: "p < 512 * unat (fs_sects_fat (cur_fs s))" "shows_byte p s1"
  shows "bytes_set (f(p \<mapsto> b)) s (set_byte p b s1)" "shows_byte p (set_byte p b s1)"
proof -
  note d = bytes_setD [OF f]
  have p1: "p < 512 * unat (fs_sects_fat (cur_fs s1))" using p(1) d by simp
  note k = set_byte_view [OF d(1,2) p1 p(2) refl, unfolded d(4), where b = b]
  show "shows_byte p (set_byte p b s1)" using k(5) .
  have "same_geo s (set_byte p b s1)" using same_geo_trans [OF d(3) k(2)] .
  moreover have "tbl (set_byte p b s1)" using d(2) same_geo_table [OF k(2)] by simp
  moreover have "outside s (set_byte p b s1)"
  proof -
    have "fbase s + p div 512 < fat_end (cur_fs s)"
      using table_byte_sector(5) [OF d(2) p1] same_geo_funs [OF d(3)] by simp
    then have "view (set_byte p b s1) n = view s1 n" if "n < fbase s \<or> fat_end (cur_fs s) \<le> n" for n
      using that k(3) by auto
    then show ?thesis using f by (simp add: bytes_set_def outside_def)
  qed
  ultimately show "bytes_set (f(p \<mapsto> b)) s (set_byte p b s1)"
    using f k(1,4) by (simp add: bytes_set_def patched_def)
qed

text \<open>The result of \<open>put_cluster\<close>: whether or not it succeeds, no other entry changes.\<close>

definition entered :: "WORD \<Rightarrow> WORD \<Rightarrow> 'd tff \<Rightarrow> bool \<Rightarrow> 'd tff \<Rightarrow> bool" where
  "entered c v s ok s' \<longleftrightarrow> hld s' \<and> same_geo s s' \<and> outside s s'
     \<and> (\<forall>c'. valid_clust (cur_fs s) c' \<longrightarrow> c' \<noteq> c \<longrightarrow>
          fat_entry (view s') (cur_fs s) c' = fat_entry (view s) (cur_fs s) c')
     \<and> (ok \<longrightarrow> fat_entry (view s') (cur_fs s) c = v AND mask (fat_width (cur_fs s)))
     \<and> (reads_ok \<and> writes_ok \<longrightarrow> ok)"

lemma bytes_set_entered:
  fixes c v :: WORD and s :: "'d tff"
  defines "w \<equiv> fat_width (cur_fs s)"
  assumes f: "bytes_set f s s'" and vol: "vol_ok dcap (cur_fs s)" and c: "valid_clust (cur_fs s) c"
    and out: "\<And>x. \<not> (w * unat c \<le> x \<and> x < w * unat c + w) \<Longrightarrow>
      bit (patched f s (x div 8)) (x mod 8) = bit (fat_byte (view s) (fbase s) (x div 8)) (x mod 8)"
    and new: "\<And>i. ok \<Longrightarrow> i < w \<Longrightarrow> bit (patched f s ((w * unat c + i) div 8)) ((w * unat c + i) mod 8) = bit v i"
    and io: "reads_ok \<and> writes_ok \<longrightarrow> ok"
  shows "entered c v s ok s'"
proof -
  have b: "fat_bit (view s') (fbase s) x = bit (patched f s (x div 8)) (x mod 8)"
    if "x < 4096 * unat (fs_sects_fat (cur_fs s))" for x
    using f that by (simp add: fat_bit_def bytes_set_def)
  have "fat_entry (view s') (cur_fs s) c' = fat_entry (view s) (cur_fs s) c'"
    if "valid_clust (cur_fs s) c'" "c' \<noteq> c" for c'
    by (rule entry_other [OF _ vol that]) (use b out in \<open>simp add: w_def fat_bit_def\<close>)
  moreover have "fat_entry (view s') (cur_fs s) c = v AND mask w" if ok
    unfolding w_def by (rule entry_new) (use b new [OF that] entry_bits [OF vol c] in \<open>simp add: w_def\<close>)
  ultimately show ?thesis using f io by (auto simp: entered_def w_def bytes_set_def)
qed

lemma put_cluster16_view:
  assumes h: "hld s" and t: "tbl s" and v: "valid_clust (cur_fs s) c" and ty: "fs_type (cur_fs s) \<noteq> FS_FAT12"
    and pc: "put_cluster io c val s = (ok, s')"
  shows "entered c val s ok s'"
proof -
  note b = fat16_bytes [OF t v ty]
  note n = fat16_sector [OF b(5)]
  have vol: "vol_ok dcap (cur_fs s)" using t by (simp add: table_ok_def)
  obtain ok1 s1 where m1: "move_window io (fs_fatbase (cur_fs s) + ucast (c div 256)) s = (ok1, s1)" by fastforce
  note f = bytes_set_fetch [OF bytes_set_refl [OF h t] b(1) n(1) m1]
  show ?thesis
  proof (cases ok1)
    case False
    then have "ok = False" "s' = s1" using pc ty b(3) m1 by (simp_all add: put_cluster_def Let_def)
    then show ?thesis
      using bytes_set_entered [OF f(1) vol v, where ok = False and v = val] f(2) False by (auto simp: patched_def)
  next
    case True
    let ?p = "2 * unat c"
    define g where "g = [?p \<mapsto> ucast val, ?p + 1 \<mapsto> (ucast (drop_bit 8 val) :: BYTE)]"
    let ?s2 = "set_byte ?p (ucast val) s1"
    note k1 = bytes_set_byte [OF f(1) b(1) conjunct2 [OF f(3) [OF True b(1) refl]], where b = "ucast val"]
    have "shows_byte (?p + 1) ?s2" using k1(2) n(3) by (simp add: shows_byte_def)
    note k2 = bytes_set_byte [OF k1(1) b(2) this, where b = "ucast (drop_bit 8 val)"]
    have e: "upd_fs (FatFs s1) (fs_winflag_update (\<lambda>_. 1)) (s1\<lparr>fs_win := ST_WORD (fs_win s1) (?p mod 512) val\<rparr>)
        = set_byte (?p + 1) (ucast (drop_bit 8 val)) ?s2"
      by (simp add: ST_WORD_def upd_fs_def n(4) [simplified])
    have "ok" "s' = set_byte (?p + 1) (ucast (drop_bit 8 val)) ?s2"
      using pc ty b(3) m1 True unfolding e [symmetric] by (simp_all add: put_cluster_def Let_def n(2))
    then have s': "ok" "bytes_set g s s'" using k2(1) by (simp_all add: g_def)
    have "bit (patched g s (x div 8)) (x mod 8) = (if 16 * unat c \<le> x \<and> x < 16 * unat c + 16
        then bit val (x - 16 * unat c) else bit (fat_byte (view s) (fbase s) (x div 8)) (x mod 8))" for x
      by (rule fat16_put) (auto simp: patched_def g_def)
    then show ?thesis
      using s'(1) by (intro bytes_set_entered [OF s'(2) vol v]) (auto simp: b(4))
  qed
qed

lemma put_cluster12_view:
  assumes h: "hld s" and t: "tbl s" and v: "valid_clust (cur_fs s) c" and ty: "fs_type (cur_fs s) = FS_FAT12"
    and pc: "put_cluster io c val s = (ok, s')"
  shows "entered c val s ok s'"
proof -
  note b = fat12_bytes [OF t v ty]
  define bc where "bc = c * 3 div 2"
  note b = b [folded bc_def]
  note n1 = fat12_sector [OF table_byte_sector(2) [OF t b(3)]] and n2 = fat12_sector [OF table_byte_sector(2) [OF t b(4)]]
  have vol: "vol_ok dcap (cur_fs s)" using t by (simp add: table_ok_def)
  let ?B = "fat_byte (view s) (fbase s)"
  define b1 where "b1 = (if c AND 1 \<noteq> 0 then (?B (unat bc) AND 0x0F) OR push_bit 4 (ucast val) else ucast val)"
  define b2 where "b2 = (if c AND 1 \<noteq> 0 then ucast (drop_bit 4 val)
      else (?B (unat (bc + 1)) AND 0xF0) OR (ucast (drop_bit 8 val) AND 0x0F))"
  define g where "g = [unat bc \<mapsto> b1, unat (bc + 1) \<mapsto> b2]"
  have bits: "bit (patched g s (x div 8)) (x mod 8) = (if 12 * unat c \<le> x \<and> x < 12 * unat c + 12
      then bit val (x - 12 * unat c) else bit (?B (x div 8)) (x mod 8))" for x
    by (rule fat12_put [where p = "unat bc"]) (use b in \<open>auto simp: patched_def g_def b1_def b2_def and1_odd\<close>)
  obtain ok1 s1 where m1: "move_window io (fs_fatbase (cur_fs s) + ucast (bc div 512)) s = (ok1, s1)" by fastforce
  note f1 = bytes_set_fetch [OF bytes_set_refl [OF h t] b(3) n1(1) m1]
  show ?thesis
  proof (cases ok1)
    case False
    then have "ok = False" "s' = s1" using pc ty m1 by (simp_all add: put_cluster_def Let_def bc_def)
    then show ?thesis
      using bytes_set_entered [OF f1(1) vol v, where ok = False and v = val] f1(2) False by (auto simp: patched_def)
  next
    case True
    have w1: "fs_win s1 ! unat (bc mod 512) = ?B (unat bc)" and sh1: "shows_byte (unat bc) s1"
      using f1(3) [OF True b(3) refl] n1(2) by simp_all
    note k1 = bytes_set_byte [OF f1(1) b(3) sh1, where b = b1]
    obtain ok2 s3 where m2: "move_window io (fs_fatbase (cur_fs s) + ucast ((bc + 1) div 512)) (set_byte (unat bc) b1 s1) = (ok2, s3)"
      by fastforce
    note f2 = bytes_set_fetch [OF k1(1) b(4) n2(1) m2]
    have ne: "unat (bc + 1) \<noteq> unat bc" using b(1,2) by simp
    have p1: "upd_fs (FatFs s1) (fs_winflag_update (\<lambda>_. 1)) (s1\<lparr>fs_win := (fs_win s1)[unat (bc mod 512) :=
        (if c AND 1 \<noteq> 0 then ((fs_win s1 ! unat (bc mod 512)) AND 0x0F) OR push_bit 4 (ucast val) else ucast val)]\<rparr>)
        = set_byte (unat bc) b1 s1"
      unfolding b1_def n1(2) w1 [unfolded n1(2)] by simp
    have w2: "fs_win s3 ! unat ((bc + 1) mod 512) = ?B (unat (bc + 1))" if ok2
      using f2(3) [OF that b(4) refl] n2(2) k1(1) b(4) ne by (simp add: bytes_set_def patched_def)
    have pc': "(ok, s') = (if \<not> ok2 then (False, s3) else (True, set_byte (unat (bc + 1)) b2 s3))"
    proof -
      have "put_cluster io c val s =
        (case move_window io (fs_fatbase (cur_fs s) + ucast ((bc + 1) div 512)) (set_byte (unat bc) b1 s1) of (ok, s) \<Rightarrow>
           if \<not> ok then (False, s)
           else (True, upd_cur (fs_winflag_update (\<lambda>_. 1)) (s\<lparr>fs_win := (fs_win s)[unat ((bc + 1) mod 512) :=
             (if c AND 1 \<noteq> 0 then ucast (drop_bit 4 val)
              else ((fs_win s ! unat ((bc + 1) mod 512)) AND 0xF0) OR (ucast (drop_bit 8 val) AND 0x0F))]\<rparr>)))"
        unfolding put_cluster_def Let_def bc_def [symmetric] p1 [symmetric] using ty m1 True by simp
      then show ?thesis using pc m2 w2 n2(2) by (simp add: b2_def)
    qed
    show ?thesis
    proof (cases ok2)
      case False
      then have e: "ok = False" "s' = s3" using pc' by simp_all
      have "bytes_set [unat bc \<mapsto> b1] s s3" using f2(1) by simp
      moreover have "bit (patched [unat bc \<mapsto> b1] s (x div 8)) (x mod 8) = bit (?B (x div 8)) (x mod 8)"
        if "\<not> (12 * unat c \<le> x \<and> x < 12 * unat c + 12)" for x
        using bits [of x] that ne by (auto simp: patched_def g_def split: if_splits)
      ultimately show ?thesis
        using f1(2) f2(2) False e by (intro bytes_set_entered [OF _ vol v]) (auto simp: b(5))
    next
      case True
      then have e: "ok" "s' = set_byte (unat (bc + 1)) b2 s3" using pc' by simp_all
      have "bytes_set g s s'"
        using bytes_set_byte [OF f2(1) b(4) conjunct2 [OF f2(3) [OF True b(4) refl]], where b = b2] e(2) by (simp add: g_def)
      then show ?thesis using e(1) by (intro bytes_set_entered [OF _ vol v]) (auto simp: b(5) bits)
    qed
  qed
qed

lemma put_cluster_view:
  assumes "hld s" "tbl s" "valid_clust (cur_fs s) c" "put_cluster io c val s = (ok, s')"
  shows "entered c val s ok s'"
  using put_cluster12_view [OF assms(1-3) _ assms(4)] put_cluster16_view [OF assms(1-3) _ assms(4)] by blast

end

end
