(* ===== verification/TffInplaceProps.thy ===== *)
theory TffInplaceProps
  imports TffFileProps TffWriteProps
begin

text \<open>
  Writing in place: \<open>f_write_inplace\<close> overwrites bytes of a file, whole sectors at a time and past the
  window, so its correctness also depends on where the window is.  The window only ever moves to the
  allocation table while a file is read, written or positioned (\<open>on_table\<close>), so it stays clear of the
  sectors of the file, and stays coherent when they are overwritten.
\<close>

section \<open>Where the window goes\<close>

definition on_table :: "'d tff \<Rightarrow> 'd tff \<Rightarrow> bool" where
  "on_table s s' \<longleftrightarrow> fs_winsect (cur_fs s') = fs_winsect (cur_fs s)
     \<or> unat (fs_winsect (cur_fs s')) < unat (fs_database (cur_fs s))"

lemma on_table_refl [simp]: "on_table s s"
  by (simp add: on_table_def)

lemma on_table_trans:
  "on_table s t \<Longrightarrow> on_table t u \<Longrightarrow> fs_database (cur_fs t) = fs_database (cur_fs s) \<Longrightarrow> on_table s u"
  by (auto simp: on_table_def)

lemma fat_copies_object: "fsobj (write_fat_copies io n w s) = fsobj s" "FatFs (write_fat_copies io n w s) = FatFs s"
  by (induction io n w s rule: write_fat_copies.induct) (simp_all add: Let_def split: prod.splits)

lemma write_back_winsect:
  assumes "write_back io s = (ok, s')"
  shows "FatFs s' = FatFs s" "fs_winsect (cur_fs s') = fs_winsect (cur_fs s)"
  using assms
  by (auto simp: write_back_def Let_def fat_copies_object upd_fs_def split: prod.splits if_splits)

lemma move_window_winsect:
  assumes "move_window io n s = (ok, s')"
  shows "fs_winsect (cur_fs s') \<in> {fs_winsect (cur_fs s), n}"
proof -
  obtain ok1 s1 where 1: "(if FS_READONLY io then (True, s) else write_back io s) = (ok1, s1)" by fastforce
  then have "FatFs s1 = FatFs s" "fs_winsect (cur_fs s1) = fs_winsect (cur_fs s)"
    using write_back_winsect [of io s ok1 s1] by (auto split: if_splits)
  then show ?thesis using assms
    by (auto simp: move_window_def 1 Let_def upd_fs_def split: prod.splits if_splits)
qed

text \<open>The sectors \<open>get_cluster\<close> asks for are sectors of the table.\<close>

lemma table_sectors:
  assumes "vol_ok cap fs" "valid_clust fs c"
  shows "fs_type fs = FS_FAT12 \<Longrightarrow> unat (fs_fatbase fs + ucast (c * 3 div 2 div 512)) < unat (fs_database fs)"
    "fs_type fs = FS_FAT12 \<Longrightarrow> unat (fs_fatbase fs + ucast ((c * 3 div 2 + 1) div 512)) < unat (fs_database fs)"
    "fs_type fs = FS_FAT16 \<Longrightarrow> unat (fs_fatbase fs + ucast (c div 256)) < unat (fs_database fs)"
proof -
  have c: "unat c < unat (fs_max_clust fs)" using assms(2) by (simp add: valid_clust_def word_less_nat_alt)
  have w: "fat_width fs * unat (fs_max_clust fs) \<le> unat (fs_sects_fat fs) * 4096"
    and b: "unat (fs_fatbase fs) + unat (fs_sects_fat fs) \<le> unat (fs_database fs)"
    using assms(1) by (simp_all add: vol_ok_def)
  have place: "unat (fs_fatbase fs + ucast (k div m)) < unat (fs_database fs)"
    if "unat k div unat m < unat (fs_sects_fat fs)" for k m :: WORD
  proof -
    have "unat (fs_fatbase fs) + unat (k div m) < 2 ^ 32"
      using that b unat_bounds(3) [of "fs_database fs"] by (simp add: unat_div)
    then show ?thesis using that b by (subst unat_add_ucast_small) (simp_all add: unat_div)
  qed
  {
    assume t: "fs_type fs = FS_FAT12"
    then have "unat (fs_max_clust fs) \<le> 0xFF7" using assms(1) by (auto simp: vol_ok_def FS_FAT12_def FS_FAT16_def)
    then have u: "unat c < 0xFF7" using c by simp
    have l: "12 * unat c + 12 \<le> unat (fs_sects_fat fs) * 4096" using w c t by (simp add: fat_width_def)
    show "unat (fs_fatbase fs + ucast (c * 3 div 2 div 512)) < unat (fs_database fs)"
      by (rule place) (use l in \<open>simp add: unat_half3 [OF u]\<close>)
    show "unat (fs_fatbase fs + ucast ((c * 3 div 2 + 1) div 512)) < unat (fs_database fs)"
      by (rule place) (use l in \<open>simp add: unat_half3 [OF u]\<close>)
  next
    assume t: "fs_type fs = FS_FAT16"
    have l: "16 * unat c + 16 \<le> unat (fs_sects_fat fs) * 4096" using w c t by (simp add: fat_width_def FS_FAT12_def FS_FAT16_def)
    show "unat (fs_fatbase fs + ucast (c div 256)) < unat (fs_database fs)"
      by (rule place) (use l in simp)
  }
qed

lemma get_cluster_on_table:
  assumes "vol_ok cap (cur_fs s)" "get_cluster io c s = (r, s')"
  shows "on_table s s'"
proof (cases "valid_clust (cur_fs s) c")
  case False
  then have "s' = s" using assms(2) by (auto simp: get_cluster_def valid_clust_def Let_def)
  then show ?thesis by simp
next
  case True
  note t = table_sectors [OF assms(1) True]
  have v: "2 \<le> c" "c < fs_max_clust (cur_fs s)" using True by (simp_all add: valid_clust_def)
  show ?thesis
  proof (cases "fs_type (cur_fs s) = FS_FAT12")
    case t12: True
    obtain ok1 s1 where 1: "move_window io (fs_fatbase (cur_fs s) + ucast (c * 3 div 2 div 512)) s = (ok1, s1)" by fastforce
    obtain ok2 s2 where 2: "move_window io (fs_fatbase (cur_fs s) + ucast ((c * 3 div 2 + 1) div 512)) s1 = (ok2, s2)" by fastforce
    have "s' = (if ok1 then s2 else s1)"
      using assms(2) v t12 1 2 by (auto simp: get_cluster_def Let_def split: if_splits)
    then show ?thesis
      using move_window_winsect [OF 1] move_window_winsect [OF 2] t(1,2) [OF t12] by (auto simp: on_table_def)
  next
    case n12: False
    show ?thesis
    proof (cases "fs_type (cur_fs s) = FS_FAT16")
      case t16: True
      obtain ok1 s1 where 1: "move_window io (fs_fatbase (cur_fs s) + ucast (c div 256)) s = (ok1, s1)" by fastforce
      have "s' = s1" using assms(2) v n12 t16 1 by (auto simp: get_cluster_def Let_def split: if_splits)
      then show ?thesis using move_window_winsect [OF 1] t(3) [OF t16] by (auto simp: on_table_def)
    next
      case False
      then have "s' = s" using assms(2) n12 by (auto simp: get_cluster_def Let_def split: if_splits)
      then show ?thesis by simp
    qed
  qed
qed

lemma next_sector_on_table:
  assumes "vol_ok cap (cur_fs s)" "next_sector io fp s = (r, fp', s')"
  shows "on_table s s'"
proof (cases "fp_sect_clust fp - 1 \<noteq> 0 \<or> fp_fptr fp = 0")
  case True
  then have "s' = s" using assms(2) by (auto simp: next_sector_def Let_def split: if_splits)
  then show ?thesis by simp
next
  case False
  obtain c s1 where 1: "get_cluster io (fp_curr_clust fp) s = (c, s1)" by fastforce
  then have "s' = s1" using assms(2) False by (auto simp: next_sector_def Let_def split: if_splits)
  then show ?thesis using get_cluster_on_table [OF assms(1) 1] by simp
qed

lemma begin_round_on_table:
  assumes "vol_ok cap (cur_fs s)" "begin_round io fp btr s = (rd, fp', s')"
  shows "on_table s s'"
proof (cases "fp_fptr fp mod 512 = 0")
  case True
  obtain r fp1 s1 where 1: "next_sector io fp s = (r, fp1, s1)" by (metis prod_cases3)
  then have "s' = s1" using assms(2) True by (auto simp: begin_round_def Let_def split: option.splits if_splits)
  then show ?thesis using next_sector_on_table [OF assms(1) 1] by simp
next
  case False
  then show ?thesis using assms(2) by (simp add: begin_round_def)
qed

context disk_device
begin

lemma lseek_loop_on_table:
  assumes "lseek_loop io csize fp clust ofs s = Some y"
    and "coh s" "vol_ok dcap (cur_fs s)" "FS_READONLY io \<or> \<not> has (fp_flag fp) FA_WRITE"
  shows "on_table s (snd (snd y))"
proof -
  let ?P = "\<lambda>i c f cl o' s y. i = io \<longrightarrow> coh s \<longrightarrow> vol_ok dcap (cur_fs s) \<longrightarrow>
      (FS_READONLY io \<or> \<not> has (fp_flag f) FA_WRITE) \<longrightarrow> on_table s (snd (snd y))"
  have "?P io csize fp clust ofs s y"
  proof (rule lseek_loop.raw_induct [where P = ?P, OF _ assms(1)], intro impI)
    fix loop :: "'d diskio \<Rightarrow> DWORD \<Rightarrow> FIL \<Rightarrow> WORD \<Rightarrow> DWORD \<Rightarrow> 'd tff \<Rightarrow> ((WORD \<times> DWORD) option \<times> FIL \<times> 'd tff) option"
    fix i c f cl o' s y
    assume ih: "\<And>i c f cl o' s y. loop i c f cl o' s = Some y \<Longrightarrow> ?P i c f cl o' s y"
      and body: "(let fp = f\<lparr>fp_curr_clust := cl\<rparr> in
        if o' \<le> c then Some (Some (cl, o'), fp, s)
        else Option.bind
          (if \<not> FS_READONLY i \<and> has (fp_flag fp) FA_WRITE then create_chain i cl s
           else Some (get_cluster i cl s))
          (\<lambda>(cl, s). if cl = 0 then Some (Some (cl, c), fp, s)
             else if cl = 1 \<or> fs_max_clust (fsobj s (fp_fs fp)) \<le> cl then Some (None, fp, s)
             else loop i c (fp\<lparr>fp_fptr := fp_fptr fp + c\<rparr>) cl (o' - c) s)) = Some y"
      and i: "i = io" and coh: "coh s" and vol: "vol_ok dcap (cur_fs s)"
      and ro: "FS_READONLY io \<or> \<not> has (fp_flag f) FA_WRITE"
    obtain r s1 where 1: "get_cluster io cl s = (r, s1)" by fastforce
    note g = get_cluster_coh [OF coh vol 1]
    have w: "on_table s s1" using get_cluster_on_table [OF vol 1] .
    have v: "sv s s1" using g by blast
    have d: "fs_database (cur_fs s1) = fs_database (cur_fs s)" and vol1: "vol_ok dcap (cur_fs s1)"
      using vol vol_ok_same [OF v] same_vol_simps [OF v] by auto
    consider "snd (snd y) = s" | "snd (snd y) = s1"
      | f' o2 where "loop io c f' r o2 s1 = Some y" "fp_flag f' = fp_flag f"
      using body i ro 1 by (auto simp: Let_def split: if_splits)
    then show "on_table s (snd (snd y))"
    proof cases
      case 3
      have "on_table s1 (snd (snd y))" using ih [OF 3(1)] g vol1 ro by (simp add: 3(2))
      then show ?thesis using on_table_trans [OF w _ d] by blast
    qed (use w in simp_all)
  qed
  then show ?thesis using assms by blast
qed

lemma f_lseek_on_table:
  assumes "f_lseek io fp ofs s = Some (r, fp', s')"
    and "coh s" "vol_ok dcap (cur_fs s)" "FS_READONLY io \<or> \<not> has (fp_flag fp) FA_WRITE" "fp_org_clust fp \<noteq> 0"
  shows "on_table s s'"
proof -
  have mv: "on_table s s2" if "lseek_move io f o' s = Some (ok, f2, s2)" "fp_flag f = fp_flag fp" "fp_org_clust f = fp_org_clust fp"
    for f o' ok f2 s2
  proof -
    let ?m = "lseek_loop io (ucast (fs_sects_clust (fsobj s (fp_fs f))) * 512) f (fp_org_clust f) o' s"
    from that assms(5) obtain x f3 s3 where l: "?m = Some (x, f3, s3)"
      by (cases ?m) (auto simp: lseek_move_def Let_def)
    then have "s2 = s3" using that assms(5) by (auto simp: lseek_move_def Let_def split: option.splits)
    then show ?thesis using lseek_loop_on_table [OF l assms(2,3)] that(2) assms(4) by simp
  qed
  define o1 where "o1 = (if ofs > fp_fsize fp \<and> (FS_READONLY io \<or> \<not> has (fp_flag fp) FA_WRITE) then fp_fsize fp else ofs)"
  have "s' = s \<or> (\<exists>ok f2. lseek_move io (fp\<lparr>fp_fptr := 0, fp_sect_clust := 1\<rparr>) o1 s = Some (ok, f2, s'))"
    using assms(1) unfolding f_lseek_def Let_def o1_def [symmetric]
    by (auto split: if_splits bind_splits)
  then show ?thesis using mv by fastforce
qed

end

section \<open>Sectors of a file\<close>

lemma chain_sectors_range:
  assumes "vol_ok cap fs" "\<forall>c \<in> set cl. valid_clust fs c" "m \<in> set (chain_sectors fs cl)"
  shows "unat (fs_database fs) \<le> m" "m < cap"
proof -
  obtain c where c: "c \<in> set cl" "first_sector fs c \<le> m" "m < first_sector fs c + spc fs"
    using assms(3) by (auto simp: chain_sectors_def)
  have v: "valid_clust fs c" using assms(2) c(1) by simp
  show "unat (fs_database fs) \<le> m" "m < cap"
    using first_sector_bound [OF assms(1) v] c(2,3) by linarith+
qed

lemma distinct_chain_sectors:
  assumes "distinct cl" "\<forall>c \<in> set cl. valid_clust fs c"
  shows "distinct (chain_sectors fs cl)"
  using assms
proof (induction cl)
  case (Cons c cl)
  have "first_sector fs c + spc fs \<le> first_sector fs c' \<or> first_sector fs c' + spc fs \<le> first_sector fs c"
    if "c' \<in> set cl" for c'
    using that Cons.prems by (intro first_sector_disjoint) auto
  then have "{first_sector fs c ..< first_sector fs c + spc fs} \<inter> set (chain_sectors fs cl) = {}"
    by (fastforce simp: chain_sectors_def)
  then show ?case using Cons by (simp add: chain_sectors_def)
qed (simp add: chain_sectors_def)

lemma sectors_store:
  assumes "k * 512 \<le> length bs"
  shows "sectors (store_sectors sec n k bs) n k = take (k * 512) bs"
  using assms
proof (induction k)
  case (Suc k)
  have "sectors (store_sectors sec n (Suc k) bs) n k = sectors (store_sectors sec n k bs) n k"
    by (rule sectors_cong) (simp add: store_sectors_def)
  moreover have "sectors (store_sectors sec n (Suc k) bs) (n + k) 1 = slice (k * 512) 512 bs"
    by (simp add: store_sectors_def)
  moreover have "take (Suc k * 512) bs = take (k * 512) bs @ slice (k * 512) 512 bs"
    using slice_append_slice [of 0 "k * 512" bs 512] by (simp add: slice_0 add.commute)
  ultimately show ?case using Suc sectors_add [of _ n k 1] by simp
qed simp

lemma concat_take_drop:
  assumes "\<And>x. x \<in> set xs \<Longrightarrow> length x = m" "n \<le> length xs"
  shows "take (n * m) (concat xs) = concat (take n xs)" "drop (n * m) (concat xs) = concat (drop n xs)"
proof -
  have "length (concat (take n xs)) = n * m"
    using length_concat_chunks [of "take n xs" m] assms set_take_subset [of n xs] by auto
  moreover have "concat xs = concat (take n xs) @ concat (drop n xs)"
    by (metis append_take_drop_id concat_append)
  ultimately show "take (n * m) (concat xs) = concat (take n xs)" "drop (n * m) (concat xs) = concat (drop n xs)"
    by simp_all
qed

text \<open>Storing whole sectors of a file overwrites its bytes there.\<close>

lemma chain_bytes_store:
  assumes len: "\<And>m. length (sec m) = 512" and "distinct cl" "\<forall>c \<in> set cl. valid_clust fs c"
    and n: "n mod spc fs + k \<le> spc fs" "n < length cl * spc fs" "0 < k" and bs: "k * 512 \<le> length bs"
  shows "chain_bytes (store_sectors sec (file_sector fs cl n) k bs) fs cl
    = blit (chain_bytes sec fs cl) (n * 512) (take (k * 512) bs)"
proof -
  let ?S = "chain_sectors fs cl" and ?f = "file_sector fs cl n"
  let ?sec = "store_sectors sec ?f k bs"
  have run: "slice n k ?S = [?f ..< ?f + k]" and b: "n + k \<le> length ?S"
    using chain_sectors_slice [OF n] by (simp_all add: length_chain_sectors)
  have split: "?S = take n ?S @ [?f ..< ?f + k] @ drop (n + k) ?S"
    unfolding run [symmetric] by (metis append_take_drop_id drop_drop slice_def add.commute)
  have "distinct (take n ?S @ [?f ..< ?f + k] @ drop (n + k) ?S)"
    using distinct_chain_sectors [OF assms(2,3)] split by simp
  then have out: "\<forall>m \<in> set (take n ?S) \<union> set (drop (n + k) ?S). ?sec m = sec m"
    by (auto simp: store_sectors_def)
  have "chain_bytes ?sec fs cl = concat (map ?sec (take n ?S)) @ sectors ?sec ?f k @ concat (map ?sec (drop (n + k) ?S))"
    unfolding chain_bytes_def sectors_def by (subst split) simp
  also have "\<dots> = concat (map sec (take n ?S)) @ take (k * 512) bs @ concat (map sec (drop (n + k) ?S))"
    using out sectors_store [OF bs] by (simp cong: map_cong)
  also have "concat (map sec (take n ?S)) = take (n * 512) (chain_bytes sec fs cl)"
    unfolding chain_bytes_def using b by (subst concat_take_drop(1)) (auto simp: len take_map)
  also have "concat (map sec (drop (n + k) ?S)) = drop ((n + k) * 512) (chain_bytes sec fs cl)"
    unfolding chain_bytes_def using b by (subst concat_take_drop(2)) (auto simp: len drop_map)
  finally show ?thesis using bs by (simp add: blit_def algebra_simps min_def)
qed

text \<open>The links of the table depend on the sectors before the data area only.\<close>

lemma fat_entry_below_data:
  assumes "\<And>m. m < unat (fs_database fs) \<Longrightarrow> sec' m = sec m" "vol_ok cap fs" "valid_clust fs c"
  shows "fat_entry sec' fs c = fat_entry sec fs c"
  unfolding fat_entry_def
proof (rule fat_field_cong)
  fix i assume "i < fat_width fs"
  from entry_bits [OF assms(2,3) this]
  have "(fat_width fs * unat c + i) div 8 div 512 < unat (fs_sects_fat fs)" by simp
  moreover have "unat (fs_fatbase fs) + unat (fs_sects_fat fs) \<le> unat (fs_database fs)"
    using assms(2) by (simp add: vol_ok_def)
  ultimately show "fat_bit sec' (unat (fs_fatbase fs)) (fat_width fs * unat c + i)
      = fat_bit sec (unat (fs_fatbase fs)) (fat_width fs * unat c + i)"
    by (simp add: fat_bit_def fat_byte_def assms(1))
qed

lemma chain_ok_below_data:
  assumes "\<And>m. m < unat (fs_database fs) \<Longrightarrow> sec' m = sec m" "vol_ok cap fs" "chain_ok sec fs cl"
  shows "chain_ok sec' fs cl"
  using assms(3) fat_entry_below_data [OF assms(1,2)]
  by (auto simp: chain_ok_def successively_conv_nth)

section \<open>A round of the loop\<close>

text \<open>The objects are the same up to the window's place, whatever happened to the medium.\<close>

abbreviation same_objs :: "'d diskio \<Rightarrow> 'd tff \<Rightarrow> 'd tff \<Rightarrow> bool" where
  "same_objs io \<equiv> same_vol io (\<lambda>_ _. [])"

lemma same_vol_objs: "same_vol io dsec s s' \<Longrightarrow> same_objs io s s'"
  by (auto simp: same_vol_def)

lemma same_objs_medium: "same_objs io s s' \<Longrightarrow> dsec (disk s') = dsec (disk s) \<Longrightarrow> same_vol io dsec s s'"
  by (auto simp: same_vol_def)

lemma same_objs_cur: "same_objs io s s' \<Longrightarrow> cur_fs s' = fsobj s' (FatFs s)"
  by (simp add: same_vol_simps)

definition window_clear :: "'d tff \<Rightarrow> WORD list \<Rightarrow> bool" where
  "window_clear s cl \<longleftrightarrow> unat (fs_winsect (cur_fs s)) \<notin> set (chain_sectors (cur_fs s) cl)"

lemma clear_on_table:
  assumes "window_clear s cl" "on_table s s'" "same_objs io s s'" "vol_ok cap (cur_fs s)"
    "\<forall>c \<in> set cl. valid_clust (cur_fs s) c"
  shows "window_clear s' cl"
proof -
  have "chain_sectors (cur_fs s') cl = chain_sectors (cur_fs s) cl"
    using vol_funs_same(3) [OF assms(3)] same_objs_cur [OF assms(3)] by simp
  moreover have "m \<notin> set (chain_sectors (cur_fs s) cl)" if "m < unat (fs_database (cur_fs s))" for m
    using chain_sectors_range(1) [OF assms(4,5), of m] that by auto
  ultimately show ?thesis using assms(1,2) unfolding window_clear_def on_table_def by metis
qed

lemma slice_prefix: "j \<le> j' \<Longrightarrow> set (slice a j xs) \<subseteq> set (slice a j' xs)"
  by (simp add: slice_def set_take_subset_set_take)

lemma set_slice: "set (slice a j xs) \<subseteq> set xs"
  using set_take_subset set_drop_subset by (force simp: slice_def)

context disk_device
begin

text \<open>At most the \<open>j\<close> sectors of the file from its sector \<open>a\<close> on have changed.\<close>

definition touched :: "'d tff \<Rightarrow> 'd tff \<Rightarrow> WORD list \<Rightarrow> nat \<Rightarrow> nat \<Rightarrow> bool" where
  "touched s s' cl a j \<longleftrightarrow> coh s' \<and> window_clear s' cl \<and> same_objs io s s'
     \<and> (\<forall>m. m \<notin> set (slice a j (chain_sectors (cur_fs s) cl)) \<longrightarrow> dsec (disk s') m = dsec (disk s) m)"

lemma touched_none: "coh s' \<Longrightarrow> window_clear s' cl \<Longrightarrow> sv s s' \<Longrightarrow> touched s s' cl a j"
  using same_vol_simps(4) [of io dsec s s'] by (simp add: touched_def same_vol_objs)

lemma touched_mono: "touched s s' cl a j \<Longrightarrow> j \<le> j' \<Longrightarrow> touched s s' cl a j'"
  using slice_prefix [of j j' a] by (fastforce simp: touched_def)

lemma touched_trans:
  assumes "touched s t cl a j" "touched t u cl (a + j) j'"
  shows "touched s u cl a (j + j')"
proof -
  have "chain_sectors (cur_fs t) cl = chain_sectors (cur_fs s) cl"
    using assms(1) same_objs_cur [of io s t] vol_funs_same(3) [of io "\<lambda>_ _. []" s t] by (simp add: touched_def)
  moreover have "slice a (j + j') xs = slice a j xs @ slice (a + j) j' xs" for xs :: "nat list"
    by (simp add: slice_append_slice)
  ultimately show ?thesis using assms same_vol_trans [of io "\<lambda>_ _. []" s t u] by (simp add: touched_def)
qed

lemma touched_file:
  assumes tc: "touched s s' cl a j" and sf: "same_file fp fp'"
    and vol: "vol_ok dcap (cur_fs s)" and fo: "file_on (dsec (disk s)) (cur_fs s) fp cl"
  shows "vol_ok dcap (cur_fs s')" "file_on (dsec (disk s')) (cur_fs s') fp' cl"
    "pos_ok (cur_fs s') cl = pos_ok (cur_fs s) cl" "chain_bytes sec (cur_fs s') cl = chain_bytes sec (cur_fs s) cl"
    "chain_sectors (cur_fs s') cl = chain_sectors (cur_fs s) cl"
    "fp_fs fp' = FatFs s' \<longleftrightarrow> fp_fs fp = FatFs s"
proof -
  have v: "same_objs io s s'" using tc by (simp add: touched_def)
  note cur = same_objs_cur [OF v] and f = vol_funs_same [OF v] and same_file_simps [OF sf, simp]
  show "vol_ok dcap (cur_fs s')" using vol vol_ok_same [OF v] by (simp add: cur)
  show "pos_ok (cur_fs s') cl = pos_ok (cur_fs s) cl" "chain_bytes sec (cur_fs s') cl = chain_bytes sec (cur_fs s) cl"
    "chain_sectors (cur_fs s') cl = chain_sectors (cur_fs s) cl"
    by (simp_all add: cur f)
  show "fp_fs fp' = FatFs s' \<longleftrightarrow> fp_fs fp = FatFs s" using same_vol_simps(1) [OF v] by simp
  have val: "\<forall>c \<in> set cl. valid_clust (cur_fs s) c" using fo by (simp add: file_on_def chain_ok_def)
  have "dsec (disk s') m = dsec (disk s) m" if "m < unat (fs_database (cur_fs s))" for m
    using tc that chain_sectors_range(1) [OF vol val, of m] set_slice by (fastforce simp: touched_def)
  from chain_ok_below_data [where cl = cl, OF this vol]
  show "file_on (dsec (disk s')) (cur_fs s') fp' cl"
    using fo by (simp add: file_on_def cur f same_vol_simps [OF v])
qed

lemma transfer_write:
  assumes coh: "coh s" and len: "rbuff + unat cc * 512 \<le> length buf" and cc: "0 < unat cc" "unat cc < 256"
    and cap: "unat sect + unat cc \<le> dcap"
    and clr: "unat (fs_winsect (cur_fs s)) \<notin> {unat sect ..< unat sect + unat cc}"
    and tr: "transfer_sectors io True buf rbuff sect cc s = (r, buf', s')"
  shows "buf' = buf" "coh s'" "same_objs io s s'" "cur_fs s' = cur_fs s"
    "m < unat sect \<or> unat sect + unat cc \<le> m \<Longrightarrow> dsec (disk s') m = dsec (disk s) m"
    "r = RES_OK \<Longrightarrow> dsec (disk s') = store_sectors (dsec (disk s)) (unat sect) (unat cc) (drop rbuff buf)"
    "writes_ok \<Longrightarrow> r = RES_OK"
proof -
  obtain r0 d where wr: "dio_write io 0 (drop rbuff buf) sect (ucast cc) (disk s) = (r0, d)" by fastforce
  have u: "unat (ucast cc :: BYTE) = unat cc" using cc by (simp add: unat_ucast_down)
  have di: "dinv (disk s)" using coh by (simp add: coherent_def)
  have l: "512 * unat (ucast cc :: BYTE) \<le> length (drop rbuff buf)" using len u by simp
  have c: "unat sect + unat (ucast cc :: BYTE) \<le> dcap" using cap u by simp
  have res: "r = r0" "s' = s\<lparr>disk := d\<rparr>" using tr wr by (auto simp: transfer_sectors_def)
  note fr = write_frame [OF di wr l c]
  show "buf' = buf" using tr wr by (simp add: transfer_sectors_def)
  show "coh s'" using coh fr clr u by (auto simp: coherent_def res)
  show "same_objs io s s'"
    using fr by (auto simp: same_vol_def res intro!: exI [of _ "fs_winsect (cur_fs s)"])
  show "cur_fs s' = cur_fs s" by (simp add: res)
  show "m < unat sect \<or> unat sect + unat cc \<le> m \<Longrightarrow> dsec (disk s') m = dsec (disk s) m"
    using fr u by (auto simp: res)
  show "r = RES_OK \<Longrightarrow> dsec (disk s') = store_sectors (dsec (disk s)) (unat sect) (unat cc) (drop rbuff buf)"
    using write_data [OF di _ l c] wr u by (simp add: res)
  have "(ucast cc :: BYTE) \<noteq> 0" using u cc(1) by auto
  then show "writes_ok \<Longrightarrow> r = RES_OK" using di l c wr unfolding res writes_ok_def by (metis fst_conv)
qed

lemma store_round:
  assumes rd: "readable fp buf rbuff btr br s cl" and b0: "btr \<noteq> 0"
    and dc: "distinct cl" and clr: "window_clear s cl"
    and bg: "begin_round io fp btr s = (Direct cc, fp1, s1)"
    and tr: "transfer_sectors io True buf rbuff (fp_curr_sect fp1) cc s1 = (r, buf2, s2)"
    and n: "n = unat (fp_fptr fp) div 512"
  shows "buf2 = buf" "touched s s2 cl n (unat cc)" "writes_ok \<Longrightarrow> r = RES_OK"
    "r = RES_OK \<Longrightarrow> chain_bytes (dsec (disk s2)) (cur_fs s) cl
       = blit (chain_bytes (dsec (disk s)) (cur_fs s) cl) (n * 512) (slice rbuff (unat cc * 512) buf)"
proof -
  note p = direct_position [OF rd b0 bg refl n]
  have vol: "vol_ok dcap (cur_fs s)" and fo: "file_on (dsec (disk s)) (cur_fs s) fp cl"
    using rd by (simp_all add: readable_def)
  have val: "\<forall>c \<in> set cl. valid_clust (cur_fs s) c" using fo by (simp add: file_on_def chain_ok_def)
  let ?f = "file_sector (cur_fs s) cl n"
  have run: "slice n (unat cc) (chain_sectors (cur_fs s) cl) = [?f ..< ?f + unat cc]"
    using chain_sectors_slice(1) [OF p(7,6,11)] .
  have w1: "window_clear s1 cl"
    using clear_on_table [OF clr begin_round_on_table [OF vol bg] same_vol_objs [OF p(2)] vol val] .
  have cs: "chain_sectors (cur_fs s1) cl = chain_sectors (cur_fs s) cl"
    using vol_funs_same(3) [OF p(2)] same_vol_simps(1) [OF p(2)] by simp
  then have "unat (fs_winsect (cur_fs s1)) \<notin> {?f ..< ?f + unat cc}"
    using w1 run set_slice [of n "unat cc" "chain_sectors (cur_fs s) cl"] by (auto simp: window_clear_def)
  note t = transfer_write [OF p(1,14,11,10,9) this [folded p(8)] tr]
  note d1 = same_vol_simps(4) [OF p(2)]
  show "buf2 = buf" "writes_ok \<Longrightarrow> r = RES_OK" by (fact t)+
  show "touched s s2 cl n (unat cc)"
    using t(2,5) w1 same_vol_trans [OF same_vol_objs [OF p(2)] t(3)] d1 p(8)
    by (auto simp: touched_def run window_clear_def t(4))
  assume "r = RES_OK"
  then have "dsec (disk s2) = store_sectors (dsec (disk s)) ?f (unat cc) (drop rbuff buf)"
    using t(6) d1 p(8) by simp
  moreover have "unat cc * 512 \<le> length (drop rbuff buf)" using p(14) by simp
  ultimately show "chain_bytes (dsec (disk s2)) (cur_fs s) cl
      = blit (chain_bytes (dsec (disk s)) (cur_fs s) cl) (n * 512) (slice rbuff (unat cc * 512) buf)"
    using chain_bytes_store [OF readable_content(1) [OF rd] dc val p(7,6,11)] by (simp add: slice_def)
qed

section \<open>The loop, and \<open>f_write_inplace\<close>\<close>

text \<open>What the loop has done when it ends, started on a sector boundary with whole sectors to move.\<close>

definition put_spec :: "FIL \<Rightarrow> BYTE list \<Rightarrow> nat \<Rightarrow> WORD \<Rightarrow> WORD \<Rightarrow> 'd tff \<Rightarrow> WORD list
    \<Rightarrow> bool \<Rightarrow> FIL \<Rightarrow> WORD \<Rightarrow> 'd tff \<Rightarrow> bool" where
  "put_spec fp buf rbuff btr br s cl ok fp' br' s' \<longleftrightarrow>
     touched s s' cl (unat (fp_fptr fp) div 512) (unat btr div 512) \<and> same_file fp fp'
     \<and> (reads_ok \<and> writes_ok \<longrightarrow> ok)
     \<and> (ok \<longrightarrow> pos_ok (cur_fs s) cl fp' \<and> unat (fp_fptr fp') = unat (fp_fptr fp) + unat btr
         \<and> unat br' = unat br + unat btr
         \<and> chain_bytes (dsec (disk s')) (cur_fs s) cl
           = blit (chain_bytes (dsec (disk s)) (cur_fs s) cl) (unat (fp_fptr fp)) (slice rbuff (unat btr) buf))"

lemma put_spec_stop:
  assumes "touched s s' cl (unat (fp_fptr fp) div 512) j" "j \<le> unat btr div 512" "same_file fp fp'"
    "reads_ok \<and> writes_ok \<longrightarrow> False"
  shows "put_spec fp buf rbuff btr br s cl False fp' br' s'"
  using touched_mono [OF assms(1,2)] assms(3,4) by (auto simp: put_spec_def)

lemma put_spec_step:
  assumes rd: "readable fp buf rbuff btr br s cl" and al: "unat btr mod 512 = 0"
    and p: "unat (fp_fptr fp) = n * 512" "same_file fp fp2" "unat rc = j * 512" "j * 512 \<le> unat btr"
      "pos_ok (cur_fs s) cl fp2 \<and> unat (fp_fptr fp2) = unat (fp_fptr fp) + j * 512"
    and tc: "touched s s2 cl n j"
    and bytes: "chain_bytes (dsec (disk s2)) (cur_fs s) cl
       = blit (chain_bytes (dsec (disk s)) (cur_fs s) cl) (n * 512) (slice rbuff (j * 512) buf)"
  shows "readable fp2 buf (rbuff + j * 512) (btr - rc) (br + rc) s2 cl"
    and "unat (btr - rc) = unat btr - j * 512" "unat (fp_fptr fp2) mod 512 = 0" "unat (btr - rc) mod 512 = 0"
    and "put_spec fp2 buf (rbuff + j * 512) (btr - rc) (br + rc) s2 cl ok fp' br' s'
      \<Longrightarrow> put_spec fp buf rbuff btr br s cl ok fp' br' s'"
proof -
  note R = rd [unfolded readable_def]
  have vol: "vol_ok dcap (cur_fs s)" and fo: "file_on (dsec (disk s)) (cur_fs s) fp cl" using R by auto
  note f = touched_file [OF tc p(2) vol fo]
  have brb: "unat br + unat btr < 65536" using R by blast
  note c = count_step [OF p(3,4) brb]
  show "unat (btr - rc) = unat btr - j * 512" by (fact c)
  have p2: "unat (fp_fptr fp2) = (n + j) * 512" using p by (simp add: algebra_simps)
  then show "unat (fp_fptr fp2) mod 512 = 0" by simp
  obtain q where q: "unat btr = q * 512" using al by (metis nat_512_split)
  then have jq: "j \<le> q" using p(4) by simp
  have b2: "unat (btr - rc) = (q - j) * 512" using c(1) q by (simp add: diff_mult_distrib)
  then show "unat (btr - rc) mod 512 = 0" by simp
  show "readable fp2 buf (rbuff + j * 512) (btr - rc) (br + rc) s2 cl"
    using R f(1,2) tc p c same_file_simps(4) [OF p(2)]
    by (auto simp: readable_def f(3,6) touched_def)
  assume s: "put_spec fp2 buf (rbuff + j * 512) (btr - rc) (br + rc) s2 cl ok fp' br' s'"
  have t: "touched s s' cl n q"
    using s touched_trans [OF tc, of s' "q - j"] jq by (simp add: put_spec_def p2 b2)
  have l: "rbuff + unat btr \<le> length buf" "unat (fp_fptr fp) + unat btr \<le> length (chain_bytes (dsec (disk s)) (cur_fs s) cl)"
    using R readable_content(2) [OF rd] by auto
  have "blit (blit X (n * 512) (slice rbuff (j * 512) buf)) ((n + j) * 512) (slice (rbuff + j * 512) ((q - j) * 512) buf)
      = blit X (n * 512) (slice rbuff (q * 512) buf)"
    if "length X = length (chain_bytes (dsec (disk s)) (cur_fs s) cl)" for X
  proof -
    have e: "j * 512 + (q - j) * 512 = q * 512" using jq by (simp add: diff_mult_distrib)
    have ls: "length (slice rbuff (j * 512) buf) = j * 512" "length (slice (rbuff + j * 512) ((q - j) * 512) buf) = (q - j) * 512"
      using l(1) q e by (simp_all add: length_slice)
    have "n * 512 + j * 512 + (q - j) * 512 \<le> length X" using that l(2) p(1) q e by linarith
    then show ?thesis
      using blit_blit_adjacent [of "n * 512" "slice rbuff (j * 512) buf" "slice (rbuff + j * 512) ((q - j) * 512) buf" X] ls
      by (simp add: slice_append_slice e add_mult_distrib)
  qed
  then show "put_spec fp buf rbuff btr br s cl ok fp' br' s'"
    using s t p(1) p2 b2 q jq c same_file_trans [OF p(2)] bytes f(3,4)
    by (auto simp: put_spec_def diff_mult_distrib)
qed

lemma rw_loop_write:
  assumes "readable fp buf rbuff btr br s cl" "distinct cl" "window_clear s cl"
    "unat (fp_fptr fp) mod 512 = 0" "unat btr mod 512 = 0"
  shows "\<exists>ok fp' br' s'. rw_loop io True fp buf rbuff btr br s = Some (ok, fp', buf, br', s')
    \<and> put_spec fp buf rbuff btr br s cl ok fp' br' s'"
  using assms
proof (induction "unat btr" arbitrary: btr fp rbuff br s rule: less_induct)
  case less
  note rd = less.prems(1)
  note R = rd [unfolded readable_def]
  have vol: "vol_ok dcap (cur_fs s)" and fo: "file_on (dsec (disk s)) (cur_fs s) fp cl" using R by auto
  have val: "\<forall>c \<in> set cl. valid_clust (cur_fs s) c" using fo by (simp add: file_on_def chain_ok_def)
  show ?case
  proof (cases "btr = 0")
    case True
    then show ?thesis using R less.prems(3)
      by (subst rw_loop.simps) (auto simp: put_spec_def touched_none)
  next
    case b0: False
    then have b512: "btr div 512 \<noteq> 0"
    proof -
      have "unat btr \<noteq> 0" using b0 by (simp add: unat_eq_zero)
      then have "unat btr div 512 \<noteq> 0" using less.prems(5) by auto
      moreover have "unat (btr div 512) = unat btr div 512" by (simp add: unat_div)
      ultimately show ?thesis by (metis unat_0)
    qed
    obtain r1 fp1 s1 where bg: "begin_round io fp btr s = (r1, fp1, s1)" by (metis prod_cases3)
    have lt: "fp_fptr fp < fp_fsize fp"
      using R b0 by (auto simp: word_less_nat_alt simp flip: unat_gt_0)
    have c1: "coh s1 \<and> sv s s1 \<and> same_file fp fp1 \<and> (reads_ok \<longrightarrow> r1 \<noteq> RoundError)"
      using begin_round_coh(1) [OF _ _ _ _ _ lt bg] R by blast
    have w1: "window_clear s1 cl"
      using clear_on_table [OF less.prems(3) begin_round_on_table [OF vol bg] _ vol val] c1 same_vol_objs by blast
    show ?thesis
    proof (cases r1)
      case RoundError
      have "put_spec fp buf rbuff btr br s cl False fp1 br s1"
        using c1 w1 RoundError by (intro put_spec_stop [OF touched_none le0]) auto
      then show ?thesis using b0 bg RoundError by (subst rw_loop.simps) auto
    next
      case Windowed
      have "fp_fptr fp mod 512 = 0" using less.prems(4) by (simp add: mod_512_0)
      then show ?thesis using bg b512 Windowed
        by (auto simp: begin_round_def Let_def split: prod.splits option.splits)
    next
      case (Direct cc)
      define n where "n = unat (fp_fptr fp) div 512"
      obtain r bs s2 where tr: "transfer_sectors io True buf rbuff (fp_curr_sect fp1) cc s1 = (r, bs, s2)"
        by (metis prod_cases3)
      note S = store_round [OF rd b0 less.prems(2,3) bg [unfolded Direct] tr n_def]
      note P = direct_position [OF rd b0 bg [unfolded Direct] refl n_def]
      show ?thesis
      proof (cases "r = RES_OK")
        case False
        have "unat cc \<le> unat btr div 512" using P(13) by (simp add: less_eq_div_iff_mult_less_eq)
        then have "put_spec fp buf rbuff btr br s cl False fp1 br s2"
          using S(2,3) False c1 by (intro put_spec_stop) (auto simp: n_def)
        then show ?thesis using b0 bg Direct tr False S(1) by (subst rw_loop.simps) auto
      next
        case True
        let ?fp2 = "fp1\<lparr>fp_sect_clust := fp_sect_clust fp1 - ucast (cc - 1),
          fp_curr_sect := fp_curr_sect fp1 + ucast (cc - 1), fp_fptr := fp_fptr fp1 + ucast (cc * 512)\<rparr>"
        note N = put_spec_step [OF rd less.prems(5) P(5,4,12,13,15) S(2) S(4) [OF True]]
        have "unat (btr - cc * 512) < unat btr" using N(2) P(11,13) by linarith
        moreover have "window_clear s2 cl" using S(2) by (simp add: touched_def)
        ultimately obtain ok fp' br' s' where
          "rw_loop io True ?fp2 buf (rbuff + unat cc * 512) (btr - cc * 512) (br + cc * 512) s2 = Some (ok, fp', buf, br', s')"
          "put_spec ?fp2 buf (rbuff + unat cc * 512) (btr - cc * 512) (br + cc * 512) s2 cl ok fp' br' s'"
          using less.hyps [OF _ N(1) less.prems(2) _ N(3,4)] by blast
        then show ?thesis using N(5) b0 bg Direct tr True S(1) P(12)
          by (subst rw_loop.simps) (auto simp: Let_def)
      qed
    qed
  qed
qed

lemma take_blit:
  assumes "i + length ys \<le> m" "m \<le> length xs"
  shows "take m (blit xs i ys) = blit (take m xs) i ys"
proof -
  have i: "i \<le> m" "length ys \<le> m - i" using assms by simp_all
  have "take m (blit xs i ys) = take i xs @ take (m - i) (ys @ drop (i + length ys) xs)"
    using assms i by (simp add: blit_def min.absorb1 min.absorb2)
  also have "\<dots> = take i xs @ ys @ drop (i + length ys) (take m xs)"
    using i by (simp add: drop_take)
  finally show ?thesis using i by (simp add: blit_def min.absorb1)
qed

lemma f_write_inplace_content:
  assumes coh: "coh s" and vol: "vol_ok dcap (cur_fs s)" and op: "open_on io fp s"
    and fo: "file_on (dsec (disk s)) (cur_fs s) fp cl" and po: "pos_ok (cur_fs s) cl fp"
    and dc: "distinct cl" and clr: "window_clear s cl"
    and n: "n = min (unat btw) (unat (fp_fsize fp) - unat (fp_fptr fp))" and len: "n \<le> length buf"
    and al: "unat (fp_fptr fp) mod 512 = 0" "n mod 512 = 0"
  shows "\<exists>r fp' bw s'. f_write_inplace io fp buf btw s = Some (r, fp', buf, bw, s')
    \<and> touched s s' cl (unat (fp_fptr fp) div 512) (n div 512) \<and> (reads_ok \<and> writes_ok \<longrightarrow> r = FR_OK)
    \<and> (r = FR_OK \<and> same_file fp fp' \<and> pos_ok (cur_fs s) cl fp'
        \<and> unat bw = n \<and> unat (fp_fptr fp') = unat (fp_fptr fp) + n
        \<and> file_bytes (dsec (disk s')) (cur_fs s) fp cl
          = blit (file_bytes (dsec (disk s)) (cur_fs s) fp cl) (unat (fp_fptr fp)) (take n buf)
       \<or> r = FR_RW_ERROR \<and> has (fp_flag fp') FA_ERROR)"
proof -
  have lw: "fp_fptr fp \<le> fp_fsize fp" using po by (simp add: pos_ok_def)
  then have le: "unat (fp_fptr fp) \<le> unat (fp_fsize fp)" by (simp add: word_le_nat_alt)
  define b where "b = (if ucast btw > fp_fsize fp - fp_fptr fp then ucast (fp_fsize fp - fp_fptr fp) else btw)"
  have ub: "unat b = n" unfolding b_def n by (rule clipped_count [OF lw])
  have pn: "unat (fp_fptr fp) + n \<le> unat (fp_fsize fp)" using n le by linarith
  then have rd: "readable fp buf 0 b 0 s cl"
    using coh vol op fo po len ub unat_bounds(2) [of b] by (simp add: readable_def open_on_def)
  obtain ok fp' br' s' where
    lp: "rw_loop io True fp buf 0 b 0 s = Some (ok, fp', buf, br', s')"
    and sp: "put_spec fp buf 0 b 0 s cl ok fp' br' s'"
    using rw_loop_write [OF rd dc clr al(1)] al(2) ub by auto
  have f: "f_write_inplace io fp buf btw s = Some (if ok then (FR_OK, fp', buf, br', s')
      else (FR_RW_ERROR, fp'\<lparr>fp_flag := fp_flag fp' OR FA_ERROR\<rparr>, buf, br', s'))"
    unfolding f_write_inplace_def f_read_or_wr_def Let_def b_def [symmetric]
    using op lp by (simp add: open_on_def)
  have "unat (fp_fsize fp) \<le> length (chain_bytes (dsec (disk s)) (cur_fs s) cl)"
    using fo length_chain_bytes [OF readable_content(1) [OF rd]] by (simp add: file_on_def)
  moreover have "unat (fp_fptr fp) + length (take n buf) \<le> unat (fp_fsize fp)" using pn len by simp
  ultimately have "take (unat (fp_fsize fp)) (blit (chain_bytes (dsec (disk s)) (cur_fs s) cl) (unat (fp_fptr fp)) (take n buf))
      = blit (file_bytes (dsec (disk s)) (cur_fs s) fp cl) (unat (fp_fptr fp)) (take n buf)"
    unfolding file_bytes_def by (simp add: take_blit)
  then show ?thesis
    using f sp error_flag ub by (cases ok) (auto simp: put_spec_def file_bytes_def slice_0)
qed

end

end
