(* ===== verification/FddimageProps.thy ===== *)
theory FddimageProps
  imports Fddimage TffInplaceProps
begin

text \<open>
  The image layer over the file system: the layout of the sectors in the image, reading a sector
  through \<open>f_lseek\<close> and \<open>f_read\<close>, and overwriting it through \<open>f_lseek\<close> and \<open>f_write_inplace\<close>.
\<close>

section \<open>Layout\<close>

definition image_offset :: "BYTE \<Rightarrow> BYTE \<Rightarrow> BYTE \<Rightarrow> nat" where
  "image_offset side track sector =
     ((2 * unat track + (1 - unat side)) * 5 + (unat sector - 1)) * 1024"

definition sector_id :: "BYTE \<Rightarrow> BYTE \<Rightarrow> bool" where
  "sector_id side sector \<longleftrightarrow> side \<le> 1 \<and> 1 \<le> sector \<and> sector \<le> 5"

lemma sector_idD:
  assumes "sector_id side sector"
  shows "unat side \<le> 1" "1 \<le> unat sector" "unat sector \<le> 5"
  using assms by (simp_all add: sector_id_def word_le_nat_alt)

lemma layout_bound:
  "b \<le> 1 \<Longrightarrow> 1 \<le> c \<Longrightarrow> c \<le> 5 \<Longrightarrow> a < n \<Longrightarrow> (2 * a + (1 - b)) * 5 + (c - 1) + 1 \<le> n * (10 :: nat)"
  by presburger

lemma layout_inj:
  fixes a b c :: nat
  assumes "(2 * a + (1 - b)) * 5 + (c - 1) = (2 * a' + (1 - b')) * 5 + (c' - 1)"
    and "b \<le> 1" "1 \<le> c" "c \<le> 5" "b' \<le> 1" "1 \<le> c'" "c' \<le> 5"
  shows "a = a'" "b = b'" "c = c'"
proof -
  have "c - 1 < 5" "c' - 1 < 5" using assms by linarith+
  then have x: "2 * a + (1 - b) = 2 * a' + (1 - b')" and c: "c - 1 = c' - 1"
    using div_mod_of [OF assms(1)] div_mod_of [OF refl, of "c - 1" 5 "2 * a + (1 - b)"] by auto
  show "c = c'" using c assms by linarith
  have "1 - b < 2" "1 - b' < 2" by auto
  then have "a = a' \<and> 1 - b = 1 - b'" using x by presburger
  then show "a = a'" "b = b'" using assms by linarith+
qed

lemma sector_offset:
  assumes "sector_id side sector"
  shows "scast (ucast sector - 1 :: WORD) = (of_nat (unat sector - 1) :: DWORD)"
proof -
  obtain k where k: "unat sector = k" "k = 1 \<or> k = 2 \<or> k = 3 \<or> k = 4 \<or> k = 5"
    using sector_idD [OF assms] by force
  have s: "sector = of_nat k" unfolding k(1) [symmetric] by simp
  show ?thesis using k(2) unfolding s by (elim disjE) (simp_all add: scast_eq)
qed

lemma calc_offset_image:
  assumes "sector_id (fd_cur_side fdd) (fd_cur_sector fdd)"
  shows "unat (calc_offset fdd) = image_offset (fd_cur_side fdd) (fd_cur_track fdd) (fd_cur_sector fdd)"
proof -
  let ?side = "fd_cur_side fdd" and ?track = "fd_cur_track fdd" and ?sec = "fd_cur_sector fdd"
  note s = sector_idD [OF assms]
  have t: "unat ?track < 256" by (rule unat_bounds)
  have u1: "unat (1 - ucast ?side :: WORD) = 1 - unat ?side"
    using s(1) by (subst unat_sub) (simp_all add: word_le_nat_alt)
  have u2: "unat (FDD_NSIDES * ucast ?track + (1 - ucast ?side) :: WORD) = 2 * unat ?track + (1 - unat ?side)"
    using t u1 by (simp add: unat_word_ariths fdd_consts)
  have u3: "unat (ucast (FDD_NSIDES * ucast ?track + (1 - ucast ?side) :: WORD) * ucast FDD_NSECTORS :: DWORD)
      = (2 * unat ?track + (1 - unat ?side)) * 5"
    using t by (subst unat_word_ariths) (simp add: u2 [unfolded fdd_consts] fdd_consts)
  have e: "unat ?sec - 1 < 5" using s by linarith
  have u4: "unat (ucast (FDD_NSIDES * ucast ?track + (1 - ucast ?side) :: WORD) * ucast FDD_NSECTORS
        + of_nat (unat ?sec - 1) :: DWORD) = (2 * unat ?track + (1 - unat ?side)) * 5 + (unat ?sec - 1)"
    unfolding unat_word_ariths(1) u3 unat_of_nat using t e by simp
  show ?thesis
    unfolding calc_offset_def Let_def sector_offset [OF assms] image_offset_def
    unfolding unat_word_ariths(2) u4 using t e by (simp add: fdd_consts)
qed

lemma image_offset_range:
  assumes "sector_id side sector" "unat track < n"
  shows "image_offset side track sector + 1024 \<le> n * 10 * 1024" "image_offset side track sector mod 512 = 0"
proof -
  have "(2 * unat track + (1 - unat side)) * 5 + (unat sector - 1) + 1 \<le> n * 10"
    by (rule layout_bound) (use assms(2) sector_idD [OF assms(1)] in auto)
  then have "((2 * unat track + (1 - unat side)) * 5 + (unat sector - 1) + 1) * 1024 \<le> n * 10 * 1024"
    by (rule mult_le_mono1)
  then show "image_offset side track sector + 1024 \<le> n * 10 * 1024" by (simp add: image_offset_def)
  have "image_offset side track sector = 512 * (2 * ((2 * unat track + (1 - unat side)) * 5 + (unat sector - 1)))"
    by (simp add: image_offset_def)
  then show "image_offset side track sector mod 512 = 0" by simp
qed

lemma image_offset_inj:
  assumes "sector_id s1 n1" "sector_id s2 n2" "(s1, t1, n1) \<noteq> (s2, t2, n2)"
  shows "image_offset s1 t1 n1 + 1024 \<le> image_offset s2 t2 n2 \<or> image_offset s2 t2 n2 + 1024 \<le> image_offset s1 t1 n1"
proof -
  define a where "a s t n = (2 * unat t + (1 - unat s)) * 5 + (unat n - 1)" for s t n :: BYTE
  note d = sector_idD [OF assms(1)] sector_idD [OF assms(2)]
  have "a s1 t1 n1 \<noteq> a s2 t2 n2"
  proof
    assume "a s1 t1 n1 = a s2 t2 n2"
    then have "unat n1 = unat n2" "unat t1 = unat t2" "unat s1 = unat s2"
      using layout_inj [OF _ d] unfolding a_def by blast+
    then show False using assms(3) by (simp add: word_eq_unat)
  qed
  then have "a s1 t1 n1 + 1 \<le> a s2 t2 n2 \<or> a s2 t2 n2 + 1 \<le> a s1 t1 n1" by linarith
  then have "(a s1 t1 n1 + 1) * 1024 \<le> a s2 t2 n2 * 1024 \<or> (a s2 t2 n2 + 1) * 1024 \<le> a s1 t1 n1 * 1024"
    using mult_le_mono1 by blast
  then show ?thesis unfolding image_offset_def a_def by (simp add: add.commute)
qed

section \<open>Reading and writing a sector\<close>

context disk_device
begin

text \<open>The image file after a successful seek.\<close>

lemma seeked:
  assumes vol: "vol_ok dcap (cur_fs s)" and op: "open_on io file s"
    and fo: "file_on (dsec (disk s)) (cur_fs s) file cl"
    and v: "sv s s1" and sf: "same_file file f1" and p: "fp_fptr f1 = min ofs (fp_fsize file)"
    and po: "pos_ok (cur_fs s) cl f1"
  shows "open_on io f1 s1" "vol_ok dcap (cur_fs s1)" "file_on (dsec (disk s1)) (cur_fs s1) f1 cl"
    "pos_ok (cur_fs s1) cl f1" "fp_fsize f1 = fp_fsize file"
    "unat (fp_fptr f1) = min (unat ofs) (unat (fp_fsize file))"
    "file_bytes sec (cur_fs s1) f1 cl = file_bytes sec (cur_fs s) file cl"
proof -
  note t = transported [OF v sf] and f = same_file_simps [OF sf]
  show "open_on io f1 s1" using op validate_same [OF v] same_vol_simps(1) [OF v] by (simp add: open_on_def f)
  show "vol_ok dcap (cur_fs s1)" "file_on (dsec (disk s1)) (cur_fs s1) f1 cl" "pos_ok (cur_fs s1) cl f1"
    using vol fo po by (simp_all add: t)
  show "fp_fsize f1 = fp_fsize file" by (fact f)
  show "unat (fp_fptr f1) = min (unat ofs) (unat (fp_fsize file))"
    using p by (auto simp: min_def word_le_nat_alt)
  show "file_bytes sec (cur_fs s1) f1 cl = file_bytes sec (cur_fs s) file cl"
    by (simp add: file_bytes_def f t)
qed

lemma fdd_readsector_content:
  assumes coh: "coh s" and vol: "vol_ok dcap (cur_fs s)" and op: "open_on io file s"
    and fo: "file_on (dsec (disk s)) (cur_fs s) file cl"
    and ro: "FS_READONLY io \<or> \<not> has (fp_flag file) FA_WRITE" and len: "1024 \<le> length buffer"
    and q: "q = min (unat (calc_offset fdd)) (unat (fp_fsize file))"
    and n: "n = min 1024 (unat (fp_fsize file) - q)"
  shows "\<exists>r file' buffer' s'. fdd_readsector io fdd file buffer s = Some (r, file', buffer', s')
    \<and> coh s' \<and> sv s s' \<and> length buffer' = length buffer \<and> (reads_ok \<longrightarrow> r = FR_OK)
    \<and> (r = FR_OK \<and> same_file file file'
         \<and> buffer' = blit buffer 0 (slice q n (file_bytes (dsec (disk s)) (cur_fs s) file cl))
       \<or> r = FR_RW_ERROR \<and> has (fp_flag file') FA_ERROR)"
proof -
  from f_lseek_position [OF coh vol op fo ro, of "calc_offset fdd"] obtain r1 f1 s1 where
    l: "f_lseek io file (calc_offset fdd) s = Some (r1, f1, s1)" and s1: "coh s1" "sv s s1" "reads_ok \<longrightarrow> r1 = FR_OK"
    and r1: "r1 = FR_OK \<and> same_file file f1 \<and> fp_fptr f1 = min (calc_offset fdd) (fp_fsize file)
        \<and> pos_ok (cur_fs s) cl f1 \<or> r1 = FR_RW_ERROR \<and> has (fp_flag f1) FA_ERROR" by blast
  show ?thesis
  proof (cases "r1 = FR_OK")
    case False
    then show ?thesis using l s1 r1 by (simp add: fdd_readsector_def)
  next
    case True
    then have sf: "same_file file f1" and p: "fp_fptr f1 = min (calc_offset fdd) (fp_fsize file)"
      and po: "pos_ok (cur_fs s) cl f1" using r1 by auto
    note k = seeked [OF vol op fo s1(2) sf p po]
    have up: "unat (fp_fptr f1) = q" using k(6) q by simp
    have n1: "n = min (unat FDD_SECTOR_SIZE) (unat (fp_fsize f1) - unat (fp_fptr f1))" and "n \<le> length buffer"
      using n up len k(5) by (simp_all add: fdd_consts)
    from f_read_content [OF s1(1) k(2,1,3,4) this]
    obtain r fp' buf' br s' where
      rd: "f_read io f1 buffer FDD_SECTOR_SIZE s1 = Some (r, fp', buf', br, s')"
      and s': "coh s'" "sv s1 s'" "length buf' = length buffer" "reads_ok \<longrightarrow> r = FR_OK"
      and res: "r = FR_OK \<and> same_file f1 fp'
          \<and> buf' = blit buffer 0 (slice (unat (fp_fptr f1)) n (file_bytes (dsec (disk s1)) (cur_fs s1) f1 cl))
         \<or> r = FR_RW_ERROR \<and> has (fp_flag fp') FA_ERROR" by blast
    have "file_bytes (dsec (disk s1)) (cur_fs s1) f1 cl = file_bytes (dsec (disk s)) (cur_fs s) file cl"
      using k(7) same_vol_simps(4) [OF s1(2)] by simp
    moreover have "fdd_readsector io fdd file buffer s = Some (r, fp', buf', s')"
      using l True rd by (simp add: fdd_readsector_def)
    ultimately show ?thesis
      using s' res up same_vol_trans [OF s1(2) s'(2)] same_file_trans [OF sf, of fp'] by fastforce
  qed
qed

lemma fdd_writesector_content:
  assumes coh: "coh s" and vol: "vol_ok dcap (cur_fs s)" and op: "open_on io file s"
    and fo: "file_on (dsec (disk s)) (cur_fs s) file cl"
    and ro: "FS_READONLY io \<or> \<not> has (fp_flag file) FA_WRITE" and len: "1024 \<le> length buffer"
    and dc: "distinct cl" and clr: "window_clear s cl"
    and q: "unat (calc_offset fdd) = q" "q mod 512 = 0" "q + 1024 \<le> unat (fp_fsize file)"
  shows "\<exists>r file' s'. fdd_writesector io fdd file buffer s = Some (r, file', buffer, s')
    \<and> touched s s' cl (q div 512) 2 \<and> (reads_ok \<and> writes_ok \<longrightarrow> r = FR_OK)
    \<and> (r = FR_OK \<and> same_file file file'
         \<and> file_bytes (dsec (disk s')) (cur_fs s) file cl
           = blit (file_bytes (dsec (disk s)) (cur_fs s) file cl) q (take 1024 buffer)
       \<or> r = FR_RW_ERROR \<and> has (fp_flag file') FA_ERROR)"
proof -
  have val: "\<forall>c \<in> set cl. valid_clust (cur_fs s) c" using fo by (simp add: file_on_def chain_ok_def)
  have ne: "cl \<noteq> []" using fo q(3) by (auto simp: file_on_def)
  then have "valid_clust (cur_fs s) (fp_org_clust file)" using fo val hd_in_set [of cl] by (simp add: file_on_def)
  then have org: "fp_org_clust file \<noteq> 0" by (rule valid_clust_not(4))
  from f_lseek_position [OF coh vol op fo ro, of "calc_offset fdd"] obtain r1 f1 s1 where
    l: "f_lseek io file (calc_offset fdd) s = Some (r1, f1, s1)" and s1: "coh s1" "sv s s1" "reads_ok \<longrightarrow> r1 = FR_OK"
    and r1: "r1 = FR_OK \<and> same_file file f1 \<and> fp_fptr f1 = min (calc_offset fdd) (fp_fsize file)
        \<and> pos_ok (cur_fs s) cl f1 \<or> r1 = FR_RW_ERROR \<and> has (fp_flag f1) FA_ERROR" by blast
  have w1: "window_clear s1 cl"
    using clear_on_table [OF clr f_lseek_on_table [OF l coh vol ro org] same_vol_objs [OF s1(2)] vol val] .
  show ?thesis
  proof (cases "r1 = FR_OK")
    case False
    then show ?thesis using l s1 r1 touched_none [OF s1(1) w1 s1(2)] by (simp add: fdd_writesector_def)
  next
    case True
    then have sf: "same_file file f1" and p: "fp_fptr f1 = min (calc_offset fdd) (fp_fsize file)"
      and po: "pos_ok (cur_fs s) cl f1" using r1 by auto
    note k = seeked [OF vol op fo s1(2) sf p po]
    have up: "unat (fp_fptr f1) = q" using k(6) q by simp
    have n: "1024 = min (unat FDD_SECTOR_SIZE) (unat (fp_fsize f1) - unat (fp_fptr f1))"
      using q(3) up k(5) by (simp add: fdd_consts)
    from f_write_inplace_content [OF s1(1) k(2,1,3,4) dc w1 n len] obtain r fp' bw s' where
      wr: "f_write_inplace io f1 buffer FDD_SECTOR_SIZE s1 = Some (r, fp', buffer, bw, s')"
      and s': "touched s1 s' cl (q div 512) 2" "reads_ok \<and> writes_ok \<longrightarrow> r = FR_OK"
      and res: "r = FR_OK \<and> same_file f1 fp' \<and> file_bytes (dsec (disk s')) (cur_fs s1) f1 cl
            = blit (file_bytes (dsec (disk s1)) (cur_fs s1) f1 cl) q (take 1024 buffer)
         \<or> r = FR_RW_ERROR \<and> has (fp_flag fp') FA_ERROR" using up q(2) by auto
    have "touched s s' cl (q div 512) 2"
      using touched_trans [OF touched_none [OF s1(1) w1 s1(2), where j = 0]] s'(1) by (metis add_0 add_0_right)
    moreover have "fdd_writesector io fdd file buffer s = Some (r, fp', buffer, s')"
      using l True wr by (simp add: fdd_writesector_def)
    ultimately show ?thesis
      using s'(2) res same_file_trans [OF sf] by (auto simp: k(7) same_vol_simps(4) [OF s1(2)])
  qed
qed

end

end
