(* ===== verification/TffTheorems.thy ===== *)
theory TffTheorems
  imports Ram_Volume FddimageProps
begin

text \<open>
  The correctness theorems of the file system and of the image layer, on every device that meets the
  contract of theory \<open>Diskio\<close>, each with an application to the volume of theory \<open>Ram_Volume\<close>.
\<close>

section \<open>The allocation table\<close>

text \<open>C3: \<open>get_cluster\<close> reads the allocation table.  On a mounted volume, whatever sector the window
  shows, the link returned for a valid cluster is the 12-bit or 16-bit field of the table at that
  cluster's bit position, also when a FAT12 entry straddles two sectors; the only other value returned is
  1, and a device whose reads do not fail never causes it.  The window stays coherent and nothing but the
  window position changes.\<close>

theorem get_cluster_entry:
  assumes "disk_device io dinv dsec dcap" and "coherent dinv dsec dcap s" and "vol_ok dcap (cur_fs s)"
    and "get_cluster io c s = (r, s')"
  shows "(r \<noteq> 1 \<longrightarrow> valid_clust (cur_fs s) c \<and> r = fat_entry (dsec (disk s)) (cur_fs s) c)
    \<and> (reliable_device io dinv dsec dcap \<and> valid_clust (cur_fs s) c
        \<longrightarrow> r = fat_entry (dsec (disk s)) (cur_fs s) c)
    \<and> coherent dinv dsec dcap s' \<and> same_vol io dsec s s'"
  using disk_device.get_cluster_coh [OF assms] reliable_device.reliable
  by (auto simp: valid_clust_def)

theorem get_cluster_entry_witness:
  "fst (get_cluster ram_io 5 demo_state) = 6"
proof -
  obtain r s' where g: "get_cluster ram_io 5 demo_state = (r, s')" by fastforce
  have "vol_ok ram_cap (cur_fs demo_state)" using demo_vol by simp
  note e = get_cluster_entry [OF ram.disk_device_axioms demo_coherent this g]
  have "valid_clust (cur_fs demo_state) 5" by (simp add: valid_clust_def demo_fs_def)
  then have "r = fat_entry demo_sec demo_fs 5" using e ram.reliable_device_axioms by simp
  then show ?thesis unfolding g demo_links by simp
qed

text \<open>C29: \<open>move_window\<close> keeps the sector window coherent.  From a coherent clean window it ends in a
  coherent window, with the medium, the mount state and the geometry unchanged; if it succeeds for a
  sector other than 0 the window holds that sector's bytes, and if the read fails the window still holds
  the sector it held before.\<close>

theorem move_window_coherent:
  assumes "disk_device io dinv dsec dcap" and "coherent dinv dsec dcap s" and "unat sector < dcap"
    and "move_window io sector s = (ok, s')"
  shows "coherent dinv dsec dcap s' \<and> same_vol io dsec s s'
    \<and> (ok \<and> sector \<noteq> 0 \<longrightarrow> fs_win s' = dsec (disk s) (unat sector))
    \<and> (reliable_device io dinv dsec dcap \<longrightarrow> ok)"
  using disk_device.move_window_coh [OF assms] reliable_device.reliable by blast

theorem move_window_coherent_witness:
  "fs_win (snd (move_window ram_io 2 demo_state)) = demo_root"
proof -
  obtain ok s' where g: "move_window ram_io 2 demo_state = (ok, s')" by fastforce
  from move_window_coherent [OF ram.disk_device_axioms demo_coherent _ g]
  show ?thesis using g ram.reliable_device_axioms by (simp add: ram_cap_def demo_sec.simps)
qed

text \<open>C30: \<open>clust2sect\<close> gives every valid cluster its own run of sectors in the data area: the run starts at
  or after the data base, ends within the medium, two different clusters have disjoint runs, and a
  number that is no valid cluster has sector 0.\<close>

theorem clust2sect_layout:
  assumes "vol_ok cap fs" and "valid_clust fs c"
  shows "unat (fs_database fs) \<le> unat (clust2sect fs c)
    \<and> unat (clust2sect fs c) + unat (fs_sects_clust fs) \<le> cap
    \<and> (valid_clust fs c' \<and> c' \<noteq> c \<longrightarrow>
         unat (clust2sect fs c) + unat (fs_sects_clust fs) \<le> unat (clust2sect fs c')
         \<or> unat (clust2sect fs c') + unat (fs_sects_clust fs) \<le> unat (clust2sect fs c))
    \<and> (\<not> valid_clust fs c' \<longrightarrow> clust2sect fs c' = 0)"
proof -
  note f = clust2sect_valid [OF assms] first_sector_bound [OF assms]
  have "unat (clust2sect fs c) + unat (fs_sects_clust fs) \<le> unat (clust2sect fs c')
      \<or> unat (clust2sect fs c') + unat (fs_sects_clust fs) \<le> unat (clust2sect fs c)"
    if "valid_clust fs c'" "c' \<noteq> c"
    using first_sector_disjoint [of fs c c'] assms(2) that clust2sect_valid [OF assms(1)] by simp
  then show ?thesis using f clust2sect_invalid [of cap fs c'] assms(1) by auto
qed

theorem clust2sect_layout_witness:
  "unat (clust2sect demo_fs 2) + 1 \<le> unat (clust2sect demo_fs 4)
   \<or> unat (clust2sect demo_fs 4) + 1 \<le> unat (clust2sect demo_fs 2)"
  using clust2sect_layout [OF demo_vol, of 2 4] by (simp add: valid_clust_def demo_fs_def)

section \<open>Names and paths\<close>

text \<open>C31: \<open>make_dirfile\<close> and \<open>get_fileinfo\<close> are inverse on names.  For a body of 1 to 8 and an extension of
  up to 3 legal characters, the path segment \<open>body.ext\<close> up to its separator becomes the space-padded
  upper-case entry name, and decoding an entry with that name gives back the upper-case segment, with
  the attribute, size, date and time fields read at their places.\<close>

theorem name_roundtrip:
  assumes "legal_name (body, ext)" and "separator c" and "length dirname = 12"
    and "length (fi_fname finfo) = 13"
  shows "make_dirfile (name_text body ext @ c # rest) dirname = (c, rest, name_83 body ext @ [0])
    \<and> name_of (fi_fname (get_fileinfo finfo (name_83 body ext @ tl_fields)))
      = name_text (map md_upper body) (map md_upper ext)"
proof -
  let ?e = "name_83 body ext @ tl_fields"
  have l: "entry_name ?e = name_text (map md_upper body) (map md_upper ext)"
    using assms(1) by (intro entry_name_83) auto
  have ne: "\<forall>x \<in> set (name_text (map md_upper body) (map md_upper ext)). x \<noteq> 0"
    using assms(1) md_upper_nonzero by (auto simp: name_text_def list_all_iff)
  have "fi_fname (get_fileinfo finfo ?e) = entry_name ?e @ 0 # drop (length (entry_name ?e) + 1) (fi_fname finfo)"
    by (simp add: get_fileinfo_def blit_def)
  then have "name_of (fi_fname (get_fileinfo finfo ?e)) = name_text (map md_upper body) (map md_upper ext)"
    using ne by (simp add: l name_of_def takeWhile_append2)
  then show ?thesis using make_dirfile_name_83 assms by simp
qed

theorem name_roundtrip_witness:
  "make_dirfile (name_text [0x61] [0x66, 0x64, 0x64] @ 0x2F # [0x78]) (replicate 12 0)
    = (0x2F, [0x78], name_83 [0x61] [0x66, 0x64, 0x64] @ [0])"
  using name_roundtrip [of "[0x61]" "[0x66, 0x64, 0x64]" "0x2F" "replicate 12 0"
      "\<lparr>fi_fsize = 0, fi_fdate = 0, fi_ftime = 0, fi_fattrib = 0, fi_fname = replicate 13 0\<rparr>" "[0x78]"]
  by (simp add: legal_char_def separator_def)

text \<open>C32: Every name that \<open>make_dirfile\<close> accepts is a well-formed entry name: the separator it returns is
  the end of the string or a slash, the name is terminated, does not start with a space, and each of its
  11 bytes is a space or a legal character that is not a lower-case letter.\<close>

theorem make_dirfile_accepts_legal:
  assumes "make_dirfile path dirname = (ds, rest, fn)" and "ds \<noteq> 1" and "length dirname = 12"
  shows "separator ds \<and> length fn = 12 \<and> fn ! 11 = 0 \<and> fn ! 0 \<noteq> 0x20 \<and> (\<forall>i < 11. entry_char (fn ! i))"
  by (rule make_dirfile_safe [OF assms])

theorem make_dirfile_accepts_legal_witness:
  "\<exists>ds rest fn. make_dirfile [0x61, 0x2E, 0x62] (replicate 12 0) = (ds, rest, fn) \<and> separator ds \<and> fn ! 0 \<noteq> 0x20"
proof -
  obtain ds rest fn where m: "make_dirfile [0x61, 0x2E, 0x62] (replicate 12 0) = (ds, rest, fn)"
    by (metis prod_cases3)
  then have "ds = 0" by (simp add: make_dirfile_def md_reject_def)
  then have "ds \<noteq> 1" by simp
  from make_dirfile_accepts_legal [OF m this] show ?thesis using m by simp
qed

text \<open>C2: \<open>trace_path\<close> terminates and finds exactly what the directory tables of the medium say.  For a path
  of legal 8.3 names, on a volume whose tables on the way are well-formed and whose root directory lies
  below sector 65536, it returns \<open>FR_NO_PATH\<close> for a missing or non-directory name on the way,
  \<open>FR_NO_FILE\<close> for a missing last name, and otherwise \<open>FR_OK\<close> with the directory object at the first
  live matching entry and the window showing that entry.\<close>

theorem trace_path_refines_resolve:
  assumes "reliable_device io dinv dsec dcap" and "coherent dinv dsec dcap s" and "vol_ok dcap (cur_fs s)"
    and "tables_ok dcap (dsec (disk s)) (cur_fs s) RootTab 0 names"
    and "names \<noteq> []" and "list_all legal_name names" and "length fn = 12"
    and "unat (fs_dirbase (cur_fs s)) < 65536"
  shows "\<exists>res dj' fn' dir s'. trace_path io dj fn (path_text names) s = Some (res, dj', fn', dir, s')
    \<and> coherent dinv dsec dcap s' \<and> same_vol io dsec s s' \<and> dir_fs dj' = FatFs s
    \<and> (case resolve (dsec (disk s)) (cur_fs s) RootTab 0 names of
         (r, None) \<Rightarrow> res = r \<and> dir = None
       | (r, Some (t, i)) \<Rightarrow> res = r \<and> dir = Some (entry_off dj') \<and> dir_at (cur_fs s) t dj' i
           \<and> shows_entry (dsec (disk s)) (cur_fs s) t dj' i (fs_win s'))"
proof -
  have d: "disk_device io dinv dsec dcap" using assms(1) by (rule reliable_device.axioms)
  from disk_device.trace_path_resolves [OF d reliable_device.reliable [OF assms(1)] assms(2-8)]
  obtain res dj' fn' dir s' where t: "trace_path io dj fn (path_text names) s = Some (res, dj', fn', dir, s')"
    "dir_fs dj' = FatFs s"
    "disk_device.traced io dinv dsec dcap (dj\<lparr>dir_fs := FatFs s\<rparr>) s
       (resolve (dsec (disk s)) (cur_fs s) RootTab 0 names) (res, dj', fn', dir, s')" by blast
  then show ?thesis
    unfolding disk_device.traced_def [OF d]
    by (intro exI [of _ res] exI [of _ dj'] exI [of _ fn'] exI [of _ dir] exI [of _ s'])
       (auto split: option.splits prod.splits)
qed

definition demo_dir :: DIR where
  "demo_dir = \<lparr>dir_id = 0, dir_index = 0, dir_fs = 0, dir_sclust = 0, dir_clust = 0, dir_sect = 0\<rparr>"

theorem trace_path_refines_resolve_witness:
  "\<exists>dj' fn' s'. trace_path ram_io demo_dir (replicate 12 0) (path_text [([0x64], []), ([0x62], [0x66, 0x64, 0x64])]) demo_state
     = Some (FR_OK, dj', fn', Some 64, s')"
proof -
  let ?names = "[([0x64], []), ([0x62], [0x66, 0x64, 0x64])] :: (BYTE list \<times> BYTE list) list"
  have r: "resolve demo_sec demo_fs RootTab 0 ?names = (FR_OK, Some (ChainTab [4], 2))"
    by (rule demo_resolve)
  have t: "tables_ok ram_cap (disk demo_state) (cur_fs demo_state) RootTab 0 ?names"
    unfolding demo_state_simps by (rule demo_tables)
  have l: "list_all legal_name ?names" by (simp add: legal_char_def)
  from trace_path_refines_resolve [OF ram.reliable_device_axioms demo_coherent _ t _ l, of "replicate 12 0" demo_dir]
  show ?thesis using r demo_vol
    by (auto simp: shows_entry_def demo_fs_def)
qed

section \<open>Mounting\<close>

text \<open>C9: \<open>auto_mount\<close> mounts a volume with the geometry of its BIOS parameter block.  With a registered,
  unmounted object, a drive that initialises, a FAT boot record in sector 0 or at the start of the first
  partition, and a parameter block that fits the medium, it returns \<open>FR_OK\<close>; the object then holds the
  FAT, directory and data base, the cluster limit and the FAT type that follow from the block without
  any wrap-around, all tables and clusters lie within the medium, the window is coherent, and the object
  has a fresh identifier.\<close>

theorem auto_mount_geometry:
  assumes "reliable_device io dinv dsec dcap"
    and "FatFs s \<noteq> 0" and "fs_type (cur_fs s) = 0" and "length (fs_win s) = 512"
    and "dio_initialize io 0 (disk s) = (stat, d)" and "\<not> has stat STA_NOINIT" and "\<not> has stat STA_PROTECT"
    and "dinv d" and "b = volume_sector (dsec d)" and "unat b < dcap"
    and "boot_kind (dsec d (unat b)) = 0" and "LD_WORD (dsec d (unat b)) BPB_BytsPerSec = 512"
    and "volume_fits dcap (unat b) (dsec d (unat b))"
  shows "\<exists>s'. auto_mount io path chk s = (FR_OK, strip_path path, s')
    \<and> coherent dinv dsec dcap s' \<and> vol_ok dcap (cur_fs s')
    \<and> geometry_of (unat b) (dsec d (unat b)) (cur_fs s')
    \<and> FatFs s' = FatFs s \<and> fs_id (cur_fs s') = fsid s + 1 \<and> dsec (disk s') = dsec d"
  by (rule disk_device.auto_mount_fresh
        [OF reliable_device.axioms(1) [OF assms(1)] reliable_device.reliable [OF assms(1)] assms(2-)])

definition demo_unmounted :: "(nat \<Rightarrow> BYTE list) tff" where
  "demo_unmounted = demo_state\<lparr>fsobj := \<lambda>_. zero_FATFS\<rparr>"

theorem auto_mount_geometry_witness:
  "\<exists>s'. auto_mount ram_io [0x2F, 0x41] False demo_unmounted = (FR_OK, [0x41], s')
    \<and> unat (fs_dirbase (cur_fs s')) = 2 \<and> unat (fs_max_clust (cur_fs s')) = 19"
proof -
  have b: "volume_sector demo_sec = 0" by code_simp
  have k: "boot_kind (demo_sec 0) = 0" "LD_WORD (demo_sec 0) BPB_BytsPerSec = 512" by code_simp+
  have g: "bpb_rsvd (demo_sec 0) = 1" "bpb_fatsz (demo_sec 0) = 1" "bpb_fats (demo_sec 0) = 1"
    "bpb_clusters (demo_sec 0) = 17" "bpb_spc (demo_sec 0) = 1" "bpb_total (demo_sec 0) = 20"
    "bpb_system (demo_sec 0) = 3" by code_simp+
  have f: "volume_fits ram_cap 0 (demo_sec 0)" by (simp add: volume_fits_def g ram_cap_def)
  have "\<exists>s'. auto_mount ram_io [0x2F, 0x41] False demo_unmounted = (FR_OK, strip_path [0x2F, 0x41], s')
    \<and> coherent ram_ok (\<lambda>d. d) ram_cap s' \<and> vol_ok ram_cap (cur_fs s')
    \<and> geometry_of (unat (0 :: DWORD)) (demo_sec (unat (0 :: DWORD))) (cur_fs s')
    \<and> FatFs s' = FatFs demo_unmounted \<and> fs_id (cur_fs s') = fsid demo_unmounted + 1 \<and> disk s' = demo_sec"
    by (rule auto_mount_geometry [OF ram.reliable_device_axioms, where stat = 0])
       (use b k f demo_ok in \<open>simp_all add: demo_unmounted_def zero_FATFS_def ram_io_def ram_cap_def has_def demo_boot_def tff_consts\<close>)
  then show ?thesis using g by (auto simp: strip_path_def c_hd_def c_tl_def geometry_of_def)
qed

text \<open>C40: What registering a file system object does to the handles on the object it replaces and on the
  object it registers: after \<open>f_mount\<close> the new object is registered and unmounted, and \<open>validate\<close> refuses a
  handle on either of them as \<open>FR_INVALID_OBJECT\<close> exactly if its identifier is not 0; a handle on no object
  it always refuses.  The identifier 0 is that of the cleared objects; \<open>auto_mount\<close> gives it to a volume
  after 65536 mounts, when the 16-bit counter of identifiers wraps, and the handles of that volume stay
  valid.\<close>

theorem f_mount_invalidates_handles:
  assumes "f_mount 0 p s = (r, s')" and "q = 0 \<or> q = p \<or> q = FatFs s"
  shows "r = FR_OK \<and> FatFs s' = p \<and> (p \<noteq> 0 \<longrightarrow> fs_type (cur_fs s') = 0)
    \<and> validate io q oid s' =
      (if q = 0 \<or> oid \<noteq> 0 then FR_INVALID_OBJECT
       else if has (dio_status io 0 (disk s)) STA_NOINIT then FR_NOT_READY else FR_OK)"
  using f_mount_invalidates [OF assms] by simp

theorem f_mount_invalidates_handles_witness:
  "validate ram_io 1 1 (snd (f_mount 0 2 demo_state)) = FR_INVALID_OBJECT
    \<and> validate ram_io 1 0 (snd (f_mount 0 2 demo_state)) = FR_OK"
proof -
  obtain r s' where m: "f_mount 0 2 demo_state = (r, s')" by fastforce
  from f_mount_invalidates_handles [OF m, of 1 ram_io] show ?thesis using m by (simp add: ram_io_def has_def)
qed

section \<open>Reading and seeking\<close>

text \<open>C1: \<open>f_read\<close> delivers the bytes of the file.  On an open handle whose position is consistent with the
  cluster chain of its file, for a buffer that holds the bytes asked for, it terminates; if it returns
  \<open>FR_OK\<close> the byte count is the smaller of the request and the rest of the file, the buffer starts with
  exactly those bytes of the chain and is otherwise untouched, and the handle has advanced by the count
  with a consistent position; the only other result is \<open>FR_RW_ERROR\<close> with the error flag set, which a
  device whose reads do not fail never causes.  The medium is unchanged.\<close>

theorem f_read_delivers:
  assumes "disk_device io dinv dsec dcap" and "coherent dinv dsec dcap s" and "vol_ok dcap (cur_fs s)"
    and "open_on io fp s" and "file_on (dsec (disk s)) (cur_fs s) fp cl" and "pos_ok (cur_fs s) cl fp"
    and "n = min (unat btr) (unat (fp_fsize fp) - unat (fp_fptr fp))" and "n \<le> length buf"
  shows "\<exists>r fp' buf' br s'. f_read io fp buf btr s = Some (r, fp', buf', br, s')
    \<and> coherent dinv dsec dcap s' \<and> same_vol io dsec s s' \<and> length buf' = length buf
    \<and> (reliable_device io dinv dsec dcap \<longrightarrow> r = FR_OK)
    \<and> (r = FR_OK \<and> same_file fp fp' \<and> pos_ok (cur_fs s) cl fp'
        \<and> unat br = n \<and> unat (fp_fptr fp') = unat (fp_fptr fp) + n
        \<and> buf' = blit buf 0 (slice (unat (fp_fptr fp)) n (file_bytes (dsec (disk s)) (cur_fs s) fp cl))
       \<or> r = FR_RW_ERROR \<and> has (fp_flag fp') FA_ERROR)"
  using disk_device.f_read_content [OF assms] reliable_device.reliable [of io dinv dsec dcap] by fast

theorem f_read_delivers_witness:
  "\<exists>fp' br s'. f_read ram_io demo_file (replicate 600 0) 600 demo_state
     = Some (FR_OK, fp', replicate 512 3 @ replicate 88 4, br, s') \<and> unat br = 600"
proof -
  have v: "vol_ok ram_cap (cur_fs demo_state)" using demo_vol by simp
  have n: "600 = min (unat (600 :: WORD)) (unat (fp_fsize demo_file) - unat (fp_fptr demo_file))"
    "600 \<le> length (replicate 600 (0 :: BYTE))" by (simp_all add: demo_file_def)
  have fo: "file_on demo_sec demo_fs demo_file [2, 3]" by (rule demo_file_on)
  from f_read_delivers [OF ram.disk_device_axioms demo_coherent v demo_open _ demo_pos n, unfolded demo_state_simps, OF fo]
  obtain r fp' buf' br s' where f: "f_read ram_io demo_file (replicate 600 0) 600 demo_state = Some (r, fp', buf', br, s')"
    "r = FR_OK" "unat br = 600"
    "buf' = blit (replicate 600 0) 0 (slice (unat (fp_fptr demo_file)) 600 (file_bytes demo_sec demo_fs demo_file [2, 3]))"
    using ram.reliable_device_axioms by fastforce
  have "slice (unat (fp_fptr demo_file)) 600 (file_bytes demo_sec demo_fs demo_file [2, 3]) = replicate 512 3 @ replicate 88 4"
    by (simp add: demo_bytes) (simp add: demo_file_def slice_def take_replicate)
  then show ?thesis using f by (simp add: blit_def)
qed

text \<open>C7: \<open>f_lseek\<close> puts the file pointer where it is asked to.  On an open handle that may not extend its
  file, it terminates; if it returns \<open>FR_OK\<close> the file pointer is the smaller of the target and the file
  size, and cluster, sector and sector counter are those of that position in the cluster chain; the only
  other result is \<open>FR_RW_ERROR\<close> with the error flag set, which a device whose reads do not fail never
  causes.\<close>

theorem f_lseek_positions:
  assumes "disk_device io dinv dsec dcap" and "coherent dinv dsec dcap s" and "vol_ok dcap (cur_fs s)"
    and "open_on io fp s" and "file_on (dsec (disk s)) (cur_fs s) fp cl"
    and "FS_READONLY io \<or> \<not> has (fp_flag fp) FA_WRITE"
  shows "\<exists>r fp' s'. f_lseek io fp ofs s = Some (r, fp', s')
    \<and> coherent dinv dsec dcap s' \<and> same_vol io dsec s s'
    \<and> (reliable_device io dinv dsec dcap \<longrightarrow> r = FR_OK)
    \<and> (r = FR_OK \<and> same_file fp fp' \<and> fp_fptr fp' = min ofs (fp_fsize fp) \<and> pos_ok (cur_fs s) cl fp'
       \<or> r = FR_RW_ERROR \<and> has (fp_flag fp') FA_ERROR)"
  using disk_device.f_lseek_position [OF assms] reliable_device.reliable [of io dinv dsec dcap] by fast

theorem f_lseek_positions_witness:
  "\<exists>fp' s'. f_lseek ram_io demo_file 700 demo_state = Some (FR_OK, fp', s') \<and> fp_fptr fp' = 700 \<and> fp_curr_clust fp' = 3"
proof -
  have v: "vol_ok ram_cap (cur_fs demo_state)" using demo_vol by simp
  have ro: "FS_READONLY ram_io \<or> \<not> has (fp_flag demo_file) FA_WRITE" by (simp add: ram_io_def)
  from f_lseek_positions [OF ram.disk_device_axioms demo_coherent v demo_open _ ro, unfolded demo_state_simps, OF demo_file_on, of 700]
  obtain r fp' s' where f: "f_lseek ram_io demo_file 700 demo_state = Some (r, fp', s')" "r = FR_OK"
    "fp_fptr fp' = min 700 (fp_fsize demo_file)" "pos_ok demo_fs [2, 3] fp'"
    using ram.reliable_device_axioms by fastforce
  have p: "fp_fptr fp' = 700" using f(3) by (simp add: demo_file_def)
  then have "fp_curr_clust fp' = 3"
    using f(4) by (simp add: pos_ok_def at_sector_def demo_fs_def zero_FATFS_def)
  then show ?thesis using f(1,2) p by blast
qed

section \<open>The floppy image\<close>

text \<open>C28: Every sector of the image has its own 1024 bytes: for a side, track and sector number of the
  geometry, \<open>calc_offset\<close> is the offset of the sector in the track-by-track layout (side 1 before side 0)
  without wrap-around, it is a multiple of 512 within the tracks of the image, and two different sectors
  never overlap.\<close>

theorem calc_offset_layout:
  assumes "sector_id (fd_cur_side fdd) (fd_cur_sector fdd)"
  shows "unat (calc_offset fdd) = image_offset (fd_cur_side fdd) (fd_cur_track fdd) (fd_cur_sector fdd)
    \<and> unat (calc_offset fdd) mod 512 = 0
    \<and> (unat (fd_cur_track fdd) < tracks \<longrightarrow> unat (calc_offset fdd) + 1024 \<le> tracks * 10 * 1024)
    \<and> (sector_id (fd_cur_side fdd') (fd_cur_sector fdd')
         \<and> (fd_cur_side fdd', fd_cur_track fdd', fd_cur_sector fdd') \<noteq> (fd_cur_side fdd, fd_cur_track fdd, fd_cur_sector fdd)
       \<longrightarrow> unat (calc_offset fdd) + 1024 \<le> unat (calc_offset fdd')
           \<or> unat (calc_offset fdd') + 1024 \<le> unat (calc_offset fdd))"
proof -
  have "unat (fd_cur_track fdd) < unat (fd_cur_track fdd) + 1" by simp
  note r = image_offset_range [OF assms] image_offset_range(2) [OF assms this]
  have "unat (calc_offset fdd) + 1024 \<le> unat (calc_offset fdd') \<or> unat (calc_offset fdd') + 1024 \<le> unat (calc_offset fdd)"
    if "sector_id (fd_cur_side fdd') (fd_cur_sector fdd')"
      "(fd_cur_side fdd', fd_cur_track fdd', fd_cur_sector fdd') \<noteq> (fd_cur_side fdd, fd_cur_track fdd, fd_cur_sector fdd)"
    unfolding calc_offset_image [OF assms] calc_offset_image [OF that(1)]
    by (rule image_offset_inj [OF assms that(1)]) (use that(2) in auto)
  then show ?thesis using r by (auto simp: calc_offset_image [OF assms])
qed

definition demo_fdd :: FDDImage where
  "demo_fdd = \<lparr>fd_nsides = 2, fd_ntracks = 5, fd_nsectors = 5, fd_sectorsize = 1024, fd_cur_side = 1,
     fd_cur_sector = 1, fd_cur_track = 0, fd_offset = 0, fd_ready = 0\<rparr>"

theorem calc_offset_layout_witness:
  "unat (calc_offset demo_fdd) = 0 \<and> unat (calc_offset demo_fdd) + 1024 \<le> 10240"
  using calc_offset_layout [of demo_fdd 1 demo_fdd]
  by (simp add: demo_fdd_def sector_id_def image_offset_def)

text \<open>C10: \<open>fdd_readsector\<close> reads the addressed sector of the image file.  It terminates; if it returns
  \<open>FR_OK\<close> the buffer starts with the bytes of the file from the sector's offset on, as many as the file
  has there up to 1024, and is otherwise untouched (so past the end of the image it reports success and
  leaves the buffer as it was); the only other result is \<open>FR_RW_ERROR\<close> with the error flag set, which a
  device whose reads do not fail never causes.\<close>

theorem fdd_readsector_delivers:
  assumes "disk_device io dinv dsec dcap" and "coherent dinv dsec dcap s" and "vol_ok dcap (cur_fs s)"
    and "open_on io file s" and "file_on (dsec (disk s)) (cur_fs s) file cl"
    and "FS_READONLY io \<or> \<not> has (fp_flag file) FA_WRITE" and "1024 \<le> length buffer"
    and "q = min (unat (calc_offset fdd)) (unat (fp_fsize file))"
    and "n = min 1024 (unat (fp_fsize file) - q)"
  shows "\<exists>r file' buffer' s'. fdd_readsector io fdd file buffer s = Some (r, file', buffer', s')
    \<and> coherent dinv dsec dcap s' \<and> same_vol io dsec s s' \<and> length buffer' = length buffer
    \<and> (reliable_device io dinv dsec dcap \<longrightarrow> r = FR_OK)
    \<and> (r = FR_OK \<and> same_file file file'
         \<and> buffer' = blit buffer 0 (slice q n (file_bytes (dsec (disk s)) (cur_fs s) file cl))
       \<or> r = FR_RW_ERROR \<and> has (fp_flag file') FA_ERROR)"
  using disk_device.fdd_readsector_content [OF assms] reliable_device.reliable [of io dinv dsec dcap] by fast

theorem fdd_readsector_delivers_witness:
  "\<exists>file' s'. fdd_readsector ram_io demo_fdd demo_file (replicate 1024 0) demo_state
     = Some (FR_OK, file', replicate 512 3 @ replicate 488 4 @ replicate 24 0, s')"
proof -
  have v: "vol_ok ram_cap (cur_fs demo_state)" using demo_vol by simp
  have ro: "FS_READONLY ram_io \<or> \<not> has (fp_flag demo_file) FA_WRITE" by (simp add: ram_io_def)
  have q: "0 = min (unat (calc_offset demo_fdd)) (unat (fp_fsize demo_file))"
    using calc_offset_image [of demo_fdd] by (simp add: demo_fdd_def sector_id_def image_offset_def)
  have n: "1000 = min 1024 (unat (fp_fsize demo_file) - 0)" by (simp add: demo_file_def)
  from fdd_readsector_delivers [OF ram.disk_device_axioms demo_coherent v demo_open _ ro _ q n, of "[2, 3]" "replicate 1024 0"]
  obtain r file' buffer' s' where f: "fdd_readsector ram_io demo_fdd demo_file (replicate 1024 0) demo_state = Some (r, file', buffer', s')"
    "r = FR_OK" "buffer' = blit (replicate 1024 0) 0 (slice 0 1000 (file_bytes demo_sec demo_fs demo_file [2, 3]))"
    using ram.reliable_device_axioms demo_file_on by fastforce
  have "slice 0 1000 (file_bytes demo_sec demo_fs demo_file [2, 3]) = replicate 512 3 @ replicate 488 4"
    by (simp add: demo_bytes slice_def take_replicate)
  then show ?thesis using f by (simp add: blit_def)
qed

end
