(* ===== verification/TffChainProps.thy ===== *)
theory TffChainProps
  imports TffWriteProps
begin

text \<open>
  Cluster chains in the build with write access: \<open>remove_chain\<close> ends on any volume and frees the chain,
  \<open>create_chain\<close> ends and appends a cluster that was free.
\<close>

context disk_device
begin

section \<open>Freeing a chain\<close>

text \<open>The counter of free clusters is not part of what the volume shows.\<close>

lemma bump_free_view [simp]:
  "hld (bump_free d s) = hld s" "view (bump_free d s) = view s" "same_geo s (bump_free d s)"
  "same_geo s (bump_free d t) = same_geo s t"
  by (auto simp: bump_free_def held_def vol_view_def same_geo_def upd_fs_def geo_def)

lemma enteredD:
  assumes "entered c v s ok s'"
  shows "hld s'" "same_geo s s'" "outside s s'" "reads_ok \<and> writes_ok \<Longrightarrow> ok"
    "valid_clust (cur_fs s) c' \<Longrightarrow> c' \<noteq> c \<Longrightarrow> fat_entry (view s') (cur_fs s) c' = fat_entry (view s) (cur_fs s) c'"
    "ok \<Longrightarrow> fat_entry (view s') (cur_fs s) c = v AND mask (fat_width (cur_fs s))"
  using assms unfolding entered_def by blast+

lemma looked_upD:
  assumes "looked_up c s r s'"
  shows "hld s'" "same_view dsec s s'" "same_geo s s'"
    "r \<noteq> 1 \<Longrightarrow> valid_clust (cur_fs s) c \<and> r = fat_entry (view s) (cur_fs s) c"
    "reads_ok \<and> writes_ok \<Longrightarrow> valid_clust (cur_fs s) c \<Longrightarrow> r = fat_entry (view s) (cur_fs s) c"
  using assms same_view_geo [of dsec s s'] unfolding looked_up_def by blast+

lemma same_view_outside: "same_view dsec s s' \<Longrightarrow> outside s s'"
  by (auto simp: same_view_def outside_def in_copies_def)

lemma outside_trans: "outside s t \<Longrightarrow> same_geo s t \<Longrightarrow> outside t u \<Longrightarrow> outside s u"
  using same_geo_funs(2,7) [of s t] by (simp add: outside_def)

text \<open>One step: look up the link, then set the entry.\<close>

lemma look_and_enter:
  assumes s: "hld s" "tbl s" and v: "valid_clust (cur_fs s) c"
    and g: "get_cluster io c' s = (r, s1)" and p: "put_cluster io c val s1 = (ok, s2)"
  shows "entered c val s ok s2"
proof -
  note l = looked_upD [OF get_cluster_view [OF s g]]
  note f = same_geo_funs [OF l(3)]
  have vol: "vol_ok dcap (cur_fs s)" using s(2) by (simp add: table_ok_def)
  have "tbl s1" "valid_clust (cur_fs s1) c" using s(2) v same_geo_table [OF l(3)] f by simp_all
  note e = enteredD [OF put_cluster_view [OF l(1) this p], unfolded f]
  have "fat_entry (view s2) (cur_fs s) c'' = fat_entry (view s) (cur_fs s) c''"
    if "valid_clust (cur_fs s) c''" "c'' \<noteq> c" for c''
    using e(5) [OF that] same_view_entry [OF l(2) vol that(1)] by simp
  then show ?thesis
    using e(1,4,6) same_geo_trans [OF l(3) e(2)] outside_trans [OF same_view_outside [OF l(2)] l(3) e(3)]
    by (simp add: entered_def)
qed

text \<open>The clusters still linked; each step frees one of them, so the loop ends on any volume.\<close>

definition linked :: "'d tff \<Rightarrow> WORD set" where
  "linked s = {c. valid_clust (cur_fs s) c \<and> fat_entry (view s) (cur_fs s) c \<noteq> 0}"

definition cut :: "'d tff \<Rightarrow> 'd tff \<Rightarrow> bool" where
  "cut s s' \<longleftrightarrow> hld s' \<and> same_geo s s' \<and> outside s s'
     \<and> (\<forall>c. valid_clust (cur_fs s) c \<longrightarrow>
          fat_entry (view s') (cur_fs s) c \<in> {fat_entry (view s) (cur_fs s) c, 0})"

lemma cut_trans: "cut s t \<Longrightarrow> cut t u \<Longrightarrow> cut s u"
  using same_geo_trans [of s t u] outside_trans [of s t u] same_geo_funs(4,6) [of s t]
  by (auto simp: cut_def) metis

lemma looked_up_cut:
  assumes "hld s" "tbl s" "looked_up c s r s'"
  shows "cut s s'"
proof -
  have "vol_ok dcap (cur_fs s)" using assms(2) by (simp add: table_ok_def)
  then show ?thesis
    using looked_upD [OF assms(3)] same_view_entry [of dsec s s' dcap] same_view_outside [of s s'] by (simp add: cut_def)
qed

definition intact :: "'d tff \<Rightarrow> 'd tff \<Rightarrow> bool" where
  "intact s s' \<longleftrightarrow> hld s' \<and> same_geo s s' \<and> outside s s'"

lemma cut_intact: "cut s s' \<Longrightarrow> intact s s'"
  by (simp add: cut_def intact_def)

lemma intact_trans: "intact s t \<Longrightarrow> intact t u \<Longrightarrow> intact s u"
  using same_geo_trans [of s t u] outside_trans [of s t u] by (simp add: intact_def)

lemma remove_chain_step:
  assumes s: "hld s" "tbl s" and v: "valid_clust (cur_fs s) c"
  obtains "\<exists>s'. remove_chain io c s = Some (False, s') \<and> intact s s'
      \<and> (fat_entry (view s) (cur_fs s) c = 1 \<or> \<not> (reads_ok \<and> writes_ok))"
  | s1 where "remove_chain io c s = remove_chain io (fat_entry (view s) (cur_fs s) c) s1"
    "entered c 0 s True s1" "fat_entry (view s) (cur_fs s) c \<noteq> 1"
proof -
  obtain nxt s1 where g: "get_cluster io c s = (nxt, s1)" by fastforce
  note l = get_cluster_view [OF s g]
  obtain ok s2 where p: "put_cluster io c 0 s1 = (ok, s2)" by fastforce
  note e = look_and_enter [OF s v g p]
  have step: "remove_chain io c s = (if nxt = 1 then Some (False, s1) else if \<not> ok then Some (False, s2)
      else remove_chain io nxt (bump_free 1 s2))"
    using v by (subst remove_chain.simps) (simp add: g p valid_clust_def)
  have i: "intact s s1" "intact s s2"
    using cut_intact [OF looked_up_cut [OF s l]] enteredD [OF e] by (auto simp: intact_def)
  consider "nxt = 1" | "nxt \<noteq> 1" "\<not> ok" | "nxt \<noteq> 1" ok by blast
  then show thesis
  proof cases
    case 1
    have "remove_chain io c s = Some (False, s1)" using step 1 by simp
    moreover have "fat_entry (view s) (cur_fs s) c = 1 \<or> \<not> (reads_ok \<and> writes_ok)"
      using looked_upD(5) [OF l _ v] 1 by auto
    ultimately show thesis using that(1) i(1) by blast
  next
    case 2
    have "remove_chain io c s = Some (False, s2)" using step 2 by simp
    then show thesis using that(1) i(2) enteredD(4) [OF e] 2 by blast
  next
    case 3
    then have n: "nxt = fat_entry (view s) (cur_fs s) c" using looked_upD(4) [OF l] by simp
    have "entered c 0 s True (bump_free 1 s2)"
      using e 3 by (simp add: entered_def outside_def)
    then show thesis using that(2) step 3 n by simp
  qed
qed

lemma remove_chain_ends:
  assumes "hld s" "tbl s"
  shows "\<exists>ok s'. remove_chain io c s = Some (ok, s') \<and> intact s s' \<and> (ok \<longrightarrow> cut s s')"
  using assms
proof (induction "card (linked s)" arbitrary: c s rule: less_induct)
  case less
  have refl: "cut s s" using less.prems by (simp add: cut_def outside_def)
  have stop: "remove_chain io c' t = Some (True, t)" if "\<not> valid_clust (cur_fs t) c'" for c' t
    using that by (subst remove_chain.simps) (auto simp: valid_clust_def)
  show ?case
  proof (cases "valid_clust (cur_fs s) c")
    case False
    then show ?thesis using stop refl cut_intact by blast
  next
    case v: True
    let ?n = "fat_entry (view s) (cur_fs s) c"
    from less.prems v show ?thesis
    proof (cases rule: remove_chain_step)
      case 1
      then show ?thesis by blast
    next
      case (2 s1)
      note e = enteredD [OF 2(2)]
      have c: "cut s s1" using e by (auto simp: cut_def)
      show ?thesis
      proof (cases "valid_clust (cur_fs s) ?n")
        case False
        then have "remove_chain io ?n s1 = Some (True, s1)" using stop same_geo_funs(4) [OF e(2)] by simp
        then show ?thesis using 2(1) c cut_intact by auto
      next
        case True
        then have "?n \<noteq> 0" by (auto simp: valid_clust_def)
        then have "c \<in> linked s" "c \<notin> linked s1"
          using v e(6) same_geo_funs(6) [OF e(2)] by (auto simp: linked_def)
        moreover have "linked s1 \<subseteq> linked s"
          using c same_geo_funs(4,6) [OF e(2)] by (auto simp: linked_def cut_def)
        ultimately have "card (linked s1) < card (linked s)" by (intro psubset_card_mono) auto
        moreover have "tbl s1" using less.prems(2) same_geo_table [OF e(2)] by simp
        ultimately obtain ok s' where "remove_chain io ?n s1 = Some (ok, s')" "intact s1 s'" "ok \<longrightarrow> cut s1 s'"
          using less.hyps e(1) by blast
        then show ?thesis using 2(1) c cut_trans intact_trans cut_intact by metis
      qed
    qed
  qed
qed

text \<open>On a device that does not fail the whole chain is freed, and nothing else.\<close>

lemma remove_chain_frees_chain:
  assumes "hld s" "tbl s" and io: "reads_ok \<and> writes_ok"
    and "distinct (c # cl)" "\<forall>x \<in> set (c # cl). valid_clust (cur_fs s) x"
    and "successively (\<lambda>a b. fat_entry (view s) (cur_fs s) a = b) (c # cl)"
    and "\<not> valid_clust (cur_fs s) (fat_entry (view s) (cur_fs s) (last (c # cl)))"
    and "fat_entry (view s) (cur_fs s) (last (c # cl)) \<noteq> 1"
  shows "\<exists>s'. remove_chain io c s = Some (True, s')
    \<and> (\<forall>x. valid_clust (cur_fs s) x \<longrightarrow>
         fat_entry (view s') (cur_fs s) x = (if x \<in> set (c # cl) then 0 else fat_entry (view s) (cur_fs s) x))"
  using assms(1,2,4-8)
proof (induction cl arbitrary: c s)
  case Nil
  then have v: "valid_clust (cur_fs s) c" by simp
  let ?n = "fat_entry (view s) (cur_fs s) c"
  from Nil.prems(1,2) v show ?case
  proof (cases rule: remove_chain_step)
    case 1
    then show ?thesis using Nil.prems(7) io by auto
  next
    case (2 s1)
    note e = enteredD [OF 2(2)]
    have "remove_chain io ?n s1 = Some (True, s1)"
      using Nil.prems(6) same_geo_funs(4) [OF e(2)] by (subst remove_chain.simps) (auto simp: valid_clust_def)
    then show ?thesis using 2(1) e(5,6) by auto
  qed
next
  case (Cons d cl)
  then have v: "valid_clust (cur_fs s) c" and n: "fat_entry (view s) (cur_fs s) c = d" by simp_all
  have d1: "d \<noteq> 1" using Cons.prems(4) by (auto simp: valid_clust_def word_le_nat_alt)
  from Cons.prems(1,2) v show ?case
  proof (cases rule: remove_chain_step)
    case 1
    then show ?thesis using n d1 io by auto
  next
    case (2 s1)
    note e = enteredD [OF 2(2)] and f = same_geo_funs [OF enteredD(2) [OF 2(2)]]
    have t1: "tbl s1" using Cons.prems(2) same_geo_table [OF e(2)] by simp
    have keep: "fat_entry (view s1) (cur_fs s1) x = fat_entry (view s) (cur_fs s) x" if "x \<in> set (d # cl)" for x
      using that Cons.prems(3,4) e(5) f(6) by auto
    have "successively (\<lambda>a b. fat_entry (view s1) (cur_fs s1) a = b) (d # cl)
        = successively (\<lambda>a b. fat_entry (view s) (cur_fs s) a = b) (d # cl)"
      by (rule successively_cong) (use keep in auto)
    then have "\<exists>s'. remove_chain io d s1 = Some (True, s')
      \<and> (\<forall>x. valid_clust (cur_fs s1) x \<longrightarrow>
           fat_entry (view s') (cur_fs s1) x = (if x \<in> set (d # cl) then 0 else fat_entry (view s1) (cur_fs s1) x))"
      using Cons.prems keep by (intro Cons.IH [OF e(1) t1]) (auto simp: f)
    then show ?thesis using 2(1) n e(5,6) by (auto simp: f)
  qed
qed

section \<open>Extending a chain\<close>

text \<open>The clusters the search of \<open>create_chain\<close> has still to look at, in its order.\<close>

definition to_search :: "nat \<Rightarrow> nat \<Rightarrow> nat \<Rightarrow> nat list" where
  "to_search mcl scl n =
     (if scl \<le> n then [n + 1 ..< mcl] @ [2 ..< scl + 1] else [n + 1 ..< scl + 1])"

definition searched :: "nat set \<Rightarrow> 'd tff \<Rightarrow> WORD + WORD \<Rightarrow> 'd tff \<Rightarrow> bool" where
  "searched A s r s' \<longleftrightarrow> hld s' \<and> same_view dsec s s'
     \<and> (case r of
          Inr c \<Rightarrow> valid_clust (cur_fs s) c \<and> fat_entry (view s) (cur_fs s) c = 0
        | Inl e \<Rightarrow> e = 1 \<and> (\<not> (reads_ok \<and> writes_ok)
              \<or> (\<exists>c. valid_clust (cur_fs s) c \<and> fat_entry (view s) (cur_fs s) c = 1))
            \<or> e = 0 \<and> (\<forall>c. valid_clust (cur_fs s) c \<longrightarrow> unat c \<in> A \<longrightarrow> fat_entry (view s) (cur_fs s) c \<noteq> 0))"

lemma to_search_next:
  assumes "1 \<le> n" "n < mcl" "1 \<le> scl" "scl < mcl"
  defines "k \<equiv> (if mcl \<le> n + 1 then 2 else n + 1)"
  shows "mcl \<le> n + 1 \<and> scl < k \<Longrightarrow> to_search mcl scl n = []"
    "\<not> (mcl \<le> n + 1 \<and> scl < k) \<Longrightarrow>
      to_search mcl scl n = k # (if k = scl then [] else to_search mcl scl k) \<and> 2 \<le> k \<and> k < mcl"
proof -
  show "mcl \<le> n + 1 \<and> scl < k \<Longrightarrow> to_search mcl scl n = []"
    using assms by (auto simp: to_search_def)
  assume a: "\<not> (mcl \<le> n + 1 \<and> scl < k)"
  show "to_search mcl scl n = k # (if k = scl then [] else to_search mcl scl k) \<and> 2 \<le> k \<and> k < mcl"
  proof (cases "mcl \<le> n + 1")
    case True
    then have "k = 2" "2 \<le> scl" "scl \<le> n" using a assms by (auto simp: k_def)
    then show ?thesis using True assms by (auto simp: to_search_def upt_conv_Cons)
  next
    case False
    then have "k = n + 1" by (simp add: k_def)
    then show ?thesis using False assms by (auto simp: to_search_def upt_conv_Cons)
  qed
qed

lemma searched_later:
  assumes "tbl s" "same_view dsec s s1" "searched A s1 r s'" "fat_entry (view s) (cur_fs s) k \<noteq> 0"
  shows "searched (insert (unat k) A) s r s'"
proof -
  have vol: "vol_ok dcap (cur_fs s)" using assms(1) by (simp add: table_ok_def)
  note g = same_geo_funs [OF same_view_geo [OF assms(2)]]
  note e = same_view_entry [OF assms(2) vol]
  have "unat c = unat k \<longleftrightarrow> c = k" for c by (simp add: word_eq_unat)
  then show ?thesis
    using assms(3,4) same_view_trans [OF assms(2)] e by (auto simp: searched_def g split: sum.splits)
qed

lemma find_free_ends:
  assumes "hld s" "tbl s" and "1 \<le> unat ncl" "ncl < mcl" "1 \<le> unat scl" "scl < mcl" and "mcl = fs_max_clust (cur_fs s)"
  shows "\<exists>r s'. find_free io mcl scl ncl s = Some (r, s')
    \<and> searched (set (to_search (unat mcl) (unat scl) (unat ncl))) s r s'"
  using assms
proof (induction "length (to_search (unat mcl) (unat scl) (unat ncl))" arbitrary: ncl s rule: less_induct)
  case less
  have m: "unat mcl \<le> 0xFFF7" using less.prems(2,7) by (auto simp: table_ok_def vol_ok_def)
  have lt: "unat ncl < unat mcl" "unat scl < unat mcl" using less.prems(4,6) by (simp_all add: word_less_nat_alt)
  have u: "unat (ncl + 1) = unat ncl + 1" using lt m by (simp add: unat_word_ariths)
  define k :: WORD where "k = (if ncl + 1 \<ge> mcl then 2 else ncl + 1)"
  have w: "ncl + 1 \<ge> mcl \<longleftrightarrow> unat mcl \<le> unat ncl + 1" using u by (simp add: word_le_nat_alt)
  have uk: "unat k = (if unat mcl \<le> unat ncl + 1 then 2 else unat ncl + 1)" using u w by (simp add: k_def)
  note nx = to_search_next [OF less.prems(3) lt(1) less.prems(5) lt(2), folded uk]
  obtain cstat s1 where g: "get_cluster io k s = (cstat, s1)" by fastforce
  have step: "find_free io mcl scl ncl s =
    (if unat mcl \<le> unat ncl + 1 \<and> unat scl < unat k then Some (Inl 0, s)
     else if cstat = 0 then Some (Inr k, s1) else if cstat = 1 then Some (Inl 1, s1)
     else if k = scl then Some (Inl 0, s1) else find_free io mcl scl k s1)"
  proof -
    have "find_free io mcl scl ncl s = (if ncl + 1 \<ge> mcl \<and> k > scl then Some (Inl 0, s)
      else (case get_cluster io k s of (cstat, s) \<Rightarrow>
        if cstat = 0 then Some (Inr k, s) else if cstat = 1 then Some (Inl 1, s)
        else if k = scl then Some (Inl 0, s) else find_free io mcl scl k s))"
      unfolding k_def by (subst find_free.simps) (simp only: Let_def)
    then show ?thesis by (simp only: g w prod.case word_less_nat_alt)
  qed
  show ?case
  proof (cases "unat mcl \<le> unat ncl + 1 \<and> unat scl < unat k")
    case True
    then show ?thesis using step nx(1) less.prems(1) by (simp add: searched_def)
  next
    case False
    note n2 = nx(2) [OF False]
    have v: "valid_clust (cur_fs s) k" using n2 less.prems(7) by (simp add: valid_clust_def word_less_nat_alt word_le_nat_alt)
    note l = looked_upD [OF get_cluster_view [OF less.prems(1,2) g]]
    have ne: "cstat \<noteq> 1 \<Longrightarrow> cstat = fat_entry (view s) (cur_fs s) k" using l(4) by blast
    consider "cstat = 0" | "cstat = 1" | "cstat \<noteq> 0" "cstat \<noteq> 1" "k = scl" | "cstat \<noteq> 0" "cstat \<noteq> 1" "k \<noteq> scl" by blast
    then show ?thesis
    proof cases
      case 1
      then have "find_free io mcl scl ncl s = Some (Inr k, s1)" using step False by simp
      then show ?thesis using ne 1 v l(1,2) by (simp add: searched_def)
    next
      case 2
      then have "find_free io mcl scl ncl s = Some (Inl 1, s1)" using step False by simp
      moreover have "\<not> (reads_ok \<and> writes_ok) \<or> fat_entry (view s) (cur_fs s) k = 1" using l(5) v 2 by auto
      ultimately show ?thesis using v l(1,2) by (auto simp: searched_def)
    next
      case 3
      then have "find_free io mcl scl ncl s = Some (Inl 0, s1)" using step False by simp
      then show ?thesis using ne 3 n2 l(1,2) by (auto simp: searched_def simp flip: word_eq_unat)
    next
      case 4
      then have e: "find_free io mcl scl ncl s = find_free io mcl scl k s1" using step False by auto
      have ks: "unat k \<noteq> unat scl" using 4(3) by (simp add: word_eq_unat)
      have t1: "tbl s1" "mcl = fs_max_clust (cur_fs s1)"
        using less.prems(2,7) same_geo_table [OF l(3)] same_geo_funs [OF l(3)] by simp_all
      obtain r s' where r: "find_free io mcl scl k s1 = Some (r, s')"
        "searched (set (to_search (unat mcl) (unat scl) (unat k))) s1 r s'"
        using less.hyps [OF _ l(1) t1(1) _ _ less.prems(5,6) t1(2), of k] n2 ks by (auto simp: word_less_nat_alt)
      have "searched (insert (unat k) (set (to_search (unat mcl) (unat scl) (unat k)))) s r s'"
        using searched_later [OF less.prems(2) l(2) r(2)] ne 4 by auto
      then show ?thesis using e r(1) n2 ks by simp
    qed
  qed
qed

text \<open>The whole search, and what it says when it finds nothing.\<close>

lemma to_search_all:
  assumes "1 \<le> scl" "2 \<le> c" "c < mcl"
  shows "c \<in> set (to_search mcl scl scl)"
  using assms by (auto simp: to_search_def)

text \<open>The result of appending the free cluster \<open>n\<close> to the chain that ends in \<open>c\<close>, or of starting one if \<open>c\<close> is 0.\<close>

definition appended :: "WORD \<Rightarrow> WORD \<Rightarrow> 'd tff \<Rightarrow> 'd tff \<Rightarrow> bool" where
  "appended c n s s' \<longleftrightarrow> fat_entry (view s') (cur_fs s) n = mask (fat_width (cur_fs s))
     \<and> (c \<noteq> 0 \<longrightarrow> fat_entry (view s') (cur_fs s) c = n)
     \<and> (\<forall>x. valid_clust (cur_fs s) x \<longrightarrow> x \<noteq> n \<longrightarrow> x \<noteq> c \<longrightarrow>
          fat_entry (view s') (cur_fs s) x = fat_entry (view s) (cur_fs s) x)"

lemma set_last_view [simp]:
  "hld (upd_cur (fs_last_clust_update f) s) = hld s" "view (upd_cur (fs_last_clust_update f) s) = view s"
  "same_geo t (upd_cur (fs_last_clust_update f) s) = same_geo t s"
  by (auto simp: held_def vol_view_def same_geo_def upd_fs_def geo_def)

lemma outside_cong: "view s' = view s'' \<Longrightarrow> outside s s' = outside s s''"
  by (simp add: outside_def)

lemma width_mask:
  assumes "vol_ok cap fs" "valid_clust fs n"
  shows "n AND mask (fat_width fs) = n"
proof -
  have "unat n < 2 ^ fat_width fs"
    using assms by (auto simp: vol_ok_def valid_clust_def fat_width_def word_less_nat_alt FS_FAT12_def FS_FAT16_def)
  then show ?thesis
    by (simp flip: take_bit_eq_mask add: word_eq_unat unsigned_take_bit_eq take_bit_nat_eq_self)
qed

lemma link_new_step:
  assumes s: "hld s" "tbl s" and n: "valid_clust (cur_fs s) n" and c: "c = 0 \<or> valid_clust (cur_fs s) c \<and> c \<noteq> n"
    and l: "link_new io c n s = (r, s')"
  shows "intact s s'" "r = n \<and> appended c n s s' \<or> r = 1 \<and> \<not> (reads_ok \<and> writes_ok)"
proof -
  have vol: "vol_ok dcap (cur_fs s)" using s(2) by (simp add: table_ok_def)
  obtain ok1 s1 where p1: "put_cluster io n 0xFFFF s = (ok1, s1)" by fastforce
  note e1 = enteredD [OF put_cluster_view [OF s n p1]]
  have t1: "tbl s1" using s(2) same_geo_table [OF e1(2)] by simp
  have i1: "intact s s1" using e1 by (simp add: intact_def)
  obtain ok2 s2 where p2: "(if c \<noteq> 0 then put_cluster io c n s1 else (True, s1)) = (ok2, s2)" by fastforce
  have link: "link_new io c n s = (if \<not> ok1 then (1, s1) else if \<not> ok2 then (1, s2)
      else (n, bump_free (- 1) (upd_cur (fs_last_clust_update (\<lambda>_. n)) s2)))"
    using p2 by (simp add: link_new_def p1)
  have m: "(0xFFFF :: WORD) AND mask (fat_width (cur_fs s)) = mask (fat_width (cur_fs s))"
    by (simp add: fat_width_def mask_eq_exp_minus_1)
  have r2: "intact s1 s2 \<and> (ok2 \<longrightarrow> appended c n s s2) \<and> (reads_ok \<and> writes_ok \<longrightarrow> ok2)" if ok1
  proof (cases "c = 0")
    case True
    then have "ok2" "s2 = s1" using p2 by simp_all
    moreover have "intact s1 s1" using e1(1) by (simp add: intact_def outside_def)
    ultimately show ?thesis using e1(5,6) that m True by (auto simp: appended_def)
  next
    case False
    then have v: "valid_clust (cur_fs s1) c" "c \<noteq> n" using c same_geo_funs [OF e1(2)] by auto
    have "put_cluster io c n s1 = (ok2, s2)" using p2 False by simp
    note e2 = enteredD [OF put_cluster_view [OF e1(1) t1 v(1) this], unfolded same_geo_funs [OF e1(2)]]
    have "intact s1 s2" using e2 by (simp add: intact_def)
    moreover have "appended c n s s2" if ok2
      using e1(5,6) e2(5,6) n v that \<open>ok1\<close> m width_mask [OF vol n] by (auto simp: appended_def)
    ultimately show ?thesis using e2(4) by blast
  qed
  have i2: "intact s s2" if ok1 using intact_trans [OF i1] r2 [OF that] by blast
  have b: "intact s (bump_free (- 1) (upd_cur (fs_last_clust_update (\<lambda>_. n)) s2)) = intact s s2"
    "appended c n s (bump_free (- 1) (upd_cur (fs_last_clust_update (\<lambda>_. n)) s2)) = appended c n s s2"
    by (simp_all add: intact_def appended_def outside_def)
  show "intact s s'" using l link i1 i2 b(1) by (auto split: if_splits)
  show "r = n \<and> appended c n s s' \<or> r = 1 \<and> \<not> (reads_ok \<and> writes_ok)"
    using l link r2 b(2) e1(4) by (auto split: if_splits)
qed

lemma at_least_2: "2 \<le> (x :: WORD) \<Longrightarrow> x \<noteq> 1 \<and> x \<noteq> 0"
  by (auto simp: word_le_nat_alt)

lemma appended_later:
  assumes "tbl s" "same_view dsec s t" "appended c n t s'"
  shows "appended c n s s'"
proof -
  have vol: "vol_ok dcap (cur_fs s)" using assms(1) by (simp add: table_ok_def)
  show ?thesis
    using assms(3) same_view_entry [OF assms(2) vol]
    by (simp add: appended_def same_geo_funs [OF same_view_geo [OF assms(2)]])
qed

lemma same_view_intact: "hld t \<Longrightarrow> same_view dsec s t \<Longrightarrow> intact s t"
  using same_view_geo [of dsec s t] same_view_outside [of s t] by (simp add: intact_def)

definition extended :: "WORD \<Rightarrow> 'd tff \<Rightarrow> WORD \<Rightarrow> 'd tff \<Rightarrow> bool" where
  "extended c s r s' \<longleftrightarrow>
     r = 1 \<and> (\<not> (reads_ok \<and> writes_ok)
         \<or> (\<exists>x. valid_clust (cur_fs s) x \<and> fat_entry (view s) (cur_fs s) x = 1))
     \<or> r = 0 \<and> (\<forall>x. valid_clust (cur_fs s) x \<longrightarrow> fat_entry (view s) (cur_fs s) x \<noteq> 0)
     \<or> valid_clust (cur_fs s) r \<and> fat_entry (view s) (cur_fs s) r = 0 \<and> appended c r s s'"

text \<open>The search from a start cluster \<open>scl\<close> and the linking after it.\<close>

lemma search_and_link:
  assumes s: "hld s" "tbl s" and scl: "1 \<le> unat scl" "scl < fs_max_clust (cur_fs s)"
    and c: "c = 0 \<or> valid_clust (cur_fs s) c \<and> fat_entry (view s) (cur_fs s) c \<noteq> 0"
  shows "\<exists>r s'. do { (r, s) \<leftarrow> find_free io (fs_max_clust (cur_fs s)) scl scl s;
                    (case r of Inl e \<Rightarrow> Some (e, s) | Inr ncl \<Rightarrow> Some (link_new io c ncl s)) } = Some (r, s')
    \<and> intact s s' \<and> extended c s r s'"
proof -
  obtain f s1 where f: "find_free io (fs_max_clust (cur_fs s)) scl scl s = Some (f, s1)"
    "searched (set (to_search (unat (fs_max_clust (cur_fs s))) (unat scl) (unat scl))) s f s1"
    using find_free_ends [OF s scl scl refl] by blast
  have v1: "hld s1" "same_view dsec s s1" using f(2) by (simp_all add: searched_def)
  note g = same_geo_funs [OF same_view_geo [OF v1(2)]]
  show ?thesis
  proof (cases f)
    case (Inl e)
    have "extended c s e s1"
      using f(2) to_search_all [OF scl(1)]
      by (auto simp: Inl searched_def extended_def valid_clust_def word_le_nat_alt word_less_nat_alt)
    then show ?thesis using f(1) same_view_intact [OF v1] by (auto simp: Inl)
  next
    case (Inr n)
    have n: "valid_clust (cur_fs s) n" "fat_entry (view s) (cur_fs s) n = 0" using f(2) by (simp_all add: Inr searched_def)
    obtain r s' where l: "link_new io c n s1 = (r, s')" by fastforce
    have "tbl s1" "valid_clust (cur_fs s1) n" "c = 0 \<or> valid_clust (cur_fs s1) c \<and> c \<noteq> n"
      using s(2) same_geo_table [OF same_view_geo [OF v1(2)]] n c g by auto
    note k = link_new_step [OF v1(1) this l]
    have "intact s s'" using intact_trans [OF same_view_intact [OF v1] k(1)] .
    moreover have "extended c s r s'"
      using k(2) appended_later [OF s(2) v1(2)] n by (auto simp: extended_def)
    ultimately show ?thesis using f(1) l by (auto simp: Inr)
  qed
qed

lemma create_chain_ends:
  assumes s: "hld s" "tbl s"
  shows "\<exists>r s'. create_chain io c s = Some (r, s') \<and> intact s s'
    \<and> (c = 0 \<longrightarrow> extended c s r s')
    \<and> (c \<noteq> 0 \<longrightarrow>
        r = 1 \<and> (\<not> (reads_ok \<and> writes_ok) \<or> \<not> valid_clust (cur_fs s) c \<or> fat_entry (view s) (cur_fs s) c < 2)
        \<or> valid_clust (cur_fs s) c \<and> 2 \<le> fat_entry (view s) (cur_fs s) c
          \<and> (if valid_clust (cur_fs s) (fat_entry (view s) (cur_fs s) c)
             then r = fat_entry (view s) (cur_fs s) c \<and> same_view dsec s s'
             else extended c s r s'))"
proof -
  have m: "2 \<le> unat (fs_max_clust (cur_fs s))" using s(2) by (simp add: table_ok_def vol_ok_def)
  show ?thesis
  proof (cases "c = 0")
    case True
    define scl where "scl = (if fs_last_clust (cur_fs s) < 2 \<or> fs_last_clust (cur_fs s) \<ge> fs_max_clust (cur_fs s)
        then 1 else fs_last_clust (cur_fs s))"
    have "1 \<le> unat scl" "scl < fs_max_clust (cur_fs s)"
      using m by (auto simp: scl_def word_less_nat_alt word_le_nat_alt)
    from search_and_link [OF s this, of 0]
    obtain r s' where "create_chain io 0 s = Some (r, s')" "intact s s'" "extended 0 s r s'"
      unfolding create_chain_def Let_def scl_def [symmetric] by auto
    then show ?thesis using True by blast
  next
    case False
    obtain cstat s1 where g: "get_cluster io c s = (cstat, s1)" by fastforce
    note l = looked_upD [OF get_cluster_view [OF s g]]
    note gf = same_geo_funs [OF l(3)]
    have vol: "vol_ok dcap (cur_fs s)" using s(2) by (simp add: table_ok_def)
    consider "cstat < 2" | "2 \<le> cstat" "cstat < fs_max_clust (cur_fs s)" | "fs_max_clust (cur_fs s) \<le> cstat" "2 \<le> cstat"
      by (meson not_le)
    then show ?thesis
    proof cases
      case 1
      then have "create_chain io c s = Some (1, s1)" using False by (simp add: create_chain_def g)
      moreover have "reads_ok \<and> writes_ok \<Longrightarrow> valid_clust (cur_fs s) c \<Longrightarrow> fat_entry (view s) (cur_fs s) c < 2"
        using l(5) 1 by simp
      ultimately show ?thesis using False same_view_intact [OF l(1,2)] by auto
    next
      case 2
      then have "create_chain io c s = Some (cstat, s1)"
        using False by (auto simp: create_chain_def g Let_def simp flip: not_less)
      moreover have "valid_clust (cur_fs s) c \<and> cstat = fat_entry (view s) (cur_fs s) c"
        using l(4) at_least_2 [OF 2(1)] by blast
      ultimately show ?thesis using False 2 same_view_intact [OF l(1,2)] l(2) by (auto simp: valid_clust_def)
    next
      case 3
      have v: "valid_clust (cur_fs s) c" "cstat = fat_entry (view s) (cur_fs s) c"
        using l(4) at_least_2 [OF 3(2)] by blast+
      have c1: "fat_entry (view s1) (cur_fs s1) c \<noteq> 0" "valid_clust (cur_fs s1) c"
        using same_view_entry [OF l(2) vol v(1)] v at_least_2 [OF 3(2)] gf by auto
      have "1 \<le> unat c" "c < fs_max_clust (cur_fs s1)" "tbl s1"
        using v(1) gf s(2) same_geo_table [OF l(3)] by (auto simp: valid_clust_def word_le_nat_alt)
      obtain r s' where r: "create_chain io c s = Some (r, s')" "intact s1 s'" "extended c s1 r s'"
      proof -
        have "\<not> cstat < 2" "\<not> cstat < fs_max_clust (cur_fs s)" using 3 by (simp_all only: not_less)
        then have "create_chain io c s = do { (r, s) \<leftarrow> find_free io (fs_max_clust (cur_fs s)) c c s1;
            (case r of Inl e \<Rightarrow> Some (e, s) | Inr ncl \<Rightarrow> Some (link_new io c ncl s)) }"
          using False by (simp add: create_chain_def g Let_def)
        then show ?thesis
          using that search_and_link [OF l(1) \<open>tbl s1\<close> \<open>1 \<le> unat c\<close> \<open>c < fs_max_clust (cur_fs s1)\<close>, of c] c1
          by (auto simp: gf)
      qed
      have "extended c s r s'"
        using r(3) appended_later [OF s(2) l(2)] same_view_entry [OF l(2) vol] unfolding extended_def by (auto simp: gf)
      then show ?thesis
        using r(1,2) False v 3 intact_trans [OF same_view_intact [OF l(1,2)]] by (auto simp: valid_clust_def)
    qed
  qed
qed

end

end
