(* ===== verification/TableTheorems.thy ===== *)
theory TableTheorems
  imports TffChainProps Ram_Volume
begin

text \<open>
  The correctness theorems of the allocation table in the build with write access, with applications to
  the volume of theory \<open>Ram_Volume\<close> on a medium that can be written.
\<close>

text \<open>The volume is as it was, up to the table and its copies: the window may be dirty.\<close>

definition only_table :: "('d \<Rightarrow> bool) \<Rightarrow> ('d \<Rightarrow> nat \<Rightarrow> BYTE list) \<Rightarrow> nat \<Rightarrow> 'd tff \<Rightarrow> 'd tff \<Rightarrow> bool" where
  "only_table dinv dsec dcap s s' \<longleftrightarrow> held dinv dsec dcap s' \<and> same_geo s s'
     \<and> (\<forall>n. n < unat (fs_fatbase (cur_fs s)) \<or> fat_end (cur_fs s) \<le> n \<longrightarrow> vol_view dsec s' n = vol_view dsec s n)"

text \<open>The entries the volume shows.\<close>

definition entry_in :: "('d \<Rightarrow> nat \<Rightarrow> BYTE list) \<Rightarrow> 'd tff \<Rightarrow> WORD \<Rightarrow> WORD" where
  "entry_in dsec s c = fat_entry (vol_view dsec s) (cur_fs s) c"

definition io_ok :: "'d diskio \<Rightarrow> ('d \<Rightarrow> bool) \<Rightarrow> nat \<Rightarrow> bool" where
  "io_ok io dinv dcap \<longleftrightarrow> disk_device.reads_ok io dinv dcap \<and> disk_device.writes_ok io dinv dcap"

lemma only_table_intact:
  assumes "disk_device io dinv dsec dcap"
  shows "disk_device.intact dinv dsec dcap s s' = only_table dinv dsec dcap s s'"
  by (simp add: disk_device.intact_def [OF assms] only_table_def disk_device.outside_def [OF assms])

lemma entry_in_geo: "same_geo s s' \<Longrightarrow> entry_in dsec s' c = fat_entry (vol_view dsec s') (cur_fs s) c"
  by (simp add: entry_in_def same_geo_funs)

section \<open>Entries\<close>

text \<open>C4: \<open>put_cluster\<close> and \<open>get_cluster\<close> are inverse on entries of the table.  On a mounted volume, whatever the
  window shows and whether or not it is dirty, \<open>put_cluster\<close> for a valid cluster changes nothing outside
  the copies of the table and no other entry, even when it fails half-way and even in FAT12, where
  neighbouring entries share a byte; if it reports success the entry holds the value cut to the width
  of an entry, and \<open>get_cluster\<close> then returns it (or 1 after a disk error).  On a device that does not fail
  it succeeds.\<close>

theorem put_get_cluster:
  assumes "disk_device io dinv dsec dcap" and "held dinv dsec dcap s" and "table_ok dcap io s"
    and "valid_clust (cur_fs s) c" and "put_cluster io c v s = (ok, s')"
  shows "only_table dinv dsec dcap s s'
    \<and> (\<forall>c'. valid_clust (cur_fs s) c' \<and> c' \<noteq> c \<longrightarrow> entry_in dsec s' c' = entry_in dsec s c')
    \<and> (ok \<longrightarrow> entry_in dsec s' c = v AND mask (fat_width (cur_fs s))
        \<and> fst (get_cluster io c s') \<in> {v AND mask (fat_width (cur_fs s)), 1})
    \<and> (io_ok io dinv dcap \<longrightarrow> ok \<and> fst (get_cluster io c s') = v AND mask (fat_width (cur_fs s)))"
proof -
  note e = disk_device.enteredD [OF assms(1) disk_device.put_cluster_view [OF assms]]
  have t': "table_ok dcap io s'" using assms(3) same_geo_table [OF e(2)] by simp
  obtain r s'' where g: "get_cluster io c s' = (r, s'')" by fastforce
  note l = disk_device.looked_upD [OF assms(1) disk_device.get_cluster_view [OF assms(1) e(1) t' g], unfolded same_geo_funs [OF e(2)]]
  have "r \<noteq> 1 \<Longrightarrow> r = entry_in dsec s' c" using l(4) entry_in_geo [OF e(2)] by simp
  moreover have "io_ok io dinv dcap \<Longrightarrow> r = entry_in dsec s' c"
    using l(5) assms(4) entry_in_geo [OF e(2)] by (simp add: io_ok_def)
  moreover have "only_table dinv dsec dcap s s'"
    using e(1-3) by (simp add: only_table_intact [OF assms(1), symmetric] disk_device.intact_def [OF assms(1)])
  ultimately show ?thesis
    using e(4-6) g by (auto simp: entry_in_geo [OF e(2)] io_ok_def) (simp_all add: entry_in_def)
qed

text \<open>The volume of theory \<open>Ram_Volume\<close> on a medium that can be written.\<close>

definition ram_rw :: "(nat \<Rightarrow> BYTE list) diskio" where
  "ram_rw = ram_io\<lparr>FS_READONLY := False\<rparr>"

lemma disk_device_cong:
  assumes "dio_read io' = dio_read io" "dio_write io' = dio_write io" "dio_status io' = dio_status io"
  shows "disk_device io' dinv dsec dcap = disk_device io dinv dsec dcap"
  unfolding disk_device_def assms ..

interpretation ram_rw: disk_device ram_rw ram_ok "\<lambda>d. d" ram_cap
  using ram.disk_device_axioms disk_device_cong [of ram_rw ram_io] by (simp add: ram_rw_def)

lemma ram_rw_ok: "io_ok ram_rw ram_ok ram_cap"
proof -
  have "ram_rw.reads_ok" unfolding ram_rw.reads_ok_def by (auto simp: ram_rw_def ram_io_def)
  moreover have "ram_rw.writes_ok" unfolding ram_rw.writes_ok_def by (auto simp: ram_rw_def ram_io_def)
  ultimately show ?thesis by (simp add: io_ok_def)
qed

lemma demo_held: "held ram_ok (\<lambda>d. d) ram_cap demo_state" "vol_view (\<lambda>d. d) demo_state = demo_sec"
  using coherent_held [OF demo_coherent] by simp_all

lemma demo_table: "table_ok ram_cap ram_rw demo_state"
  using demo_vol by (simp add: table_ok_def ram_rw_def fat_end_def) (simp add: demo_fs_def zero_FATFS_def)

lemma demo_entries:
  "entry_in (\<lambda>d. d) demo_state 5 = 6" "entry_in (\<lambda>d. d) demo_state 6 = 0xFFF"
  "entry_in (\<lambda>d. d) demo_state 2 = 3" "entry_in (\<lambda>d. d) demo_state 3 = 0xFFF" "fat_entry demo_sec demo_fs 6 = 0xFFF"
proof -
  show l: "fat_entry demo_sec demo_fs 6 = 0xFFF" by code_simp
  show "entry_in (\<lambda>d. d) demo_state 5 = 6" "entry_in (\<lambda>d. d) demo_state 6 = 0xFFF"
    "entry_in (\<lambda>d. d) demo_state 2 = 3" "entry_in (\<lambda>d. d) demo_state 3 = 0xFFF"
    using demo_links l by (simp_all add: entry_in_def demo_held)
qed

lemma demo_valid: "valid_clust demo_fs 2" "valid_clust demo_fs 3" "valid_clust demo_fs 5" "valid_clust demo_fs 6" "fat_width demo_fs = 12"
  by (simp_all add: valid_clust_def fat_width_def demo_fs_def)

theorem put_get_cluster_witness:
  "\<exists>s'. put_cluster ram_rw 5 7 demo_state = (True, s') \<and> fst (get_cluster ram_rw 5 s') = 7
     \<and> entry_in (\<lambda>d. d) s' 6 = 0xFFF"
proof -
  obtain ok s' where p: "put_cluster ram_rw 5 7 demo_state = (ok, s')" by fastforce
  have v: "valid_clust (cur_fs demo_state) 5" using demo_valid by simp
  have m: "(7 :: WORD) AND mask 12 = 7" by (simp add: mask_eq_exp_minus_1)
  from put_get_cluster [OF ram_rw.disk_device_axioms demo_held(1) demo_table v p] show ?thesis
    using p ram_rw_ok demo_valid demo_entries m by simp
qed

section \<open>Chains\<close>

text \<open>C5: \<open>remove_chain\<close> terminates on every volume, also on one whose links form a cycle, because every
  step clears a link.  Nothing outside the copies of the table changes; if it reports success every
  entry is as before or 0.  On a device that does not fail, a chain of distinct clusters whose last
  link leaves the table is freed completely, and no other entry changes.\<close>

theorem remove_chain_frees:
  assumes "disk_device io dinv dsec dcap" and "held dinv dsec dcap s" and "table_ok dcap io s"
  shows "\<exists>ok s'. remove_chain io c s = Some (ok, s') \<and> only_table dinv dsec dcap s s'
    \<and> (ok \<longrightarrow> (\<forall>x. valid_clust (cur_fs s) x \<longrightarrow> entry_in dsec s' x \<in> {entry_in dsec s x, 0}))
    \<and> (\<forall>cl. io_ok io dinv dcap \<and> distinct (c # cl) \<and> (\<forall>x \<in> set (c # cl). valid_clust (cur_fs s) x)
          \<and> successively (\<lambda>a b. entry_in dsec s a = b) (c # cl)
          \<and> \<not> valid_clust (cur_fs s) (entry_in dsec s (last (c # cl))) \<and> entry_in dsec s (last (c # cl)) \<noteq> 1
        \<longrightarrow> ok \<and> (\<forall>x. valid_clust (cur_fs s) x \<longrightarrow>
              entry_in dsec s' x = (if x \<in> set (c # cl) then 0 else entry_in dsec s x)))"
proof -
  obtain ok s' where r: "remove_chain io c s = Some (ok, s')" "disk_device.intact dinv dsec dcap s s'"
    "ok \<longrightarrow> disk_device.cut dinv dsec dcap s s'"
    using disk_device.remove_chain_ends [OF assms] by blast
  have o: "only_table dinv dsec dcap s s'" using r(2) only_table_intact [OF assms(1)] by blast
  then have g: "same_geo s s'" by (simp add: only_table_def)
  have e: "entry_in dsec s = fat_entry (vol_view dsec s) (cur_fs s)" by (rule ext) (simp add: entry_in_def)
  have "ok \<longrightarrow> (\<forall>x. valid_clust (cur_fs s) x \<longrightarrow> entry_in dsec s' x \<in> {entry_in dsec s x, 0})"
    using r(3) by (simp add: disk_device.cut_def [OF assms(1)] entry_in_geo [OF g] e)
  moreover have "ok \<and> (\<forall>x. valid_clust (cur_fs s) x \<longrightarrow>
      entry_in dsec s' x = (if x \<in> set (c # cl) then 0 else entry_in dsec s x))"
    if "io_ok io dinv dcap" "distinct (c # cl)" "\<forall>x \<in> set (c # cl). valid_clust (cur_fs s) x"
      "successively (\<lambda>a b. entry_in dsec s a = b) (c # cl)"
      "\<not> valid_clust (cur_fs s) (entry_in dsec s (last (c # cl)))" "entry_in dsec s (last (c # cl)) \<noteq> 1" for cl
    using disk_device.remove_chain_frees_chain [OF assms that(1)[unfolded io_ok_def] that(2-6)[unfolded e]] r(1)
    by (auto simp: entry_in_geo [OF g] e)
  ultimately show ?thesis using r(1) o by blast
qed

theorem remove_chain_frees_witness:
  "\<exists>s'. remove_chain ram_rw 5 demo_state = Some (True, s') \<and> entry_in (\<lambda>d. d) s' 5 = 0 \<and> entry_in (\<lambda>d. d) s' 6 = 0
     \<and> entry_in (\<lambda>d. d) s' 2 = 3"
proof -
  have chain: "distinct [5, 6 :: WORD]" "\<forall>x \<in> set [5, 6]. valid_clust (cur_fs demo_state) x"
    "successively (\<lambda>a b. entry_in (\<lambda>d. d) demo_state a = b) [5, 6]"
    "\<not> valid_clust (cur_fs demo_state) (entry_in (\<lambda>d. d) demo_state (last [5, 6]))"
    "entry_in (\<lambda>d. d) demo_state (last [5, 6]) \<noteq> 1"
    using demo_valid demo_entries by (simp_all add: valid_clust_def demo_fs_def)
  obtain ok s' where r: "remove_chain ram_rw 5 demo_state = Some (ok, s')"
    "ok \<and> (\<forall>x. valid_clust (cur_fs demo_state) x \<longrightarrow>
      entry_in (\<lambda>d. d) s' x = (if x \<in> set [5, 6] then 0 else entry_in (\<lambda>d. d) demo_state x))"
    using remove_chain_frees [OF ram_rw.disk_device_axioms demo_held(1) demo_table, of 5] ram_rw_ok chain by blast
  then show ?thesis using demo_valid demo_entries by simp
qed

text \<open>C6: \<open>create_chain\<close> terminates and extends a chain by a cluster that was free.  For a cluster \<open>c\<close> that already
  has a successor it returns the successor and changes no entry; for the last cluster of a chain, and for 0
  (a new chain), it either returns a cluster whose entry was 0, which then ends the chain, is linked
  from \<open>c\<close>, and no other entry changes; or 0, and then no cluster of the volume is free; or 1, which
  happens only if the device failed, or an entry of the volume is 1, or \<open>c\<close> is in no chain.\<close>

theorem create_chain_extends:
  assumes "disk_device io dinv dsec dcap" and "held dinv dsec dcap s" and "table_ok dcap io s"
  shows "\<exists>r s'. create_chain io c s = Some (r, s') \<and> only_table dinv dsec dcap s s'
    \<and> (if c \<noteq> 0 \<and> valid_clust (cur_fs s) c \<and> valid_clust (cur_fs s) (entry_in dsec s c)
       then r = entry_in dsec s c \<and> (\<forall>x. valid_clust (cur_fs s) x \<longrightarrow> entry_in dsec s' x = entry_in dsec s x)
          \<or> r = 1 \<and> \<not> io_ok io dinv dcap
       else r = 0 \<and> (\<forall>x. valid_clust (cur_fs s) x \<longrightarrow> entry_in dsec s x \<noteq> 0)
          \<or> r = 1 \<and> (\<not> io_ok io dinv dcap \<or> (\<exists>x. valid_clust (cur_fs s) x \<and> entry_in dsec s x = 1)
               \<or> c \<noteq> 0 \<and> (\<not> valid_clust (cur_fs s) c \<or> entry_in dsec s c = 0))
          \<or> valid_clust (cur_fs s) r \<and> entry_in dsec s r = 0
            \<and> entry_in dsec s' r = mask (fat_width (cur_fs s)) \<and> (c \<noteq> 0 \<longrightarrow> entry_in dsec s' c = r)
            \<and> (\<forall>x. valid_clust (cur_fs s) x \<and> x \<noteq> r \<and> x \<noteq> c \<longrightarrow> entry_in dsec s' x = entry_in dsec s x))"
proof -
  obtain r s' where r: "create_chain io c s = Some (r, s')" "disk_device.intact dinv dsec dcap s s'"
    "c = 0 \<longrightarrow> disk_device.extended io dinv dsec dcap c s r s'"
    "c \<noteq> 0 \<longrightarrow>
        r = 1 \<and> (\<not> io_ok io dinv dcap \<or> \<not> valid_clust (cur_fs s) c \<or> entry_in dsec s c < 2)
        \<or> valid_clust (cur_fs s) c \<and> 2 \<le> entry_in dsec s c
          \<and> (if valid_clust (cur_fs s) (entry_in dsec s c)
             then r = entry_in dsec s c \<and> same_view dsec s s'
             else disk_device.extended io dinv dsec dcap c s r s')"
    using disk_device.create_chain_ends [OF assms, of c] unfolding io_ok_def entry_in_def by blast
  have o: "only_table dinv dsec dcap s s'" using r(2) only_table_intact [OF assms(1)] by blast
  then have g: "same_geo s s'" by (simp add: only_table_def)
  note e = entry_in_geo [OF g]
  have e0: "entry_in dsec s = fat_entry (vol_view dsec s) (cur_fs s)" by (rule ext) (simp add: entry_in_def)
  have vol: "vol_ok dcap (cur_fs s)" using assms(3) by (simp add: table_ok_def)
  have x: "r = 0 \<and> (\<forall>x. valid_clust (cur_fs s) x \<longrightarrow> entry_in dsec s x \<noteq> 0)
      \<or> r = 1 \<and> (\<not> io_ok io dinv dcap \<or> (\<exists>x. valid_clust (cur_fs s) x \<and> entry_in dsec s x = 1))
      \<or> valid_clust (cur_fs s) r \<and> entry_in dsec s r = 0
            \<and> entry_in dsec s' r = mask (fat_width (cur_fs s)) \<and> (c \<noteq> 0 \<longrightarrow> entry_in dsec s' c = r)
            \<and> (\<forall>x. valid_clust (cur_fs s) x \<and> x \<noteq> r \<and> x \<noteq> c \<longrightarrow> entry_in dsec s' x = entry_in dsec s x)"
    if "disk_device.extended io dinv dsec dcap c s r s'"
    using that unfolding disk_device.extended_def [OF assms(1)] disk_device.appended_def [OF assms(1)] io_ok_def
    unfolding e e0 by auto
  have y: "entry_in dsec s' x = entry_in dsec s x" if "same_view dsec s s'" "valid_clust (cur_fs s) x" for x
    using same_view_entry [OF that(1) vol that(2)] by (simp add: e) (simp add: entry_in_def)
  have z: "w < 2 \<Longrightarrow> w = 0 \<or> w = 1" for w :: WORD by (auto simp: word_less_nat_alt word_eq_unat)
  show ?thesis
  proof (cases "c \<noteq> 0 \<and> valid_clust (cur_fs s) c \<and> valid_clust (cur_fs s) (entry_in dsec s c)")
    case True
    then have "\<not> entry_in dsec s c < 2" by (simp add: valid_clust_def not_less)
    then show ?thesis using r(1,4) o y True by auto
  next
    case False
    have "c = 0 \<or> r = 1 \<and> (\<not> io_ok io dinv dcap \<or> \<not> valid_clust (cur_fs s) c \<or> entry_in dsec s c < 2)
        \<or> disk_device.extended io dinv dsec dcap c s r s'" using r(4) False by auto
    then have "r = 0 \<and> (\<forall>x. valid_clust (cur_fs s) x \<longrightarrow> entry_in dsec s x \<noteq> 0)
          \<or> r = 1 \<and> (\<not> io_ok io dinv dcap \<or> (\<exists>x. valid_clust (cur_fs s) x \<and> entry_in dsec s x = 1)
               \<or> c \<noteq> 0 \<and> (\<not> valid_clust (cur_fs s) c \<or> entry_in dsec s c = 0))
          \<or> valid_clust (cur_fs s) r \<and> entry_in dsec s r = 0
            \<and> entry_in dsec s' r = mask (fat_width (cur_fs s)) \<and> (c \<noteq> 0 \<longrightarrow> entry_in dsec s' c = r)
            \<and> (\<forall>x. valid_clust (cur_fs s) x \<and> x \<noteq> r \<and> x \<noteq> c \<longrightarrow> entry_in dsec s' x = entry_in dsec s x)"
      using x r(3) z [of "entry_in dsec s c"] by blast
    then show ?thesis using r(1) o False by auto
  qed
qed

lemma demo_free:
  assumes "8 \<le> unat c" "unat c < 19" shows "fat_entry demo_sec demo_fs c = 0"
proof (rule bit_word_eqI)
  fix i :: nat
  have "fat_byte demo_sec 1 ((12 * unat c + i) div 8) = 0" if "i < 12"
  proof -
    have "12 \<le> (12 * unat c + i) div 8" "(12 * unat c + i) div 8 < 512" using assms that by simp_all
    then show ?thesis by (simp add: fat_byte_def demo_sec.simps demo_fat_def nth_append)
  qed
  then show "bit (fat_entry demo_sec demo_fs c) i \<longleftrightarrow> bit (0 :: WORD) i"
    by (simp add: fat_entry_def demo_valid bit_fat_field fat_bit_def) (simp add: demo_fs_def)
qed

lemma demo_no_one:
  assumes "valid_clust demo_fs c" shows "entry_in (\<lambda>d. d) demo_state c \<noteq> 1"
proof -
  have c: "2 \<le> unat c" "unat c < 19"
    using assms by (simp_all add: valid_clust_def demo_fs_def word_le_nat_alt word_less_nat_alt)
  have "fat_entry demo_sec demo_fs 7 = 0" by code_simp
  moreover have "unat c \<in> {2, 3, 4, 5, 6, 7} \<or> 8 \<le> unat c" using c by auto
  then have "c \<in> {2, 3, 4, 5, 6, 7} \<or> 8 \<le> unat c" by (simp add: word_eq_unat)
  ultimately show ?thesis
    using demo_links demo_entries(5) demo_free [of c] c(2) by (auto simp: entry_in_def demo_held)
qed

theorem create_chain_extends_witness:
  "\<exists>r s'. create_chain ram_rw 3 demo_state = Some (r, s') \<and> valid_clust demo_fs r \<and> entry_in (\<lambda>d. d) demo_state r = 0
     \<and> entry_in (\<lambda>d. d) s' r = 0xFFF \<and> entry_in (\<lambda>d. d) s' 3 = r"
proof -
  have eof: "\<not> valid_clust demo_fs 0xFFF" by (simp add: valid_clust_def demo_fs_def)
  have free: "valid_clust demo_fs 8" "entry_in (\<lambda>d. d) demo_state 8 = 0"
    using demo_free [of 8] by (simp_all add: valid_clust_def demo_fs_def entry_in_def demo_held)
  have m: "mask 12 = (0xFFF :: WORD)" by (simp add: mask_eq_exp_minus_1)
  obtain r s' where "create_chain ram_rw 3 demo_state = Some (r, s')"
    "r = 0 \<and> (\<forall>x. valid_clust demo_fs x \<longrightarrow> entry_in (\<lambda>d. d) demo_state x \<noteq> 0)
      \<or> r = 1 \<and> (\<exists>x. valid_clust demo_fs x \<and> entry_in (\<lambda>d. d) demo_state x = 1)
      \<or> valid_clust demo_fs r \<and> entry_in (\<lambda>d. d) demo_state r = 0
        \<and> entry_in (\<lambda>d. d) s' r = 0xFFF \<and> entry_in (\<lambda>d. d) s' 3 = r"
    using create_chain_extends [OF ram_rw.disk_device_axioms demo_held(1) demo_table, of 3]
    by (simp add: demo_valid demo_entries eof ram_rw_ok m) blast
  then show ?thesis using free demo_no_one by blast
qed

end
