(* ===== verification/Board.thy ===== *)
theory Board
  imports Fddimage
begin

text \<open>
  The board around the firmware: the memory-mapped ports of \<^verbatim>\<open>specialio.h\<close> and the global variables of
  \<^verbatim>\<open>philes.c\<close>, \<^verbatim>\<open>fddimage.c\<close>, \<^verbatim>\<open>slave.c\<close>, \<^verbatim>\<open>osd.c\<close> and \<^verbatim>\<open>menu.c\<close> in one state; then the small output
  modules: the timer delays (\<^verbatim>\<open>timer.c\<close>), the serial port (\<^verbatim>\<open>serial.c\<close>) and the on-screen display
  (\<^verbatim>\<open>osd.c\<close>).
\<close>

section \<open>Ports and hardware\<close>

datatype inport = JOYSTICK | MASTER_COMMAND | MASTER_TRACK | MASTER_SECTOR

datatype outport = SLAVE_STATUS | GREEN_LEDS | OSD_CMD | SERIAL_TxD

text \<open>
  What the firmware sees of the hardware and of the disk driver: \<open>fio\<close> and \<open>disk_poll_op\<close> are the
  functions of \<^verbatim>\<open>diskio.h\<close>, \<open>rd_port\<close> reads an input port, \<open>uart_wait\<close> is the state once a poll of
  \<open>SERIAL_CTL\<close> first finds the transmitter free, \<open>timer2_wait n\<close> the state once \<open>TIMER_2\<close>, set to \<open>n\<close>,
  has counted down to 0.  \<open>null_str\<close> is the string of the bytes at address 0, which the menu prints
  where an item is a null pointer.
\<close>

record 'd board =
  fio :: "'d diskio"
  disk_poll_op :: "BYTE \<Rightarrow> 'd \<Rightarrow> BYTE \<times> 'd"
  rd_port :: "inport \<Rightarrow> 'd \<Rightarrow> BYTE \<times> 'd"
  uart_wait :: "'d \<Rightarrow> 'd"
  timer2_wait :: "BYTE \<Rightarrow> 'd \<Rightarrow> 'd"
  null_str :: "BYTE list"

section \<open>The firmware's globals\<close>

record 'd world =
  tffs :: "'d tff"
  g_finfo :: FILINFO
  g_dir :: DIR
  ptrfile :: "BYTE list"
  fdderror :: BYTE
  fddimage :: FDDImage
  file1 :: FIL
  fdd_buffer :: "BYTE list"
  leds :: BYTE
  blink_delay :: BYTE
  osd_x :: BYTE
  osd_y :: BYTE
  osd_inverse :: BYTE
  dmem :: "BYTE list"
  fsel_pagestart :: BYTE
  fsel_redraw :: BYTE
  fsel_hasnextpage :: BYTE
  joy_status :: BYTE
  menu_state :: BYTE
  menu_x :: BYTE
  menu_y :: BYTE
  menu_selected :: BYTE
  osdcmd :: BYTE
  inactivity :: WORD
  dude_seqno :: BYTE
  outputs :: "(outport \<times> BYTE) list"

definition out_port :: "outport \<Rightarrow> BYTE \<Rightarrow> 'd world \<Rightarrow> 'd world" where
  "out_port p v w = w\<lparr>outputs := outputs w @ [(p, v)]\<rparr>"

definition upd_disk :: "('d \<Rightarrow> 'd) \<Rightarrow> 'd world \<Rightarrow> 'd world" where
  "upd_disk f w = w\<lparr>tffs := (tffs w)\<lparr>disk := f (disk (tffs w))\<rparr>\<rparr>"

definition in_port :: "'d board \<Rightarrow> inport \<Rightarrow> 'd world \<Rightarrow> BYTE \<times> 'd world" where
  "in_port b p w =
     (case rd_port b p (disk (tffs w)) of (v, d) \<Rightarrow> (v, upd_disk (\<lambda>_. d) w))"

text \<open>The values a given output port has been set to, in order.\<close>

definition written :: "outport \<Rightarrow> 'd world \<Rightarrow> BYTE list" where
  "written p w = map snd (filter (\<lambda>e. fst e = p) (outputs w))"

text \<open>String literals of the source as bytes; \<open>cstr\<close> is the string at the start of a character array.\<close>

definition bytes :: "string \<Rightarrow> BYTE list" where
  "bytes cs = map of_char cs"

definition cstr :: "BYTE list \<Rightarrow> BYTE list" where
  "cstr bs = takeWhile (\<lambda>c. c \<noteq> 0) bs"

section \<open>Delays\<close>

definition delay2 :: "'d board \<Rightarrow> BYTE \<Rightarrow> 'd world \<Rightarrow> 'd world" where
  "delay2 b ms10 w = upd_disk (timer2_wait b ms10) w"

section \<open>Serial port\<close>

definition ser_putc :: "'d board \<Rightarrow> BYTE \<Rightarrow> 'd world \<Rightarrow> 'd world" where
  "ser_putc b c w = out_port SERIAL_TxD c (upd_disk (uart_wait b) w)"

fun ser_puts :: "'d board \<Rightarrow> BYTE list \<Rightarrow> 'd world \<Rightarrow> 'd world" where
  "ser_puts b [] w = w"
| "ser_puts b (c # s) w = (if c = 0 then w else ser_puts b s (ser_putc b c w))"

definition ser_nl :: "'d board \<Rightarrow> 'd world \<Rightarrow> 'd world" where
  "ser_nl b w = ser_putc b 0x0A (ser_putc b 0x0D w)"

definition nybble_alpha :: "BYTE \<Rightarrow> BYTE" where
  "nybble_alpha nybble = nybble + (if nybble < 0x0A then 0x30 else 0x61 - 0x0A)"

definition print_hex :: "'d board \<Rightarrow> BYTE \<Rightarrow> 'd world \<Rightarrow> 'd world" where
  "print_hex b v w =
     ser_putc b (nybble_alpha (v AND 0x0F)) (ser_putc b (nybble_alpha (drop_bit 4 (v AND 0xF0))) w)"

text \<open>\<open>print_buff\<close>: 64 lines of 16 bytes, in hexadecimal and as characters.\<close>

definition print_line :: "'d board \<Rightarrow> BYTE list \<Rightarrow> nat \<Rightarrow> 'd world \<Rightarrow> 'd world" where
  "print_line b buf ofs w =
     (let w = ser_nl b w;
          w = fold (\<lambda>add w. ser_putc b (if add = 8 then 0x2D else 0x20) (print_hex b (buf ! (ofs + add)) w))
                [0 ..< 16] w
      in fold (\<lambda>add w. let c = buf ! (ofs + add) in
                  ser_putc b (if c > 31 \<and> c < 128 then c else 0x2E) w) [0 ..< 16] w)"

definition print_buff :: "'d board \<Rightarrow> BYTE list \<Rightarrow> 'd world \<Rightarrow> 'd world" where
  "print_buff b buf w =
     ser_nl b (fold (\<lambda>i. print_line b buf (16 * i)) [0 ..< unat FDD_SECTOR_SIZE div 16] w)"

section \<open>On-screen display\<close>

text \<open>
  The display memory is 256 bytes; a write past it hits no device.  \<open>poke\<close> stores bytes one after the
  other; \<open>dmem_get\<close> reads one, 0xFF (an undecoded address) past the end.
\<close>

definition DISPLAY_RAMSIZE :: nat where "DISPLAY_RAMSIZE = 256"

fun poke :: "nat \<Rightarrow> BYTE list \<Rightarrow> BYTE list \<Rightarrow> BYTE list" where
  "poke i [] mem = mem"
| "poke i (v # vs) mem = poke (i + 1) vs (mem[i := v])"

definition dmem_get :: "BYTE list \<Rightarrow> nat \<Rightarrow> BYTE" where
  "dmem_get mem i = (if i < length mem then mem ! i else 0xFF)"

definition osd_gotoxy :: "BYTE \<Rightarrow> BYTE \<Rightarrow> 'd world \<Rightarrow> 'd world" where
  "osd_gotoxy x y w = w\<lparr>osd_x := x, osd_y := y\<rparr>"

definition osd_inv :: "BYTE \<Rightarrow> 'd world \<Rightarrow> 'd world" where
  "osd_inv i w = w\<lparr>osd_inverse := i\<rparr>"

definition osd_puts :: "BYTE list \<Rightarrow> 'd world \<Rightarrow> 'd world" where
  "osd_puts s w =
     (let ofs = push_bit 5 (osd_y w) + osd_x w;
          cs = (if osd_inverse w \<noteq> 0 then map (\<lambda>c. 0x80 OR c) (cstr s) else cstr s)
      in w\<lparr>dmem := poke (unat ofs) cs (dmem w)\<rparr>)"

definition cnotice1 :: "BYTE list" where
  "cnotice1 = bytes ''    VECTOR-06C FPGA REPLICA     ''"

definition cnotice2 :: "BYTE list" where
  "cnotice2 = bytes ''  (C)2008 VIACHESLAV SLAVINSKY  ''"

definition osd_cls :: "BYTE \<Rightarrow> 'd world \<Rightarrow> 'd world" where
  "osd_cls hdr w =
     (let w = w\<lparr>osd_x := 0, osd_y := 0, osd_inverse := 0, dmem := replicate DISPLAY_RAMSIZE 32\<rparr>
      in if hdr \<noteq> 0 then osd_inv 0 (osd_puts cnotice1 (osd_inv 1 w)) else w)"

end
