(* ===== verification/Philes.thy ===== *)
theory Philes
  imports Board
begin

text \<open>
  The top-level file interface of the firmware (\<^verbatim>\<open>philes.c\<close>): mounting the card, opening the directory
  of images and enumerating the images in it.  A destination of \<open>philes_nextfile\<close> is a null pointer, a
  place in \<open>ptrfile\<close> or a place in the display memory.
\<close>

datatype dest = DNull | DPtrfile nat | DDisplay nat

text \<open>The address the linker gives \<open>fatfs\<close>; only that it is not null matters.\<close>

definition fatfs_addr :: fsptr where "fatfs_addr = 0x5000"

definition ptrfile_init :: "BYTE list" where
  "ptrfile_init = bytes ''/VECTOR06/xxxxxxxx.xxx'' @ [0, 0, 0, 0]"

definition endsWith :: "BYTE list \<Rightarrow> BYTE list \<Rightarrow> bool" where
  "endsWith s1 suffix =
     (let s1len = length (cstr s1); sulen = length (cstr suffix) in
      if sulen > s1len then False else drop (s1len - sulen) (cstr s1) = cstr suffix)"

definition set_tff :: "'d tff \<Rightarrow> 'd world \<Rightarrow> 'd world" where
  "set_tff s w = w\<lparr>tffs := s\<rparr>"

definition philes_mount :: "'d board \<Rightarrow> 'd world \<Rightarrow> FRESULT \<times> 'd world" where
  "philes_mount b w =
     (case dio_initialize (fio b) 0 (disk (tffs w)) of (_, d) \<Rightarrow>
        case f_mount 0 fatfs_addr ((tffs w)\<lparr>disk := d\<rparr>) of (r, s) \<Rightarrow> (r, set_tff s w))"

text \<open>
  The slash after the directory name is replaced by a terminator for the call and restored after it.
\<close>

definition philes_opendir :: "'d board \<Rightarrow> 'd world \<Rightarrow> (FRESULT \<times> 'd world) option" where
  "philes_opendir b w =
     (let path = (ptrfile w)[9 := 0] in do {
        (result, dj, s) \<leftarrow> f_opendir (fio b) (replicate 12 0) (g_dir w) (cstr path) (tffs w);
        Some (result, (set_tff s w)\<lparr>g_dir := dj, ptrfile := path[9 := 0x2F]\<rparr>) })"

text \<open>
  \<open>strncpy(filename, fname, 12)\<close> pads with zeros; \<open>strxcpy\<close> stops at the terminator and copies at most
  12 characters.
\<close>

definition strncpy12 :: "BYTE list \<Rightarrow> BYTE list" where
  "strncpy12 src = take 12 (cstr src @ replicate 12 0)"

fun strxcpy :: "nat \<Rightarrow> BYTE list \<Rightarrow> BYTE list" where
  "strxcpy i [] = []"
| "strxcpy i (c # src) = (if c = 0 \<or> i = 0 then [] else c # strxcpy (i - 1) src)"

definition put_name :: "dest \<Rightarrow> BYTE list \<Rightarrow> 'd world \<Rightarrow> 'd world" where
  "put_name dst bs w =
     (case dst of
        DNull \<Rightarrow> w
      | DPtrfile p \<Rightarrow> w\<lparr>ptrfile := poke p bs (ptrfile w)\<rparr>
      | DDisplay p \<Rightarrow> w\<lparr>dmem := poke p bs (dmem w)\<rparr>)"

definition dot_FDD :: "BYTE list" where "dot_FDD = bytes ''.FDD''"

partial_function (option) philes_nextfile ::
  "'d board \<Rightarrow> dest \<Rightarrow> bool \<Rightarrow> 'd world \<Rightarrow> (FRESULT \<times> 'd world) option" where
  "philes_nextfile b filename terminate w =
     Option.bind (f_readdir (fio b) (g_dir w) (g_finfo w) (tffs w))
       (\<lambda>(res, dj, finfo, s).
          let w = (set_tff s w)\<lparr>g_dir := dj, g_finfo := finfo\<rparr> in
          if res = FR_OK \<and> fi_fname finfo ! 0 \<noteq> 0 then
            if \<not> has (fi_fattrib finfo) AM_DIR \<and> endsWith (fi_fname finfo) dot_FDD then
              Some (FR_OK,
                put_name filename
                  (if terminate then strncpy12 (fi_fname finfo) else strxcpy 12 (fi_fname finfo)) w)
            else philes_nextfile b filename terminate w
          else Some (FR_NO_FILE, w))"

end
