(* ===== verification/Menu.thy ===== *)
theory Menu
  imports Philes
begin

text \<open>
  The on-screen menu (\<^verbatim>\<open>menu.c\<close>): a state machine over the joystick, the file selector, and the about
  screen.  The display functions work on the display memory of the world.
\<close>

section \<open>Constants\<close>

definition JOY_LT :: BYTE where "JOY_LT = 0x10"
definition JOY_RT :: BYTE where "JOY_RT = 0x08"
definition JOY_UP :: BYTE where "JOY_UP = 0x04"
definition JOY_DN :: BYTE where "JOY_DN = 0x02"
definition JOY_FIRE :: BYTE where "JOY_FIRE = 0x01"

definition STATE_MENU :: BYTE where "STATE_MENU = 0"
definition STATE_FSEL :: BYTE where "STATE_FSEL = 1"
definition STATE_ABOOT :: BYTE where "STATE_ABOOT = 2"
definition STATE_WAITBREAK :: BYTE where "STATE_WAITBREAK = 10"
definition STATE_WAITBREAK2 :: BYTE where "STATE_WAITBREAK2 = 11"
definition STATE_ABOOT2 :: BYTE where "STATE_ABOOT2 = 12"

definition MENURESULT_NOTHING :: BYTE where "MENURESULT_NOTHING = 0"
definition MENURESULT_DISK :: BYTE where "MENURESULT_DISK = 1"

definition SEL_HOLD :: BYTE where "SEL_HOLD = 1"
definition SEL_RESET :: BYTE where "SEL_RESET = 3"
definition SEL_DISK :: BYTE where "SEL_DISK = 4"
definition SEL_RESTART :: BYTE where "SEL_RESTART = 5"
definition SEL_ABOUT :: BYTE where "SEL_ABOUT = 7"

definition FSEL_PAGESIZE :: BYTE where "FSEL_PAGESIZE = 12"
definition FSEL_NLINES :: BYTE where "FSEL_NLINES = 6"
definition INACTIVITY :: WORD where "INACTIVITY = 8192"

lemmas menu_consts = JOY_LT_def JOY_RT_def JOY_UP_def JOY_DN_def JOY_FIRE_def
  STATE_MENU_def STATE_FSEL_def STATE_ABOOT_def STATE_WAITBREAK_def STATE_WAITBREAK2_def
  STATE_ABOOT2_def MENURESULT_NOTHING_def MENURESULT_DISK_def
  SEL_HOLD_def SEL_RESET_def SEL_DISK_def SEL_RESTART_def SEL_ABOUT_def
  FSEL_PAGESIZE_def FSEL_NLINES_def INACTIVITY_def

definition TXT_MENU_HALP :: "BYTE list" where
  "TXT_MENU_HALP = bytes ''  Select with Arrows and Enter  ''"
definition TXT_MENU_ABOOTHALP :: "BYTE list" where
  "TXT_MENU_ABOOTHALP = bytes ''         Press something        ''"
definition TXT_MENU_BUSY :: "BYTE list" where
  "TXT_MENU_BUSY = bytes ''             [BUSY]             ''"
definition TXT_MENU_INSERT :: "BYTE list" where
  "TXT_MENU_INSERT = bytes ''          INSERT CARD           ''"

definition menu_item :: "BYTE list option list" where
  "menu_item =
     [None, Some (bytes '' HOLD ''), None,
      Some (bytes '' RESET ''), Some (bytes '' DISK ''), Some (bytes '' RESTART ''),
      None, Some (bytes '' ABOUT ''), None]"

section \<open>Drawing\<close>

datatype align = ALIGN_RIGHT | ALIGN_MIDDLE | ALIGN_LEFT

definition draw_item :: "BYTE list \<Rightarrow> BYTE \<Rightarrow> BYTE \<Rightarrow> align \<Rightarrow> 'd world \<Rightarrow> 'd world" where
  "draw_item s x y al w =
     (let len = length (cstr s);
          x = (case al of
                 ALIGN_MIDDLE \<Rightarrow> x - of_nat (len div 2)
               | ALIGN_LEFT \<Rightarrow> x
               | ALIGN_RIGHT \<Rightarrow> x - of_nat len)
      in osd_puts s (osd_gotoxy x y w))"

text \<open>A null item is the string at address 0.\<close>

definition draw_cell :: "'d board \<Rightarrow> nat \<Rightarrow> 'd world \<Rightarrow> 'd world" where
  "draw_cell b item w =
     (let m_y = item div 3; m_x = item mod 3;
          sel = (of_nat m_y = menu_y w \<and> of_nat m_x = menu_x w);
          s = (case menu_item ! item of Some s \<Rightarrow> s | None \<Rightarrow> null_str b)
      in draw_item s (of_nat (5 + m_x * 10)) (of_nat (m_y + 2)) ALIGN_MIDDLE
           (osd_inv (if sel then 1 else 0) w))"

definition draw_menu :: "'d board \<Rightarrow> 'd world \<Rightarrow> 'd world" where
  "draw_menu b w =
     (let w = fold (draw_cell b) [0 ..< 9] w;
          w = osd_inv 0 w;
          w = draw_item (ptrfile w) 16 6 ALIGN_MIDDLE w
      in osd_puts TXT_MENU_HALP (osd_gotoxy 0 7 (osd_inv 0 w)))"

section \<open>Initialisation\<close>

definition menu_init :: "'d world \<Rightarrow> 'd world" where
  "menu_init w =
     (let w = (if menu_state w \<noteq> STATE_MENU
               then osd_cls 1 (w\<lparr>menu_state := STATE_MENU, joy_status := 0xFF\<rparr>) else w);
          w = w\<lparr>menu_x := 1, menu_y := 1, menu_selected := 0xFF, osdcmd := osdcmd w AND 1\<rparr>
      in out_port OSD_CMD (osdcmd w) w)"

definition fsel_init :: "'d world \<Rightarrow> 'd world" where
  "fsel_init w =
     (let w = osd_cls 1 (w\<lparr>fsel_pagestart := 0, fsel_redraw := 1, joy_status := 0xFF\<rparr>)
      in w\<lparr>menu_x := 0, menu_y := 0, menu_selected := 0\<rparr>)"

text \<open>\<open>menu_busy\<close> is called with 0, 1 and 2 only; any other status leaves \<open>text\<close> unset in the source.\<close>

definition menu_busy :: "BYTE \<Rightarrow> 'd world \<Rightarrow> 'd world" where
  "menu_busy status w =
     (if status = 0 then
        osd_puts (if menu_state w = STATE_ABOOT2 then TXT_MENU_ABOOTHALP else TXT_MENU_HALP)
          (osd_gotoxy 0 7 w)
      else if status = 1 then osd_puts TXT_MENU_BUSY (osd_gotoxy 0 7 w)
      else osd_puts TXT_MENU_INSERT (osd_gotoxy 0 7 (menu_init w)))"

section \<open>The about screen\<close>

definition aboot3 :: "BYTE list" where "aboot3 = bytes ''vector06cc.googlecode.com''"
definition aboot4 :: "BYTE list" where "aboot4 = bytes ''sensi.org/~svo/vector06c''"
definition aboot6 :: "BYTE list" where "aboot6 = bytes ''Thank you for using VECTOR-06CC!''"

definition dude :: "BYTE list list" where
  "dude = [[0x5C, 0x6F, 0x2F], bytes '' | '', [0x2F, 0x20, 0x5C],
           bytes ''_o_'', bytes '' | '', [0x2F, 0x20, 0x5C],
           [0x5C, 0x6F, 0x5F], bytes '' |_'', bytes ''/  '',
           bytes ''_o/'', bytes ''_| '', [0x20, 0x20, 0x5C]]"

definition waverseq :: "BYTE list" where
  "waverseq = [0,0,1,1,0,0,1,1,2,3,2,3,2,3,2,3]"

definition aboot_show :: "'d world \<Rightarrow> 'd world" where
  "aboot_show w =
     (let w = osd_cls 1 w;
          w = osd_puts cnotice2 (osd_gotoxy 0 1 w);
          w = osd_puts [] (osd_gotoxy 0 2 w);
          w = osd_puts aboot3 (osd_gotoxy 0 3 w);
          w = osd_puts aboot4 (osd_gotoxy 0 4 w);
          w = osd_puts [] (osd_gotoxy 0 5 w);
          w = osd_puts aboot6 (osd_gotoxy 0 6 w)
      in w\<lparr>dude_seqno := 0\<rparr>)"

definition aboot_anim :: "'d world \<Rightarrow> 'd world" where
  "aboot_anim w =
     (let w = fold (\<lambda>i w. osd_puts (dude ! (unat (waverseq ! unat (dude_seqno w)) * 3 + i))
                            (osd_gotoxy 28 (of_nat (i + 3)) w)) [0 ..< 3] w
      in w\<lparr>dude_seqno := (dude_seqno w + 1) mod 16\<rparr>)"

section \<open>The file selector\<close>

definition fsel_index2offs :: "BYTE \<Rightarrow> BYTE" where
  "fsel_index2offs idx = 33 + (idx div 2) * 32 + (idx mod 2) * 16"

text \<open>Skip the files before the page, until one is missing; then the page starts over.\<close>

fun fsel_skip :: "'d board \<Rightarrow> nat \<Rightarrow> 'd world \<Rightarrow> 'd world option" where
  "fsel_skip b 0 w = Some w"
| "fsel_skip b (Suc n) w = do {
     (res, w) \<leftarrow> philes_nextfile b DNull False w;
     if res \<noteq> FR_OK then Some (w\<lparr>fsel_pagestart := 0\<rparr>) else fsel_skip b n w }"

fun fsel_show :: "'d board \<Rightarrow> nat list \<Rightarrow> 'd world \<Rightarrow> 'd world option" where
  "fsel_show b [] w = Some w"
| "fsel_show b (i # is) w =
     (let uptr = unat (fsel_index2offs (of_nat i));
          w = w\<lparr>dmem := poke uptr (replicate 12 32) (dmem w)\<rparr>
      in do {
        (res, w) \<leftarrow> philes_nextfile b (DDisplay uptr) False w;
        fsel_show b is (if res \<noteq> FR_OK then w\<lparr>fsel_hasnextpage := 0\<rparr> else w) })"

definition draw_fsel :: "'d board \<Rightarrow> 'd world \<Rightarrow> 'd world option" where
  "draw_fsel b w =
     (let w = ser_puts b (bytes ''opendir'') (w\<lparr>fsel_hasnextpage := 1\<rparr>) in do {
        (res, w) \<leftarrow> philes_opendir b w;
        if res \<noteq> FR_OK then Some w
        else do {
          w \<leftarrow> fsel_skip b (unat (fsel_pagestart w)) (ser_nl b (ser_puts b (bytes '' ok'') w));
          fsel_show b [0 ..< unat FSEL_PAGESIZE] w } })"

definition fsel_showselection :: "bool \<Rightarrow> 'd world \<Rightarrow> 'd world" where
  "fsel_showselection on w =
     (let p = unat (fsel_index2offs (menu_selected w));
          vs = map (\<lambda>i. if on then dmem_get (dmem w) (p + i) OR 0x80
                         else dmem_get (dmem w) (p + i) AND 0x7F) [0 ..< 12]
      in w\<lparr>dmem := poke p vs (dmem w)\<rparr>)"

text \<open>The selected name: up to 12 characters before a space, with a terminator.\<close>

fun selected_chars :: "nat \<Rightarrow> nat \<Rightarrow> BYTE list \<Rightarrow> BYTE list" where
  "selected_chars 0 p mem = []"
| "selected_chars (Suc i) p mem =
     (let u = dmem_get mem p AND 0x7F in
      if u = 32 then [] else u # selected_chars i (p + 1) mem)"

definition fsel_getselected :: "nat \<Rightarrow> 'd world \<Rightarrow> 'd world" where
  "fsel_getselected file w =
     (let p = unat (fsel_index2offs (menu_selected w)) in
      w\<lparr>ptrfile := poke file (selected_chars 12 p (dmem w) @ [0]) (ptrfile w)\<rparr>)"

section \<open>The state machine\<close>

definition pulse :: "BYTE \<Rightarrow> 'd world \<Rightarrow> 'd world" where
  "pulse cmd w =
     (let w = w\<lparr>osdcmd := osdcmd w OR cmd\<rparr>; w = out_port OSD_CMD (osdcmd w) w;
          w = w\<lparr>osdcmd := osdcmd w AND NOT cmd\<rparr>
      in out_port OSD_CMD (osdcmd w) w)"

definition switch_state :: "'d world \<Rightarrow> 'd world" where
  "switch_state w =
     (if menu_state w \<noteq> STATE_WAITBREAK then w
      else if menu_selected w = SEL_HOLD then
        (let w = w\<lparr>osdcmd := osdcmd w XOR 1\<rparr> in
         (out_port OSD_CMD (osdcmd w) w)\<lparr>menu_state := STATE_MENU\<rparr>)
      else if menu_selected w = SEL_RESET then (pulse 4 w)\<lparr>menu_state := STATE_MENU\<rparr>
      else if menu_selected w = SEL_RESTART then (pulse 2 w)\<lparr>menu_state := STATE_MENU\<rparr>
      else if menu_selected w = SEL_ABOUT then aboot_show (w\<lparr>menu_state := STATE_ABOOT\<rparr>)
      else if menu_selected w = SEL_DISK then (fsel_init w)\<lparr>menu_state := STATE_FSEL\<rparr>
      else w\<lparr>menu_state := STATE_MENU\<rparr>)"

text \<open>The main menu: the joystick selects a cell, fire records it.\<close>

definition menu_navigate :: "'d board \<Rightarrow> 'd world \<Rightarrow> 'd world" where
  "menu_navigate b w =
     (let j = joy_status w;
          w = w\<lparr>menu_y := (if has j JOY_UP then 0 else if has j JOY_DN then 2 else 1)\<rparr>;
          w = w\<lparr>menu_x := (if has j JOY_LT then 0 else if has j JOY_RT then 2 else 1)\<rparr>;
          w = draw_menu b w
      in if has j JOY_FIRE
         then w\<lparr>menu_state := STATE_WAITBREAK, menu_selected := menu_x w + menu_y w * 3\<rparr> else w)"

text \<open>
  The file selector: lines wrap to the neighbouring page, columns are computed with the C remainder of
  a signed \<open>int\<close> by 2, stored in a byte.
\<close>

definition c_rem2 :: "int \<Rightarrow> int" where
  "c_rem2 a = (if a < 0 then - (- a mod 2) else a mod 2)"

definition fsel_lines :: "'d world \<Rightarrow> 'd world" where
  "fsel_lines w =
     (let w = (if has (joy_status w) JOY_UP then
                 (if menu_y w > 0 then w\<lparr>menu_y := menu_y w - 1\<rparr>
                  else if fsel_pagestart w \<noteq> 0 then
                    w\<lparr>fsel_pagestart := fsel_pagestart w - (FSEL_PAGESIZE - 1),
                      menu_y := FSEL_NLINES - 1, fsel_redraw := 1\<rparr>
                  else w)
               else w)
      in if has (joy_status w) JOY_DN then
           (if menu_y w < FSEL_NLINES - 1 then w\<lparr>menu_y := menu_y w + 1\<rparr>
            else if fsel_hasnextpage w \<noteq> 0 then
              w\<lparr>menu_y := 0, fsel_pagestart := fsel_pagestart w + (FSEL_PAGESIZE - 1),
                fsel_redraw := 1\<rparr>
            else w)
         else w)"

definition fsel_columns :: "'d world \<Rightarrow> 'd world" where
  "fsel_columns w =
     (let w = (if has (joy_status w) JOY_LT
               then w\<lparr>menu_x := word_of_int (c_rem2 (uint (menu_x w) - 1))\<rparr> else w)
      in if has (joy_status w) JOY_RT
         then w\<lparr>menu_x := word_of_int (c_rem2 (uint (menu_x w) + 1))\<rparr> else w)"

definition fsel_navigate :: "'d board \<Rightarrow> 'd world \<Rightarrow> 'd world option" where
  "fsel_navigate b w =
     (let w = fsel_columns (fsel_lines w) in do {
        w \<leftarrow> (if fsel_redraw w \<noteq> 0 then draw_fsel b (w\<lparr>fsel_redraw := 0\<rparr>) else Some w);
        let w = fsel_showselection False w;
            w = w\<lparr>menu_selected := menu_y w * 2 + menu_x w\<rparr>;
            w = fsel_showselection True w
        in Some (if has (joy_status w) JOY_FIRE then w\<lparr>menu_state := STATE_WAITBREAK2\<rparr> else w) })"

definition menu_event :: "'d board \<Rightarrow> 'd world \<Rightarrow> (BYTE \<times> 'd world) option" where
  "menu_event b w =
     (let st = menu_state w; fire = has (joy_status w) JOY_FIRE in
      if st = STATE_ABOOT then
        Some (MENURESULT_NOTHING, if joy_status w = 0 then w\<lparr>menu_state := STATE_ABOOT2\<rparr> else w)
      else if st = STATE_MENU then Some (MENURESULT_NOTHING, menu_navigate b w)
      else if st = STATE_WAITBREAK then
        Some (MENURESULT_NOTHING, if \<not> fire then switch_state w else w)
      else if st = STATE_WAITBREAK2 then
        Some (if \<not> fire then
                let w = fsel_getselected 10 w;
                    w = ser_nl b (ser_puts b (ptrfile w) (ser_puts b (bytes ''Selected image: '') w))
                in (MENURESULT_DISK, menu_init w)
              else (MENURESULT_NOTHING, w))
      else if st = STATE_ABOOT2 then
        Some (MENURESULT_NOTHING, if \<not> fire then menu_init w else w)
      else if st = STATE_FSEL then do {
        w \<leftarrow> fsel_navigate b w; Some (MENURESULT_NOTHING, w) }
      else Some (MENURESULT_NOTHING, w))"

definition menu_dispatch :: "'d board \<Rightarrow> bool \<Rightarrow> 'd world \<Rightarrow> (BYTE \<times> 'd world) option" where
  "menu_dispatch b tick w =
     (let w = (if tick \<and> menu_state w = STATE_ABOOT2 then aboot_anim w else w);
          w = (if inactivity w \<noteq> 0 then w\<lparr>inactivity := inactivity w - 1\<rparr> else w);
          w = (if inactivity w = 0 \<and> menu_state w = STATE_FSEL then menu_init w else w)
      in case in_port b JOYSTICK w of (j, w) \<Rightarrow>
        if j \<noteq> joy_status w then
          (case in_port b JOYSTICK w of (j, w) \<Rightarrow>
             menu_event b (w\<lparr>joy_status := j, inactivity := INACTIVITY\<rparr>))
        else Some (MENURESULT_NOTHING, w))"

end
