(* ===== verification/MenuProps.thy ===== *)
theory MenuProps
  imports Menu
begin

text \<open>
  The menu: what its operations leave alone, the layout of the file selector, and the invariant of the
  state machine with its command port.
\<close>

section \<open>Memory\<close>

lemma length_poke [simp]: "length (poke i vs mem) = length mem"
  by (induction i vs mem rule: poke.induct) simp_all

lemma poke_nth:
  "i + length vs \<le> length mem \<Longrightarrow> poke i vs mem ! j = (if i \<le> j \<and> j < i + length vs then vs ! (j - i) else mem ! j)"
  by (induction i vs mem rule: poke.induct) (auto simp: nth_Cons' nth_list_update)

lemma fold_frame:
  assumes "\<And>i w. f (g i w) = f w"
  shows "f (fold g is w) = f w"
  by (induction "is" arbitrary: w) (simp_all add: assms)

section \<open>What the display and file operations leave alone\<close>

text \<open>
  \<open>screen_frame\<close>: the state machine of the menu, the command port and the port history are as before, and
  the display memory has kept its size.
\<close>

definition screen_frame :: "'d world \<Rightarrow> 'd world \<Rightarrow> bool" where
  "screen_frame w w' \<longleftrightarrow>
     menu_state w' = menu_state w \<and> menu_x w' = menu_x w \<and> menu_y w' = menu_y w
     \<and> menu_selected w' = menu_selected w \<and> osdcmd w' = osdcmd w \<and> joy_status w' = joy_status w
     \<and> length (dmem w') = length (dmem w)
     \<and> (\<forall>p. p \<noteq> SERIAL_TxD \<longrightarrow> written p w' = written p w)"

lemma screen_refl [simp]: "screen_frame w w"
  by (simp add: screen_frame_def)

lemma screen_trans [trans]: "screen_frame w1 w2 \<Longrightarrow> screen_frame w2 w3 \<Longrightarrow> screen_frame w1 w3"
  by (simp add: screen_frame_def)

named_theorems screen_intros

lemma screen_osd [screen_intros]:
  "screen_frame w0 w \<Longrightarrow> screen_frame w0 (osd_puts s w)"
  "screen_frame w0 w \<Longrightarrow> screen_frame w0 (osd_gotoxy x y w)"
  "screen_frame w0 w \<Longrightarrow> screen_frame w0 (osd_inv i w)"
  by (simp_all add: screen_frame_def osd_puts_def osd_gotoxy_def osd_inv_def Let_def written_def)

lemma screen_in [screen_intros]: "screen_frame w0 w \<Longrightarrow> screen_frame w0 (upd_disk f w)"
  by (simp add: screen_frame_def upd_disk_def written_def)

lemma screen_putc [screen_intros]: "screen_frame w0 w \<Longrightarrow> screen_frame w0 (ser_putc b c w)"
  by (simp add: screen_frame_def ser_putc_def upd_disk_def out_port_def written_def)

lemma screen_puts [screen_intros]: "screen_frame w0 w \<Longrightarrow> screen_frame w0 (ser_puts b s w)"
  by (induction s arbitrary: w) (auto intro: screen_putc)

lemma screen_nl [screen_intros]: "screen_frame w0 w \<Longrightarrow> screen_frame w0 (ser_nl b w)"
  unfolding ser_nl_def by (intro screen_putc)

lemma screen_item [screen_intros]: "screen_frame w0 w \<Longrightarrow> screen_frame w0 (draw_item s x y al w)"
  unfolding draw_item_def Let_def by (intro screen_intros)

lemma screen_fold [screen_intros]:
  "(\<And>i w. screen_frame w0 w \<Longrightarrow> screen_frame w0 (f i w)) \<Longrightarrow> screen_frame w0 w \<Longrightarrow> screen_frame w0 (fold f is w)"
  by (induction "is" arbitrary: w) simp_all

lemma screen_menu [screen_intros]: "screen_frame w0 w \<Longrightarrow> screen_frame w0 (draw_menu b w)"
  unfolding draw_menu_def draw_cell_def Let_def by (intro screen_intros)

lemma screen_selection [screen_intros]: "screen_frame w0 w \<Longrightarrow> screen_frame w0 (fsel_showselection on w)"
  by (simp add: fsel_showselection_def screen_frame_def Let_def written_def)

lemma screen_name [screen_intros]: "screen_frame w0 w \<Longrightarrow> screen_frame w0 (put_name dst bs w)"
  by (cases dst) (simp_all add: put_name_def screen_frame_def written_def)

lemma screen_files [screen_intros]:
  "screen_frame w0 w \<Longrightarrow> screen_frame w0 ((set_tff s w)\<lparr>g_dir := dj, g_finfo := fi\<rparr>)"
  "screen_frame w0 w \<Longrightarrow> screen_frame w0 ((set_tff s w)\<lparr>g_dir := dj, ptrfile := path\<rparr>)"
  "screen_frame w0 w \<Longrightarrow> screen_frame w0 (w\<lparr>fsel_hasnextpage := v\<rparr>)"
  "screen_frame w0 w \<Longrightarrow> screen_frame w0 (w\<lparr>fsel_pagestart := v\<rparr>)"
  "screen_frame w0 w \<Longrightarrow> screen_frame w0 (w\<lparr>fsel_redraw := v\<rparr>)"
  "screen_frame w0 w \<Longrightarrow> screen_frame w0 (w\<lparr>dmem := poke i vs (dmem w)\<rparr>)"
  by (simp_all add: set_tff_def screen_frame_def written_def)

lemma nextfile_frame:
  assumes "philes_nextfile b dst t w = Some y"
  shows "screen_frame w (snd y)"
proof (rule philes_nextfile.raw_induct [where P = "\<lambda>b dst t w y. screen_frame w (snd y)", OF _ assms])
  fix rec and b :: "'a board" and dst t w y
  assume ih: "\<And>b dst t w y. rec b dst t w = Some y \<Longrightarrow> screen_frame w (snd y)"
    and body: "Option.bind (f_readdir (fio b) (g_dir w) (g_finfo w) (tffs w))
       (\<lambda>(res, dj, finfo, s).
          let w = (set_tff s w)\<lparr>g_dir := dj, g_finfo := finfo\<rparr> in
          if res = FR_OK \<and> fi_fname finfo ! 0 \<noteq> 0 then
            if \<not> has (fi_fattrib finfo) AM_DIR \<and> endsWith (fi_fname finfo) dot_FDD then
              Some (FR_OK, put_name dst
                  (if t then strncpy12 (fi_fname finfo) else strxcpy 12 (fi_fname finfo)) w)
            else rec b dst t w
          else Some (FR_NO_FILE, w)) = Some y"
  obtain res dj fi s where rd: "f_readdir (fio b) (g_dir w) (g_finfo w) (tffs w) = Some (res, dj, fi, s)"
    using body by (auto split: bind_splits)
  let ?w = "(set_tff s w)\<lparr>g_dir := dj, g_finfo := fi\<rparr>"
  have f: "screen_frame w ?w" by (intro screen_intros screen_refl)
  have "screen_frame w (snd y)" if "rec b dst t ?w = Some y"
    using ih [OF that] f screen_trans by blast
  then show "screen_frame w (snd y)"
    using body f screen_name [OF f] by (auto simp: rd Let_def split: if_splits)
qed

lemma screen_nextfile:
  "philes_nextfile b dst t w = Some (r, w') \<Longrightarrow> screen_frame w0 w \<Longrightarrow> screen_frame w0 w'"
  using nextfile_frame [of b dst t w] screen_trans by fastforce

lemma screen_opendir: "philes_opendir b w = Some (r, w') \<Longrightarrow> screen_frame w0 w \<Longrightarrow> screen_frame w0 w'"
  by (auto simp: philes_opendir_def Let_def split: bind_splits intro: screen_files)

lemma screen_skip: "fsel_skip b n w = Some w' \<Longrightarrow> screen_frame w0 w \<Longrightarrow> screen_frame w0 w'"
proof (induction n arbitrary: w)
  case (Suc n)
  from Suc(2) obtain r w1 where n: "philes_nextfile b DNull False w = Some (r, w1)"
    and rest: "(if r \<noteq> FR_OK then Some (w1\<lparr>fsel_pagestart := 0\<rparr>) else fsel_skip b n w1) = Some w'"
    by (auto split: bind_splits)
  show ?case using rest Suc.IH screen_nextfile [OF n Suc(3)] by (auto split: if_splits intro: screen_files)
qed simp

lemma screen_show: "fsel_show b is w = Some w' \<Longrightarrow> screen_frame w0 w \<Longrightarrow> screen_frame w0 w'"
proof (induction "is" arbitrary: w)
  case (Cons i "is")
  let ?p = "unat (fsel_index2offs (of_nat i))"
  let ?w = "w\<lparr>dmem := poke ?p (replicate 12 32) (dmem w)\<rparr>"
  from Cons(2) obtain r w1 where n: "philes_nextfile b (DDisplay ?p) False ?w = Some (r, w1)"
    and rest: "fsel_show b is (if r \<noteq> FR_OK then w1\<lparr>fsel_hasnextpage := 0\<rparr> else w1) = Some w'"
    by (auto simp: Let_def split: bind_splits)
  show ?case using rest Cons.IH screen_nextfile [OF n screen_files(6) [OF Cons(3)]]
    by (auto split: if_splits intro: screen_files)
qed simp

lemma screen_fsel: 
  assumes "draw_fsel b w = Some w'" "screen_frame w0 w"
  shows "screen_frame w0 w'"
proof -
  let ?w = "ser_puts b (bytes ''opendir'') (w\<lparr>fsel_hasnextpage := 1\<rparr>)"
  obtain r w1 where o: "philes_opendir b ?w = Some (r, w1)"
    and rest: "(if r \<noteq> FR_OK then Some w1
      else do { w \<leftarrow> fsel_skip b (unat (fsel_pagestart w1)) (ser_nl b (ser_puts b (bytes '' ok'') w1));
                fsel_show b [0 ..< unat FSEL_PAGESIZE] w }) = Some w'"
    using assms(1) by (auto simp: draw_fsel_def Let_def split: bind_splits)
  have 1: "screen_frame w0 w1" by (rule screen_opendir [OF o]) (intro screen_intros assms(2))
  then have 2: "screen_frame w0 (ser_nl b (ser_puts b (bytes '' ok'') w1))" by (intro screen_intros)
  show ?thesis using rest 1 screen_skip [OF _ 2] screen_show by (fastforce split: if_splits bind_splits)
qed

section \<open>The invariant of the state machine\<close>

text \<open>
  The command port: every value carries the hold bit only, or is a pulse (reset or restart) that the
  next value releases.
\<close>

fun pulses :: "BYTE list \<Rightarrow> bool" where
  "pulses [] \<longleftrightarrow> True"
| "pulses [c] \<longleftrightarrow> c \<le> 1"
| "pulses (c # d # cs) \<longleftrightarrow> (c \<le> 1 \<or> c AND NOT 6 \<le> 1 \<and> d = c AND NOT 6) \<and> pulses (d # cs)"

lemma pulses_append:
  "pulses xs \<Longrightarrow> pulses ys \<Longrightarrow> pulses (xs @ ys)"
proof (induction xs rule: pulses.induct)
  case (2 c)
  then show ?case by (cases ys) auto
qed auto

text \<open>
  \<open>menu_ok\<close>: the state is one of the six states of the menu; the cursor is within the nine cells of
  the main menu or the six lines of the file selector; the display memory has its 256 bytes; the
  command variable carries the hold bit only and is what the port shows.
\<close>

definition menu_ok :: "'d world \<Rightarrow> bool" where
  "menu_ok w \<longleftrightarrow>
     menu_state w \<in> {STATE_MENU, STATE_FSEL, STATE_ABOOT, STATE_WAITBREAK, STATE_WAITBREAK2, STATE_ABOOT2}
     \<and> (menu_state w \<in> {STATE_MENU, STATE_WAITBREAK} \<longrightarrow> menu_x w \<le> 2 \<and> menu_y w \<le> 2)
     \<and> (menu_state w = STATE_WAITBREAK \<longrightarrow> menu_selected w \<le> 8)
     \<and> (menu_state w \<in> {STATE_FSEL, STATE_WAITBREAK2} \<longrightarrow> menu_y w < FSEL_NLINES)
     \<and> length (dmem w) = DISPLAY_RAMSIZE
     \<and> osdcmd w \<le> 1 \<and> pulses (written OSD_CMD w)
     \<and> (written OSD_CMD w \<noteq> [] \<longrightarrow> last (written OSD_CMD w) = osdcmd w)"

text \<open>\<open>keeps_menu\<close>: the invariant is kept and the status port is not written.\<close>

definition keeps_menu :: "'d world \<Rightarrow> 'd world \<Rightarrow> bool" where
  "keeps_menu w w' \<longleftrightarrow> (menu_ok w \<longrightarrow> menu_ok w') \<and> written SLAVE_STATUS w' = written SLAVE_STATUS w"

lemma keeps_refl [simp]: "keeps_menu w w"
  by (simp add: keeps_menu_def)

lemma keeps_trans [trans]: "keeps_menu w1 w2 \<Longrightarrow> keeps_menu w2 w3 \<Longrightarrow> keeps_menu w1 w3"
  by (simp add: keeps_menu_def)

lemma screen_keeps: "screen_frame w w' \<Longrightarrow> keeps_menu w w'"
  by (simp add: screen_frame_def keeps_menu_def menu_ok_def)

lemma keeps_screen: "keeps_menu w0 w \<Longrightarrow> screen_frame w w' \<Longrightarrow> keeps_menu w0 w'"
  using keeps_trans screen_keeps by blast

lemma states_distinct [simp]:
  "STATE_MENU \<noteq> STATE_FSEL" "STATE_MENU \<noteq> STATE_ABOOT" "STATE_MENU \<noteq> STATE_WAITBREAK"
  "STATE_MENU \<noteq> STATE_WAITBREAK2" "STATE_MENU \<noteq> STATE_ABOOT2" "STATE_FSEL \<noteq> STATE_MENU"
  "STATE_FSEL \<noteq> STATE_ABOOT" "STATE_FSEL \<noteq> STATE_WAITBREAK" "STATE_FSEL \<noteq> STATE_WAITBREAK2"
  "STATE_FSEL \<noteq> STATE_ABOOT2" "STATE_ABOOT \<noteq> STATE_MENU" "STATE_ABOOT \<noteq> STATE_FSEL"
  "STATE_ABOOT \<noteq> STATE_WAITBREAK" "STATE_ABOOT \<noteq> STATE_WAITBREAK2" "STATE_ABOOT \<noteq> STATE_ABOOT2"
  "STATE_WAITBREAK \<noteq> STATE_MENU" "STATE_WAITBREAK \<noteq> STATE_FSEL" "STATE_WAITBREAK \<noteq> STATE_ABOOT"
  "STATE_WAITBREAK \<noteq> STATE_WAITBREAK2" "STATE_WAITBREAK \<noteq> STATE_ABOOT2" "STATE_WAITBREAK2 \<noteq> STATE_MENU"
  "STATE_WAITBREAK2 \<noteq> STATE_FSEL" "STATE_WAITBREAK2 \<noteq> STATE_ABOOT" "STATE_WAITBREAK2 \<noteq> STATE_WAITBREAK"
  "STATE_WAITBREAK2 \<noteq> STATE_ABOOT2" "STATE_ABOOT2 \<noteq> STATE_MENU" "STATE_ABOOT2 \<noteq> STATE_FSEL"
  "STATE_ABOOT2 \<noteq> STATE_ABOOT" "STATE_ABOOT2 \<noteq> STATE_WAITBREAK" "STATE_ABOOT2 \<noteq> STATE_WAITBREAK2"
  by (simp_all add: menu_consts)

lemma written_out_port [simp]:
  "written p (out_port q v w) = (if q = p then written p w @ [v] else written p w)"
  by (simp add: written_def out_port_def)

lemma out_port_simps [simp]:
  "menu_state (out_port q v w) = menu_state w" "menu_x (out_port q v w) = menu_x w"
  "menu_y (out_port q v w) = menu_y w" "menu_selected (out_port q v w) = menu_selected w"
  "dmem (out_port q v w) = dmem w" "osdcmd (out_port q v w) = osdcmd w" "joy_status (out_port q v w) = joy_status w"
  by (simp_all add: out_port_def)

lemma written_update [simp]:
  "written p (w\<lparr>menu_state := v1\<rparr>) = written p w" "written p (w\<lparr>menu_x := v2\<rparr>) = written p w"
  "written p (w\<lparr>menu_y := v3\<rparr>) = written p w" "written p (w\<lparr>menu_selected := v4\<rparr>) = written p w"
  "written p (w\<lparr>osdcmd := v5\<rparr>) = written p w" "written p (w\<lparr>joy_status := v6\<rparr>) = written p w"
  "written p (w\<lparr>dmem := v7\<rparr>) = written p w" "written p (w\<lparr>inactivity := v8\<rparr>) = written p w"
  "written p (w\<lparr>fsel_pagestart := v9\<rparr>) = written p w" "written p (w\<lparr>fsel_redraw := v10\<rparr>) = written p w"
  "written p (w\<lparr>ptrfile := v11\<rparr>) = written p w" "written p (w\<lparr>dude_seqno := v12\<rparr>) = written p w"
  "written p (w\<lparr>osd_x := v13\<rparr>) = written p w" "written p (w\<lparr>osd_y := v14\<rparr>) = written p w"
  "written p (w\<lparr>osd_inverse := v15\<rparr>) = written p w" "written p (w\<lparr>leds := v16\<rparr>) = written p w"
  "written p (w\<lparr>blink_delay := v17\<rparr>) = written p w"
  by (simp_all add: written_def)

text \<open>A cleared display.\<close>

lemma osd_cls_fields [simp]:
  "menu_state (osd_cls h w) = menu_state w" "menu_x (osd_cls h w) = menu_x w" "menu_y (osd_cls h w) = menu_y w"
  "menu_selected (osd_cls h w) = menu_selected w" "osdcmd (osd_cls h w) = osdcmd w"
  "length (dmem (osd_cls h w)) = DISPLAY_RAMSIZE" "written p (osd_cls h w) = written p w"
  by (simp_all add: osd_cls_def Let_def osd_inv_def osd_puts_def)

lemma and_1_le: "(x :: BYTE) AND 1 \<le> 1"
  by (rule word_and_le1)

lemma le_1_cases: "(x :: BYTE) \<le> 1 \<longleftrightarrow> x = 0 \<or> x = 1"
  by (auto simp: word_le_nat_alt word_unat_eq_iff)

text \<open>One value on the command port.\<close>

lemma command_port:
  assumes "pulses cs" "v \<le> 1"
  shows "pulses (cs @ [v])"
  using pulses_append [OF assms(1), of "[v]"] assms(2) by simp

lemma keeps_init [intro]: "keeps_menu w0 w \<Longrightarrow> keeps_menu w0 (menu_init w)"
proof -
  have "keeps_menu w (menu_init w)"
    using and_1_le [of "osdcmd w"]
    by (auto simp: keeps_menu_def menu_ok_def menu_init_def Let_def command_port)
  then show "keeps_menu w0 w \<Longrightarrow> keeps_menu w0 (menu_init w)" by (rule keeps_trans [rotated])
qed

text \<open>From power-on, when nothing has been written yet, \<open>menu_init\<close> establishes the invariant.\<close>

lemma init_menu_ok:
  assumes "length (dmem w) = DISPLAY_RAMSIZE" "written OSD_CMD w = []"
  shows "menu_ok (menu_init w)"
  using assms and_1_le [of "osdcmd w"] by (auto simp: menu_ok_def menu_init_def Let_def)

lemma keeps_line: "keeps_menu w0 w \<Longrightarrow> keeps_menu w0 (osd_puts s (osd_gotoxy x y w))"
  by (erule keeps_screen) (intro screen_intros screen_refl)

lemma keeps_busy: "keeps_menu w0 w \<Longrightarrow> keeps_menu w0 (menu_busy v w)"
  unfolding menu_busy_def by (auto intro!: keeps_line)

lemma pulse_port:
  assumes "osdcmd w \<le> 1" "cmd = 2 \<or> cmd = 4"
  shows "written OSD_CMD (pulse cmd w) = written OSD_CMD w @ [osdcmd w OR cmd, osdcmd w]"
    "osdcmd (pulse cmd w) = osdcmd w" "pulses [osdcmd w OR cmd, osdcmd w]"
  using assms by (auto simp: pulse_def Let_def le_1_cases)

lemma pulse_fields [simp]:
  "menu_state (pulse cmd w) = menu_state w" "menu_x (pulse cmd w) = menu_x w" "menu_y (pulse cmd w) = menu_y w"
  "menu_selected (pulse cmd w) = menu_selected w" "dmem (pulse cmd w) = dmem w"
  "written SLAVE_STATUS (pulse cmd w) = written SLAVE_STATUS w"
  by (simp_all add: pulse_def Let_def)

lemma screen_aboot [screen_intros]: "keeps_menu w0 w \<Longrightarrow> menu_state w = STATE_ABOOT \<Longrightarrow> keeps_menu w0 (aboot_show w)"
proof -
  assume k: "keeps_menu w0 w" and st: "menu_state w = STATE_ABOOT"
  let ?w = "osd_puts aboot6 (osd_gotoxy 0 6 (osd_puts [] (osd_gotoxy 0 5 (osd_puts aboot4 (osd_gotoxy 0 4
    (osd_puts aboot3 (osd_gotoxy 0 3 (osd_puts [] (osd_gotoxy 0 2 (osd_puts cnotice2 (osd_gotoxy 0 1 (osd_cls 1 w))))))))))))"
  have "keeps_menu w (osd_cls 1 w)" using st by (simp add: keeps_menu_def menu_ok_def)
  then have "keeps_menu w0 (osd_cls 1 w)" using k keeps_trans by blast
  then have "keeps_menu w0 ?w" by (rule keeps_screen) (intro screen_intros screen_refl)
  then show "keeps_menu w0 (aboot_show w)"
    by (rule keeps_screen) (simp add: aboot_show_def Let_def screen_frame_def)
qed

lemma keeps_anim: "keeps_menu w0 w \<Longrightarrow> keeps_menu w0 (aboot_anim w)"
proof (erule keeps_screen)
  let ?w = "fold (\<lambda>i w. osd_puts (dude ! (unat (waverseq ! unat (dude_seqno w)) * 3 + i))
                            (osd_gotoxy 28 (of_nat (i + 3)) w)) [0 ..< 3] w"
  have "screen_frame w ?w" by (intro screen_intros screen_refl)
  then show "screen_frame w (aboot_anim w)"
    by (rule screen_trans) (simp add: aboot_anim_def Let_def screen_frame_def)
qed

lemma keeps_switch: "keeps_menu w0 w \<Longrightarrow> keeps_menu w0 (switch_state w)"
proof (erule keeps_trans)
  consider "menu_state w \<noteq> STATE_WAITBREAK" | "menu_state w = STATE_WAITBREAK" "menu_selected w = SEL_HOLD"
    | "menu_state w = STATE_WAITBREAK" "menu_selected w = SEL_RESET"
    | "menu_state w = STATE_WAITBREAK" "menu_selected w = SEL_RESTART"
    | "menu_state w = STATE_WAITBREAK" "menu_selected w = SEL_ABOUT"
    | "menu_state w = STATE_WAITBREAK" "menu_selected w = SEL_DISK"
    | "menu_state w = STATE_WAITBREAK" "menu_selected w \<notin> {SEL_HOLD, SEL_RESET, SEL_RESTART, SEL_ABOUT, SEL_DISK}"
    by blast
  then show "keeps_menu w (switch_state w)"
  proof cases
    case 2
    then show ?thesis
      by (auto simp: switch_state_def Let_def keeps_menu_def menu_ok_def le_1_cases command_port)
  next
    case 3
    then show ?thesis
      using pulse_port [of w 4] pulses_append
      by (auto simp: switch_state_def SEL_HOLD_def SEL_RESET_def keeps_menu_def menu_ok_def)
  next
    case 4
    then show ?thesis
      using pulse_port [of w 2] pulses_append
      by (auto simp: switch_state_def SEL_HOLD_def SEL_RESET_def SEL_RESTART_def keeps_menu_def menu_ok_def)
  next
    case 5
    have "keeps_menu w (w\<lparr>menu_state := STATE_ABOOT\<rparr>)" by (simp add: keeps_menu_def menu_ok_def)
    then show ?thesis using 5
      by (simp add: switch_state_def SEL_HOLD_def SEL_RESET_def SEL_RESTART_def SEL_ABOUT_def screen_aboot)
  next
    case 6
    then show ?thesis
      by (simp add: switch_state_def SEL_HOLD_def SEL_RESET_def SEL_RESTART_def SEL_ABOUT_def SEL_DISK_def
          fsel_init_def Let_def keeps_menu_def menu_ok_def FSEL_NLINES_def)
  qed (simp_all add: switch_state_def keeps_menu_def menu_ok_def)
qed

lemma keeps_navigate:
  assumes "keeps_menu w0 w" "menu_state w = STATE_MENU"
  shows "keeps_menu w0 (menu_navigate b w)"
proof (rule keeps_trans [OF assms(1)])
  let ?j = "joy_status w"
  define y :: BYTE where "y = (if has ?j JOY_UP then 0 else if has ?j JOY_DN then 2 else 1)"
  define x :: BYTE where "x = (if has ?j JOY_LT then 0 else if has ?j JOY_RT then 2 else 1)"
  let ?w = "w\<lparr>menu_y := y, menu_x := x\<rparr>"
  have b: "x \<le> 2" "y \<le> 2" "x + y * 3 \<le> 8" by (simp_all add: x_def y_def)
  have d: "screen_frame ?w (draw_menu b ?w)" by (intro screen_intros screen_refl)
  have "keeps_menu w ?w" using assms(2) b by (simp add: keeps_menu_def menu_ok_def)
  then have "keeps_menu w (draw_menu b ?w)" by (rule keeps_screen [OF _ d])
  moreover have "menu_state (draw_menu b ?w) = STATE_MENU" "menu_x (draw_menu b ?w) = x" "menu_y (draw_menu b ?w) = y"
    using d assms(2) by (simp_all add: screen_frame_def)
  ultimately show "keeps_menu w (menu_navigate b w)"
    using b by (auto simp: menu_navigate_def Let_def x_def [symmetric] y_def [symmetric] keeps_menu_def menu_ok_def)
qed

lemma line_bounds:
  fixes y :: BYTE
  shows "y < 6 \<Longrightarrow> 0 < y \<Longrightarrow> y - 1 < 6" "y < 5 \<Longrightarrow> y + 1 < 6"
  by unat_arith+

lemma fsel_lines_fields:
  "menu_state (fsel_lines w) = menu_state w" "osdcmd (fsel_lines w) = osdcmd w" "dmem (fsel_lines w) = dmem w"
  "written p (fsel_lines w) = written p w"
  "menu_y w < FSEL_NLINES \<Longrightarrow> menu_y (fsel_lines w) < FSEL_NLINES"
  by (simp_all add: fsel_lines_def Let_def FSEL_NLINES_def line_bounds)

lemma fsel_columns_fields:
  "menu_state (fsel_columns w) = menu_state w" "osdcmd (fsel_columns w) = osdcmd w" "dmem (fsel_columns w) = dmem w"
  "written p (fsel_columns w) = written p w" "menu_y (fsel_columns w) = menu_y w"
  by (simp_all add: fsel_columns_def Let_def)

lemma keeps_fsel:
  assumes "keeps_menu w0 w" "menu_state w = STATE_FSEL" "fsel_navigate b w = Some w'"
  shows "keeps_menu w0 w'"
proof (rule keeps_trans [OF assms(1)])
  let ?w1 = "fsel_columns (fsel_lines w)"
  have k1: "keeps_menu w ?w1" and s1: "menu_state ?w1 = STATE_FSEL"
    using assms(2) by (simp_all add: keeps_menu_def menu_ok_def fsel_columns_fields fsel_lines_fields)
  obtain w2 where w2: "(if fsel_redraw ?w1 \<noteq> 0 then draw_fsel b (?w1\<lparr>fsel_redraw := 0\<rparr>) else Some ?w1) = Some w2"
    and w': "w' = (let w = fsel_showselection False w2; w = w\<lparr>menu_selected := menu_y w * 2 + menu_x w\<rparr>;
                     w = fsel_showselection True w
                   in if has (joy_status w) JOY_FIRE then w\<lparr>menu_state := STATE_WAITBREAK2\<rparr> else w)"
    using assms(3) by (auto simp: fsel_navigate_def Let_def split: bind_splits)
  have f2: "screen_frame ?w1 w2"
    using w2 by (auto split: if_splits intro: screen_fsel [OF _ screen_files(5) [OF screen_refl]])
  let ?w3 = "fsel_showselection False w2"
  let ?w4 = "fsel_showselection True (?w3\<lparr>menu_selected := menu_y ?w3 * 2 + menu_x ?w3\<rparr>)"
  have f3: "screen_frame ?w1 ?w3" by (intro screen_intros f2)
  have k3: "keeps_menu w ?w3" and s3: "menu_state ?w3 = STATE_FSEL"
    using keeps_screen [OF k1 f3] f3 s1 by (simp_all add: screen_frame_def)
  have "keeps_menu w (?w3\<lparr>menu_selected := menu_y ?w3 * 2 + menu_x ?w3\<rparr>)"
    using k3 s3 by (simp add: keeps_menu_def menu_ok_def)
  then have k4: "keeps_menu w ?w4" by (rule keeps_screen) (intro screen_intros screen_refl)
  have "menu_state ?w4 = STATE_FSEL"
    using s3 by (simp add: fsel_showselection_def Let_def)
  then have "keeps_menu w (?w4\<lparr>menu_state := STATE_WAITBREAK2\<rparr>)"
    using k4 by (simp add: keeps_menu_def menu_ok_def)
  then show "keeps_menu w w'" using k4 by (simp add: w' Let_def)
qed

text \<open>One call of \<open>menu_dispatch\<close>.\<close>

lemma keeps_event:
  assumes "keeps_menu w0 w" "menu_event b w = Some (v, w')"
  shows "keeps_menu w0 w'"
proof -
  consider "menu_state w = STATE_ABOOT" | "menu_state w = STATE_MENU" | "menu_state w = STATE_WAITBREAK"
    | "menu_state w = STATE_WAITBREAK2" | "menu_state w = STATE_ABOOT2" | "menu_state w = STATE_FSEL"
    | "menu_state w \<notin> {STATE_ABOOT, STATE_MENU, STATE_WAITBREAK, STATE_WAITBREAK2, STATE_ABOOT2, STATE_FSEL}"
    by blast
  then show ?thesis
  proof cases
    case 1
    then have "keeps_menu w w'" using assms(2)
      by (auto simp: menu_event_def Let_def keeps_menu_def menu_ok_def split: if_splits)
    then show ?thesis using assms(1) keeps_trans by blast
  next
    case 2
    then show ?thesis using assms(2) keeps_navigate [OF assms(1) 2] by (auto simp: menu_event_def)
  next
    case 3
    then show ?thesis using assms keeps_switch by (auto simp: menu_event_def split: if_splits)
  next
    case 4
    let ?w = "fsel_getselected 10 w"
    let ?w1 = "ser_nl b (ser_puts b (ptrfile ?w) (ser_puts b (bytes ''Selected image: '') ?w))"
    have "screen_frame w ?w" by (simp add: fsel_getselected_def screen_frame_def Let_def)
    then have "screen_frame w ?w1" by (intro screen_intros)
    then have "keeps_menu w0 (menu_init ?w1)" using keeps_init keeps_screen [OF assms(1)] by blast
    then show ?thesis using 4 assms by (auto simp: menu_event_def Let_def split: if_splits)
  next
    case 5
    then show ?thesis using assms keeps_init by (auto simp: menu_event_def split: if_splits)
  next
    case 6
    then show ?thesis using assms(2) keeps_fsel [OF assms(1) 6] by (auto simp: menu_event_def split: bind_splits)
  next
    case 7
    then show ?thesis using assms by (auto simp: menu_event_def)
  qed
qed

lemma in_port_screen: "in_port b p w = (v, w') \<Longrightarrow> screen_frame w w'"
  by (auto simp: in_port_def split: prod.splits intro!: screen_in)

lemma keeps_dispatch:
  assumes "keeps_menu w0 w" "menu_dispatch b tick w = Some (v, w')"
  shows "keeps_menu w0 w'"
proof -
  define w1 where "w1 = (if tick \<and> menu_state w = STATE_ABOOT2 then aboot_anim w else w)"
  define w2 where "w2 = (if inactivity w1 \<noteq> 0 then w1\<lparr>inactivity := inactivity w1 - 1\<rparr> else w1)"
  define w3 where "w3 = (if inactivity w2 = 0 \<and> menu_state w2 = STATE_FSEL then menu_init w2 else w2)"
  have "keeps_menu w0 w1" using assms(1) by (simp add: w1_def keeps_anim)
  moreover have "screen_frame w1 w2" by (simp add: w2_def screen_frame_def)
  ultimately have "keeps_menu w0 w2" by (rule keeps_screen)
  then have k3: "keeps_menu w0 w3" by (auto simp: w3_def)
  obtain j w4 where p1: "in_port b JOYSTICK w3 = (j, w4)" by fastforce
  obtain j' w5 where p2: "in_port b JOYSTICK w4 = (j', w5)" by fastforce
  have k4: "keeps_menu w0 w4" by (rule keeps_screen [OF k3 in_port_screen [OF p1]])
  have k5: "keeps_menu w0 w5" by (rule keeps_screen [OF k4 in_port_screen [OF p2]])
  have k6: "keeps_menu w0 (w5\<lparr>joy_status := j', inactivity := INACTIVITY\<rparr>)"
    by (rule keeps_trans [OF k5]) (simp add: keeps_menu_def menu_ok_def)
  have d: "menu_dispatch b tick w = (case in_port b JOYSTICK w3 of (j, w) \<Rightarrow>
        if j \<noteq> joy_status w then
          (case in_port b JOYSTICK w of (j, w) \<Rightarrow>
             menu_event b (w\<lparr>joy_status := j, inactivity := INACTIVITY\<rparr>))
        else Some (MENURESULT_NOTHING, w))"
    unfolding menu_dispatch_def Let_def w3_def w2_def w1_def by (rule refl)
  have "(if j \<noteq> joy_status w4 then menu_event b (w5\<lparr>joy_status := j', inactivity := INACTIVITY\<rparr>)
         else Some (MENURESULT_NOTHING, w4)) = Some (v, w')"
    using assms(2) by (simp add: d p1 p2 split: if_splits)
  then show ?thesis using k4 keeps_event [OF k6] by (auto split: if_splits)
qed

section \<open>The file selector's slots\<close>

text \<open>Twelve slots of twelve characters, 16 bytes apart, below the header line: two on a display line.\<close>

definition slot_start :: "nat \<Rightarrow> nat" where
  "slot_start i = 33 + 16 * i"

lemma slot_offset: "i < 12 \<Longrightarrow> unat (fsel_index2offs (of_nat i)) = slot_start i"
proof -
  assume "i < 12"
  then have i: "unat (of_nat i :: BYTE) = i" by (simp add: unat_of_nat)
  have e: "i div 2 * 32 + i mod 2 * 16 = 16 * i" using div_mult_mod_eq [of i 2] by linarith
  have b: "i div 2 * 32 \<le> 16 * i" "i mod 2 * 16 \<le> 16 * i" using e by linarith+
  show ?thesis
    using e b \<open>i < 12\<close> by (simp add: fsel_index2offs_def slot_start_def unat_word_ariths i unat_div unat_mod)
qed

text \<open>The name in a slot, plain or highlighted, is read back up to its first space.\<close>

definition shown_char :: "BYTE \<Rightarrow> bool" where
  "shown_char c \<longleftrightarrow> c < 0x80 \<and> c \<noteq> 0x20"

lemma selected_chars_shown:
  assumes "list_all shown_char cs" "length cs \<le> k" "length cs + p \<le> length mem"
    and "\<And>i. i < length cs \<Longrightarrow> mem ! (p + i) AND 0x7F = cs ! i"
    and "length cs < k \<Longrightarrow> p + length cs < length mem \<and> mem ! (p + length cs) AND 0x7F = 0x20"
  shows "selected_chars k p mem = cs"
  using assms
proof (induction cs arbitrary: k p)
  case Nil
  then show ?case by (cases k) (auto simp: dmem_get_def)
next
  case (Cons c cs)
  then obtain k' where k: "k = Suc k'" by (cases k) auto
  have c: "mem ! p AND 0x7F = c" "c \<noteq> 0x20" "p < length mem"
    using Cons.prems(1,3) Cons.prems(4) [of 0] by (simp_all add: shown_char_def)
  have "selected_chars k' (p + 1) mem = cs"
  proof (rule Cons.IH)
    show "\<And>i. i < length cs \<Longrightarrow> mem ! (p + 1 + i) AND 0x7F = cs ! i"
      using Cons.prems(4) [of "Suc i" for i] by simp
  qed (use Cons.prems k in auto)
  then show ?case using c by (simp add: k dmem_get_def Let_def)
qed

lemma strxcpy_take: "strxcpy n cs = take n (cstr cs)"
proof (induction cs arbitrary: n)
  case (Cons c cs)
  then show ?case by (cases n) (auto simp: cstr_def)
qed (simp add: cstr_def)

text \<open>What \<open>fsel_show\<close> puts in a slot, and what highlighting makes of it.\<close>

definition shown_in :: "nat \<Rightarrow> BYTE list \<Rightarrow> BYTE list \<Rightarrow> BYTE list" where
  "shown_in i cs mem = poke (slot_start i) cs (poke (slot_start i) (replicate 12 32) mem)"

lemma shown_nth:
  assumes "i < 12" "length mem = 256" "length cs \<le> 12" "j < 12"
  shows "shown_in i cs mem ! (slot_start i + j) = (if j < length cs then cs ! j else 32)"
  using assms by (simp add: shown_in_def poke_nth slot_start_def)

lemma highlight_bits:
  assumes "(x :: BYTE) < 0x80"
  shows "x AND 0x7F = x" "(x OR 0x80) AND 0x7F = x"
proof -
  show m: "x AND 0x7F = x" using less_mask_eq [of x 7] assms by (simp add: mask_eq_exp_minus_1)
  then show "(x OR 0x80) AND 0x7F = x" by (simp add: bit.conj_disj_distrib2)
qed

lemma selection_fields [simp]:
  "ptrfile (fsel_showselection on w) = ptrfile w" "menu_selected (fsel_showselection on w) = menu_selected w"
  by (simp_all add: fsel_showselection_def Let_def)

lemma selection_nth:
  assumes "menu_selected w = of_nat i" "i < 12" "length (dmem w) = 256" "j < 12"
  shows "dmem (fsel_showselection on w) ! (slot_start i + j)
    = (if on then dmem w ! (slot_start i + j) OR 0x80 else dmem w ! (slot_start i + j) AND 0x7F)"
  using assms by (simp add: fsel_showselection_def Let_def slot_offset poke_nth dmem_get_def slot_start_def)

lemma selected_name:
  assumes i: "i < 12" and mem: "length mem = 256"
    and cs: "cs = strxcpy 12 fname" "list_all shown_char cs"
    and w: "dmem w = shown_in i cs mem" "menu_selected w = of_nat i"
  shows "ptrfile (fsel_getselected ofs (fsel_showselection on w)) = poke ofs (cs @ [0]) (ptrfile w)"
proof -
  let ?w = "fsel_showselection on w" and ?p = "slot_start i"
  have len: "length (dmem w) = 256" "length (dmem ?w) = 256" "length cs \<le> 12"
    using mem cs(1) by (simp_all add: w shown_in_def fsel_showselection_def Let_def strxcpy_take)
  have p: "?p + 12 \<le> 256" using i by (simp add: slot_start_def)
  have v: "dmem ?w ! (?p + j) AND 0x7F = (if j < length cs then cs ! j else 32)" if "j < 12" for j
  proof -
    define c where "c = (if j < length cs then cs ! j else 32)"
    have "c < 0x80" using cs(2) by (simp add: c_def list_all_length shown_char_def)
    moreover have "dmem w ! (?p + j) = c"
      unfolding w(1) c_def by (rule shown_nth [OF i mem len(3) that])
    ultimately show ?thesis
      using selection_nth [OF w(2) i len(1) that, of on] highlight_bits [of c] by (simp add: c_def [symmetric])
  qed
  have "selected_chars 12 ?p (dmem ?w) = cs"
  proof (rule selected_chars_shown [OF cs(2) len(3)])
    show "length cs + ?p \<le> length (dmem ?w)" using len p by linarith
    show "dmem ?w ! (?p + j) AND 0x7F = cs ! j" if "j < length cs" for j
      using v [of j] that len(3) by simp
    show "?p + length cs < length (dmem ?w) \<and> dmem ?w ! (?p + length cs) AND 0x7F = 0x20" if "length cs < 12"
      using v [of "length cs"] that len(2) p by simp
  qed
  then show ?thesis using w(2) i by (simp add: fsel_getselected_def Let_def slot_offset)
qed

end
