(* ===== verification/Slave.thy ===== *)
theory Slave
  imports Menu
begin

text \<open>
  The request handler and the top of the firmware (\<^verbatim>\<open>slave.c\<close>, \<^verbatim>\<open>main.c\<close>): \<open>slave\<close> serves the requests of
  the host processor until the card goes away, the disk fails or the menu selects another image;
  \<open>thrall\<close> mounts the card and opens the image, for ever; \<open>main\<close> starts it.
\<close>

section \<open>Codes\<close>

definition CPU_REQUEST_READ :: BYTE where "CPU_REQUEST_READ = 0x10"
definition CPU_REQUEST_WRITE :: BYTE where "CPU_REQUEST_WRITE = 0x20"
definition CPU_REQUEST_READADDR :: BYTE where "CPU_REQUEST_READADDR = 0x30"
definition CPU_REQUEST_NOP :: BYTE where "CPU_REQUEST_NOP = 0x40"
definition CPU_REQUEST_ACK :: BYTE where "CPU_REQUEST_ACK = 0x80"
definition CPU_REQUEST_FAIL :: BYTE where "CPU_REQUEST_FAIL = 0xC0"

definition CPU_STATUS_COMPLETE :: BYTE where "CPU_STATUS_COMPLETE = 0x01"
definition CPU_STATUS_SUCCESS :: BYTE where "CPU_STATUS_SUCCESS = 0x02"
definition CPU_STATUS_CRC :: BYTE where "CPU_STATUS_CRC = 0x04"
definition CPU_STATUS_DRVNOTRDY :: BYTE where "CPU_STATUS_DRVNOTRDY = 0x08"
definition CPU_STATUS_BUSY :: BYTE where "CPU_STATUS_BUSY = 0x80"

definition DELAY_RELOAD :: BYTE where "DELAY_RELOAD = 128"

lemmas slave_consts = CPU_REQUEST_READ_def CPU_REQUEST_WRITE_def CPU_REQUEST_READADDR_def
  CPU_REQUEST_NOP_def CPU_REQUEST_ACK_def CPU_REQUEST_FAIL_def
  CPU_STATUS_COMPLETE_def CPU_STATUS_SUCCESS_def CPU_STATUS_CRC_def CPU_STATUS_DRVNOTRDY_def
  CPU_STATUS_BUSY_def DELAY_RELOAD_def

section \<open>The idle loop\<close>

text \<open>\<open>blink\<close>: the tick is 1 when the countdown reaches 0; then the running light moves.\<close>

definition blink :: "'d board \<Rightarrow> 'd world \<Rightarrow> (BYTE \<times> 'd world) option" where
  "blink b w =
     (let w = w\<lparr>blink_delay := blink_delay w - 1\<rparr>; tick = (blink_delay w = 0);
          w = menu_busy 0 w;
          w = (if tick then
                 let w = out_port GREEN_LEDS (leds w) (w\<lparr>blink_delay := DELAY_RELOAD\<rparr>);
                     w = w\<lparr>leds := push_bit 1 (leds w)\<rparr>
                 in if leds w = 0 then w\<lparr>leds := 0x01\<rparr> else w
               else w)
      in menu_dispatch b tick w)"

section \<open>Serving one request\<close>

text \<open>\<open>fdd_seek(&fddimage, 0x01 & cmd, MASTER_TRACK, MASTER_SECTOR)\<close>; the ports are read in order.\<close>

definition seek_request :: "'d board \<Rightarrow> BYTE \<Rightarrow> 'd world \<Rightarrow> 'd world" where
  "seek_request b cmd w =
     (case in_port b MASTER_TRACK w of (track, w) \<Rightarrow>
        case in_port b MASTER_SECTOR w of (sector, w) \<Rightarrow>
          case fdd_seek (fddimage w) (0x01 AND cmd) track sector (fdderror w) of (fdd, e) \<Rightarrow>
            w\<lparr>fddimage := fdd, fdderror := e\<rparr>)"

definition log_position :: "'d board \<Rightarrow> 'd world \<Rightarrow> 'd world" where
  "log_position b w =
     (let w = print_hex b (fd_cur_side (fddimage w)) w;
          w = print_hex b (fd_cur_sector (fddimage w)) w
      in print_hex b (fd_cur_track (fddimage w)) w)"

definition log_port :: "'d board \<Rightarrow> inport \<Rightarrow> 'd world \<Rightarrow> 'd world" where
  "log_port b p w = (case in_port b p w of (v, w) \<Rightarrow> print_hex b v w)"

definition status_code :: "BYTE \<Rightarrow> bool \<Rightarrow> BYTE" where
  "status_code result with_crc =
     CPU_STATUS_COMPLETE OR (if result = fresult_code FR_OK then CPU_STATUS_SUCCESS else 0)
     OR (if with_crc \<and> result = fresult_code FR_RW_ERROR then CPU_STATUS_CRC else 0)"

definition start_request :: "'d board \<Rightarrow> 'd world \<Rightarrow> 'd world" where
  "start_request b w = ser_nl b (menu_busy 1 (out_port SLAVE_STATUS CPU_STATUS_BUSY w))"

definition drive_error :: "'d board \<Rightarrow> 'd world \<Rightarrow> BYTE \<times> 'd world" where
  "drive_error b w = (fresult_code FR_INVALID_DRIVE, ser_puts b (bytes ''DRVERR'') w)"

text \<open>The read request; \<open>t1\<close> is set from the command.  The result is the new \<open>result\<close> and \<open>t1\<close>.\<close>

definition serve_read :: "'d board \<Rightarrow> BYTE \<Rightarrow> 'd world \<Rightarrow> (BYTE \<times> BYTE \<times> 'd world) option" where
  "serve_read b cmd w =
     (let w = ser_puts b (bytes ''rHST:'') (start_request b w); t1 = cmd AND 0x02 in do {
        (result, w) \<leftarrow>
          (if t1 = 0 then
             let w = log_position b (seek_request b cmd w) in do {
               (r, file, buf, s) \<leftarrow>
                 fdd_readsector (fio b) (fddimage w) (file1 w) (fdd_buffer w) (tffs w);
               let w = (set_tff s w)\<lparr>file1 := file, fdd_buffer := buf\<rparr>;
                   w = print_hex b (fresult_code r) (ser_putc b 0x3A w)
               in Some (fresult_code r, w) }
           else Some (drive_error b w));
        Some (result, t1, out_port SLAVE_STATUS (status_code result True) w) })"

definition serve_readaddr :: "'d board \<Rightarrow> BYTE \<Rightarrow> 'd world \<Rightarrow> BYTE \<times> BYTE \<times> 'd world" where
  "serve_readaddr b cmd w =
     (let w = ser_putc b 0x51 (start_request b w); t1 = cmd AND 0x02;
          (result, w) =
            (if t1 = 0 then
               let w = seek_request b cmd w in
               (case fdd_readadr (fddimage w) (fdd_buffer w) of (r, buf) \<Rightarrow>
                  (fresult_code r, w\<lparr>fdd_buffer := buf\<rparr>))
             else drive_error b w)
      in (result, t1, out_port SLAVE_STATUS (status_code result False) w))"

text \<open>
  The write request does not set \<open>t1\<close>: the drive test sees the value an earlier request has left (or,
  before any, the uninitialised local).
\<close>

definition serve_write :: "'d board \<Rightarrow> BYTE \<Rightarrow> BYTE \<Rightarrow> 'd world \<Rightarrow> (BYTE \<times> BYTE \<times> 'd world) option" where
  "serve_write b cmd t1 w =
     (let w = log_port b MASTER_TRACK (print_hex b cmd (start_request b w));
          w = ser_puts b (bytes ''wHST:'') w
      in do {
        (result, w) \<leftarrow>
          (if t1 = 0 then
             let w = log_port b MASTER_TRACK (log_position b (seek_request b cmd w)) in do {
               (r, file, buf, s) \<leftarrow>
                 fdd_writesector (fio b) (fddimage w) (file1 w) (fdd_buffer w) (tffs w);
               let w = (set_tff s w)\<lparr>file1 := file, fdd_buffer := buf\<rparr>;
                   w = print_hex b (fresult_code r) (ser_putc b 0x3A w)
               in Some (fresult_code r, w) }
           else Some (drive_error b w));
        Some (result, t1, out_port SLAVE_STATUS (status_code result True) w) })"

definition serve_nop :: "'d board \<Rightarrow> BYTE \<Rightarrow> 'd world \<Rightarrow> 'd world" where
  "serve_nop b cmd w =
     (let w = ser_putc b 0x60 (out_port SLAVE_STATUS CPU_STATUS_BUSY w);
          w = log_port b MASTER_SECTOR (print_hex b cmd w);
          w = log_port b MASTER_TRACK w
      in out_port SLAVE_STATUS CPU_STATUS_COMPLETE w)"

section \<open>The request loop\<close>

text \<open>
  One round of the \<open>for\<close> loop of \<open>slave\<close>, after its test: go on with new locals, leave the loop, or
  return from the function.  The failure request ends in \<open>for(;;);\<close>, so it does not return: \<open>None\<close>.
\<close>

datatype 'd round_result = GoOn BYTE BYTE "'d world" | LeaveLoop BYTE "'d world" | Return BYTE "'d world"

definition slave_round :: "'d board \<Rightarrow> BYTE \<Rightarrow> 'd world \<Rightarrow> 'd round_result option" where
  "slave_round b t1 w =
     (let result = fresult_code FR_OK in
      case disk_poll_op b 0 (disk (tffs w)) of (poll, d) \<Rightarrow>
        let w = upd_disk (\<lambda>_. d) w in
        if poll = 3 then Some (LeaveLoop result (ser_puts b (bytes ''NOSD'') w))
        else
          (case in_port b MASTER_COMMAND w of (cmd, w) \<Rightarrow>
             let req = cmd AND 0xF0 in
             if req = CPU_REQUEST_READ then do {
               (result, t1, w) \<leftarrow> serve_read b cmd w; Some (GoOn result t1 w) }
             else if req = CPU_REQUEST_READADDR then
               (case serve_readaddr b cmd w of (result, t1, w) \<Rightarrow> Some (GoOn result t1 w))
             else if req = CPU_REQUEST_WRITE then do {
               (result, t1, w) \<leftarrow> serve_write b cmd t1 w; Some (GoOn result t1 w) }
             else if req = CPU_REQUEST_ACK then
               Some (GoOn result t1 (ser_putc b 0x2B (out_port SLAVE_STATUS 0 w)))
             else if req = CPU_REQUEST_NOP then Some (GoOn result t1 (serve_nop b cmd w))
             else if req = CPU_REQUEST_FAIL then None
             else do {
               (result, w) \<leftarrow> blink b (out_port SLAVE_STATUS 0 w);
               Some (if result \<noteq> MENURESULT_NOTHING then Return result w
                     else GoOn result t1 w) }))"

partial_function (option) slave_loop :: "'d board \<Rightarrow> BYTE \<Rightarrow> BYTE \<Rightarrow> 'd world \<Rightarrow> (BYTE \<times> 'd world) option" where
  "slave_loop b result t1 w =
     (if result = fresult_code FR_RW_ERROR then Some (result, out_port SLAVE_STATUS 0 w)
      else
        Option.bind (slave_round b t1 w)
          (\<lambda>r. case r of
             GoOn result t1 w \<Rightarrow> slave_loop b result t1 w
           | LeaveLoop result w \<Rightarrow> Some (result, out_port SLAVE_STATUS 0 w)
           | Return result w \<Rightarrow> Some (result, w)))"

text \<open>\<open>result0\<close> and \<open>t10\<close> are the uninitialised locals.\<close>

definition slave :: "'d board \<Rightarrow> BYTE \<Rightarrow> BYTE \<Rightarrow> 'd world \<Rightarrow> (BYTE \<times> 'd world) option" where
  "slave b result0 t10 w = slave_loop b result0 t10 (out_port SLAVE_STATUS 0 w)"

section \<open>The eternal loop\<close>

text \<open>
  One pass of \<open>thrall\<close>: mount, open the directory, pick the first image unless one is chosen already
  (\<open>first\<close>), open it, serve requests, then wait for a card.
\<close>

definition open_image :: "'d board \<Rightarrow> 'd world \<Rightarrow> (FRESULT \<times> 'd world) option" where
  "open_image b w = do {
     (res, file, s) \<leftarrow> f_open (fio b) (g_dir w) (replicate 12 0) (file1 w) (cstr (ptrfile w)) FA_READ (tffs w);
     Some (res, (set_tff s w)\<lparr>file1 := file\<rparr>) }"

definition thrall_try :: "'d board \<Rightarrow> BYTE \<Rightarrow> BYTE \<Rightarrow> BYTE \<Rightarrow> 'd world \<Rightarrow> (BYTE \<times> 'd world) option" where
  "thrall_try b result0 t10 first w =
     (case philes_mount b w of (_, w) \<Rightarrow> do {
        (result, w) \<leftarrow> philes_opendir b w;
        if result \<noteq> FR_OK then Some (first, w)
        else do {
          (first, w) \<leftarrow>
            (if first = 0 then do {
               (_, w) \<leftarrow> philes_nextfile b (DPtrfile 10) True w; Some (first + 1, w) }
             else Some (first, w));
          (result, w) \<leftarrow> open_image b (ser_nl b w);
          let first = (if result \<noteq> FR_OK then 0 else first);
              w = ser_puts b (bytes (if result \<noteq> FR_OK then ''Error: '' else ''=> '')) w;
              w = ser_nl b (ser_putc b 0x24 (ser_puts b (ptrfile w) w))
          in
            if result \<noteq> FR_OK then Some (first, w)
            else
              (case fdd_load (file1 w) (fddimage w) (fdderror w) of (_, fdd, e) \<Rightarrow> do {
                 (_, w) \<leftarrow> slave b result0 t10 (w\<lparr>fddimage := fdd, fdderror := e\<rparr>);
                 Some (first, w) }) } })"

definition thrall_pass :: "'d board \<Rightarrow> BYTE \<Rightarrow> BYTE \<Rightarrow> BYTE \<times> 'd world \<Rightarrow> (BYTE \<times> 'd world) option" where
  "thrall_pass b result0 t10 = (\<lambda>(first, w). do {
     (first, w) \<leftarrow> thrall_try b result0 t10 first (out_port SLAVE_STATUS CPU_STATUS_DRVNOTRDY w);
     (_, w) \<leftarrow> menu_dispatch b False (menu_busy 2 w);
     Some (first, delay2 b 10 w) })"

text \<open>\<open>thrall\<close> never returns; \<open>thrall_passes n\<close> is its state after \<open>n\<close> passes.\<close>

fun thrall_passes :: "'d board \<Rightarrow> BYTE \<Rightarrow> BYTE \<Rightarrow> nat \<Rightarrow> BYTE \<times> 'd world \<Rightarrow> (BYTE \<times> 'd world) option" where
  "thrall_passes b result0 t10 0 fw = Some fw"
| "thrall_passes b result0 t10 (Suc n) fw =
     Option.bind (thrall_pass b result0 t10 fw) (thrall_passes b result0 t10 n)"

definition thrall_start :: "'d world \<Rightarrow> BYTE \<times> 'd world" where
  "thrall_start w = (0, menu_init (out_port SLAVE_STATUS CPU_STATUS_DRVNOTRDY w))"

text \<open>\<open>main\<close> up to the call of \<open>thrall\<close>.\<close>

definition main_start :: "'d board \<Rightarrow> 'd world \<Rightarrow> BYTE \<times> 'd world" where
  "main_start b w =
     (let w = out_port GREEN_LEDS 0xC3 (out_port SLAVE_STATUS 0 w);
          w = delay2 b 10 (ser_puts b (bytes ''@'') w);
          w = ser_puts b cnotice1 (ser_nl b w);
          w = ser_puts b cnotice2 (ser_nl b w)
      in thrall_start w)"

end
