(* ===== verification/ProtocolProps.thy ===== *)
theory ProtocolProps
  imports MenuProps Slave
begin

text \<open>
  The status protocol of the request server: every operation of \<open>slave\<close> and \<open>thrall\<close> keeps the
  menu's invariant and extends the history of the status port by well-formed answers.
\<close>

section \<open>Answers\<close>

text \<open>
  The status port shows idle (0), not ready, or busy; a busy status is followed by one completion code.
\<close>

definition completion :: "BYTE \<Rightarrow> bool" where
  "completion t \<longleftrightarrow> t \<in> {CPU_STATUS_COMPLETE, CPU_STATUS_COMPLETE OR CPU_STATUS_SUCCESS,
     CPU_STATUS_COMPLETE OR CPU_STATUS_CRC}"

fun answers :: "BYTE list \<Rightarrow> bool" where
  "answers [] \<longleftrightarrow> True"
| "answers [s] \<longleftrightarrow> s = 0 \<or> s = CPU_STATUS_DRVNOTRDY"
| "answers (s # t # xs) \<longleftrightarrow>
     (if s = CPU_STATUS_BUSY then completion t \<and> answers xs
      else (s = 0 \<or> s = CPU_STATUS_DRVNOTRDY) \<and> answers (t # xs))"

lemma answers_append: "answers xs \<Longrightarrow> answers ys \<Longrightarrow> answers (xs @ ys)"
proof (induction xs rule: answers.induct)
  case (2 s)
  then show ?case by (cases ys) (auto simp: slave_consts)
qed (auto split: if_splits)

lemma status_completion: "completion (status_code r crc)"
  by (simp add: completion_def status_code_def slave_consts)

definition serves :: "'d world \<Rightarrow> 'd world \<Rightarrow> bool" where
  "serves w w' \<longleftrightarrow> (menu_ok w \<longrightarrow> menu_ok w')
     \<and> (\<exists>xs. written SLAVE_STATUS w' = written SLAVE_STATUS w @ xs \<and> answers xs)"

lemma serves_refl [simp]: "serves w w"
  by (auto simp: serves_def intro!: exI [of _ "[]"])

lemma serves_trans [trans]: "serves w1 w2 \<Longrightarrow> serves w2 w3 \<Longrightarrow> serves w1 w3"
  by (auto simp: serves_def intro!: answers_append)

lemma keeps_serves: "serves w0 w \<Longrightarrow> keeps_menu w w' \<Longrightarrow> serves w0 w'"
  by (auto simp: serves_def keeps_menu_def)

lemma screen_serves: "serves w0 w \<Longrightarrow> screen_frame w w' \<Longrightarrow> serves w0 w'"
  using keeps_serves screen_keeps by blast

lemma serves_status: "serves w0 w \<Longrightarrow> s = 0 \<or> s = CPU_STATUS_DRVNOTRDY \<Longrightarrow> serves w0 (out_port SLAVE_STATUS s w)"
proof (erule serves_trans)
  assume "s = 0 \<or> s = CPU_STATUS_DRVNOTRDY"
  then show "serves w (out_port SLAVE_STATUS s w)"
    by (auto simp: serves_def menu_ok_def)
qed

lemma serves_request:
  assumes "serves w0 w" "screen_frame (out_port SLAVE_STATUS CPU_STATUS_BUSY w) w1" "completion t"
  shows "serves w0 (out_port SLAVE_STATUS t w1)"
proof (rule serves_trans [OF assms(1)])
  have "menu_ok w \<longrightarrow> menu_ok w1"
    using screen_keeps [OF assms(2)] by (auto simp: keeps_menu_def menu_ok_def)
  moreover have "written SLAVE_STATUS w1 = written SLAVE_STATUS w @ [CPU_STATUS_BUSY]"
    using assms(2) by (simp add: screen_frame_def)
  ultimately show "serves w (out_port SLAVE_STATUS t w1)"
    using assms(3) by (auto simp: serves_def menu_ok_def)
qed

section \<open>The requests\<close>

lemma screen_port: "screen_frame w0 w \<Longrightarrow> in_port b p w = (v, w') \<Longrightarrow> screen_frame w0 w'"
  using in_port_screen screen_trans by blast

lemma screen_hex [screen_intros]: "screen_frame w0 w \<Longrightarrow> screen_frame w0 (print_hex b v w)"
  unfolding print_hex_def by (intro screen_putc)

lemma screen_log [screen_intros]:
  "screen_frame w0 w \<Longrightarrow> screen_frame w0 (log_port b p w)"
  "screen_frame w0 w \<Longrightarrow> screen_frame w0 (log_position b w)"
  by (auto simp: log_port_def log_position_def Let_def split: prod.splits intro!: screen_hex elim: screen_port)

lemma screen_seek [screen_intros]: "screen_frame w0 w \<Longrightarrow> screen_frame w0 (seek_request b cmd w)"
proof -
  assume k: "screen_frame w0 w"
  obtain v1 w1 where p1: "in_port b MASTER_TRACK w = (v1, w1)" by fastforce
  obtain v2 w2 where p2: "in_port b MASTER_SECTOR w1 = (v2, w2)" by fastforce
  have "screen_frame w0 w2" by (rule screen_port [OF screen_port [OF k p1] p2])
  then show ?thesis using p1 p2
    by (auto simp: seek_request_def screen_frame_def written_def split: prod.splits)
qed

lemma screen_file [screen_intros]:
  "screen_frame w0 w \<Longrightarrow> screen_frame w0 ((set_tff s w)\<lparr>file1 := f, fdd_buffer := buf\<rparr>)"
  "screen_frame w0 w \<Longrightarrow> screen_frame w0 ((set_tff s w)\<lparr>file1 := f\<rparr>)"
  "screen_frame w0 w \<Longrightarrow> screen_frame w0 (set_tff s w)"
  "screen_frame w0 w \<Longrightarrow> screen_frame w0 (w\<lparr>fdd_buffer := buf\<rparr>)"
  "screen_frame w0 w \<Longrightarrow> screen_frame w0 (w\<lparr>fddimage := fdd, fdderror := e\<rparr>)"
  by (simp_all add: set_tff_def screen_frame_def written_def)

lemma screen_busy1 [screen_intros]: "screen_frame w0 w \<Longrightarrow> screen_frame w0 (menu_busy 1 w)"
  unfolding menu_busy_def by simp (intro screen_intros)

lemma screen_start [screen_intros]:
  "screen_frame w0 (out_port SLAVE_STATUS CPU_STATUS_BUSY w) \<Longrightarrow> screen_frame w0 (start_request b w)"
  unfolding start_request_def by (intro screen_intros)

lemma serves_read:
  assumes "serves w0 w" "serve_read b cmd w = Some (r, t, w')"
  shows "serves w0 w'"
proof -
  let ?b = "out_port SLAVE_STATUS CPU_STATUS_BUSY w"
  let ?w = "ser_puts b (bytes ''rHST:'') (start_request b w)"
  have 1: "screen_frame ?b ?w" by (intro screen_intros screen_refl)
  show ?thesis using assms(2)
    by (auto simp: serve_read_def Let_def drive_error_def split: bind_splits if_splits
        intro!: serves_request [OF assms(1)] status_completion screen_intros 1)
qed

lemma serves_write:
  assumes "serves w0 w" "serve_write b cmd t w = Some (r, t', w')"
  shows "serves w0 w'"
proof -
  let ?b = "out_port SLAVE_STATUS CPU_STATUS_BUSY w"
  let ?w = "ser_puts b (bytes ''wHST:'') (log_port b MASTER_TRACK (print_hex b cmd (start_request b w)))"
  have 1: "screen_frame ?b ?w" by (intro screen_intros screen_refl)
  show ?thesis using assms(2)
    by (auto simp: serve_write_def Let_def drive_error_def split: bind_splits if_splits
        intro!: serves_request [OF assms(1)] status_completion screen_intros 1)
qed

lemma serves_readaddr:
  assumes "serves w0 w" "serve_readaddr b cmd w = (r, t, w')"
  shows "serves w0 w'"
proof -
  let ?b = "out_port SLAVE_STATUS CPU_STATUS_BUSY w"
  let ?w = "ser_putc b 0x51 (start_request b w)"
  have 1: "screen_frame ?b ?w" by (intro screen_intros screen_refl)
  show ?thesis using assms(2)
    by (auto simp: serve_readaddr_def Let_def drive_error_def split: prod.splits if_splits
        intro!: serves_request [OF assms(1)] status_completion screen_intros 1)
qed

lemma serves_nop: "serves w0 w \<Longrightarrow> serves w0 (serve_nop b cmd w)"
  unfolding serve_nop_def Let_def
  by (rule serves_request, assumption) (intro screen_intros screen_refl, simp add: completion_def)

lemma serves_blink:
  assumes "serves w0 w" "blink b w = Some (v, w')"
  shows "serves w0 w'"
proof -
  define w1 where "w1 = menu_busy 0 (w\<lparr>blink_delay := blink_delay w - 1\<rparr>)"
  have k1: "keeps_menu w w1" unfolding w1_def
    by (rule keeps_busy) (simp add: keeps_menu_def menu_ok_def)
  have leds: "keeps_menu w0 w \<Longrightarrow> keeps_menu w0 (w\<lparr>leds := l\<rparr>)"
    "keeps_menu w0 w \<Longrightarrow> keeps_menu w0 (out_port GREEN_LEDS v w)"
    "keeps_menu w0 w \<Longrightarrow> keeps_menu w0 (w\<lparr>blink_delay := v\<rparr>)" for w0 w :: "'a world" and l v
    by (simp_all add: keeps_menu_def menu_ok_def)
  show ?thesis
    using assms(2) k1 unfolding blink_def Let_def w1_def [symmetric]
    by (auto split: if_splits intro!: keeps_serves [OF assms(1)] elim!: keeps_dispatch [rotated] intro!: leds)
qed

section \<open>The request loop\<close>

fun round_world :: "'d round_result \<Rightarrow> 'd world" where
  "round_world (GoOn r t w) = w"
| "round_world (LeaveLoop r w) = w"
| "round_world (Return r w) = w"

lemma serves_round:
  assumes "serves w0 w" "slave_round b t w = Some out"
  shows "serves w0 (round_world out)"
proof -
  obtain v d where p: "disk_poll_op b 0 (disk (tffs w)) = (v, d)" by fastforce
  let ?w = "upd_disk (\<lambda>_. d) w"
  have 1: "serves w0 ?w" by (rule screen_serves [OF assms(1)]) (intro screen_intros screen_refl)
  show ?thesis
  proof (cases "v = 3")
    case True
    have "serves w0 (ser_puts b (bytes ''NOSD'') ?w)"
      by (rule screen_serves [OF 1]) (intro screen_intros screen_refl)
    then show ?thesis using assms(2) True by (auto simp: slave_round_def p Let_def)
  next
    case False
    obtain cmd w1 where c: "in_port b MASTER_COMMAND ?w = (cmd, w1)" by fastforce
    have 2: "serves w0 w1" by (rule screen_serves [OF 1 in_port_screen [OF c]])
    have ack: "serves w0 (ser_putc b 0x2B (out_port SLAVE_STATUS 0 w1))"
      by (rule screen_serves [OF serves_status [OF 2, of 0]]) (simp, intro screen_intros screen_refl)
    have 0: "serves w0 (out_port SLAVE_STATUS 0 w1)" by (rule serves_status [OF 2]) simp
    show ?thesis using assms(2) False ack
      by (auto simp: slave_round_def p c Let_def split: if_splits bind_splits prod.splits
          intro: serves_read [OF 2] serves_write [OF 2] serves_readaddr [OF 2] serves_nop [OF 2] serves_blink [OF 0])
  qed
qed

text \<open>
  \<open>serving\<close>: the rounds of the loop as a step relation, on the locals \<open>result\<close> and \<open>t1\<close> and the world;
  it also describes a server that is never left.
\<close>

inductive serving :: "'d board \<Rightarrow> BYTE \<times> BYTE \<times> 'd world \<Rightarrow> BYTE \<times> BYTE \<times> 'd world \<Rightarrow> bool" for b where
  start: "serving b x x"
| round: "\<lbrakk>serving b x (r, t, w); r \<noteq> fresult_code FR_RW_ERROR; slave_round b t w = Some (GoOn r' t' w')\<rbrakk>
    \<Longrightarrow> serving b x (r', t', w')"

inductive_cases serving_step: "serving b x (r, t, w)"

text \<open>The end of the loop: a disk error, a missing card or the menu's selection.\<close>

inductive serving_ends :: "'d board \<Rightarrow> BYTE \<times> BYTE \<times> 'd world \<Rightarrow> BYTE \<times> 'd world \<Rightarrow> bool" for b where
  disk_error: "serving_ends b (fresult_code FR_RW_ERROR, t, w) (fresult_code FR_RW_ERROR, out_port SLAVE_STATUS 0 w)"
| no_card: "\<lbrakk>r \<noteq> fresult_code FR_RW_ERROR; slave_round b t w = Some (LeaveLoop r' w')\<rbrakk>
    \<Longrightarrow> serving_ends b (r, t, w) (r', out_port SLAVE_STATUS 0 w')"
| selected: "\<lbrakk>r \<noteq> fresult_code FR_RW_ERROR; slave_round b t w = Some (Return r' w')\<rbrakk>
    \<Longrightarrow> serving_ends b (r, t, w) (r', w')"

lemma serving_prepend:
  assumes "serving b (r', t', w') y" "r \<noteq> fresult_code FR_RW_ERROR" "slave_round b t w = Some (GoOn r' t' w')"
  shows "serving b (r, t, w) y"
  using assms
proof (induction "(r', t', w')" y rule: serving.induct)
  case start
  then show ?case using serving.round [OF serving.start] by blast
qed (auto intro: serving.round)

lemma slave_loop_rounds:
  assumes "slave_loop b r t w = Some out"
  shows "\<exists>x. serving b (r, t, w) x \<and> serving_ends b x out"
proof (rule slave_loop.raw_induct
    [where P = "\<lambda>b r t w out. \<exists>x. serving b (r, t, w) x \<and> serving_ends b x out", OF _ assms])
  fix rec and b :: "'a board" and r t w out
  assume ih: "\<And>b r t w y. rec b r t w = Some y \<Longrightarrow> \<exists>x. serving b (r, t, w) x \<and> serving_ends b x y"
    and body: "(if r = fresult_code FR_RW_ERROR then Some (r, out_port SLAVE_STATUS 0 w)
      else Option.bind (slave_round b t w)
          (\<lambda>rr. case rr of GoOn result t1 w \<Rightarrow> rec b result t1 w
           | LeaveLoop result w \<Rightarrow> Some (result, out_port SLAVE_STATUS 0 w)
           | Return result w \<Rightarrow> Some (result, w))) = Some out"
  show "\<exists>x. serving b (r, t, w) x \<and> serving_ends b x out"
  proof (cases "r = fresult_code FR_RW_ERROR")
    case True
    then have "serving_ends b (r, t, w) out" using body serving_ends.disk_error by auto
    then show ?thesis using serving.start by blast
  next
    case False
    then obtain rr where rr: "slave_round b t w = Some rr" using body by (auto split: bind_splits)
    show ?thesis
    proof (cases rr)
      case (GoOn r' t' w')
      then have "rec b r' t' w' = Some out" using body False rr by simp
      then obtain x where x: "serving b (r', t', w') x" "serving_ends b x out" using ih by blast
      show ?thesis using serving_prepend [OF x(1) False rr [unfolded GoOn]] x(2) by blast
    next
      case (LeaveLoop r' w')
      then have "out = (r', out_port SLAVE_STATUS 0 w')" using body False rr by simp
      then show ?thesis using serving_ends.no_card [OF False rr [unfolded LeaveLoop]] serving.start by blast
    next
      case (Return r' w')
      then have "out = (r', w')" using body False rr by simp
      then show ?thesis using serving_ends.selected [OF False rr [unfolded Return]] serving.start by blast
    qed
  qed
qed

lemma serving_serves: "serving b (r0, t0, w0) (r, t, w) \<Longrightarrow> serves w0 w"
proof (induction "(r0, t0, w0)" "(r, t, w)" arbitrary: r t w rule: serving.induct)
  case (round r t w r' t' w')
  then show ?case using serves_round [of w0 w b t "GoOn r' t' w'"] by simp
qed simp

lemma slave_serves: "slave b r t w = Some (r', w') \<Longrightarrow> serves w w'"
proof -
  assume "slave b r t w = Some (r', w')"
  then obtain x where x: "serving b (r, t, out_port SLAVE_STATUS 0 w) x" "serving_ends b x (r', w')"
    using slave_loop_rounds [of b r t "out_port SLAVE_STATUS 0 w"] by (auto simp: slave_def)
  obtain r1 t1 w1 where e: "x = (r1, t1, w1)" by (cases x)
  have 0: "serves w (out_port SLAVE_STATUS 0 w)" by (rule serves_status) simp_all
  have 1: "serves w w1" using serves_trans [OF 0 serving_serves [OF x(1) [unfolded e]]] .
  show ?thesis using x(2) unfolding e
  proof cases
    case disk_error
    then show ?thesis using serves_status [OF 1] by simp
  next
    case (no_card w2)
    then show ?thesis using serves_status [OF serves_round [OF 1 no_card(3)]] by simp
  next
    case selected
    then show ?thesis using serves_round [OF 1 selected(2)] by simp
  qed
qed

section \<open>The eternal loop\<close>

lemma screen_mount: "screen_frame w0 w \<Longrightarrow> philes_mount b w = (r, w') \<Longrightarrow> screen_frame w0 w'"
  by (auto simp: philes_mount_def split: prod.splits intro: screen_file)

lemma screen_image: "screen_frame w0 w \<Longrightarrow> open_image b w = Some (r, w') \<Longrightarrow> screen_frame w0 w'"
  by (auto simp: open_image_def split: bind_splits intro: screen_file)

lemma serves_try:
  assumes "thrall_try b result0 t10 first w = Some (first', w')"
  shows "serves w w'"
proof -
  obtain v w1 where m: "philes_mount b w = (v, w1)" by fastforce
  obtain r w2 where o: "philes_opendir b w1 = Some (r, w2)"
    using assms by (auto simp: thrall_try_def m split: bind_splits)
  have 2: "screen_frame w w2" using screen_opendir [OF o screen_mount [OF screen_refl m]] .
  show ?thesis
  proof (cases "r = FR_OK")
    case False
    then show ?thesis using assms screen_serves [OF serves_refl 2] by (simp add: thrall_try_def m o)
  next
    case True
    obtain f3 w3 where p: "(if first = 0 then do { (_, w) \<leftarrow> philes_nextfile b (DPtrfile 10) True w2; Some (first + 1, w) }
        else Some (first, w2)) = Some (f3, w3)"
      using assms True by (auto simp: thrall_try_def m o split: bind_splits)
    have 3: "screen_frame w w3" using p 2 by (auto split: if_splits bind_splits elim: screen_nextfile)
    obtain r4 w4 where i: "open_image b (ser_nl b w3) = Some (r4, w4)"
      using assms True by (auto simp: thrall_try_def m o p Let_def split: bind_splits)
    have 4: "screen_frame w w4" by (rule screen_image [OF screen_nl [OF 3] i])
    define w5 where "w5 = ser_puts b (bytes (if r4 \<noteq> FR_OK then ''Error: '' else ''=> '')) w4"
    define w6 where "w6 = ser_nl b (ser_putc b 0x24 (ser_puts b (ptrfile w5) w5))"
    have 6: "screen_frame w w6" unfolding w6_def w5_def by (intro screen_intros 4)
    obtain v fdd e where l: "fdd_load (file1 w6) (fddimage w6) (fdderror w6) = (v, fdd, e)" by (metis prod_cases3)
    have t: "thrall_try b result0 t10 first w = (if r4 \<noteq> FR_OK then Some (0, w6) else
        (case fdd_load (file1 w6) (fddimage w6) (fdderror w6) of (_, fdd, e) \<Rightarrow> do {
           (_, w) \<leftarrow> slave b result0 t10 (w6\<lparr>fddimage := fdd, fdderror := e\<rparr>); Some (f3, w) }))"
      unfolding thrall_try_def w6_def w5_def by (simp add: m o True p i Let_def)
    have rest: "(if r4 \<noteq> FR_OK then Some (0, w6) else do {
        (_, w) \<leftarrow> slave b result0 t10 (w6\<lparr>fddimage := fdd, fdderror := e\<rparr>); Some (f3, w) }) = Some (first', w')"
      using assms by (simp add: t l split: if_splits)
    have 7: "serves w (w6\<lparr>fddimage := fdd, fdderror := e\<rparr>)"
      by (rule screen_serves [OF serves_refl]) (intro screen_file 6)
    show ?thesis using rest screen_serves [OF serves_refl 6] serves_trans [OF 7 slave_serves]
      by (auto split: if_splits bind_splits)
  qed
qed

lemma serves_pass:
  assumes "thrall_pass b r t (f, w) = Some (f', w')"
  shows "serves w w'"
proof -
  let ?w = "out_port SLAVE_STATUS CPU_STATUS_DRVNOTRDY w"
  obtain f1 w1 where t: "thrall_try b r t f ?w = Some (f1, w1)"
    using assms by (auto simp: thrall_pass_def split: bind_splits)
  obtain v w2 where d: "menu_dispatch b False (menu_busy 2 w1) = Some (v, w2)"
    using assms by (auto simp: thrall_pass_def t split: bind_splits)
  have "serves w ?w" by (rule serves_status) simp_all
  then have 1: "serves w w1" using serves_try [OF t] serves_trans by blast
  have "keeps_menu w1 w2" by (rule keeps_dispatch [OF keeps_busy d]) simp
  then have 2: "serves w w2" by (rule keeps_serves [OF 1])
  have "screen_frame w2 (delay2 b 10 w2)" unfolding delay2_def by (intro screen_intros screen_refl)
  then show ?thesis using screen_serves [OF 2] assms by (simp add: thrall_pass_def t d)
qed

lemma serves_passes: "thrall_passes b r t n (f, w) = Some (f', w') \<Longrightarrow> serves w w'"
proof (induction n arbitrary: f w)
  case (Suc n)
  then obtain f1 w1 where p: "thrall_pass b r t (f, w) = Some (f1, w1)" by (auto split: bind_splits)
  then show ?case using Suc serves_pass [OF p] serves_trans by fastforce
qed simp

end
