(* ===== verification/SlaveProps.thy ===== *)
theory SlaveProps
  imports ProtocolProps FddimageProps
begin

text \<open>
  The request server: what its output to the console and the display leaves alone, the answer to every
  request on the status port, and the service of a read request on a card that meets the contract of
  theory \<open>Diskio\<close>.
\<close>

section \<open>Console and display output\<close>

text \<open>
  \<open>port_frame\<close>: waiting for the transmitter and reading a port change the hardware state within the
  relation \<open>R\<close>.  \<open>quiet\<close> then says that nothing but console, display and hardware state changed.
\<close>

locale port_frame =
  fixes b :: "'d board" and R :: "'d \<Rightarrow> 'd \<Rightarrow> bool"
  assumes R_refl: "R d d"
    and R_trans: "R d1 d2 \<Longrightarrow> R d2 d3 \<Longrightarrow> R d1 d3"
    and R_uart: "R d (uart_wait b d)"
    and R_port: "rd_port b p d = (v, d') \<Longrightarrow> R d d'"
begin

definition quiet :: "'d world \<Rightarrow> 'd world \<Rightarrow> bool" where
  "quiet w w' \<longleftrightarrow>
     file1 w' = file1 w \<and> fddimage w' = fddimage w \<and> fdd_buffer w' = fdd_buffer w
     \<and> fdderror w' = fdderror w \<and> written SLAVE_STATUS w' = written SLAVE_STATUS w
     \<and> (\<exists>d. tffs w' = (tffs w)\<lparr>disk := d\<rparr> \<and> R (disk (tffs w)) d)"

lemma quiet_refl [simp]: "quiet w w"
  by (auto simp: quiet_def R_refl intro!: exI [of _ "disk (tffs w)"])

lemma quiet_trans [trans]: "quiet w1 w2 \<Longrightarrow> quiet w2 w3 \<Longrightarrow> quiet w1 w3"
  unfolding quiet_def by (fastforce intro: R_trans)

lemma quiet_update:
  assumes "file1 w' = file1 w" "fddimage w' = fddimage w" "fdd_buffer w' = fdd_buffer w"
    "fdderror w' = fdderror w" "outputs w' = outputs w" "tffs w' = tffs w"
  shows "quiet w w'"
  using assms R_refl by (auto simp: quiet_def written_def intro!: exI [of _ "disk (tffs w)"])

lemma quiet_out: "p \<noteq> SLAVE_STATUS \<Longrightarrow> quiet w (out_port p v w)"
  by (auto simp: quiet_def R_refl out_port_def written_def intro!: exI [of _ "disk (tffs w)"])

lemma quiet_disk: "R (disk (tffs w)) (f (disk (tffs w))) \<Longrightarrow> quiet w (upd_disk f w)"
  by (auto simp: quiet_def upd_disk_def written_def)

lemma quiet_in: "in_port b p w = (v, w') \<Longrightarrow> quiet w w'"
proof -
  assume a: "in_port b p w = (v, w')"
  obtain v' d where r: "rd_port b p (disk (tffs w)) = (v', d)" by fastforce
  then have "w' = upd_disk (\<lambda>_. d) w" using a by (simp add: in_port_def)
  then show ?thesis using quiet_disk [of w "\<lambda>_. d"] R_port [OF r] by simp
qed

lemma quiet_putc [intro]: "quiet w0 w \<Longrightarrow> quiet w0 (ser_putc b c w)"
proof -
  assume "quiet w0 w"
  also have "quiet w (upd_disk (uart_wait b) w)" by (rule quiet_disk) (rule R_uart)
  also have "quiet \<dots> (ser_putc b c w)" unfolding ser_putc_def by (rule quiet_out) simp
  finally show ?thesis .
qed

lemma quiet_puts [intro]: "quiet w0 w \<Longrightarrow> quiet w0 (ser_puts b s w)"
  by (induction s arbitrary: w) auto

lemma quiet_nl [intro]: "quiet w0 w \<Longrightarrow> quiet w0 (ser_nl b w)"
  unfolding ser_nl_def by blast

lemma quiet_hex [intro]: "quiet w0 w \<Longrightarrow> quiet w0 (print_hex b v w)"
  unfolding print_hex_def by blast

lemma quiet_log_port [intro]: "quiet w0 w \<Longrightarrow> quiet w0 (log_port b p w)"
  unfolding log_port_def by (auto split: prod.splits) (metis quiet_trans quiet_in quiet_hex)

lemma quiet_log_position [intro]: "quiet w0 w \<Longrightarrow> quiet w0 (log_position b w)"
  unfolding log_position_def Let_def by blast

lemma quiet_busy [intro]: "quiet w0 w \<Longrightarrow> quiet w0 (menu_busy 1 w)"
  by (rule quiet_trans, assumption, rule quiet_update)
    (simp_all add: menu_busy_def osd_puts_def osd_gotoxy_def Let_def)

lemmas quiet_intros = quiet_putc quiet_puts quiet_nl quiet_hex quiet_log_port quiet_log_position quiet_busy

text \<open>A request starts with the busy status; the position ports set the image's position.\<close>

lemma start_request_quiet: "quiet (out_port SLAVE_STATUS CPU_STATUS_BUSY w) (start_request b w)"
  unfolding start_request_def by (intro quiet_intros quiet_refl)

text \<open>The ports, read while the request is served, give the position.\<close>

lemma seek_request_position:
  assumes "\<And>d. fst (rd_port b MASTER_TRACK d) = track" and "\<And>d. fst (rd_port b MASTER_SECTOR d) = sector"
  shows "\<exists>w1. quiet w w1 \<and> seek_request b cmd w = w1
    \<lparr>fddimage := fst (fdd_seek (fddimage w) (0x01 AND cmd) track sector (fdderror w)),
     fdderror := snd (fdd_seek (fddimage w) (0x01 AND cmd) track sector (fdderror w))\<rparr>"
proof -
  obtain v1 w1 where p1: "in_port b MASTER_TRACK w = (v1, w1)" by fastforce
  obtain v2 w2 where p2: "in_port b MASTER_SECTOR w1 = (v2, w2)" by fastforce
  have v: "v1 = track" "v2 = sector"
    using p1 p2 assms by (auto simp: in_port_def split: prod.splits) (metis fst_conv)+
  have q: "quiet w w2" by (rule quiet_trans [OF quiet_in [OF p1] quiet_in [OF p2]])
  then have "fddimage w2 = fddimage w" "fdderror w2 = fdderror w" by (simp_all add: quiet_def)
  then show ?thesis using p1 p2 v q
    by (auto simp: seek_request_def split: prod.splits)
qed

end

section \<open>Serving a read request\<close>

text \<open>
  The board: a disk device whose medium and status do not change while the firmware waits for the
  transmitter or reads a port.
\<close>

locale fdc_board = disk_device "fio b" dinv dsec dcap
  for b :: "'d board" and dinv and dsec and dcap +
  assumes uart_card: "dinv d \<Longrightarrow> dinv (uart_wait b d) \<and> dsec (uart_wait b d) = dsec d
      \<and> dio_status (fio b) 0 (uart_wait b d) = dio_status (fio b) 0 d"
    and port_card: "dinv d \<Longrightarrow> rd_port b p d = (v, d') \<Longrightarrow> dinv d' \<and> dsec d' = dsec d
      \<and> dio_status (fio b) 0 d' = dio_status (fio b) 0 d"
begin

definition same_card :: "'d \<Rightarrow> 'd \<Rightarrow> bool" where
  "same_card d d' \<longleftrightarrow> (dinv d \<longrightarrow> dinv d' \<and> dsec d' = dsec d \<and> dio_status (fio b) 0 d' = dio_status (fio b) 0 d)"

end

sublocale fdc_board \<subseteq> port_frame b same_card
  by unfold_locales (auto simp: same_card_def dest: uart_card port_card)

context fdc_board
begin

lemma quiet_card:
  assumes "quiet w w'" "coh (tffs w)"
  shows "coh (tffs w')" "sv (tffs w) (tffs w')"
proof -
  obtain d where d: "tffs w' = (tffs w)\<lparr>disk := d\<rparr>" "same_card (disk (tffs w)) d"
    using assms(1) by (auto simp: quiet_def)
  have "dinv (disk (tffs w))" using assms(2) by (simp add: coherent_def)
  then have "dinv d" "dsec d = dsec (disk (tffs w))" "dio_status (fio b) 0 d = dio_status (fio b) 0 (disk (tffs w))"
    using d(2) by (auto simp: same_card_def)
  then show "coh (tffs w')" "sv (tffs w) (tffs w')"
    using assms(2) by (auto simp: d(1) coherent_def same_vol_def intro!: exI [of _ "fs_winsect (cur_fs (tffs w))"])
qed

lemma quiet_clear: "quiet w w' \<Longrightarrow> window_clear (tffs w') = window_clear (tffs w)"
  by (auto simp: quiet_def window_clear_def [abs_def])

text \<open>What the image file on the card offers does not change with the hardware state.\<close>

definition image_open :: "'d world \<Rightarrow> WORD list \<Rightarrow> bool" where
  "image_open w cl \<longleftrightarrow>
     coh (tffs w) \<and> vol_ok dcap (cur_fs (tffs w)) \<and> open_on (fio b) (file1 w) (tffs w)
     \<and> file_on (dsec (disk (tffs w))) (cur_fs (tffs w)) (file1 w) cl
     \<and> (FS_READONLY (fio b) \<or> \<not> has (fp_flag (file1 w)) FA_WRITE) \<and> 1024 \<le> length (fdd_buffer w)"

definition image_bytes :: "'d world \<Rightarrow> WORD list \<Rightarrow> BYTE list" where
  "image_bytes w cl = file_bytes (dsec (disk (tffs w))) (cur_fs (tffs w)) (file1 w) cl"

lemma image_moved:
  assumes "image_open w cl" "coh (tffs w')" "sv (tffs w) (tffs w')" "same_file (file1 w) (file1 w')"
    "length (fdd_buffer w') = length (fdd_buffer w)"
  shows "image_open w' cl" "image_bytes w' cl = image_bytes w cl"
proof -
  note t = transported [OF assms(3,4)]
  note f = same_file_simps [OF assms(4)]
  show "image_open w' cl"
    using assms(1,2,5) t f same_vol_simps(1) [OF assms(3)] validate_same [OF assms(3)]
    by (simp add: image_open_def open_on_def)
  show "image_bytes w' cl = image_bytes w cl" by (simp add: image_bytes_def file_bytes_def t f)
qed

lemma quiet_image:
  assumes "quiet w w'" "image_open w cl"
  shows "image_open w' cl" "image_bytes w' cl = image_bytes w cl"
proof -
  have q: "coh (tffs w')" "sv (tffs w) (tffs w')" using quiet_card [OF assms(1)] assms(2) by (auto simp: image_open_def)
  have "file1 w' = file1 w" "fdd_buffer w' = fdd_buffer w" using assms(1) by (simp_all add: quiet_def)
  then show "image_open w' cl" "image_bytes w' cl = image_bytes w cl"
    using image_moved [OF assms(2) q] by auto
qed

lemma status_codes:
  "status_code (fresult_code FR_OK) crc = CPU_STATUS_COMPLETE OR CPU_STATUS_SUCCESS"
  "status_code (fresult_code FR_RW_ERROR) True = CPU_STATUS_COMPLETE OR CPU_STATUS_CRC"
  "status_code (fresult_code FR_INVALID_DRIVE) crc = CPU_STATUS_COMPLETE"
  by (simp_all add: status_code_def slave_consts)

lemma seek_position:
  "fd_cur_side (fst (fdd_seek fdd side track sector e)) = side"
  "fd_cur_track (fst (fdd_seek fdd side track sector e)) = track"
  "fd_cur_sector (fst (fdd_seek fdd side track sector e)) = sector"
  by (simp_all add: fdd_seek_def fdd_clearerror_def)

lemma side_id: "1 \<le> unat sector \<Longrightarrow> unat sector \<le> 5 \<Longrightarrow> sector_id (0x01 AND cmd) sector"
proof -
  have "0x01 AND cmd \<le> (1 :: BYTE)" by (rule word_and_le2)
  then show ?thesis if "1 \<le> unat sector" "unat sector \<le> 5"
    using that by (simp add: sector_id_def word_le_nat_alt)
qed

text \<open>The first half of a request: busy, positioned, logged.\<close>

lemma positioned:
  assumes im: "image_open w cl"
    and ports: "\<And>d. fst (rd_port b MASTER_TRACK d) = track" "\<And>d. fst (rd_port b MASTER_SECTOR d) = sector"
    and sector: "1 \<le> unat sector" "unat sector \<le> 5"
    and w1: "quiet (out_port SLAVE_STATUS CPU_STATUS_BUSY w) w1"
    and w3: "w3 = log_position b (seek_request b cmd w1)"
  shows "image_open w3 cl" "image_bytes w3 cl = image_bytes w cl" "file1 w3 = file1 w"
    "fdd_buffer w3 = fdd_buffer w" "written SLAVE_STATUS w3 = written SLAVE_STATUS w @ [CPU_STATUS_BUSY]"
    "sv (tffs w) (tffs w3)"
    "unat (calc_offset (fddimage w3)) = image_offset (0x01 AND cmd) track sector"
    "window_clear (tffs w3) = window_clear (tffs w)"
proof -
  let ?w0 = "out_port SLAVE_STATUS CPU_STATUS_BUSY w"
  have out: "tffs ?w0 = tffs w" "file1 ?w0 = file1 w" "fdd_buffer ?w0 = fdd_buffer w" by (simp_all add: out_port_def)
  then have im0: "image_open ?w0 cl" "image_bytes ?w0 cl = image_bytes w cl" using im by (simp_all add: image_open_def image_bytes_def)
  obtain w2 where q2: "quiet w1 w2" and sk: "seek_request b cmd w1 = w2
      \<lparr>fddimage := fst (fdd_seek (fddimage w1) (0x01 AND cmd) track sector (fdderror w1)),
       fdderror := snd (fdd_seek (fddimage w1) (0x01 AND cmd) track sector (fdderror w1))\<rparr>"
    using seek_request_position [OF ports, of w1 cmd] by blast
  let ?w2 = "seek_request b cmd w1"
  have q3: "quiet ?w2 w3" unfolding w3 by (intro quiet_log_position quiet_refl)
  have q02: "quiet ?w0 w2" by (rule quiet_trans [OF w1 q2])
  show "window_clear (tffs w3) = window_clear (tffs w)"
    using quiet_clear [OF q02] quiet_clear [OF q3] out by (simp add: sk)
  have im2: "image_open ?w2 cl" "image_bytes ?w2 cl = image_bytes w cl"
    using quiet_image [OF q02 im0(1)] im0 by (simp_all add: sk image_open_def image_bytes_def)
  show "image_open w3 cl" "image_bytes w3 cl = image_bytes w cl"
    using quiet_image [OF q3 im2(1)] im2 by simp_all
  show "file1 w3 = file1 w" "fdd_buffer w3 = fdd_buffer w"
    "written SLAVE_STATUS w3 = written SLAVE_STATUS w @ [CPU_STATUS_BUSY]"
    using q02 q3 out by (simp_all add: quiet_def sk) (simp add: written_def)+
  show "sv (tffs w) (tffs w3)"
    using quiet_card(2) [OF q02] quiet_card(2) [OF q3] im0(1) im2(1) out
    by (simp add: image_open_def sk) (erule same_vol_trans, simp)
  have "fddimage w3 = fst (fdd_seek (fddimage w1) (0x01 AND cmd) track sector (fdderror w1))"
    using q3 by (simp add: quiet_def sk)
  then show "unat (calc_offset (fddimage w3)) = image_offset (0x01 AND cmd) track sector"
    using calc_offset_image [of "fddimage w3"] side_id [OF sector] by (simp add: seek_position)
qed

text \<open>The second half: the result is logged and answered.\<close>

lemma answered_request:
  assumes w4: "w4 = (set_tff s' w3)\<lparr>file1 := file', fdd_buffer := buf'\<rparr>" and s': "coh s'"
    and w6: "w6 = out_port SLAVE_STATUS v (print_hex b c1 (ser_putc b c2 w4))"
  shows "written SLAVE_STATUS w6 = written SLAVE_STATUS w3 @ [v]" "file1 w6 = file'" "fdd_buffer w6 = buf'"
    "coh (tffs w6)" "sv s' (tffs w6)"
    "image_open w4 cl \<Longrightarrow> image_open w6 cl \<and> image_bytes w6 cl = image_bytes w4 cl"
    "window_clear (tffs w6) = window_clear s'"
proof -
  let ?w5 = "print_hex b c1 (ser_putc b c2 w4)"
  have q: "quiet w4 ?w5" by (intro quiet_intros quiet_refl)
  have f4: "tffs w4 = s'" "file1 w4 = file'" "fdd_buffer w4 = buf'" "written SLAVE_STATUS w4 = written SLAVE_STATUS w3"
    by (simp_all add: w4 set_tff_def written_def)
  have f6: "tffs w6 = tffs ?w5" "file1 w6 = file1 ?w5" "fdd_buffer w6 = fdd_buffer ?w5" by (simp_all add: w6 out_port_def)
  show "written SLAVE_STATUS w6 = written SLAVE_STATUS w3 @ [v]" "file1 w6 = file'" "fdd_buffer w6 = buf'"
    using q f4 f6 by (simp_all add: quiet_def w6)
  show "window_clear (tffs w6) = window_clear s'" using quiet_clear [OF q] f4 f6 by simp
  show "coh (tffs w6)" "sv s' (tffs w6)" using quiet_card [OF q] s' f4 f6 by simp_all
  show "image_open w4 cl \<Longrightarrow> image_open w6 cl \<and> image_bytes w6 cl = image_bytes w4 cl"
    using quiet_image [OF q, of cl] f6 by (simp add: image_open_def image_bytes_def)
qed

lemma serve_read_answers:
  assumes im: "image_open w cl" and drv: "cmd AND 0x02 = 0"
    and ports: "\<And>d. fst (rd_port b MASTER_TRACK d) = track" "\<And>d. fst (rd_port b MASTER_SECTOR d) = sector"
    and sector: "1 \<le> unat sector" "unat sector \<le> 5"
    and q: "q = min (image_offset (0x01 AND cmd) track sector) (unat (fp_fsize (file1 w)))"
    and n: "n = min 1024 (unat (fp_fsize (file1 w)) - q)"
  shows "\<exists>r w'. serve_read b cmd w = Some (fresult_code r, 0, w')
    \<and> coh (tffs w') \<and> sv (tffs w) (tffs w') \<and> (reads_ok \<longrightarrow> r = FR_OK)
    \<and> (r = FR_OK \<and> written SLAVE_STATUS w' = written SLAVE_STATUS w @ [CPU_STATUS_BUSY, CPU_STATUS_COMPLETE OR CPU_STATUS_SUCCESS]
         \<and> image_open w' cl \<and> image_bytes w' cl = image_bytes w cl
         \<and> fdd_buffer w' = blit (fdd_buffer w) 0 (slice q n (image_bytes w cl))
       \<or> r = FR_RW_ERROR \<and> written SLAVE_STATUS w' = written SLAVE_STATUS w @ [CPU_STATUS_BUSY, CPU_STATUS_COMPLETE OR CPU_STATUS_CRC])"
proof -
  define w1 where "w1 = ser_puts b (bytes ''rHST:'') (start_request b w)"
  have q1: "quiet (out_port SLAVE_STATUS CPU_STATUS_BUSY w) w1"
    unfolding w1_def by (intro quiet_puts start_request_quiet)
  define w3 where "w3 = log_position b (seek_request b cmd w1)"
  note p = positioned [OF im ports sector q1 w3_def]
  have q': "q = min (unat (calc_offset (fddimage w3))) (unat (fp_fsize (file1 w3)))" using q p by simp
  have n': "n = min 1024 (unat (fp_fsize (file1 w3)) - q)" using n p by simp
  from p(1) [unfolded image_open_def]
  have "\<exists>r file' buffer' s'. fdd_readsector (fio b) (fddimage w3) (file1 w3) (fdd_buffer w3) (tffs w3) = Some (r, file', buffer', s')
    \<and> coh s' \<and> sv (tffs w3) s' \<and> length buffer' = length (fdd_buffer w3) \<and> (reads_ok \<longrightarrow> r = FR_OK)
    \<and> (r = FR_OK \<and> same_file (file1 w3) file' \<and> buffer' = blit (fdd_buffer w3) 0 (slice q n (image_bytes w3 cl))
       \<or> r = FR_RW_ERROR \<and> has (fp_flag file') FA_ERROR)"
    unfolding image_bytes_def by (intro fdd_readsector_content [OF _ _ _ _ _ _ q' n']) auto
  then obtain r file' buf' s' where rd: "fdd_readsector (fio b) (fddimage w3) (file1 w3) (fdd_buffer w3) (tffs w3) = Some (r, file', buf', s')"
    and s': "coh s'" "sv (tffs w3) s'" "length buf' = length (fdd_buffer w3)" "reads_ok \<longrightarrow> r = FR_OK"
    and res: "r = FR_OK \<and> same_file (file1 w3) file' \<and> buf' = blit (fdd_buffer w3) 0 (slice q n (image_bytes w3 cl))
       \<or> r = FR_RW_ERROR \<and> has (fp_flag file') FA_ERROR" by blast
  define w4 where "w4 = (set_tff s' w3)\<lparr>file1 := file', fdd_buffer := buf'\<rparr>"
  define w6 where "w6 = out_port SLAVE_STATUS (status_code (fresult_code r) True) (print_hex b (fresult_code r) (ser_putc b 0x3A w4))"
  note a = answered_request [OF w4_def s'(1) w6_def]
  have sr: "serve_read b cmd w = Some (fresult_code r, 0, w6)"
    using rd by (simp add: serve_read_def Let_def drv w1_def [symmetric] w3_def [symmetric] w4_def [symmetric] w6_def)
  have sv: "sv (tffs w) (tffs w6)" using same_vol_trans [OF same_vol_trans [OF p(6) s'(2)] a(5)] .
  have "image_open w4 cl \<and> image_bytes w4 cl = image_bytes w cl" if "same_file (file1 w3) file'"
    using image_moved [OF p(1), of w4] s' that p(2) by (simp add: w4_def set_tff_def)
  then show ?thesis using sr a(1-4) a(6) [of cl] p(2,4,5) sv s'(4) res
    by (intro exI [of _ r] exI [of _ w6]) (auto simp: status_codes simp del: fresult_code.simps)
qed

text \<open>Serving a write request; the drive test passes (\<open>t1\<close> is 0) and the sector lies in the image.\<close>

lemma image_touched:
  assumes im: "image_open w cl" and tc: "touched (tffs w) (tffs w') cl a j" and sf: "same_file (file1 w) (file1 w')"
    and len: "length (fdd_buffer w') = length (fdd_buffer w)"
  shows "image_open w' cl"
    "image_bytes w' cl = file_bytes (dsec (disk (tffs w'))) (cur_fs (tffs w)) (file1 w) cl"
proof -
  note I = im [unfolded image_open_def]
  have v: "same_objs (fio b) (tffs w) (tffs w')" using tc by (simp add: touched_def)
  note f = same_file_simps [OF sf] and t = touched_file [OF tc sf]
  show "image_open w' cl"
    using I t(1,2) tc len f same_vol_simps(1) [OF v] validate_same [OF v]
    by (simp add: image_open_def open_on_def touched_def)
  show "image_bytes w' cl = file_bytes (dsec (disk (tffs w'))) (cur_fs (tffs w)) (file1 w) cl"
    using t(4) I by (simp add: image_bytes_def file_bytes_def f)
qed

lemma serve_write_answers:
  assumes im: "image_open w cl" and dc: "distinct cl" and clr: "window_clear (tffs w) cl"
    and ports: "\<And>d. fst (rd_port b MASTER_TRACK d) = track" "\<And>d. fst (rd_port b MASTER_SECTOR d) = sector"
    and sector: "1 \<le> unat sector" "unat sector \<le> 5"
    and q: "q = image_offset (0x01 AND cmd) track sector" "q + 1024 \<le> unat (fp_fsize (file1 w))"
  shows "\<exists>r w'. serve_write b cmd 0 w = Some (fresult_code r, 0, w')
    \<and> touched (tffs w) (tffs w') cl (q div 512) 2 \<and> (reads_ok \<and> writes_ok \<longrightarrow> r = FR_OK)
    \<and> fdd_buffer w' = fdd_buffer w
    \<and> (r = FR_OK \<and> written SLAVE_STATUS w' = written SLAVE_STATUS w @ [CPU_STATUS_BUSY, CPU_STATUS_COMPLETE OR CPU_STATUS_SUCCESS]
         \<and> image_open w' cl
         \<and> image_bytes w' cl = blit (image_bytes w cl) q (take 1024 (fdd_buffer w))
       \<or> r = FR_RW_ERROR \<and> written SLAVE_STATUS w' = written SLAVE_STATUS w @ [CPU_STATUS_BUSY, CPU_STATUS_COMPLETE OR CPU_STATUS_CRC])"
proof -
  define w1 where "w1 = ser_puts b (bytes ''wHST:'') (log_port b MASTER_TRACK (print_hex b cmd (start_request b w)))"
  have q1: "quiet (out_port SLAVE_STATUS CPU_STATUS_BUSY w) w1"
    unfolding w1_def by (intro quiet_intros start_request_quiet)
  define w2 where "w2 = log_position b (seek_request b cmd w1)"
  note p = positioned [OF im ports sector q1 w2_def]
  define w3 where "w3 = log_port b MASTER_TRACK w2"
  have q3: "quiet w2 w3" unfolding w3_def by (intro quiet_intros quiet_refl)
  have f3: "file1 w3 = file1 w" "fdd_buffer w3 = fdd_buffer w" "fddimage w3 = fddimage w2"
    "written SLAVE_STATUS w3 = written SLAVE_STATUS w @ [CPU_STATUS_BUSY]"
    using q3 p(3-5) by (simp_all add: quiet_def)
  have im3: "image_open w3 cl" and by3: "image_bytes w3 cl = image_bytes w cl"
    using quiet_image [OF q3 p(1)] p(2) by simp_all
  have clr3: "window_clear (tffs w3) cl" using quiet_clear [OF q3] p(8) clr by simp
  have sv3: "sv (tffs w) (tffs w3)"
    using same_vol_trans [OF p(6) quiet_card(2) [OF q3]] p(1) by (simp add: image_open_def)
  have "1 \<le> sector \<and> sector \<le> 5" using sector by (simp add: word_le_nat_alt)
  then have q': "unat (calc_offset (fddimage w3)) = q" "q mod 512 = 0" "q + 1024 \<le> unat (fp_fsize (file1 w3))"
    using p(7) q f3 by (simp_all add: image_offset_def mod_mult_right_eq)
  from im3 [unfolded image_open_def]
  have "\<exists>r file' s'. fdd_writesector (fio b) (fddimage w3) (file1 w3) (fdd_buffer w3) (tffs w3) = Some (r, file', fdd_buffer w3, s')
    \<and> touched (tffs w3) s' cl (q div 512) 2 \<and> (reads_ok \<and> writes_ok \<longrightarrow> r = FR_OK)
    \<and> (r = FR_OK \<and> same_file (file1 w3) file'
         \<and> file_bytes (dsec (disk s')) (cur_fs (tffs w3)) (file1 w3) cl = blit (image_bytes w3 cl) q (take 1024 (fdd_buffer w3))
       \<or> r = FR_RW_ERROR \<and> has (fp_flag file') FA_ERROR)"
    unfolding image_bytes_def by (intro fdd_writesector_content [OF _ _ _ _ _ _ dc clr3 q']) auto
  then obtain r file' s' where wr: "fdd_writesector (fio b) (fddimage w3) (file1 w3) (fdd_buffer w3) (tffs w3) = Some (r, file', fdd_buffer w3, s')"
    and s': "touched (tffs w3) s' cl (q div 512) 2" "reads_ok \<and> writes_ok \<longrightarrow> r = FR_OK"
    and res: "r = FR_OK \<and> same_file (file1 w3) file'
         \<and> file_bytes (dsec (disk s')) (cur_fs (tffs w3)) (file1 w3) cl = blit (image_bytes w3 cl) q (take 1024 (fdd_buffer w3))
       \<or> r = FR_RW_ERROR \<and> has (fp_flag file') FA_ERROR" by blast
  define w4 where "w4 = (set_tff s' w3)\<lparr>file1 := file', fdd_buffer := fdd_buffer w3\<rparr>"
  define w6 where "w6 = out_port SLAVE_STATUS (status_code (fresult_code r) True) (print_hex b (fresult_code r) (ser_putc b 0x3A w4))"
  have coh': "coh s'" using s'(1) by (simp add: touched_def)
  note a = answered_request [OF w4_def coh' w6_def]
  have sw: "serve_write b cmd 0 w = Some (fresult_code r, 0, w6)"
    using wr by (simp add: serve_write_def Let_def w1_def [symmetric] w2_def [symmetric] w3_def [symmetric] w4_def [symmetric] w6_def)
  have "window_clear (tffs w6) cl" using a(7) s'(1) by (simp add: touched_def)
  then have tc: "touched (tffs w) (tffs w6) cl (q div 512) 2"
    using touched_trans [OF touched_none [where j = 0, OF _ clr3 sv3] touched_trans [OF _ touched_none [where j = 0, OF a(4) _ a(5)]]]
      s'(1) im3 by (simp add: image_open_def)
  have "image_open w4 cl \<and> image_bytes w4 cl = blit (image_bytes w cl) q (take 1024 (fdd_buffer w))" if "r = FR_OK"
    using image_touched [OF im3, of w4 "q div 512" 2] that s'(1) res by3 f3(2) by (simp add: w4_def set_tff_def)
  then show ?thesis using sw a(1-3) a(6) [of cl] f3 tc s'(2) res
    by (intro exI [of _ r] exI [of _ w6]) (auto simp: status_codes simp del: fresult_code.simps)
qed

end

end
