(* ===== verification/SlaveTheorems.thy ===== *)
theory SlaveTheorems
  imports SlaveProps Ram_Volume
begin

text \<open>
  The correctness theorems of the request server and the menu, each with an application to a board
  whose card is the volume of theory \<open>Ram_Volume\<close>.
\<close>

section \<open>A board\<close>

definition ram_board :: "BYTE \<Rightarrow> BYTE \<Rightarrow> (nat \<Rightarrow> BYTE list) board" where
  "ram_board cmd joy =
     \<lparr>fio = ram_io, disk_poll_op = (\<lambda>drv d. (0, d)),
      rd_port = (\<lambda>p d. (case p of JOYSTICK \<Rightarrow> joy | MASTER_COMMAND \<Rightarrow> cmd | MASTER_TRACK \<Rightarrow> 0 | MASTER_SECTOR \<Rightarrow> 1, d)),
      uart_wait = (\<lambda>d. d), timer2_wait = (\<lambda>n d. d), null_str = []\<rparr>"

interpretation ram_fdc: fdc_board "ram_board cmd joy" ram_ok "\<lambda>d. d" ram_cap for cmd joy
proof -
  have io: "fio (ram_board cmd joy) = ram_io" for cmd joy by (simp add: ram_board_def)
  show "fdc_board (ram_board cmd joy) ram_ok (\<lambda>d. d) ram_cap" for cmd joy
    unfolding fdc_board_def fdc_board_axioms_def io
    using ram.disk_device_axioms by (auto simp: ram_board_def)
qed

definition demo_world :: "(nat \<Rightarrow> BYTE list) world" where
  "demo_world =
     \<lparr>tffs = demo_state,
      g_finfo = \<lparr>fi_fsize = 0, fi_fdate = 0, fi_ftime = 0, fi_fattrib = 0, fi_fname = replicate 13 0\<rparr>,
      g_dir = \<lparr>dir_id = 0, dir_index = 0, dir_fs = 0, dir_sclust = 0, dir_clust = 0, dir_sect = 0\<rparr>,
      ptrfile = ptrfile_init, fdderror = 0,
      fddimage = \<lparr>fd_nsides = 2, fd_ntracks = 5, fd_nsectors = 5, fd_sectorsize = 1024, fd_cur_side = 0,
        fd_cur_sector = 0, fd_cur_track = 0, fd_offset = 0, fd_ready = 0\<rparr>,
      file1 = demo_file, fdd_buffer = replicate 1024 0, leds = 1, blink_delay = 1, osd_x = 0, osd_y = 0,
      osd_inverse = 0, dmem = replicate 256 32, fsel_pagestart = 0, fsel_redraw = 0, fsel_hasnextpage = 0,
      joy_status = 0, menu_state = 0, menu_x = 0, menu_y = 0, menu_selected = 0, osdcmd = 0,
      inactivity = 0, dude_seqno = 0, outputs = []\<rparr>"

lemma demo_world_simps [simp]:
  "tffs demo_world = demo_state" "file1 demo_world = demo_file" "fdd_buffer demo_world = replicate 1024 0"
  "written p demo_world = []" "length (dmem demo_world) = 256" "menu_state demo_world = STATE_MENU"
  "osdcmd demo_world = 0" "menu_x demo_world = 0" "menu_y demo_world = 0"
  by (simp_all add: demo_world_def written_def STATE_MENU_def)

lemma demo_menu_ok: "menu_ok demo_world"
  by (simp add: menu_ok_def DISPLAY_RAMSIZE_def)

section \<open>Serving requests\<close>

text \<open>C12: A read request is answered with the addressed sector of the disk image.  On a board whose ports
  and transmitter leave the card alone, with the image file open for reading and the host's track and
  sector registers stable, \<open>serve_read\<close> terminates and writes busy and then one completion code to the
  status port.  With the success code the sector buffer starts with the bytes of the image file from the
  sector's offset (side by command bit 0, track and sector by the registers) on, the file is still open
  and its contents unchanged, so that the next request can be served; the only other outcome is the CRC
  code after a disk error, which a card whose reads do not fail never causes.\<close>

theorem read_request_delivers:
  assumes "fdc_board b dinv dsec dcap"
    and "coherent dinv dsec dcap (tffs w)" and "vol_ok dcap (cur_fs (tffs w))"
    and "open_on (fio b) (file1 w) (tffs w)"
    and "file_on (dsec (disk (tffs w))) (cur_fs (tffs w)) (file1 w) cl"
    and "FS_READONLY (fio b) \<or> \<not> has (fp_flag (file1 w)) FA_WRITE" and "1024 \<le> length (fdd_buffer w)"
    and "cmd AND 0x02 = 0" and "\<And>d. fst (rd_port b MASTER_TRACK d) = track"
    and "\<And>d. fst (rd_port b MASTER_SECTOR d) = sector" and "1 \<le> unat sector" and "unat sector \<le> 5"
    and "q = min (image_offset (0x01 AND cmd) track sector) (unat (fp_fsize (file1 w)))"
    and "n = min 1024 (unat (fp_fsize (file1 w)) - q)"
  shows "\<exists>r w'. serve_read b cmd w = Some (fresult_code r, 0, w')
    \<and> (reliable_device (fio b) dinv dsec dcap \<longrightarrow> r = FR_OK)
    \<and> (r = FR_OK
         \<and> written SLAVE_STATUS w' = written SLAVE_STATUS w @ [CPU_STATUS_BUSY, CPU_STATUS_COMPLETE OR CPU_STATUS_SUCCESS]
         \<and> fdd_buffer w' = blit (fdd_buffer w) 0
             (slice q n (file_bytes (dsec (disk (tffs w))) (cur_fs (tffs w)) (file1 w) cl))
         \<and> open_on (fio b) (file1 w') (tffs w')
         \<and> file_bytes (dsec (disk (tffs w'))) (cur_fs (tffs w')) (file1 w') cl
             = file_bytes (dsec (disk (tffs w))) (cur_fs (tffs w)) (file1 w) cl
       \<or> r = FR_RW_ERROR
         \<and> written SLAVE_STATUS w' = written SLAVE_STATUS w @ [CPU_STATUS_BUSY, CPU_STATUS_COMPLETE OR CPU_STATUS_CRC])"
proof -
  note f = assms(1)
  have "fdc_board.image_open b dinv dsec dcap w cl"
    unfolding fdc_board.image_open_def [OF f] using assms(2-7) by blast
  from fdc_board.serve_read_answers [OF f this assms(8-14)]
  obtain r w' where s: "serve_read b cmd w = Some (fresult_code r, 0, w')"
    and ok: "disk_device.reads_ok (fio b) dinv dcap \<longrightarrow> r = FR_OK"
    and res: "r = FR_OK
        \<and> written SLAVE_STATUS w' = written SLAVE_STATUS w @ [CPU_STATUS_BUSY, CPU_STATUS_COMPLETE OR CPU_STATUS_SUCCESS]
        \<and> fdc_board.image_open b dinv dsec dcap w' cl \<and> fdc_board.image_bytes dsec w' cl = fdc_board.image_bytes dsec w cl
        \<and> fdd_buffer w' = blit (fdd_buffer w) 0 (slice q n (fdc_board.image_bytes dsec w cl))
      \<or> r = FR_RW_ERROR
        \<and> written SLAVE_STATUS w' = written SLAVE_STATUS w @ [CPU_STATUS_BUSY, CPU_STATUS_COMPLETE OR CPU_STATUS_CRC]"
    by blast
  then show ?thesis
    unfolding fdc_board.image_open_def [OF f] fdc_board.image_bytes_def [OF f]
    using reliable_device.reliable by blast
qed

theorem read_request_delivers_witness:
  "\<exists>w'. serve_read (ram_board 0 0) 0x11 demo_world = Some (0, 0, w')
    \<and> written SLAVE_STATUS w' = [0x80, 0x03]
    \<and> fdd_buffer w' = replicate 512 3 @ replicate 488 4 @ replicate 24 0"
proof -
  let ?b = "ram_board 0 0"
  have io: "fio ?b = ram_io" by (simp add: ram_board_def)
  have p: "fst (rd_port ?b MASTER_TRACK d) = 0" "fst (rd_port ?b MASTER_SECTOR d) = 1" for d
    by (simp_all add: ram_board_def)
  have v: "vol_ok ram_cap (cur_fs (tffs demo_world))" using demo_vol by simp
  have o: "open_on (fio ?b) (file1 demo_world) (tffs demo_world)" using demo_open by (simp add: io)
  have f: "file_on (disk (tffs demo_world)) (cur_fs (tffs demo_world)) (file1 demo_world) [2, 3]" using demo_file_on by simp
  have c: "coherent ram_ok (\<lambda>d. d) ram_cap (tffs demo_world)" using demo_coherent by simp
  have q: "0 = min (image_offset (0x01 AND 0x11) 0 1) (unat (fp_fsize (file1 demo_world)))"
    by (simp add: image_offset_def demo_file_def)
  have n: "1000 = min 1024 (unat (fp_fsize (file1 demo_world)) - 0)" by (simp add: demo_file_def)
  have r: "reliable_device (fio ?b) ram_ok (\<lambda>d. d) ram_cap" using ram.reliable_device_axioms by (simp add: io)
  from read_request_delivers [OF ram_fdc.fdc_board_axioms c v o f _ _ _ p _ _ q n] r
  obtain w' where w': "serve_read ?b 0x11 demo_world = Some (0, 0, w')"
    "written SLAVE_STATUS w' = [CPU_STATUS_BUSY, CPU_STATUS_COMPLETE OR CPU_STATUS_SUCCESS]"
    "fdd_buffer w' = blit (replicate 1024 0) 0 (slice 0 1000 (file_bytes demo_sec demo_fs demo_file [2, 3]))"
    by (fastforce simp: io ram_io_def)
  have "slice 0 1000 (file_bytes demo_sec demo_fs demo_file [2, 3]) = replicate 512 3 @ replicate 488 4"
    by (simp add: demo_bytes slice_def take_replicate)
  then show ?thesis using w' by (simp add: blit_def slave_consts)
qed

text \<open>C14: Everything the firmware says to the host on the status port is well-formed, however long it
  serves: from any state of the request loop, after any number of rounds, the values written are idle
  values and pairs of busy and one completion code (complete, complete with success, complete with
  CRC error), and the menu's invariant still holds.  This includes every console, display and menu
  activity between requests, and holds for every behaviour of the card and the ports.\<close>

theorem request_protocol:
  assumes "serving b (r0, t0, w0) (r, t, w)"
  shows "(\<exists>xs. written SLAVE_STATUS w = written SLAVE_STATUS w0 @ xs \<and> answers xs)
    \<and> (menu_ok w0 \<longrightarrow> menu_ok w)"
  using serving_serves [OF assms] by (auto simp: serves_def)

theorem request_protocol_witness:
  "\<exists>t w xs. serving (ram_board 0x80 0) (0, 2, demo_world) (0, t, w)
     \<and> written SLAVE_STATUS w = [0] \<and> answers [0] \<and> menu_ok w"
proof -
  let ?b = "ram_board 0x80 0"
  obtain w where r: "slave_round ?b 2 demo_world = Some (GoOn 0 2 w)" and w: "written SLAVE_STATUS w = [0]"
    by (simp add: slave_round_def ram_board_def in_port_def upd_disk_def demo_world_def Let_def slave_consts
        out_port_def ser_putc_def written_def)
  have s: "serving ?b (0, 2, demo_world) (0, 2, w)"
    by (rule serving.round [OF serving.start _ r]) simp
  from request_protocol [OF s] show ?thesis using s w demo_menu_ok by auto
qed

text \<open>C24: From power-on, after any number of passes of the eternal loop, the history of the status port is
  well-formed and the menu's invariant holds: the state is one of the six menu states, the cursor is
  within the menu or the selector, the display memory keeps its size, the command port shows the command
  variable, and every reset or restart pulse on it has been released.\<close>

theorem firmware_passes_safe:
  assumes "thrall_passes b r t n (main_start b w0) = Some (first, w)"
    and "outputs w0 = []" and "length (dmem w0) = DISPLAY_RAMSIZE"
  shows "menu_ok w \<and> answers (written SLAVE_STATUS w)
    \<and> (written OSD_CMD w \<noteq> [] \<longrightarrow> last (written OSD_CMD w) = osdcmd w) \<and> pulses (written OSD_CMD w)"
proof -
  define w1 where "w1 = out_port GREEN_LEDS 0xC3 (out_port SLAVE_STATUS 0 w0)"
  define w2 where "w2 = ser_puts b cnotice2 (ser_nl b (ser_puts b cnotice1 (ser_nl b
    (delay2 b 10 (ser_puts b (bytes ''@'') w1)))))"
  have st: "main_start b w0 = (0, menu_init (out_port SLAVE_STATUS CPU_STATUS_DRVNOTRDY w2))"
    by (simp add: main_start_def thrall_start_def Let_def w1_def w2_def)
  have f: "screen_frame w1 w2" unfolding w2_def delay2_def by (intro screen_intros screen_refl)
  have w2: "length (dmem w2) = DISPLAY_RAMSIZE" "written OSD_CMD w2 = []" "written SLAVE_STATUS w2 = [0]"
    using f assms(2,3) by (simp_all add: screen_frame_def w1_def) (simp_all add: written_def)
  let ?w = "menu_init (out_port SLAVE_STATUS CPU_STATUS_DRVNOTRDY w2)"
  have "menu_ok ?w" using w2 by (intro init_menu_ok) simp_all
  moreover have "written SLAVE_STATUS ?w = [0, CPU_STATUS_DRVNOTRDY]"
    using keeps_init [OF keeps_refl, of "out_port SLAVE_STATUS CPU_STATUS_DRVNOTRDY w2"] w2(3)
    by (simp add: keeps_menu_def)
  moreover have "serves ?w w" using assms(1) unfolding st by (rule serves_passes)
  ultimately have "menu_ok w" "answers (written SLAVE_STATUS w)"
    using answers_append [of "[0, CPU_STATUS_DRVNOTRDY]"]
    by (auto simp: serves_def slave_consts split: if_splits)
  then show ?thesis by (simp add: menu_ok_def)
qed

text \<open>A board without a card: the drive does not initialise.\<close>

definition empty_board :: "(nat \<Rightarrow> BYTE list) board" where
  "empty_board = (ram_board 0 0)\<lparr>fio := ram_io\<lparr>dio_initialize := \<lambda>drv d. (STA_NOINIT, d)\<rparr>\<rparr>"

lemma empty_opendir: "\<exists>w'. philes_opendir empty_board (snd (philes_mount empty_board w)) = Some (FR_NOT_READY, w')"
  by (simp add: philes_opendir_def philes_mount_def f_mount_def f_opendir_def auto_mount_def mount_drive_def
      empty_board_def ram_board_def ram_io_def Let_def fatfs_addr_def upd_fs_def zero_FATFS_def set_tff_def has_def tff_consts STA_NOINIT_def)

lemma menu_dispatch_menu:
  assumes "menu_state w = STATE_MENU"
  shows "\<exists>v w'. menu_dispatch b False w = Some (v, w')"
  using assms by (auto simp: menu_dispatch_def Let_def in_port_def upd_disk_def menu_event_def split: prod.splits)

theorem firmware_passes_safe_witness:
  "\<exists>first w. thrall_passes empty_board 0 0 1 (main_start empty_board demo_world) = Some (first, w)
     \<and> menu_ok w \<and> answers (written SLAVE_STATUS w)"
proof -
  obtain f0 w0 where s: "main_start empty_board demo_world = (f0, w0)" by fastforce
  obtain r0 m where pm: "philes_mount empty_board (out_port SLAVE_STATUS CPU_STATUS_DRVNOTRDY w0) = (r0, m)" by fastforce
  obtain w1 where o: "philes_opendir empty_board m = Some (FR_NOT_READY, w1)"
    using empty_opendir pm by (metis snd_conv)
  have "menu_state (menu_busy 2 w1) = STATE_MENU"
    by (simp add: menu_busy_def menu_init_def osd_puts_def osd_gotoxy_def Let_def)
  then obtain v w2 where d: "menu_dispatch empty_board False (menu_busy 2 w1) = Some (v, w2)"
    using menu_dispatch_menu by blast
  have t: "thrall_passes empty_board 0 0 1 (main_start empty_board demo_world) = Some (f0, delay2 empty_board 10 w2)"
    using o d by (simp add: s thrall_pass_def thrall_try_def pm)
  show ?thesis using firmware_passes_safe [OF t] t by (simp add: demo_world_def DISPLAY_RAMSIZE_def)
qed

section \<open>The menu\<close>

text \<open>C26: A file name shown in a slot of the selector and then selected is the name passed on to the file
  system: after \<open>fsel_show\<close> has put a name of up to 12 displayable characters in slot \<open>i\<close>, and whether
  the slot is highlighted or not, \<open>fsel_getselected\<close> stores exactly the name and a terminator.\<close>

theorem selector_roundtrip:
  assumes "i < 12" and "length (dmem w) = DISPLAY_RAMSIZE" and "cs = strxcpy 12 fname" and "list_all shown_char cs"
    and "p = unat (fsel_index2offs (of_nat i))"
    and "w1 = put_name (DDisplay p) cs (w\<lparr>dmem := poke p (replicate 12 32) (dmem w)\<rparr>)"
  shows "ptrfile (fsel_getselected ofs (fsel_showselection on (w1\<lparr>menu_selected := of_nat i\<rparr>)))
    = poke ofs (cs @ [0]) (ptrfile w)"
proof -
  have p: "p = slot_start i" using slot_offset [OF assms(1)] assms(5) by simp
  show ?thesis
    using selected_name [OF assms(1) _ assms(3,4), where mem = "dmem w" and w = "w1\<lparr>menu_selected := of_nat i\<rparr>" and ofs = ofs] assms(2)
    by (simp add: assms(6) p put_name_def shown_in_def DISPLAY_RAMSIZE_def)
qed

theorem selector_roundtrip_witness:
  "take 15 (ptrfile (fsel_getselected 10 (fsel_showselection True
      ((put_name (DDisplay 81) [0x41, 0x2E, 0x46] (demo_world\<lparr>dmem := poke 81 (replicate 12 32) (dmem demo_world)\<rparr>))\<lparr>menu_selected := 3\<rparr>))))
    = bytes ''/VECTOR06/A.F'' @ [0, 0x78]"
proof -
  have p: "81 = unat (fsel_index2offs (of_nat 3))" by (simp add: fsel_index2offs_def)
  have "strxcpy 12 [0x41, 0x2E, 0x46, 0] = [0x41, 0x2E, 0x46]" by (simp add: strxcpy_take cstr_def)
  from selector_roundtrip [OF _ _ this [symmetric] _ p refl, where w = demo_world and ofs = 10 and on = True]
  show ?thesis by (simp add: shown_char_def DISPLAY_RAMSIZE_def demo_world_def ptrfile_init_def bytes_def)
qed

text \<open>C27: The menu never leaves its state machine and never speaks to the host: every call of
  \<open>menu_dispatch\<close>, whatever the joystick shows and whatever the card delivers to the file selector, keeps
  the menu's invariant, and leaves the status port alone.\<close>

theorem menu_dispatch_safe:
  assumes "menu_dispatch b tick w = Some (v, w')" and "menu_ok w"
  shows "menu_ok w' \<and> written SLAVE_STATUS w' = written SLAVE_STATUS w"
  using keeps_dispatch [OF keeps_refl assms(1)] assms(2) by (simp add: keeps_menu_def)

theorem menu_dispatch_safe_witness:
  "\<exists>v w'. menu_dispatch (ram_board 0 JOY_FIRE) False demo_world = Some (v, w') \<and> menu_ok w'"
  using menu_dispatch_safe [OF _ demo_menu_ok] menu_dispatch_menu [of demo_world] by fastforce

end
