(* ===== verification/WriteTheorems.thy ===== *)
theory WriteTheorems
  imports SlaveTheorems TffTheorems TableTheorems
begin

text \<open>
  The correctness theorems of writing a disk image: \<open>f_write_inplace\<close> on the file, the image layer on top
  of it, and the host's write request, with applications to the volume of theory \<open>Ram_Volume\<close>.
\<close>

text \<open>A file of the volume after an operation that may change only \<open>j\<close> of its sectors, from sector \<open>a\<close> on.\<close>

definition only_sectors :: "'d diskio \<Rightarrow> ('d \<Rightarrow> bool) \<Rightarrow> ('d \<Rightarrow> nat \<Rightarrow> BYTE list) \<Rightarrow> nat \<Rightarrow>
    'd tff \<Rightarrow> 'd tff \<Rightarrow> WORD list \<Rightarrow> nat \<Rightarrow> nat \<Rightarrow> bool" where
  "only_sectors io dinv dsec dcap s s' cl a j \<longleftrightarrow>
     coherent dinv dsec dcap s' \<and> window_clear s' cl \<and> same_vol io (\<lambda>_ _. []) s s'
     \<and> (\<forall>m. m \<notin> set (slice a j (chain_sectors (cur_fs s) cl)) \<longrightarrow> dsec (disk s') m = dsec (disk s) m)"

lemma touched_only:
  assumes "disk_device io dinv dsec dcap"
  shows "disk_device.touched io dinv dsec dcap = only_sectors io dinv dsec dcap"
  by (intro ext) (simp add: only_sectors_def disk_device.touched_def [OF assms])

lemma only_sectors_file:
  assumes "disk_device io dinv dsec dcap" "only_sectors io dinv dsec dcap s s' cl a j" "same_file fp fp'"
    "vol_ok dcap (cur_fs s)" "file_on (dsec (disk s)) (cur_fs s) fp cl" "open_on io fp s"
  shows "vol_ok dcap (cur_fs s')" "file_on (dsec (disk s')) (cur_fs s') fp' cl" "open_on io fp' s'"
    "file_bytes sec (cur_fs s') fp' cl = file_bytes sec (cur_fs s) fp cl"
proof -
  note t = disk_device.touched_file [OF assms(1) assms(2) [folded touched_only [OF assms(1)]] assms(3-5)]
  note f = same_file_simps [OF assms(3)]
  show "vol_ok dcap (cur_fs s')" "file_on (dsec (disk s')) (cur_fs s') fp' cl" by (fact t)+
  show "file_bytes sec (cur_fs s') fp' cl = file_bytes sec (cur_fs s) fp cl" by (simp add: file_bytes_def f t(4))
  have v: "same_vol io (\<lambda>_ _. []) s s'" using assms(2) by (simp add: only_sectors_def)
  show "open_on io fp' s'"
    using assms(6) validate_same [OF v] same_vol_simps(1) [OF v] by (simp add: open_on_def f)
qed

section \<open>Writing in place\<close>

text \<open>C8: \<open>f_write_inplace\<close> overwrites bytes of a file and nothing else.  For an open handle on a sector
  boundary, a file whose chain has no cluster twice and whose sectors the window does not show, and a
  whole number of sectors to write (what was asked for, cut to the end of the file), it terminates; it
  leaves every sector of the medium outside the written range alone, and the handle's volume and the
  coherence of the window intact, even when it fails; with \<open>FR_OK\<close> the contents of the file are the old
  contents with the buffer in place at the file pointer, which has moved behind it.  The only other result
  is \<open>FR_RW_ERROR\<close>, which a device that does not fail never causes.\<close>

theorem f_write_inplace_stores:
  assumes "disk_device io dinv dsec dcap" and "coherent dinv dsec dcap s" and "vol_ok dcap (cur_fs s)"
    and "open_on io fp s" and "file_on (dsec (disk s)) (cur_fs s) fp cl" and "pos_ok (cur_fs s) cl fp"
    and "distinct cl" and "window_clear s cl"
    and "n = min (unat btw) (unat (fp_fsize fp) - unat (fp_fptr fp))" and "n \<le> length buf"
    and "unat (fp_fptr fp) mod 512 = 0" and "n mod 512 = 0"
  shows "\<exists>r fp' bw s'. f_write_inplace io fp buf btw s = Some (r, fp', buf, bw, s')
    \<and> only_sectors io dinv dsec dcap s s' cl (unat (fp_fptr fp) div 512) (n div 512)
    \<and> (io_ok io dinv dcap \<longrightarrow> r = FR_OK)
    \<and> (r = FR_OK \<and> same_file fp fp' \<and> pos_ok (cur_fs s) cl fp'
        \<and> unat bw = n \<and> unat (fp_fptr fp') = unat (fp_fptr fp) + n
        \<and> file_bytes (dsec (disk s')) (cur_fs s) fp cl
          = blit (file_bytes (dsec (disk s)) (cur_fs s) fp cl) (unat (fp_fptr fp)) (take n buf)
       \<or> r = FR_RW_ERROR \<and> has (fp_flag fp') FA_ERROR)"
  using disk_device.f_write_inplace_content [OF assms]
  unfolding io_ok_def touched_only [OF assms(1)] .

text \<open>The handle of \<open>Ram_Volume\<close> on clusters 2 and 3, as an image of one sector of 1024 bytes.\<close>

definition demo_image :: FIL where "demo_image = demo_file\<lparr>fp_fsize := 1024\<rparr>"

lemma ram_io_ok: "io_ok ram_io ram_ok ram_cap"
proof -
  have "disk_device.writes_ok ram_io ram_ok ram_cap"
    unfolding disk_device.writes_ok_def [OF ram.disk_device_axioms] by (auto simp: ram_io_def)
  then show ?thesis using ram.reliable by (simp add: io_ok_def)
qed

lemma demo_image_on:
  "open_on ram_io demo_image demo_state" "file_on demo_sec demo_fs demo_image [2, 3]" "pos_ok demo_fs [2, 3] demo_image"
  "chain_sectors demo_fs [2, 3] = [3, 4]" "window_clear demo_state [2, 3]"
  "fp_fptr demo_image = 0" "fp_fsize demo_image = 1024" "fp_flag demo_image = FA_READ"
proof -
  show sec: "chain_sectors demo_fs [2, 3] = [3, 4]" by code_simp
  show "open_on ram_io demo_image demo_state" using demo_open by (simp add: open_on_def demo_image_def)
  show "file_on demo_sec demo_fs demo_image [2, 3]"
    using demo_file_on by (simp add: file_on_def demo_image_def) (simp add: demo_fs_def)
  show "pos_ok demo_fs [2, 3] demo_image" by (simp add: pos_ok_def demo_image_def demo_file_def)
  show "window_clear demo_state [2, 3]" by (simp add: window_clear_def sec) (simp add: demo_fs_def zero_FATFS_def)
  show "fp_fptr demo_image = 0" "fp_fsize demo_image = 1024" "fp_flag demo_image = FA_READ"
    by (simp_all add: demo_image_def demo_file_def)
qed

theorem f_write_inplace_stores_witness:
  "\<exists>fp' s'. f_write_inplace ram_io demo_image (replicate 512 0xAA) 512 demo_state = Some (FR_OK, fp', replicate 512 0xAA, 512, s')
     \<and> file_bytes (disk s') demo_fs demo_image [2, 3] = replicate 512 0xAA @ replicate 512 4
     \<and> disk s' 4 = replicate 512 4"
proof -
  have v: "vol_ok ram_cap (cur_fs demo_state)" using demo_vol by simp
  have n: "512 = min (unat (512 :: WORD)) (unat (fp_fsize demo_image) - unat (fp_fptr demo_image))"
    by (simp add: demo_image_on)
  have old: "file_bytes demo_sec demo_fs demo_image [2, 3] = replicate 512 3 @ replicate 512 4"
    by (simp add: file_bytes_def chain_bytes_def demo_image_on) (simp add: demo_sec.simps)
  from f_write_inplace_stores [OF ram.disk_device_axioms demo_coherent v demo_image_on(1) _ _ _ demo_image_on(5) n,
      of "replicate 512 0xAA"]
  obtain r fp' bw s' where w: "f_write_inplace ram_io demo_image (replicate 512 0xAA) 512 demo_state = Some (r, fp', replicate 512 0xAA, bw, s')"
    "only_sectors ram_io ram_ok (\<lambda>d. d) ram_cap demo_state s' [2, 3] 0 1" "r = FR_OK" "unat bw = 512"
    "file_bytes (disk s') demo_fs demo_image [2, 3] = blit (replicate 512 3 @ replicate 512 4) 0 (replicate 512 0xAA)"
    using demo_image_on ram_io_ok old by fastforce
  have "bw = 512" using w(4) by (simp add: word_eq_unat)
  moreover have "disk s' 4 = demo_sec 4"
    using w(2) by (simp add: only_sectors_def demo_image_on slice_def)
  ultimately show ?thesis using w by (simp add: blit_def demo_sec.simps)
qed

section \<open>The image layer\<close>

text \<open>Bytes of an image with one sector overwritten.\<close>

lemma image_sector_updated:
  assumes "sector_id s1 n1" "sector_id s2 n2" "image_offset s1 t1 n1 + 1024 \<le> length img" "length bs = 1024"
  shows "slice (image_offset s2 t2 n2) 1024 (blit img (image_offset s1 t1 n1) bs)
    = (if (s2, t2, n2) = (s1, t1, n1) then bs else slice (image_offset s2 t2 n2) 1024 img)"
proof (cases "(s2, t2, n2) = (s1, t1, n1)")
  case True
  then show ?thesis using slice_blit_same [of "image_offset s1 t1 n1" bs img] assms(3,4) by simp
next
  case False
  have "slice (image_offset s2 t2 n2) 1024 (blit img (image_offset s1 t1 n1) bs) = slice (image_offset s2 t2 n2) 1024 img"
    by (rule slice_blit_other) (use assms image_offset_inj [OF assms(2,1) False] in auto)
  then show ?thesis using False by auto
qed

text \<open>C11: A disk image behaves like an array of sectors.  For two sectors of the geometry that lie in an image
  file, writing the first with \<open>fdd_writesector\<close> and then reading the second with \<open>fdd_readsector\<close>, both of
  which terminate, leaves in the buffer the 1024 bytes just written if the two are the same sector, and
  the bytes the image held there before otherwise, provided that both report \<open>FR_OK\<close>; a device that does
  not fail never makes them report anything else.\<close>

theorem fdd_write_then_read:
  assumes "disk_device io dinv dsec dcap" and "coherent dinv dsec dcap s" and "vol_ok dcap (cur_fs s)"
    and "open_on io file s" and "file_on (dsec (disk s)) (cur_fs s) file cl"
    and "FS_READONLY io \<or> \<not> has (fp_flag file) FA_WRITE" and "distinct cl" and "window_clear s cl"
    and "sector_id (fd_cur_side fdd) (fd_cur_sector fdd)"
    and "image_offset (fd_cur_side fdd) (fd_cur_track fdd) (fd_cur_sector fdd) + 1024 \<le> unat (fp_fsize file)"
    and "sector_id (fd_cur_side fdd2) (fd_cur_sector fdd2)"
    and "image_offset (fd_cur_side fdd2) (fd_cur_track fdd2) (fd_cur_sector fdd2) + 1024 \<le> unat (fp_fsize file)"
    and "1024 \<le> length buffer" and "1024 \<le> length buffer2"
  shows "\<exists>r file' s'. fdd_writesector io fdd file buffer s = Some (r, file', buffer, s') \<and> (io_ok io dinv dcap \<longrightarrow> r = FR_OK)
    \<and> (r = FR_OK \<longrightarrow> (\<exists>r2 file'' buffer' s''. fdd_readsector io fdd2 file' buffer2 s' = Some (r2, file'', buffer', s'')
        \<and> length buffer' = length buffer2 \<and> (io_ok io dinv dcap \<longrightarrow> r2 = FR_OK)
        \<and> (r2 = FR_OK \<longrightarrow> take 1024 buffer' =
            (if (fd_cur_side fdd2, fd_cur_track fdd2, fd_cur_sector fdd2) = (fd_cur_side fdd, fd_cur_track fdd, fd_cur_sector fdd)
             then take 1024 buffer
             else slice (image_offset (fd_cur_side fdd2) (fd_cur_track fdd2) (fd_cur_sector fdd2)) 1024
                    (file_bytes (dsec (disk s)) (cur_fs s) file cl)))))"
proof -
  note dv = assms(1)
  let ?q = "image_offset (fd_cur_side fdd) (fd_cur_track fdd) (fd_cur_sector fdd)"
    and ?q2 = "image_offset (fd_cur_side fdd2) (fd_cur_track fdd2) (fd_cur_sector fdd2)"
  let ?old = "file_bytes (dsec (disk s)) (cur_fs s) file cl"
  have al: "?q mod 512 = 0" using image_offset_range(2) [OF assms(9) lessI] .
  from disk_device.fdd_writesector_content [OF assms(1-6,13,7,8) calc_offset_image [OF assms(9)] al assms(10)]
  obtain r file' s' where w: "fdd_writesector io fdd file buffer s = Some (r, file', buffer, s')"
    "only_sectors io dinv dsec dcap s s' cl (?q div 512) 2" "io_ok io dinv dcap \<longrightarrow> r = FR_OK"
    "r = FR_OK \<longrightarrow> same_file file file' \<and> file_bytes (dsec (disk s')) (cur_fs s) file cl = blit ?old ?q (take 1024 buffer)"
    unfolding touched_only [OF dv] io_ok_def by blast
  have "\<exists>r2 file'' buffer' s''. fdd_readsector io fdd2 file' buffer2 s' = Some (r2, file'', buffer', s'')
      \<and> length buffer' = length buffer2 \<and> (io_ok io dinv dcap \<longrightarrow> r2 = FR_OK)
      \<and> (r2 = FR_OK \<longrightarrow> take 1024 buffer' = slice ?q2 1024 (blit ?old ?q (take 1024 buffer)))" if "r = FR_OK"
  proof -
    have sf: "same_file file file'" and new: "file_bytes (dsec (disk s')) (cur_fs s) file cl = blit ?old ?q (take 1024 buffer)"
      using w(4) that by auto
    note k = only_sectors_file [OF dv w(2) sf assms(3,5,4)] and f = same_file_simps [OF sf]
    have c: "coherent dinv dsec dcap s'" using w(2) by (simp add: only_sectors_def)
    have ro: "FS_READONLY io \<or> \<not> has (fp_flag file') FA_WRITE" using assms(6) by (simp add: f)
    have q: "?q2 = min (unat (calc_offset fdd2)) (unat (fp_fsize file'))"
      using calc_offset_image [OF assms(11)] assms(12) by (simp add: f)
    have n: "1024 = min 1024 (unat (fp_fsize file') - ?q2)" using assms(12) by (simp add: f)
    have "length (dsec (disk s') m) = 512" for m
      using c disk_device.dsec_len [OF dv] by (simp add: coherent_def)
    then have len: "?q2 + 1024 \<le> length (file_bytes (dsec (disk s')) (cur_fs s) file cl)"
      using length_file_bytes [OF _ k(2)] assms(12) by (simp add: k(4) f)
    from disk_device.fdd_readsector_content [OF dv c k(1,3,2) ro assms(14) q n]
    show ?thesis unfolding io_ok_def k(4) new using len assms(14)
      by (auto simp: blit_def length_slice new)
  qed
  moreover have "length (dsec (disk s) m) = 512" for m
    using assms(2) disk_device.dsec_len [OF dv] by (simp add: coherent_def)
  then have "?q + 1024 \<le> length ?old" using length_file_bytes [OF _ assms(5)] assms(10) by simp
  note image_sector_updated [OF assms(9,11) this, of "take 1024 buffer"]
  ultimately show ?thesis using w(1,3) assms(13) by auto
qed

theorem fdd_write_then_read_witness:
  "\<exists>file' s' file'' s''. fdd_writesector ram_io demo_fdd demo_image (replicate 1024 0xAA) demo_state = Some (FR_OK, file', replicate 1024 0xAA, s')
     \<and> fdd_readsector ram_io demo_fdd file' (replicate 1024 0) s' = Some (FR_OK, file'', replicate 1024 0xAA, s'')"
proof -
  have v: "vol_ok ram_cap (cur_fs demo_state)" using demo_vol by simp
  have ro: "FS_READONLY ram_io \<or> \<not> has (fp_flag demo_image) FA_WRITE" by (simp add: ram_io_def)
  have id: "sector_id (fd_cur_side demo_fdd) (fd_cur_sector demo_fdd)"
    "image_offset (fd_cur_side demo_fdd) (fd_cur_track demo_fdd) (fd_cur_sector demo_fdd) + 1024 \<le> unat (fp_fsize demo_image)"
    by (simp_all add: demo_fdd_def sector_id_def image_offset_def demo_image_on)
  have fo: "file_on demo_sec (cur_fs demo_state) demo_image [2, 3]" using demo_image_on by simp
  from fdd_write_then_read [OF ram.disk_device_axioms demo_coherent v demo_image_on(1) _ ro _ demo_image_on(5) id id,
      of "replicate 1024 0xAA" "replicate 1024 0"]
  have "\<exists>file' s'. fdd_writesector ram_io demo_fdd demo_image (replicate 1024 0xAA) demo_state = Some (FR_OK, file', replicate 1024 0xAA, s')
    \<and> (\<exists>file'' buffer' s''. fdd_readsector ram_io demo_fdd file' (replicate 1024 0) s' = Some (FR_OK, file'', buffer', s'')
        \<and> length buffer' = 1024 \<and> take 1024 buffer' = replicate 1024 0xAA)"
    using ram_io_ok fo by simp
  then show ?thesis by (metis order_refl take_all)
qed

section \<open>The write request\<close>

text \<open>C13: A write request stores the sector the host has put in the buffer.  On a board whose ports and
  transmitter leave the card alone, with the image file open, the host's track and sector registers
  stable, a sector that lies in the image and the drive test passing (\<open>t1\<close> is 0), \<open>serve_write\<close>
  terminates and writes busy and then one completion code to the status port; whatever the code, only the
  two sectors of the medium that hold the addressed sector of the image may have changed, and the sector
  buffer has not.  With the success code the image is the old image with the buffer in place at the
  sector's offset, still open for the next request; the only other outcome is the CRC code after a disk
  error, which a card that does not fail never causes.\<close>

theorem write_request_stores:
  assumes "fdc_board b dinv dsec dcap"
    and "coherent dinv dsec dcap (tffs w)" and "vol_ok dcap (cur_fs (tffs w))"
    and "open_on (fio b) (file1 w) (tffs w)"
    and "file_on (dsec (disk (tffs w))) (cur_fs (tffs w)) (file1 w) cl"
    and "FS_READONLY (fio b) \<or> \<not> has (fp_flag (file1 w)) FA_WRITE" and "1024 \<le> length (fdd_buffer w)"
    and "distinct cl" and "window_clear (tffs w) cl"
    and "\<And>d. fst (rd_port b MASTER_TRACK d) = track"
    and "\<And>d. fst (rd_port b MASTER_SECTOR d) = sector" and "1 \<le> unat sector" and "unat sector \<le> 5"
    and "q = image_offset (0x01 AND cmd) track sector" and "q + 1024 \<le> unat (fp_fsize (file1 w))"
  shows "\<exists>r w'. serve_write b cmd 0 w = Some (fresult_code r, 0, w')
    \<and> only_sectors (fio b) dinv dsec dcap (tffs w) (tffs w') cl (q div 512) 2
    \<and> (io_ok (fio b) dinv dcap \<longrightarrow> r = FR_OK) \<and> fdd_buffer w' = fdd_buffer w
    \<and> (r = FR_OK
         \<and> written SLAVE_STATUS w' = written SLAVE_STATUS w @ [CPU_STATUS_BUSY, CPU_STATUS_COMPLETE OR CPU_STATUS_SUCCESS]
         \<and> open_on (fio b) (file1 w') (tffs w')
         \<and> file_on (dsec (disk (tffs w'))) (cur_fs (tffs w')) (file1 w') cl
         \<and> file_bytes (dsec (disk (tffs w'))) (cur_fs (tffs w')) (file1 w') cl
             = blit (file_bytes (dsec (disk (tffs w))) (cur_fs (tffs w)) (file1 w) cl) q (take 1024 (fdd_buffer w))
       \<or> r = FR_RW_ERROR
         \<and> written SLAVE_STATUS w' = written SLAVE_STATUS w @ [CPU_STATUS_BUSY, CPU_STATUS_COMPLETE OR CPU_STATUS_CRC])"
proof -
  note f = assms(1)
  then have dv: "disk_device (fio b) dinv dsec dcap" by (simp add: fdc_board_def)
  have "fdc_board.image_open b dinv dsec dcap w cl"
    unfolding fdc_board.image_open_def [OF f] using assms(2-7) by blast
  from fdc_board.serve_write_answers [OF f this assms(8-15)]
  show ?thesis
    unfolding fdc_board.image_open_def [OF f] fdc_board.image_bytes_def [OF f] touched_only [OF dv] io_ok_def
    by blast
qed

theorem write_request_stores_witness:
  "\<exists>w'. serve_write (ram_board 0 0) 0x21 0 (demo_world\<lparr>file1 := demo_image, fdd_buffer := replicate 1024 0xAA\<rparr>) = Some (0, 0, w')
    \<and> written SLAVE_STATUS w' = [0x80, 0x03]
    \<and> file_bytes (disk (tffs w')) (cur_fs (tffs w')) (file1 w') [2, 3] = replicate 1024 0xAA"
proof -
  let ?b = "ram_board 0 0" and ?w = "demo_world\<lparr>file1 := demo_image, fdd_buffer := replicate 1024 0xAA\<rparr>"
  have io: "fio ?b = ram_io" by (simp add: ram_board_def)
  have p: "fst (rd_port ?b MASTER_TRACK d) = 0" "fst (rd_port ?b MASTER_SECTOR d) = 1" for d
    by (simp_all add: ram_board_def)
  have v: "vol_ok ram_cap (cur_fs (tffs ?w))" using demo_vol by simp
  have o: "open_on (fio ?b) (file1 ?w) (tffs ?w)" using demo_image_on by (simp add: io)
  have f: "file_on (disk (tffs ?w)) (cur_fs (tffs ?w)) (file1 ?w) [2, 3]" using demo_image_on by simp
  have c: "coherent ram_ok (\<lambda>d. d) ram_cap (tffs ?w)" using demo_coherent by simp
  have ro: "FS_READONLY (fio ?b) \<or> \<not> has (fp_flag (file1 ?w)) FA_WRITE" by (simp add: io ram_io_def)
  have cl: "window_clear (tffs ?w) [2, 3]" using demo_image_on by simp
  have q: "0 = image_offset (0x01 AND 0x21) 0 1" by (simp add: image_offset_def)
  have n: "0 + 1024 \<le> unat (fp_fsize (file1 ?w))" by (simp add: demo_image_on)
  have len: "length (file_bytes demo_sec demo_fs demo_image [2, 3]) = 1024"
    using length_file_bytes [OF _ demo_image_on(2)] demo_ok by (simp add: ram_ok_def demo_image_on)
  from write_request_stores [OF ram_fdc.fdc_board_axioms c v o f ro _ _ cl p _ _ q n]
  obtain r w' where s: "serve_write ?b 0x21 0 ?w = Some (fresult_code r, 0, w')" "io_ok (fio ?b) ram_ok ram_cap \<longrightarrow> r = FR_OK"
    "r = FR_OK
      \<and> written SLAVE_STATUS w' = written SLAVE_STATUS ?w @ [CPU_STATUS_BUSY, CPU_STATUS_COMPLETE OR CPU_STATUS_SUCCESS]
      \<and> file_bytes (disk (tffs w')) (cur_fs (tffs w')) (file1 w') [2, 3]
         = blit (file_bytes (disk (tffs ?w)) (cur_fs (tffs ?w)) (file1 ?w) [2, 3]) 0 (take 1024 (fdd_buffer ?w))
     \<or> r = FR_RW_ERROR" by fastforce
  then have "r = FR_OK" using ram_io_ok by (simp add: io)
  moreover have "written SLAVE_STATUS ?w = []" by (simp add: written_def demo_world_def)
  ultimately have w': "serve_write ?b 0x21 0 ?w = Some (0, 0, w')"
    "written SLAVE_STATUS w' = [CPU_STATUS_BUSY, CPU_STATUS_COMPLETE OR CPU_STATUS_SUCCESS]"
    "file_bytes (disk (tffs w')) (cur_fs (tffs w')) (file1 w') [2, 3]
       = blit (file_bytes demo_sec demo_fs demo_image [2, 3]) 0 (replicate 1024 0xAA)"
    using s by simp_all
  then show ?thesis using len by (simp add: blit_whole slave_consts)
qed

section \<open>Two requests\<close>

text \<open>C25: What the host writes it reads back.  With the image file open, a write request for one sector of the
  image followed by a read request for any sector of it - the host's registers, and with them the board
  \<open>b2\<close>, and the sector buffer may have changed in between - leaves in the sector buffer the bytes written
  if the two requests address the same side, track and sector, and what the image held there before
  otherwise, provided that both are answered with success; a card that does not fail never makes them
  end otherwise.  Both requests terminate.\<close>

theorem requests_write_then_read:
  assumes "fdc_board b dinv dsec dcap" and "fdc_board b2 dinv dsec dcap" and "fio b2 = fio b"
    and "coherent dinv dsec dcap (tffs w)" and "vol_ok dcap (cur_fs (tffs w))"
    and "open_on (fio b) (file1 w) (tffs w)"
    and "file_on (dsec (disk (tffs w))) (cur_fs (tffs w)) (file1 w) cl"
    and "FS_READONLY (fio b) \<or> \<not> has (fp_flag (file1 w)) FA_WRITE" and "1024 \<le> length (fdd_buffer w)"
    and "distinct cl" and "window_clear (tffs w) cl"
    and "\<And>d. fst (rd_port b MASTER_TRACK d) = track" and "\<And>d. fst (rd_port b MASTER_SECTOR d) = sector"
    and "\<And>d. fst (rd_port b2 MASTER_TRACK d) = track2" and "\<And>d. fst (rd_port b2 MASTER_SECTOR d) = sector2"
    and "1 \<le> unat sector" "unat sector \<le> 5" "1 \<le> unat sector2" "unat sector2 \<le> 5"
    and "cmd2 AND 0x02 = 0"
    and "q = image_offset (0x01 AND cmd) track sector" and "q + 1024 \<le> unat (fp_fsize (file1 w))"
    and "q2 = image_offset (0x01 AND cmd2) track2 sector2" and "q2 + 1024 \<le> unat (fp_fsize (file1 w))"
    and "1024 \<le> length buf"
  shows "\<exists>r w1. serve_write b cmd 0 w = Some (fresult_code r, 0, w1) \<and> (io_ok (fio b) dinv dcap \<longrightarrow> r = FR_OK)
    \<and> (r = FR_OK \<longrightarrow> (\<exists>r2 w2. serve_read b2 cmd2 (w1\<lparr>fdd_buffer := buf\<rparr>) = Some (fresult_code r2, 0, w2)
        \<and> (io_ok (fio b) dinv dcap \<longrightarrow> r2 = FR_OK)
        \<and> (r2 = FR_OK \<longrightarrow> take 1024 (fdd_buffer w2) =
            (if (0x01 AND cmd2, track2, sector2) = (0x01 AND cmd, track, sector) then take 1024 (fdd_buffer w)
             else slice q2 1024 (file_bytes (dsec (disk (tffs w))) (cur_fs (tffs w)) (file1 w) cl)))))"
proof -
  note f = assms(1) and f2 = assms(2)
  then have dv: "disk_device (fio b) dinv dsec dcap" by (simp add: fdc_board_def)
  note sized = disk_device.dsec_len [OF dv]
  let ?old = "fdc_board.image_bytes dsec w cl"
  have im: "fdc_board.image_open b dinv dsec dcap w cl"
    unfolding fdc_board.image_open_def [OF f] using assms(4-9) by blast
  have len: "length (fdc_board.image_bytes dsec x cl) = unat (fp_fsize (file1 x))"
    if "fdc_board.image_open b dinv dsec dcap x cl" for x
    using that length_file_bytes [of "dsec (disk (tffs x))" "cur_fs (tffs x)" "file1 x" cl] sized
    unfolding fdc_board.image_open_def [OF f] fdc_board.image_bytes_def [OF f] by (simp add: coherent_def)
  from fdc_board.serve_write_answers [OF f im assms(10-13,16,17,21,22)]
  obtain r w1 where w1: "serve_write b cmd 0 w = Some (fresult_code r, 0, w1)" "io_ok (fio b) dinv dcap \<longrightarrow> r = FR_OK"
    and ok: "r = FR_OK \<longrightarrow> fdc_board.image_open b dinv dsec dcap w1 cl
      \<and> fdc_board.image_bytes dsec w1 cl = blit ?old q (take 1024 (fdd_buffer w))"
    unfolding io_ok_def by (auto simp del: fresult_code.simps)
  have "\<exists>r2 w2. serve_read b2 cmd2 (w1\<lparr>fdd_buffer := buf\<rparr>) = Some (fresult_code r2, 0, w2)
      \<and> (io_ok (fio b) dinv dcap \<longrightarrow> r2 = FR_OK)
      \<and> (r2 = FR_OK \<longrightarrow> take 1024 (fdd_buffer w2) = slice q2 1024 (blit ?old q (take 1024 (fdd_buffer w))))" if "r = FR_OK"
  proof -
    let ?w = "w1\<lparr>fdd_buffer := buf\<rparr>"
    have o: "fdc_board.image_open b dinv dsec dcap w1 cl" and new: "fdc_board.image_bytes dsec w1 cl = blit ?old q (take 1024 (fdd_buffer w))"
      using ok that by auto
    then have im2: "fdc_board.image_open b2 dinv dsec dcap ?w cl" and by2: "fdc_board.image_bytes dsec ?w cl = fdc_board.image_bytes dsec w1 cl"
      using assms(25)
      by (simp_all add: fdc_board.image_open_def [OF f] fdc_board.image_open_def [OF f2] fdc_board.image_bytes_def [OF f] assms(3))
    have "length (blit ?old q (take 1024 (fdd_buffer w))) = length ?old"
      using assms(9,22) len [OF im] by simp
    then have size: "unat (fp_fsize (file1 w1)) = unat (fp_fsize (file1 w))" using len [OF o] len [OF im] new by simp
    have q2: "q2 = min (image_offset (0x01 AND cmd2) track2 sector2) (unat (fp_fsize (file1 ?w)))"
      "1024 = min 1024 (unat (fp_fsize (file1 ?w)) - q2)" using assms(23,24) by (simp_all add: size)
    have l: "length (slice q2 1024 (fdc_board.image_bytes dsec w1 cl)) = 1024"
      using len [OF o] assms(24) size by (simp add: length_slice)
    from fdc_board.serve_read_answers [OF f2 im2 assms(20,14,15,18,19) q2]
    show ?thesis unfolding by2 new [symmetric] assms(3) io_ok_def using l assms(25) 
      by (auto simp: blit_def simp del: fresult_code.simps)
  qed
  moreover have ids: "sector_id (0x01 AND cmd) sector" "sector_id (0x01 AND cmd2) sector2"
    using fdc_board.side_id [OF f] assms(16-19) by blast+
  have "slice q2 1024 (blit ?old q (take 1024 (fdd_buffer w))) =
      (if (0x01 AND cmd2, track2, sector2) = (0x01 AND cmd, track, sector) then take 1024 (fdd_buffer w) else slice q2 1024 ?old)"
    unfolding assms(21,23) by (rule image_sector_updated [OF ids]) (use len [OF im] assms(9,21,22) in simp_all)
  ultimately show ?thesis using w1 by (auto simp: fdc_board.image_bytes_def [OF f] simp del: fresult_code.simps)
qed

theorem requests_write_then_read_witness:
  "\<exists>w1 w2. serve_write (ram_board 0 0) 0x21 0 (demo_world\<lparr>file1 := demo_image, fdd_buffer := replicate 1024 0xAA\<rparr>) = Some (0, 0, w1)
    \<and> serve_read (ram_board 0 0) 0x11 (w1\<lparr>fdd_buffer := replicate 1024 0\<rparr>) = Some (0, 0, w2)
    \<and> take 1024 (fdd_buffer w2) = replicate 1024 0xAA"
proof -
  let ?b = "ram_board 0 0" and ?w = "demo_world\<lparr>file1 := demo_image, fdd_buffer := replicate 1024 0xAA\<rparr>"
  have io: "fio ?b = ram_io" by (simp add: ram_board_def)
  have p: "fst (rd_port ?b MASTER_TRACK d) = 0" "fst (rd_port ?b MASTER_SECTOR d) = 1" for d
    by (simp_all add: ram_board_def)
  have v: "vol_ok ram_cap (cur_fs (tffs ?w))" using demo_vol by simp
  have o: "open_on (fio ?b) (file1 ?w) (tffs ?w)" using demo_image_on by (simp add: io)
  have f: "file_on (disk (tffs ?w)) (cur_fs (tffs ?w)) (file1 ?w) [2, 3]" using demo_image_on by simp
  have c: "coherent ram_ok (\<lambda>d. d) ram_cap (tffs ?w)" using demo_coherent by simp
  have ro: "FS_READONLY (fio ?b) \<or> \<not> has (fp_flag (file1 ?w)) FA_WRITE" by (simp add: io ram_io_def)
  have cl: "window_clear (tffs ?w) [2, 3]" using demo_image_on by simp
  have q: "0 = image_offset (0x01 AND 0x21) 0 1" "0 = image_offset (0x01 AND 0x11) 0 1" by (simp_all add: image_offset_def)
  have n: "0 + 1024 \<le> unat (fp_fsize (file1 ?w))" by (simp add: demo_image_on)
  from requests_write_then_read [OF ram_fdc.fdc_board_axioms ram_fdc.fdc_board_axioms refl c v o f ro _ _ cl p p _ _ _ _ _ q(1) n q(2) n,
      of "replicate 1024 0"]
  obtain r w1 where 1: "serve_write ?b 0x21 0 ?w = Some (fresult_code r, 0, w1)" "io_ok (fio ?b) ram_ok ram_cap \<longrightarrow> r = FR_OK"
    "r = FR_OK \<longrightarrow> (\<exists>r2 w2. serve_read ?b 0x11 (w1\<lparr>fdd_buffer := replicate 1024 0\<rparr>) = Some (fresult_code r2, 0, w2)
      \<and> (io_ok (fio ?b) ram_ok ram_cap \<longrightarrow> r2 = FR_OK) \<and> (r2 = FR_OK \<longrightarrow> take 1024 (fdd_buffer w2) = replicate 1024 0xAA))"
    by (auto simp del: fresult_code.simps)
  then have "r = FR_OK" using ram_io_ok by (simp add: io)
  with 1 show ?thesis using ram_io_ok by (auto simp: io)
qed

end
