(* ===== verification/NesPacket.thy ===== *)
theory NesPacket
  imports Prelude
begin

text \<open>
  The debug packets of the NES debugger (\<^verbatim>\<open>u9_nes/sw/src/dbgpacket.cpp\<close>, \<^verbatim>\<open>dbgpacket.h\<close>): one object per
  packet, whose dynamic class selects the virtual methods and whose \<open>m_pData\<close> is the bytes it sends.
  A \<open>const BYTE*\<close> is the function giving the byte at each index; \<open>USHORT\<close> members of a byte array are
  read and written little endian, as on the x86 host.
\<close>

section \<open>Operation codes, registers and classes\<close>

datatype DbgPacketOpCode = OpCodeEcho | OpCodeCpuMemRd | OpCodeCpuMemWr | OpCodeDbgHlt | OpCodeDbgRun
  | OpCodeCpuRegRd | OpCodeCpuRegWr | OpCodeQueryHlt | OpCodeQueryErrCode | OpCodePpuMemRd
  | OpCodePpuMemWr | OpCodePpuDisable | OpCodeCartSetCfg

fun opcode :: "DbgPacketOpCode \<Rightarrow> BYTE" where
  "opcode OpCodeEcho = 0x00"
| "opcode OpCodeCpuMemRd = 0x01"
| "opcode OpCodeCpuMemWr = 0x02"
| "opcode OpCodeDbgHlt = 0x03"
| "opcode OpCodeDbgRun = 0x04"
| "opcode OpCodeCpuRegRd = 0x05"
| "opcode OpCodeCpuRegWr = 0x06"
| "opcode OpCodeQueryHlt = 0x07"
| "opcode OpCodeQueryErrCode = 0x08"
| "opcode OpCodePpuMemRd = 0x09"
| "opcode OpCodePpuMemWr = 0x0A"
| "opcode OpCodePpuDisable = 0x0B"
| "opcode OpCodeCartSetCfg = 0x0C"

text \<open>A \<open>CpuReg\<close> is a 32-bit value: the scripts cast any number to it.\<close>

type_synonym CpuReg = DWORD

definition CpuRegPcl :: CpuReg where "CpuRegPcl = 0x00"
definition CpuRegPch :: CpuReg where "CpuRegPch = 0x01"

datatype PacketClass = EchoPacket | CpuMemRdPacket | CpuMemWrPacket | DbgHltPacket | DbgRunPacket
  | CpuRegRdPacket | CpuRegWrPacket | QueryHltPacket | PpuMemRdPacket | PpuMemWrPacket
  | PpuDisablePacket | CartSetCfgPacket

record DbgPacket =
  packet_class :: PacketClass
  m_pData :: "BYTE list"

section \<open>Constructors\<close>

definition new_EchoPacket :: "(nat \<Rightarrow> BYTE) \<Rightarrow> WORD \<Rightarrow> DbgPacket" where
  "new_EchoPacket pEchoData numBytes =
     \<lparr>packet_class = EchoPacket,
      m_pData = ST_WORD (opcode OpCodeEcho # 0 # 0 # map pEchoData [0 ..< unat numBytes]) 1 numBytes\<rparr>"

definition new_CpuMemRdPacket :: "WORD \<Rightarrow> WORD \<Rightarrow> DbgPacket" where
  "new_CpuMemRdPacket addr numBytes =
     \<lparr>packet_class = CpuMemRdPacket,
      m_pData = ST_WORD (ST_WORD [opcode OpCodeCpuMemRd, 0, 0, 0, 0] 1 addr) 3 numBytes\<rparr>"

definition new_CpuMemWrPacket :: "WORD \<Rightarrow> WORD \<Rightarrow> (nat \<Rightarrow> BYTE) \<Rightarrow> DbgPacket" where
  "new_CpuMemWrPacket addr numBytes pData =
     \<lparr>packet_class = CpuMemWrPacket,
      m_pData = ST_WORD (ST_WORD (opcode OpCodeCpuMemWr # 0 # 0 # 0 # 0 # map pData [0 ..< unat numBytes])
                  1 addr) 3 numBytes\<rparr>"

definition new_DbgHltPacket :: DbgPacket where
  "new_DbgHltPacket = \<lparr>packet_class = DbgHltPacket, m_pData = [opcode OpCodeDbgHlt]\<rparr>"

definition new_DbgRunPacket :: DbgPacket where
  "new_DbgRunPacket = \<lparr>packet_class = DbgRunPacket, m_pData = [opcode OpCodeDbgRun]\<rparr>"

definition new_CpuRegRdPacket :: "CpuReg \<Rightarrow> DbgPacket" where
  "new_CpuRegRdPacket reg =
     \<lparr>packet_class = CpuRegRdPacket, m_pData = [opcode OpCodeCpuRegRd, ucast reg]\<rparr>"

definition new_CpuRegWrPacket :: "CpuReg \<Rightarrow> BYTE \<Rightarrow> DbgPacket" where
  "new_CpuRegWrPacket reg val =
     \<lparr>packet_class = CpuRegWrPacket, m_pData = [opcode OpCodeCpuRegWr, ucast reg, val]\<rparr>"

definition new_QueryHltPacket :: DbgPacket where
  "new_QueryHltPacket = \<lparr>packet_class = QueryHltPacket, m_pData = [opcode OpCodeQueryHlt]\<rparr>"

definition new_PpuMemRdPacket :: "WORD \<Rightarrow> WORD \<Rightarrow> DbgPacket" where
  "new_PpuMemRdPacket addr numBytes =
     \<lparr>packet_class = PpuMemRdPacket,
      m_pData = ST_WORD (ST_WORD [opcode OpCodePpuMemRd, 0, 0, 0, 0] 1 addr) 3 numBytes\<rparr>"

definition new_PpuMemWrPacket :: "WORD \<Rightarrow> WORD \<Rightarrow> (nat \<Rightarrow> BYTE) \<Rightarrow> DbgPacket" where
  "new_PpuMemWrPacket addr numBytes pData =
     \<lparr>packet_class = PpuMemWrPacket,
      m_pData = ST_WORD (ST_WORD (opcode OpCodePpuMemWr # 0 # 0 # 0 # 0 # map pData [0 ..< unat numBytes])
                  1 addr) 3 numBytes\<rparr>"

definition new_PpuDisablePacket :: DbgPacket where
  "new_PpuDisablePacket = \<lparr>packet_class = PpuDisablePacket, m_pData = [opcode OpCodePpuDisable]\<rparr>"

definition new_CartSetCfgPacket :: "(nat \<Rightarrow> BYTE) \<Rightarrow> DbgPacket" where
  "new_CartSetCfgPacket pINesHeader =
     \<lparr>packet_class = CartSetCfgPacket,
      m_pData = [opcode OpCodeCartSetCfg, pINesHeader 4, pINesHeader 5, pINesHeader 6, pINesHeader 7,
                 pINesHeader 8]\<rparr>"

section \<open>Virtual methods\<close>

definition PacketData :: "DbgPacket \<Rightarrow> BYTE list" where
  "PacketData p = m_pData p"

definition EchoPacket_SizeInBytes :: "DbgPacket \<Rightarrow> DWORD" where
  "EchoPacket_SizeInBytes p = 1 + 2 + ucast (LD_WORD (m_pData p) 1)"

definition EchoPacket_ReturnBytesExpected :: "DbgPacket \<Rightarrow> DWORD" where
  "EchoPacket_ReturnBytesExpected p = ucast (LD_WORD (m_pData p) 1)"

definition CpuMemRdPacket_SizeInBytes :: "DbgPacket \<Rightarrow> DWORD" where
  "CpuMemRdPacket_SizeInBytes p = 1 + 2 + 2"

definition CpuMemRdPacket_ReturnBytesExpected :: "DbgPacket \<Rightarrow> DWORD" where
  "CpuMemRdPacket_ReturnBytesExpected p = ucast (LD_WORD (m_pData p) 3)"

definition CpuMemWrPacket_SizeInBytes :: "DbgPacket \<Rightarrow> DWORD" where
  "CpuMemWrPacket_SizeInBytes p = 1 + 2 + 2 + ucast (LD_WORD (m_pData p) 3)"

definition CpuMemWrPacket_ReturnBytesExpected :: "DbgPacket \<Rightarrow> DWORD" where
  "CpuMemWrPacket_ReturnBytesExpected p = 0"

definition CpuRegRdPacket_SizeInBytes :: "DbgPacket \<Rightarrow> DWORD" where
  "CpuRegRdPacket_SizeInBytes p = 1 + 1"

definition CpuRegRdPacket_ReturnBytesExpected :: "DbgPacket \<Rightarrow> DWORD" where
  "CpuRegRdPacket_ReturnBytesExpected p = 1"

definition CpuRegWrPacket_SizeInBytes :: "DbgPacket \<Rightarrow> DWORD" where
  "CpuRegWrPacket_SizeInBytes p = 1 + 1 + 1"

definition CpuRegWrPacket_ReturnBytesExpected :: "DbgPacket \<Rightarrow> DWORD" where
  "CpuRegWrPacket_ReturnBytesExpected p = 0"

definition QueryHltPacket_SizeInBytes :: "DbgPacket \<Rightarrow> DWORD" where
  "QueryHltPacket_SizeInBytes p = 1"

definition QueryHltPacket_ReturnBytesExpected :: "DbgPacket \<Rightarrow> DWORD" where
  "QueryHltPacket_ReturnBytesExpected p = 1"

definition PpuMemRdPacket_SizeInBytes :: "DbgPacket \<Rightarrow> DWORD" where
  "PpuMemRdPacket_SizeInBytes p = 1 + 2 + 2"

definition PpuMemRdPacket_ReturnBytesExpected :: "DbgPacket \<Rightarrow> DWORD" where
  "PpuMemRdPacket_ReturnBytesExpected p = ucast (LD_WORD (m_pData p) 3)"

definition PpuMemWrPacket_SizeInBytes :: "DbgPacket \<Rightarrow> DWORD" where
  "PpuMemWrPacket_SizeInBytes p = 1 + 2 + 2 + ucast (LD_WORD (m_pData p) 3)"

definition PpuMemWrPacket_ReturnBytesExpected :: "DbgPacket \<Rightarrow> DWORD" where
  "PpuMemWrPacket_ReturnBytesExpected p = 0"

definition CartSetCfgPacket_SizeInBytes :: "DbgPacket \<Rightarrow> DWORD" where
  "CartSetCfgPacket_SizeInBytes p = 1 + 5 * 1"

text \<open>The dispatch; the classes of a single byte define the methods in their declaration.\<close>

definition SizeInBytes :: "DbgPacket \<Rightarrow> DWORD" where
  "SizeInBytes p =
     (case packet_class p of
        EchoPacket \<Rightarrow> EchoPacket_SizeInBytes p
      | CpuMemRdPacket \<Rightarrow> CpuMemRdPacket_SizeInBytes p
      | CpuMemWrPacket \<Rightarrow> CpuMemWrPacket_SizeInBytes p
      | DbgHltPacket \<Rightarrow> 1
      | DbgRunPacket \<Rightarrow> 1
      | CpuRegRdPacket \<Rightarrow> CpuRegRdPacket_SizeInBytes p
      | CpuRegWrPacket \<Rightarrow> CpuRegWrPacket_SizeInBytes p
      | QueryHltPacket \<Rightarrow> QueryHltPacket_SizeInBytes p
      | PpuMemRdPacket \<Rightarrow> PpuMemRdPacket_SizeInBytes p
      | PpuMemWrPacket \<Rightarrow> PpuMemWrPacket_SizeInBytes p
      | PpuDisablePacket \<Rightarrow> 1
      | CartSetCfgPacket \<Rightarrow> CartSetCfgPacket_SizeInBytes p)"

definition ReturnBytesExpected :: "DbgPacket \<Rightarrow> DWORD" where
  "ReturnBytesExpected p =
     (case packet_class p of
        EchoPacket \<Rightarrow> EchoPacket_ReturnBytesExpected p
      | CpuMemRdPacket \<Rightarrow> CpuMemRdPacket_ReturnBytesExpected p
      | CpuMemWrPacket \<Rightarrow> CpuMemWrPacket_ReturnBytesExpected p
      | DbgHltPacket \<Rightarrow> 0
      | DbgRunPacket \<Rightarrow> 0
      | CpuRegRdPacket \<Rightarrow> CpuRegRdPacket_ReturnBytesExpected p
      | CpuRegWrPacket \<Rightarrow> CpuRegWrPacket_ReturnBytesExpected p
      | QueryHltPacket \<Rightarrow> QueryHltPacket_ReturnBytesExpected p
      | PpuMemRdPacket \<Rightarrow> PpuMemRdPacket_ReturnBytesExpected p
      | PpuMemWrPacket \<Rightarrow> PpuMemWrPacket_ReturnBytesExpected p
      | PpuDisablePacket \<Rightarrow> 0
      | CartSetCfgPacket \<Rightarrow> 0)"

section \<open>Packets from text\<close>

text \<open>
  \<open>CreateObjFromString\<close>.  The characters are 16-bit and truncated to a byte.  \<open>heap\<close> is the memory from
  the new array on, with what it holds before it is filled: the code reads the header fields and the
  data of the packet from there however short the text was.
\<close>

definition nibble_of :: "BYTE \<Rightarrow> BYTE option" where
  "nibble_of input =
     (if 0x30 \<le> input \<and> input \<le> 0x39 then Some (input - 0x30)
      else if 0x61 \<le> input \<and> input \<le> 0x66 then Some (input - 0x61 + 0xA)
      else if 0x41 \<le> input \<and> input \<le> 0x46 then Some (input - 0x41 + 0xA)
      else None)"

fun parse_text :: "WORD list \<Rightarrow> nat \<Rightarrow> (nat \<Rightarrow> BYTE) \<Rightarrow> bool \<times> nat \<times> (nat \<Rightarrow> BYTE)" where
  "parse_text [] k raw = (True, k, raw)"
| "parse_text (c # cs) k raw =
     (let input = ucast c :: BYTE in
      case nibble_of input of
        Some nibble \<Rightarrow>
          parse_text cs (k + 1)
            (raw(k div 2 := if k mod 2 = 1 then raw (k div 2) OR nibble else push_bit 4 nibble))
      | None \<Rightarrow> if input = 0x20 then parse_text cs k raw else (False, k, raw))"

definition ushort_at :: "(nat \<Rightarrow> BYTE) \<Rightarrow> nat \<Rightarrow> WORD" where
  "ushort_at raw i = LD_WORD [raw i, raw (i + 1)] 0"

definition packet_from_raw :: "(nat \<Rightarrow> BYTE) \<Rightarrow> DbgPacket option" where
  "packet_from_raw raw =
     (if raw 0 = opcode OpCodeEcho then
        Some (new_EchoPacket (\<lambda>i. raw (3 + i)) (ushort_at raw 1))
      else if raw 0 = opcode OpCodeCpuMemRd then
        Some (new_CpuMemRdPacket (ushort_at raw 1) (ushort_at raw 3))
      else if raw 0 = opcode OpCodeCpuMemWr then
        Some (new_CpuMemWrPacket (ushort_at raw 1) (ushort_at raw 3) (\<lambda>i. raw (5 + i)))
      else None)"

definition CreateObjFromString :: "(nat \<Rightarrow> BYTE) \<Rightarrow> WORD list \<Rightarrow> DbgPacket option" where
  "CreateObjFromString heap pString =
     (case parse_text pString 0 heap of (success, nibbleIdx, raw) \<Rightarrow>
        if success \<and> nibbleIdx mod 2 \<noteq> 1 then packet_from_raw raw else None)"

end
