(* ===== verification/NesDbg.thy ===== *)
theory NesDbg
  imports NesPacket
begin

text \<open>
  What the NES debugger sends and receives: the serial link (\<^verbatim>\<open>serialcomm.cpp\<close>), loading a ROM and the raw
  debug dialog (\<^verbatim>\<open>nesdbg.cpp\<close>), and the functions it gives to test scripts (\<^verbatim>\<open>scriptmgr.cpp\<close>).  Windows,
  the Lua machine and the contents of fresh memory are parameters; the progress bar and the other dialog
  messages are left out.
\<close>

section \<open>The serial link\<close>

text \<open>
  \<open>WriteFile bs\<close> is the call on the port with those bytes: success, the number of bytes written and the
  new state.  \<open>ReadFile n\<close> is the call for \<open>n\<close> bytes: success and the bytes it has stored, at most \<open>n\<close>.
  \<open>heap\<close> is what fresh memory holds.
\<close>

record 'c host =
  WriteFile :: "BYTE list \<Rightarrow> 'c \<Rightarrow> bool \<times> DWORD \<times> 'c"
  ReadFile :: "DWORD \<Rightarrow> 'c \<Rightarrow> bool \<times> BYTE list \<times> 'c"
  heap :: "nat \<Rightarrow> BYTE"

definition SendData :: "'c host \<Rightarrow> BYTE list \<Rightarrow> DWORD \<Rightarrow> 'c \<Rightarrow> bool \<times> 'c" where
  "SendData H pData numBytes c =
     (case WriteFile H (take (unat numBytes) pData) c of (ret, bytesWritten, c) \<Rightarrow>
        (if bytesWritten \<noteq> numBytes then False else ret, c))"

definition ReceiveData :: "'c host \<Rightarrow> BYTE list \<Rightarrow> DWORD \<Rightarrow> 'c \<Rightarrow> bool \<times> BYTE list \<times> 'c" where
  "ReceiveData H pData numBytes c =
     (case ReadFile H numBytes c of (ret, bs, c) \<Rightarrow>
        (if of_nat (length bs) \<noteq> numBytes then False else ret, blit pData 0 bs, c))"

definition fresh :: "'c host \<Rightarrow> DWORD \<Rightarrow> BYTE list" where
  "fresh H n = map (heap H) [0 ..< unat n]"

definition send :: "'c host \<Rightarrow> DbgPacket \<Rightarrow> 'c \<Rightarrow> 'c" where
  "send H p c = snd (SendData H (PacketData p) (SizeInBytes p) c)"

definition receive :: "'c host \<Rightarrow> DbgPacket \<Rightarrow> 'c \<Rightarrow> BYTE list \<times> 'c" where
  "receive H p c =
     (let n = ReturnBytesExpected p in
      case ReceiveData H (fresh H n) n c of (_, bs, c) \<Rightarrow> (bs, c))"

text \<open>\<open>SerialComm::Init\<close> once the port is configured: an echo of \<open>"NES"\<close> with its terminator.\<close>

definition init_string :: "BYTE list" where
  "init_string = [0x4E, 0x45, 0x53, 0]"

definition c_string :: "BYTE list \<Rightarrow> BYTE list" where
  "c_string bs = takeWhile (\<lambda>b. b \<noteq> 0) bs"

definition handshake :: "'c host \<Rightarrow> 'c \<Rightarrow> bool \<times> 'c" where
  "handshake H c =
     (let p = new_EchoPacket (nth init_string) 4 in
      case receive H p (send H p c) of (bs, c) \<Rightarrow> (c_string init_string = c_string bs, c))"

section \<open>Loading a ROM\<close>

text \<open>What the file dialog, opening and reading give.\<close>

datatype rom_file = NotChosen | OpenFailed | ReadFailed | RomData "BYTE list"

datatype rom_message = MsgOpen | MsgRead | MsgHeader | MsgBanks | MsgMirror | MsgMapper

definition file_buffer :: "'c host \<Rightarrow> BYTE list \<Rightarrow> nat \<Rightarrow> BYTE" where
  "file_buffer H bs i = (if i < length bs then bs ! i else heap H i)"

text \<open>The checks of the header, each with its message; an empty list is success.\<close>

definition rom_checks :: "(nat \<Rightarrow> BYTE) \<Rightarrow> rom_message list" where
  "rom_checks pFileData =
     (if pFileData 0 \<noteq> 0x4E \<or> pFileData 1 \<noteq> 0x45 \<or> pFileData 2 \<noteq> 0x53 \<or> pFileData 3 \<noteq> 0x1A
      then [MsgHeader] else [])
     @ (if pFileData 4 > 2 \<or> pFileData 5 > 1 then [MsgBanks] else [])
     @ (if pFileData 6 AND 0x08 \<noteq> 0 then [MsgMirror] else [])
     @ (if drop_bit 4 (pFileData 6 AND 0xF0) OR (pFileData 7 AND 0xF0) \<noteq> 0 then [MsgMapper] else [])"

definition transferBlockSize :: nat where "transferBlockSize = 0x400"

definition prg_packet :: "(nat \<Rightarrow> BYTE) \<Rightarrow> nat \<Rightarrow> DbgPacket" where
  "prg_packet pFileData i =
     (let prgRomOffset = transferBlockSize * i
      in new_CpuMemWrPacket (of_nat (0x8000 + prgRomOffset)) (of_nat transferBlockSize)
           (\<lambda>j. pFileData (16 + prgRomOffset + j)))"

definition chr_packet :: "(nat \<Rightarrow> BYTE) \<Rightarrow> nat \<Rightarrow> nat \<Rightarrow> DbgPacket" where
  "chr_packet pFileData prgRomDataSize i =
     (let chrRomOffset = transferBlockSize * i
      in new_PpuMemWrPacket (of_nat chrRomOffset) (of_nat transferBlockSize)
           (\<lambda>j. pFileData (16 + prgRomDataSize + chrRomOffset + j)))"

definition transfer_rom :: "'c host \<Rightarrow> (nat \<Rightarrow> BYTE) \<Rightarrow> 'c \<Rightarrow> 'c" where
  "transfer_rom H pFileData c =
     (let prgRomDataSize = unat (pFileData 4) * 0x4000;
          chrRomDataSize = unat (pFileData 5) * 0x2000;
          c = send H new_DbgHltPacket c;
          c = send H new_PpuDisablePacket c;
          c = send H (new_CartSetCfgPacket pFileData) c;
          c = fold (\<lambda>i. send H (prg_packet pFileData i)) [0 ..< prgRomDataSize div transferBlockSize] c;
          c = fold (\<lambda>i. send H (chr_packet pFileData prgRomDataSize i))
                [0 ..< chrRomDataSize div transferBlockSize] c;
          c = send H (new_CpuRegWrPacket CpuRegPcl (pFileData (16 + prgRomDataSize - 4))) c;
          c = send H (new_CpuRegWrPacket CpuRegPch (pFileData (16 + prgRomDataSize - 3))) c
      in send H new_DbgRunPacket c)"

definition LoadRom :: "'c host \<Rightarrow> rom_file \<Rightarrow> 'c \<Rightarrow> rom_message list \<times> 'c" where
  "LoadRom H f c =
     (case f of
        NotChosen \<Rightarrow> ([], c)
      | OpenFailed \<Rightarrow> ([MsgOpen], c)
      | ReadFailed \<Rightarrow> ([MsgRead], c)
      | RomData bs \<Rightarrow>
          let pFileData = file_buffer H bs; ms = rom_checks pFileData
          in (ms, if ms = [] then transfer_rom H pFileData c else c))"

section \<open>The raw debug dialog\<close>

definition hex_digit :: "BYTE \<Rightarrow> WORD" where
  "hex_digit n = (if n > 9 then 0x41 + (ucast n - 0xA) else 0x30 + ucast n)"

definition hex_text :: "BYTE list \<Rightarrow> WORD list" where
  "hex_text bs = concat (map (\<lambda>b. [hex_digit (drop_bit 4 b), hex_digit (b AND 0xF), 0x20]) bs)"

text \<open>The send button: \<open>None\<close> is the message box \<open>Invalid data.\<close>, otherwise the output text.\<close>

definition raw_send :: "'c host \<Rightarrow> WORD list \<Rightarrow> 'c \<Rightarrow> WORD list option \<times> 'c" where
  "raw_send H pInput c =
     (case CreateObjFromString (heap H) pInput of
        None \<Rightarrow> (None, c)
      | Some p \<Rightarrow> (case receive H p (send H p c) of (bs, c) \<Rightarrow> (Some (hex_text bs), c)))"

section \<open>Script functions\<close>

text \<open>
  The arguments on the Lua stack: \<open>tonumber i\<close> is argument \<open>i\<close> as a number, \<open>table_number i j\<close> the number at
  key \<open>j\<close> of the table that is argument \<open>i\<close>.  A function returns no value, a table of bytes (from key 1
  on) or a number.
\<close>

record lua_args =
  isnumber :: "nat \<Rightarrow> bool"
  istable :: "nat \<Rightarrow> bool"
  tonumber :: "nat \<Rightarrow> int"
  table_number :: "nat \<Rightarrow> nat \<Rightarrow> int"

datatype lua_result = NoValue | Table "BYTE list" | Number int

definition table_bytes :: "lua_args \<Rightarrow> nat \<Rightarrow> nat \<Rightarrow> BYTE" where
  "table_bytes L i j = word_of_int (table_number L i (j + 1))"

definition LuaEcho :: "'c host \<Rightarrow> lua_args \<Rightarrow> 'c \<Rightarrow> lua_result \<times> 'c" where
  "LuaEcho H L c =
     (if \<not> isnumber L 1 \<or> \<not> istable L 2 then (NoValue, c)
      else
        let numBytes = word_of_int (tonumber L 1);
            p = new_EchoPacket (table_bytes L 2) numBytes
        in case receive H p (send H p c) of (bs, c) \<Rightarrow> (Table bs, c))"

definition LuaCpuMemRd :: "'c host \<Rightarrow> lua_args \<Rightarrow> 'c \<Rightarrow> lua_result \<times> 'c" where
  "LuaCpuMemRd H L c =
     (if \<not> isnumber L 1 \<or> \<not> isnumber L 2 then (NoValue, c)
      else
        let p = new_CpuMemRdPacket (word_of_int (tonumber L 1)) (word_of_int (tonumber L 2))
        in case receive H p (send H p c) of (bs, c) \<Rightarrow> (Table bs, c))"

definition LuaCpuMemWr :: "'c host \<Rightarrow> lua_args \<Rightarrow> 'c \<Rightarrow> lua_result \<times> 'c" where
  "LuaCpuMemWr H L c =
     (if \<not> isnumber L 1 \<or> \<not> isnumber L 2 \<or> \<not> istable L 3 then (NoValue, c)
      else
        let p = new_CpuMemWrPacket (word_of_int (tonumber L 1)) (word_of_int (tonumber L 2)) (table_bytes L 3)
        in (NoValue, send H p c))"

definition LuaDbgHlt :: "'c host \<Rightarrow> lua_args \<Rightarrow> 'c \<Rightarrow> lua_result \<times> 'c" where
  "LuaDbgHlt H L c = (NoValue, send H new_DbgHltPacket c)"

definition LuaDbgRun :: "'c host \<Rightarrow> lua_args \<Rightarrow> 'c \<Rightarrow> lua_result \<times> 'c" where
  "LuaDbgRun H L c = (NoValue, send H new_DbgRunPacket c)"

definition LuaCpuRegRd :: "'c host \<Rightarrow> lua_args \<Rightarrow> 'c \<Rightarrow> lua_result \<times> 'c" where
  "LuaCpuRegRd H L c =
     (if \<not> isnumber L 1 then (NoValue, c)
      else
        let p = new_CpuRegRdPacket (word_of_int (tonumber L 1))
        in case receive H p (send H p c) of (bs, c) \<Rightarrow> (Number (uint (bs ! 0)), c))"

definition LuaCpuRegWr :: "'c host \<Rightarrow> lua_args \<Rightarrow> 'c \<Rightarrow> lua_result \<times> 'c" where
  "LuaCpuRegWr H L c =
     (if \<not> isnumber L 1 \<or> \<not> isnumber L 2 then (NoValue, c)
      else
        let p = new_CpuRegWrPacket (word_of_int (tonumber L 1)) (word_of_int (tonumber L 2))
        in (NoValue, send H p c))"

text \<open>The polling loop; the received byte keeps its value when nothing arrives.\<close>

partial_function (option) wait_hlt :: "'c host \<Rightarrow> BYTE list \<Rightarrow> 'c \<Rightarrow> 'c option" where
  "wait_hlt H pReceivedData c =
     (case ReceiveData H pReceivedData (ReturnBytesExpected new_QueryHltPacket)
             (send H new_QueryHltPacket c) of
        (_, bs, c) \<Rightarrow> if bs ! 0 = 0 then wait_hlt H bs c else Some c)"

definition LuaWaitForHlt :: "'c host \<Rightarrow> lua_args \<Rightarrow> 'c \<Rightarrow> (lua_result \<times> 'c) option" where
  "LuaWaitForHlt H L c =
     map_option (\<lambda>c. (NoValue, c)) (wait_hlt H (fresh H (ReturnBytesExpected new_QueryHltPacket)) c)"

text \<open>The argument of \<open>LoadAsm\<close>: whether it is a string, and what the file of that name gives.\<close>

definition LuaLoadAsm :: "'c host \<Rightarrow> bool \<Rightarrow> rom_file \<Rightarrow> 'c \<Rightarrow> rom_message list \<times> lua_result \<times> 'c" where
  "LuaLoadAsm H is_string f c =
     (if \<not> is_string then ([], NoValue, c)
      else
        (case f of
           RomData bs \<Rightarrow>
             let pFileData = file_buffer H bs;
                 startPc = ucast (pFileData 0) OR push_bit 8 (ucast (pFileData 1)) :: WORD;
                 p = new_CpuMemWrPacket startPc (ucast (of_nat (length bs) - 2 :: DWORD)) (\<lambda>i. pFileData (2 + i))
             in ([], Number (uint startPc), send H p c)
         | ReadFailed \<Rightarrow> ([MsgRead], Number 0, c)
         | _ \<Rightarrow> ([MsgOpen], Number 0, c)))"

definition LuaPpuMemRd :: "'c host \<Rightarrow> lua_args \<Rightarrow> 'c \<Rightarrow> lua_result \<times> 'c" where
  "LuaPpuMemRd H L c =
     (if \<not> isnumber L 1 \<or> \<not> isnumber L 2 then (NoValue, c)
      else
        let p = new_PpuMemRdPacket (word_of_int (tonumber L 1)) (word_of_int (tonumber L 2))
        in case receive H p (send H p c) of (bs, c) \<Rightarrow> (Table bs, c))"

definition LuaPpuMemWr :: "'c host \<Rightarrow> lua_args \<Rightarrow> 'c \<Rightarrow> lua_result \<times> 'c" where
  "LuaPpuMemWr H L c =
     (if \<not> isnumber L 1 \<or> \<not> isnumber L 2 \<or> \<not> istable L 3 then (NoValue, c)
      else
        let p = new_PpuMemWrPacket (word_of_int (tonumber L 1)) (word_of_int (tonumber L 2)) (table_bytes L 3)
        in (NoValue, send H p c))"

end
