(* ===== verification/NesHci.thy ===== *)
theory NesHci
  imports NesDbg
begin

text \<open>
  The other end of the link: the host communication interface of the NES (\<^verbatim>\<open>u9_nes/hw/src/hci/hci.v\<close>), one
  clock cycle at a time.  The UART, the CPU and PPU buses and the cartridge are its inputs and outputs.
  A registered output is recorded in the cycle that computes it.
\<close>

section \<open>Registers, inputs, outputs\<close>

datatype hci_state = S_DISABLED | S_DECODE | S_ECHO_STG_0 | S_ECHO_STG_1 | S_CPU_MEM_RD_STG_0
  | S_CPU_MEM_RD_STG_1 | S_CPU_MEM_WR_STG_0 | S_CPU_MEM_WR_STG_1 | S_CPU_REG_RD | S_CPU_REG_WR_STG_0
  | S_CPU_REG_WR_STG_1 | S_QUERY_ERR_CODE | S_PPU_MEM_RD_STG_0 | S_PPU_MEM_RD_STG_1
  | S_PPU_MEM_WR_STG_0 | S_PPU_MEM_WR_STG_1 | S_PPU_DISABLE | S_CART_SET_CFG_STG_0 | S_CART_SET_CFG_STG_1

record hci =
  q_state :: hci_state
  q_decode_cnt :: "3 word"
  q_execute_cnt :: "17 word"
  q_addr :: WORD
  q_err_code :: "2 word"
  q_cart_cfg :: "40 word"

definition hci_reset :: hci where
  "hci_reset = \<lparr>q_state = S_DECODE, q_decode_cnt = 0, q_execute_cnt = 0, q_addr = 0, q_err_code = 0,
     q_cart_cfg = 0\<rparr>"

text \<open>\<open>rx\<close> is the byte at the head of the receive buffer, \<open>None\<close> for \<open>rx_empty\<close>.\<close>

record hci_in =
  rx :: "BYTE option"
  tx_full :: bool
  parity_err :: bool
  brk :: bool
  cpu_din :: BYTE
  cpu_dbgreg_in :: "4 word \<Rightarrow> BYTE"
  ppu_vram_din :: BYTE

text \<open>What a cycle does outside: a write to the CPU bus, a CPU register, the PPU bus, the cartridge
  configuration, or a byte handed to the UART.\<close>

datatype hci_event = CpuWrite WORD BYTE | RegWrite "4 word" BYTE | VramWrite WORD BYTE
  | CartCfg "40 word" | Transmit BYTE

section \<open>One clock cycle\<close>

text \<open>
  A step function of a state gives the next registers, whether a byte is popped, and the events.
  \<open>decode_rx b h\<close> is the reading of a counter in four bytes (two for an echo), with the shift of the read
  packets.
\<close>

type_synonym hci_step = "hci \<times> bool \<times> hci_event list"

definition low_high :: "BYTE \<Rightarrow> WORD \<Rightarrow> WORD" where
  "low_high hi q = push_bit 8 (ucast hi) OR (q AND 0xFF)"

definition low_high_cnt :: "BYTE \<Rightarrow> 17 word \<Rightarrow> 17 word" where
  "low_high_cnt hi q = push_bit 8 (ucast hi) OR (q AND 0xFF)"

definition clk_disabled :: "hci_in \<Rightarrow> hci \<Rightarrow> hci_step" where
  "clk_disabled i h =
     (if brk i then (h\<lparr>q_state := S_DECODE\<rparr>, False, [])
      else
        (case rx i of
           None \<Rightarrow> (h, False, [])
         | Some b \<Rightarrow>
             if b = opcode OpCodeDbgHlt then (h\<lparr>q_state := S_DECODE\<rparr>, True, [])
             else if b = opcode OpCodeQueryHlt then (h, True, [Transmit 0])
             else (h, True, [])))"

definition decode_opcode :: "BYTE \<Rightarrow> hci \<Rightarrow> hci \<times> hci_event list" where
  "decode_opcode b h =
     (if b = opcode OpCodeEcho then (h\<lparr>q_state := S_ECHO_STG_0\<rparr>, [])
      else if b = opcode OpCodeCpuMemRd then (h\<lparr>q_state := S_CPU_MEM_RD_STG_0\<rparr>, [])
      else if b = opcode OpCodeCpuMemWr then (h\<lparr>q_state := S_CPU_MEM_WR_STG_0\<rparr>, [])
      else if b = opcode OpCodeDbgHlt then (h\<lparr>q_state := S_DECODE\<rparr>, [])
      else if b = opcode OpCodeCpuRegRd then (h\<lparr>q_state := S_CPU_REG_RD\<rparr>, [])
      else if b = opcode OpCodeCpuRegWr then (h\<lparr>q_state := S_CPU_REG_WR_STG_0\<rparr>, [])
      else if b = opcode OpCodeQueryErrCode then (h\<lparr>q_state := S_QUERY_ERR_CODE\<rparr>, [])
      else if b = opcode OpCodePpuMemRd then (h\<lparr>q_state := S_PPU_MEM_RD_STG_0\<rparr>, [])
      else if b = opcode OpCodePpuMemWr then (h\<lparr>q_state := S_PPU_MEM_WR_STG_0\<rparr>, [])
      else if b = opcode OpCodePpuDisable then (h\<lparr>q_state := S_PPU_DISABLE\<rparr>, [])
      else if b = opcode OpCodeCartSetCfg then (h\<lparr>q_state := S_CART_SET_CFG_STG_0\<rparr>, [])
      else if b = opcode OpCodeDbgRun then (h\<lparr>q_state := S_DISABLED\<rparr>, [])
      else if b = opcode OpCodeQueryHlt then (h, [Transmit 1])
      else (h\<lparr>q_err_code := q_err_code h OR 2, q_state := S_DECODE\<rparr>, []))"

definition clk_decode :: "hci_in \<Rightarrow> hci \<Rightarrow> hci_step" where
  "clk_decode i h =
     (case rx i of
        None \<Rightarrow> (h, False, [])
      | Some b \<Rightarrow> (case decode_opcode b (h\<lparr>q_decode_cnt := 0\<rparr>) of (h, es) \<Rightarrow> (h, True, es)))"

definition clk_echo_0 :: "hci_in \<Rightarrow> hci \<Rightarrow> hci_step" where
  "clk_echo_0 i h =
     (case rx i of
        None \<Rightarrow> (h, False, [])
      | Some b \<Rightarrow>
          let h' = h\<lparr>q_decode_cnt := q_decode_cnt h + 1\<rparr> in
          if q_decode_cnt h = 0 then (h'\<lparr>q_execute_cnt := ucast b\<rparr>, True, [])
          else
            let n = low_high_cnt b (q_execute_cnt h) in
            (h'\<lparr>q_execute_cnt := n, q_state := (if n \<noteq> 0 then S_ECHO_STG_1 else S_DECODE)\<rparr>, True, []))"

definition clk_echo_1 :: "hci_in \<Rightarrow> hci \<Rightarrow> hci_step" where
  "clk_echo_1 i h =
     (case rx i of
        None \<Rightarrow> (h, False, [])
      | Some b \<Rightarrow>
          let n = q_execute_cnt h - 1;
              h' = h\<lparr>q_execute_cnt := n\<rparr>
          in (if n = 0 then h'\<lparr>q_state := S_DECODE\<rparr> else h', True, [Transmit b]))"

text \<open>The header of a memory packet; \<open>shift\<close> is 1 for a read, which counts two cycles per byte.\<close>

definition clk_mem_0 :: "nat \<Rightarrow> hci_state \<Rightarrow> hci_in \<Rightarrow> hci \<Rightarrow> hci_step" where
  "clk_mem_0 shift stg_1 i h =
     (case rx i of
        None \<Rightarrow> (h, False, [])
      | Some b \<Rightarrow>
          let h' = h\<lparr>q_decode_cnt := q_decode_cnt h + 1\<rparr> in
          if q_decode_cnt h = 0 then (h'\<lparr>q_addr := ucast b\<rparr>, True, [])
          else if q_decode_cnt h = 1 then (h'\<lparr>q_addr := low_high b (q_addr h)\<rparr>, True, [])
          else if q_decode_cnt h = 2 then (h'\<lparr>q_execute_cnt := ucast b\<rparr>, True, [])
          else
            let n = push_bit shift (low_high_cnt b (q_execute_cnt h)) in
            (h'\<lparr>q_execute_cnt := n, q_state := (if n \<noteq> 0 then stg_1 else S_DECODE)\<rparr>, True, []))"

definition clk_mem_rd_1 :: "BYTE \<Rightarrow> hci_in \<Rightarrow> hci \<Rightarrow> hci_step" where
  "clk_mem_rd_1 din i h =
     (let n = q_execute_cnt h - 1 in
      if q_execute_cnt h AND 1 = 0 then (h\<lparr>q_execute_cnt := n\<rparr>, False, [])
      else if \<not> tx_full i then
        (let h' = h\<lparr>q_execute_cnt := n, q_addr := q_addr h + 1\<rparr>
         in (if n = 0 then h'\<lparr>q_state := S_DECODE\<rparr> else h', False, [Transmit din]))
      else (h, False, []))"

definition clk_mem_wr_1 :: "(WORD \<Rightarrow> BYTE \<Rightarrow> hci_event) \<Rightarrow> hci_in \<Rightarrow> hci \<Rightarrow> hci_step" where
  "clk_mem_wr_1 wr i h =
     (case rx i of
        None \<Rightarrow> (h, False, [])
      | Some b \<Rightarrow>
          let n = q_execute_cnt h - 1;
              h' = h\<lparr>q_execute_cnt := n, q_addr := q_addr h + 1\<rparr>
          in (if n = 0 then h'\<lparr>q_state := S_DECODE\<rparr> else h', True, [wr (q_addr h) b]))"

definition clk_reg_rd :: "hci_in \<Rightarrow> hci \<Rightarrow> hci_step" where
  "clk_reg_rd i h =
     (case rx i of
        None \<Rightarrow> (h, False, [])
      | Some b \<Rightarrow>
          if tx_full i then (h, False, [])
          else (h\<lparr>q_state := S_DECODE\<rparr>, True, [Transmit (cpu_dbgreg_in i (ucast b))]))"

definition clk_reg_wr_0 :: "hci_in \<Rightarrow> hci \<Rightarrow> hci_step" where
  "clk_reg_wr_0 i h =
     (case rx i of
        None \<Rightarrow> (h, False, [])
      | Some b \<Rightarrow> (h\<lparr>q_addr := ucast b, q_state := S_CPU_REG_WR_STG_1\<rparr>, True, []))"

definition clk_reg_wr_1 :: "hci_in \<Rightarrow> hci \<Rightarrow> hci_step" where
  "clk_reg_wr_1 i h =
     (case rx i of
        None \<Rightarrow> (h, False, [])
      | Some b \<Rightarrow> (h\<lparr>q_state := S_DECODE\<rparr>, True, [RegWrite (ucast (q_addr h)) b]))"

text \<open>The error code sent is the registered one, without an error of this cycle.\<close>

definition clk_query_err :: "2 word \<Rightarrow> hci_in \<Rightarrow> hci \<Rightarrow> hci_step" where
  "clk_query_err err i h =
     (if tx_full i then (h, False, [])
      else (h\<lparr>q_state := S_DECODE\<rparr>, False, [Transmit (ucast err)]))"

text \<open>Two writes of 0 to the PPU registers and a read that resets its byte pointer.\<close>

definition clk_ppu_disable :: "hci_in \<Rightarrow> hci \<Rightarrow> hci_step" where
  "clk_ppu_disable i h =
     (let h' = h\<lparr>q_decode_cnt := q_decode_cnt h + 1\<rparr> in
      if q_decode_cnt h = 0 then (h'\<lparr>q_addr := 0x2000\<rparr>, False, [])
      else if q_decode_cnt h = 1 then (h'\<lparr>q_addr := 0\<rparr>, False, [CpuWrite (q_addr h) 0])
      else if q_decode_cnt h = 2 then (h'\<lparr>q_addr := 0x2001\<rparr>, False, [])
      else if q_decode_cnt h = 3 then (h'\<lparr>q_addr := 0\<rparr>, False, [CpuWrite (q_addr h) 0])
      else if q_decode_cnt h = 4 then (h'\<lparr>q_addr := 0x2002\<rparr>, False, [])
      else if q_decode_cnt h = 5 then (h'\<lparr>q_addr := 0, q_state := S_DECODE\<rparr>, False, [])
      else (h', False, []))"

definition clk_cart_0 :: "hci_in \<Rightarrow> hci \<Rightarrow> hci_step" where
  "clk_cart_0 i h = (h\<lparr>q_execute_cnt := 4, q_state := S_CART_SET_CFG_STG_1\<rparr>, False, [])"

definition clk_cart_1 :: "hci_in \<Rightarrow> hci \<Rightarrow> hci_step" where
  "clk_cart_1 i h =
     (case rx i of
        None \<Rightarrow> (h, False, [])
      | Some b \<Rightarrow>
          let cfg = push_bit 8 (q_cart_cfg h) OR ucast b;
              h' = h\<lparr>q_execute_cnt := q_execute_cnt h - 1, q_cart_cfg := cfg\<rparr>
          in if q_execute_cnt h = 0 then (h'\<lparr>q_state := S_DECODE\<rparr>, True, [CartCfg cfg])
             else (h', True, []))"

definition hci_clock :: "hci_in \<Rightarrow> hci \<Rightarrow> hci_step" where
  "hci_clock i h =
     (let err = q_err_code h; h = (if parity_err i then h\<lparr>q_err_code := q_err_code h OR 1\<rparr> else h) in
      case q_state h of
        S_DISABLED \<Rightarrow> clk_disabled i h
      | S_DECODE \<Rightarrow> clk_decode i h
      | S_ECHO_STG_0 \<Rightarrow> clk_echo_0 i h
      | S_ECHO_STG_1 \<Rightarrow> clk_echo_1 i h
      | S_CPU_MEM_RD_STG_0 \<Rightarrow> clk_mem_0 1 S_CPU_MEM_RD_STG_1 i h
      | S_CPU_MEM_RD_STG_1 \<Rightarrow> clk_mem_rd_1 (cpu_din i) i h
      | S_CPU_MEM_WR_STG_0 \<Rightarrow> clk_mem_0 0 S_CPU_MEM_WR_STG_1 i h
      | S_CPU_MEM_WR_STG_1 \<Rightarrow> clk_mem_wr_1 CpuWrite i h
      | S_CPU_REG_RD \<Rightarrow> clk_reg_rd i h
      | S_CPU_REG_WR_STG_0 \<Rightarrow> clk_reg_wr_0 i h
      | S_CPU_REG_WR_STG_1 \<Rightarrow> clk_reg_wr_1 i h
      | S_QUERY_ERR_CODE \<Rightarrow> clk_query_err err i h
      | S_PPU_MEM_RD_STG_0 \<Rightarrow> clk_mem_0 1 S_PPU_MEM_RD_STG_1 i h
      | S_PPU_MEM_RD_STG_1 \<Rightarrow> clk_mem_rd_1 (ppu_vram_din i) i h
      | S_PPU_MEM_WR_STG_0 \<Rightarrow> clk_mem_0 0 S_PPU_MEM_WR_STG_1 i h
      | S_PPU_MEM_WR_STG_1 \<Rightarrow> clk_mem_wr_1 VramWrite i h
      | S_PPU_DISABLE \<Rightarrow> clk_ppu_disable i h
      | S_CART_SET_CFG_STG_0 \<Rightarrow> clk_cart_0 i h
      | S_CART_SET_CFG_STG_1 \<Rightarrow> clk_cart_1 i h)"

section \<open>Runs\<close>

text \<open>
  A run over a stream of bytes: in each cycle the head of the stream has arrived or not, and the other
  inputs are arbitrary.  \<open>hci_run\<close> gives the events, the bytes not yet popped and the registers.
\<close>

fun hci_run :: "(bool \<times> hci_in) list \<Rightarrow> BYTE list \<Rightarrow> hci \<Rightarrow> hci_event list \<times> BYTE list \<times> hci" where
  "hci_run [] bs h = ([], bs, h)"
| "hci_run ((arrived, i) # is) bs h =
     (let i = i\<lparr>rx := (if arrived \<and> bs \<noteq> [] then Some (hd bs) else None)\<rparr> in
      case hci_clock i h of (h, pop, es) \<Rightarrow>
        case hci_run is (if pop then tl bs else bs) h of (es', bs, h) \<Rightarrow> (es @ es', bs, h))"

end
