(* ===== verification/NesProps.thy ===== *)
theory NesProps
  imports NesHci
begin

text \<open>
  Lemmas about the packets of the NES debugger: their bytes and sizes, reading them back from text, and
  what the interface on the other end does with them, whatever the timing of the link.
\<close>

section \<open>The bytes of a packet\<close>

text \<open>The packets the constructors build.\<close>

inductive constructed :: "DbgPacket \<Rightarrow> bool" where
  echo: "constructed (new_EchoPacket d n)"
| cpu_rd: "constructed (new_CpuMemRdPacket a n)"
| cpu_wr: "constructed (new_CpuMemWrPacket a n d)"
| hlt: "constructed new_DbgHltPacket"
| run: "constructed new_DbgRunPacket"
| reg_rd: "constructed (new_CpuRegRdPacket r)"
| reg_wr: "constructed (new_CpuRegWrPacket r v)"
| query: "constructed new_QueryHltPacket"
| ppu_rd: "constructed (new_PpuMemRdPacket a n)"
| ppu_wr: "constructed (new_PpuMemWrPacket a n d)"
| ppu_off: "constructed new_PpuDisablePacket"
| cart: "constructed (new_CartSetCfgPacket ines)"

inductive_cases constructedE: "constructed p"

definition ushort_bytes :: "WORD \<Rightarrow> BYTE list" where
  "ushort_bytes w = [ucast w, ucast (drop_bit 8 w)]"

lemma length_ushort_bytes [simp]: "length (ushort_bytes w) = 2"
  by (simp add: ushort_bytes_def)

lemma byte_pair: "push_bit 8 (ucast (ucast (drop_bit 8 w) :: BYTE)) OR ucast (ucast w :: BYTE) = w" for w :: WORD
  by (rule bit_word_eqI) (auto simp: bit_simps)

lemma LD_WORD_ushort_bytes: "LD_WORD (pre @ ushort_bytes w @ post) (length pre) = w"
  by (simp add: LD_WORD_def ushort_bytes_def nth_append byte_pair)

named_theorems packet_bytes \<open>the class and the bytes of each packet\<close>

lemma EchoPacket_bytes [packet_bytes]:
  "PacketData (new_EchoPacket d n) = 0x00 # ushort_bytes n @ map d [0 ..< unat n]"
  by (simp add: PacketData_def new_EchoPacket_def ST_WORD_def ushort_bytes_def)

lemma CpuMemRdPacket_bytes [packet_bytes]:
  "PacketData (new_CpuMemRdPacket a n) = 0x01 # ushort_bytes a @ ushort_bytes n"
  by (simp add: PacketData_def new_CpuMemRdPacket_def ST_WORD_def ushort_bytes_def)

lemma CpuMemWrPacket_bytes [packet_bytes]:
  "PacketData (new_CpuMemWrPacket a n d) = 0x02 # ushort_bytes a @ ushort_bytes n @ map d [0 ..< unat n]"
  by (simp add: PacketData_def new_CpuMemWrPacket_def ST_WORD_def ushort_bytes_def)

lemma PpuMemRdPacket_bytes [packet_bytes]:
  "PacketData (new_PpuMemRdPacket a n) = 0x09 # ushort_bytes a @ ushort_bytes n"
  by (simp add: PacketData_def new_PpuMemRdPacket_def ST_WORD_def ushort_bytes_def)

lemma PpuMemWrPacket_bytes [packet_bytes]:
  "PacketData (new_PpuMemWrPacket a n d) = 0x0A # ushort_bytes a @ ushort_bytes n @ map d [0 ..< unat n]"
  by (simp add: PacketData_def new_PpuMemWrPacket_def ST_WORD_def ushort_bytes_def)

lemma small_packet_bytes [packet_bytes]:
  "PacketData new_DbgHltPacket = [0x03]"
  "PacketData new_DbgRunPacket = [0x04]"
  "PacketData (new_CpuRegRdPacket r) = [0x05, ucast r]"
  "PacketData (new_CpuRegWrPacket r v) = [0x06, ucast r, v]"
  "PacketData new_QueryHltPacket = [0x07]"
  "PacketData new_PpuDisablePacket = [0x0B]"
  "PacketData (new_CartSetCfgPacket f) = [0x0C, f 4, f 5, f 6, f 7, f 8]"
  by (simp_all add: PacketData_def new_DbgHltPacket_def new_DbgRunPacket_def new_CpuRegRdPacket_def
      new_CpuRegWrPacket_def new_QueryHltPacket_def new_PpuDisablePacket_def new_CartSetCfgPacket_def)

lemma packet_classes [packet_bytes]:
  "packet_class (new_EchoPacket d n) = EchoPacket"
  "packet_class (new_CpuMemRdPacket a n) = CpuMemRdPacket"
  "packet_class (new_CpuMemWrPacket a n d) = CpuMemWrPacket"
  "packet_class new_DbgHltPacket = DbgHltPacket"
  "packet_class new_DbgRunPacket = DbgRunPacket"
  "packet_class (new_CpuRegRdPacket r) = CpuRegRdPacket"
  "packet_class (new_CpuRegWrPacket r v) = CpuRegWrPacket"
  "packet_class new_QueryHltPacket = QueryHltPacket"
  "packet_class (new_PpuMemRdPacket a n) = PpuMemRdPacket"
  "packet_class (new_PpuMemWrPacket a n d) = PpuMemWrPacket"
  "packet_class new_PpuDisablePacket = PpuDisablePacket"
  "packet_class (new_CartSetCfgPacket f) = CartSetCfgPacket"
  by (simp_all add: new_EchoPacket_def new_CpuMemRdPacket_def new_CpuMemWrPacket_def new_DbgHltPacket_def
      new_DbgRunPacket_def new_CpuRegRdPacket_def new_CpuRegWrPacket_def new_QueryHltPacket_def
      new_PpuMemRdPacket_def new_PpuMemWrPacket_def new_PpuDisablePacket_def new_CartSetCfgPacket_def)

lemmas size_defs = EchoPacket_SizeInBytes_def CpuMemRdPacket_SizeInBytes_def CpuMemWrPacket_SizeInBytes_def
  CpuRegRdPacket_SizeInBytes_def CpuRegWrPacket_SizeInBytes_def QueryHltPacket_SizeInBytes_def
  PpuMemRdPacket_SizeInBytes_def PpuMemWrPacket_SizeInBytes_def CartSetCfgPacket_SizeInBytes_def

lemmas return_defs = EchoPacket_ReturnBytesExpected_def CpuMemRdPacket_ReturnBytesExpected_def
  CpuMemWrPacket_ReturnBytesExpected_def CpuRegRdPacket_ReturnBytesExpected_def
  CpuRegWrPacket_ReturnBytesExpected_def QueryHltPacket_ReturnBytesExpected_def
  PpuMemRdPacket_ReturnBytesExpected_def PpuMemWrPacket_ReturnBytesExpected_def

lemma LD_WORD_packet:
  "LD_WORD (x # ushort_bytes w @ post) 1 = w"
  "LD_WORD (x # ushort_bytes v @ ushort_bytes w @ post) 3 = w"
  "LD_WORD (x # ushort_bytes v @ ushort_bytes w) 3 = w"
  using LD_WORD_ushort_bytes [of "[x]" w post] LD_WORD_ushort_bytes [of "x # ushort_bytes v" w post]
    LD_WORD_ushort_bytes [of "x # ushort_bytes v" w "[]"] by simp_all

lemma unat_ucast_add:
  "unat (3 + ucast n :: DWORD) = unat n + 3" "unat (5 + ucast n :: DWORD) = unat n + 5" for n :: WORD
proof -
  have "unat n < 65536" using unsigned_less [of n] by simp
  then show "unat (3 + ucast n :: DWORD) = unat n + 3" "unat (5 + ucast n :: DWORD) = unat n + 5"
    by (simp_all add: unat_word_ariths)
qed

lemmas packet_size = SizeInBytes_def packet_bytes size_defs LD_WORD_packet [unfolded One_nat_def] unat_ucast_add

lemma size_of_constructed:
  assumes "constructed p"
  shows "unat (SizeInBytes p) = length (PacketData p)"
  using assms
proof (cases rule: constructed.cases)
  case (echo d n)
  then show ?thesis using EchoPacket_bytes [of d n]
    by (simp add: packet_size PacketData_def)
next
  case (cpu_wr a n d)
  then show ?thesis using CpuMemWrPacket_bytes [of a n d]
    by (simp add: packet_size PacketData_def)
next
  case (ppu_wr a n d)
  then show ?thesis using PpuMemWrPacket_bytes [of a n d]
    by (simp add: packet_size PacketData_def)
qed (simp_all add: packet_size)

section \<open>Packets from text\<close>

lemma nibble_table: "list_all (\<lambda>n. nibble_of (ucast (hex_digit (of_nat n))) = Some (of_nat n)) [0 ..< 16]"
  by code_simp

lemma nibble_of_hex_digit:
  assumes "n < 16"
  shows "nibble_of (ucast (hex_digit n)) = Some n"
proof -
  have "unat n < 16" using assms by (simp add: word_less_nat_alt)
  then have "nibble_of (ucast (hex_digit (of_nat (unat n)))) = Some (of_nat (unat n))"
    using nibble_table by (simp add: list_all_iff del: of_nat_unat)
  then show ?thesis by simp
qed

lemma nibble_bounds: "drop_bit 4 b < 16" "b AND 0xF < 16" for b :: BYTE
proof -
  have "unat (drop_bit 4 b) = unat b div 16"
    unfolding unat_drop_bit_eq by (simp add: drop_bit_eq_div)
  then show "drop_bit 4 b < 16" using unat_bounds(1) [of b] by (simp add: word_less_nat_alt)
  have "b AND 0xF \<le> 0xF" by (rule word_and_le1)
  then show "b AND 0xF < 16" by (simp add: word_le_nat_alt word_less_nat_alt)
qed

lemma nibbles_join: "push_bit 4 (drop_bit 4 b) OR (b AND 0xF) = b" for b :: BYTE
proof -
  have m: "(0xF :: BYTE) = mask 4" by (simp add: mask_eq_exp_minus_1)
  show ?thesis unfolding m by (rule bit_word_eqI) (auto simp: bit_simps)
qed

lemma nibble_of_space: "nibble_of 0x20 = None"
  by (simp add: nibble_of_def)

lemma parse_text_byte:
  "parse_text (hex_text [b] @ cs) (2 * k) raw = parse_text cs (2 * (k + 1)) (raw(k := b))"
  using nibble_of_hex_digit [OF nibble_bounds(1), of b] nibble_of_hex_digit [OF nibble_bounds(2), of b]
  by (simp add: hex_text_def nibble_of_space nibbles_join)

lemma parse_text_bytes:
  "parse_text (hex_text bs) (2 * k) raw
    = (True, 2 * (k + length bs), \<lambda>i. if k \<le> i \<and> i < k + length bs then bs ! (i - k) else raw i)"
proof (induction bs arbitrary: k raw)
  case (Cons b bs)
  have "hex_text (b # bs) = hex_text [b] @ hex_text bs" by (simp add: hex_text_def)
  then show ?case
    unfolding \<open>hex_text (b # bs) = _\<close> parse_text_byte Cons.IH
    by (auto simp: fun_eq_iff nth_Cons split: nat.split intro!: arg_cong [where f = "nth bs"])
qed (auto simp: hex_text_def fun_eq_iff)

text \<open>A packet is read back from memory that holds its bytes.\<close>

lemma ushort_at_bytes: "raw i = ucast w \<Longrightarrow> raw (i + 1) = ucast (drop_bit 8 w) \<Longrightarrow> ushort_at raw i = w"
  using LD_WORD_ushort_bytes [of "[]" w "[]"] by (simp add: ushort_at_def ushort_bytes_def)

lemma packet_from_raw_bytes:
  assumes "constructed p" and "\<And>i. i < length (PacketData p) \<Longrightarrow> raw i = PacketData p ! i"
  shows "packet_from_raw raw
    = (if packet_class p \<in> {EchoPacket, CpuMemRdPacket, CpuMemWrPacket} then Some p else None)"
  using assms(1)
proof (cases rule: constructed.cases)
  case (echo d n)
  have r: "raw 0 = 0" "raw 1 = ucast n" "raw 2 = ucast (drop_bit 8 n)" "i < unat n \<Longrightarrow> raw (3 + i) = d i" for i
    using assms(2) [of 0] assms(2) [of 1] assms(2) [of 2] assms(2) [of "3 + i"]
    by (auto simp: echo packet_bytes ushort_bytes_def)
  have "ushort_at raw 1 = n" using r by (intro ushort_at_bytes) (simp_all add: numeral_2_eq_2)
  moreover have m: "map (\<lambda>i. raw (3 + i)) [0 ..< unat n] = map d [0 ..< unat n]" using r(4) by simp
  have "new_EchoPacket (\<lambda>i. raw (3 + i)) n = new_EchoPacket d n" unfolding new_EchoPacket_def m ..
  ultimately show ?thesis by (simp add: packet_from_raw_def r(1) echo packet_bytes)
next
  case (cpu_rd a n)
  have r: "raw 0 = 1" "raw 1 = ucast a" "raw 2 = ucast (drop_bit 8 a)" "raw 3 = ucast n" "raw 4 = ucast (drop_bit 8 n)"
    using assms(2) [of 0] assms(2) [of 1] assms(2) [of 2] assms(2) [of 3] assms(2) [of 4]
    by (auto simp: cpu_rd packet_bytes ushort_bytes_def)
  have "ushort_at raw 1 = a" "ushort_at raw 3 = n" using r by (auto intro!: ushort_at_bytes simp: numeral_2_eq_2)
  then show ?thesis by (simp add: packet_from_raw_def r(1) cpu_rd packet_bytes)
next
  case (cpu_wr a n d)
  have r: "raw 0 = 2" "raw 1 = ucast a" "raw 2 = ucast (drop_bit 8 a)" "raw 3 = ucast n" "raw 4 = ucast (drop_bit 8 n)"
    "i < unat n \<Longrightarrow> raw (5 + i) = d i" for i
    using assms(2) [of 0] assms(2) [of 1] assms(2) [of 2] assms(2) [of 3] assms(2) [of 4] assms(2) [of "5 + i"]
    by (auto simp: cpu_wr packet_bytes ushort_bytes_def)
  have "ushort_at raw 1 = a" "ushort_at raw 3 = n" using r by (auto intro!: ushort_at_bytes simp: numeral_2_eq_2)
  moreover have m: "map (\<lambda>i. raw (5 + i)) [0 ..< unat n] = map d [0 ..< unat n]" using r(6) by simp
  have "new_CpuMemWrPacket a n (\<lambda>i. raw (5 + i)) = new_CpuMemWrPacket a n d" unfolding new_CpuMemWrPacket_def m ..
  ultimately show ?thesis by (simp add: packet_from_raw_def r(1) cpu_wr packet_bytes)
qed (use assms(2) [of 0] in \<open>simp_all add: packet_bytes packet_from_raw_def\<close>)

lemma text_round_trip:
  assumes "constructed p"
  shows "CreateObjFromString junk (hex_text (PacketData p))
    = (if packet_class p \<in> {EchoPacket, CpuMemRdPacket, CpuMemWrPacket} then Some p else None)"
  using parse_text_bytes [of "PacketData p" 0 junk] packet_from_raw_bytes [OF assms]
  by (simp add: CreateObjFromString_def)

text \<open>
  Which text is a packet: the hexadecimal digits as a list of ASCII codes, upper case before lower case,
  the value of a digit by its place in that list, and the digits of a text, of whose 16-bit characters
  the code looks at the low byte.
\<close>

definition hex_chars :: "BYTE list" where
  "hex_chars = [0x30, 0x31, 0x32, 0x33, 0x34, 0x35, 0x36, 0x37, 0x38, 0x39, 0x41, 0x42, 0x43, 0x44, 0x45, 0x46,
     0x61, 0x62, 0x63, 0x64, 0x65, 0x66]"

definition digit_value :: "BYTE \<Rightarrow> nat" where
  "digit_value c = (let i = length (takeWhile (\<lambda>d. d \<noteq> c) hex_chars) in if i < 16 then i else i - 6)"

definition text_digits :: "WORD list \<Rightarrow> BYTE list" where
  "text_digits cs = filter (\<lambda>c. c \<in> set hex_chars) (map ucast cs)"

lemma text_digits_simps [simp]:
  "text_digits [] = []"
  "text_digits (c # cs) = (if ucast c \<in> set hex_chars then ucast c # text_digits cs else text_digits cs)"
  by (simp_all add: text_digits_def)

lemma hex_char_ranges:
  "c \<in> set hex_chars \<longleftrightarrow> 0x30 \<le> c \<and> c \<le> 0x39 \<or> 0x61 \<le> c \<and> c \<le> 0x66 \<or> 0x41 \<le> c \<and> c \<le> 0x46"
  by (simp add: hex_chars_def word_le_nat_alt word_eq_unat) presburger

lemma digit_nibble_table:
  "list_all (\<lambda>c. nibble_of c = Some (of_nat (digit_value c)) \<and> digit_value c < 16) hex_chars"
  by (simp add: hex_chars_def digit_value_def nibble_of_def)

lemma nibble_digit:
  "nibble_of c = (if c \<in> set hex_chars then Some (of_nat (digit_value c)) else None)"
  "c \<in> set hex_chars \<Longrightarrow> digit_value c < 16"
proof -
  have "nibble_of c = None" if "c \<notin> set hex_chars" using that by (auto simp: hex_char_ranges nibble_of_def)
  then show "nibble_of c = (if c \<in> set hex_chars then Some (of_nat (digit_value c)) else None)"
    "c \<in> set hex_chars \<Longrightarrow> digit_value c < 16"
    using digit_nibble_table by (auto simp: list_all_iff)
qed

lemma space_no_digit: "0x20 \<notin> set hex_chars"
  by (simp add: hex_chars_def)

definition set_nibble :: "nat \<Rightarrow> BYTE \<Rightarrow> (nat \<Rightarrow> BYTE) \<Rightarrow> nat \<Rightarrow> BYTE" where
  "set_nibble k v raw = raw(k div 2 := if k mod 2 = 1 then raw (k div 2) OR v else push_bit 4 v)"

lemma parse_text_step:
  "parse_text (c # cs) k raw =
     (if ucast c \<in> set hex_chars then
        parse_text cs (k + 1) (set_nibble k (of_nat (digit_value (ucast c))) raw)
      else if (ucast c :: BYTE) = 0x20 then parse_text cs k raw else (False, k, raw))"
  by (simp add: Let_def nibble_digit(1) set_nibble_def)

declare parse_text.simps(2) [simp del]

lemma parse_text_succeeds:
  "fst (parse_text cs k raw) \<longleftrightarrow> (\<forall>c \<in> set cs. (ucast c :: BYTE) \<in> set hex_chars \<or> (ucast c :: BYTE) = 0x20)"
  by (induction cs arbitrary: k raw) (simp_all add: parse_text_step)

lemma parse_text_count:
  "parse_text cs k raw = (True, n, raw') \<Longrightarrow> n = k + length (text_digits cs)"
  by (induction cs arbitrary: k raw) (fastforce simp: parse_text_step split: if_splits)+

lemma parse_text_done:
  "parse_text cs k raw = (True, n, raw') \<Longrightarrow> j < k div 2 \<Longrightarrow> raw' j = raw j"
proof (induction cs arbitrary: k raw)
  case (Cons c cs)
  have j: "j < (k + 1) div 2" "j \<noteq> k div 2" using Cons.prems(2) div_le_mono [of k "k + 1" 2] by linarith+
  show ?case using Cons.IH [OF _ j(1)] Cons.IH [OF _ Cons.prems(2)] Cons.prems(1) j(2)
    by (auto simp: parse_text_step set_nibble_def split: if_splits)
qed simp

lemma parse_text_no_digits:
  "parse_text cs k raw = (True, n, raw') \<Longrightarrow> text_digits cs = [] \<Longrightarrow> raw' = raw"
  by (induction cs arbitrary: k raw) (auto simp: parse_text_step split: if_splits)

lemma parse_text_second:
  "parse_text cs 1 raw = (True, n, raw') \<Longrightarrow> text_digits cs = e # es \<Longrightarrow>
    raw' 0 = raw 0 OR of_nat (digit_value e)"
proof (induction cs arbitrary: raw)
  case (Cons c cs)
  show ?case
  proof (cases "ucast c \<in> set hex_chars")
    case True
    then have "parse_text cs 2 (raw(0 := raw 0 OR of_nat (digit_value e))) = (True, n, raw')"
      using Cons.prems by (simp add: parse_text_step set_nibble_def numeral_2_eq_2)
    from parse_text_done [OF this, of 0] show ?thesis by simp
  next
    case False
    then show ?thesis using Cons by (auto simp: parse_text_step split: if_splits)
  qed
qed simp

lemma parse_text_first:
  "parse_text cs 0 raw = (True, n, raw') \<Longrightarrow> text_digits cs = d # e # es \<Longrightarrow>
    raw' 0 = push_bit 4 (of_nat (digit_value d)) OR of_nat (digit_value e)"
proof (induction cs arbitrary: raw)
  case (Cons c cs)
  show ?case
  proof (cases "ucast c \<in> set hex_chars")
    case True
    then have "parse_text cs 1 (raw(0 := push_bit 4 (of_nat (digit_value d)))) = (True, n, raw')" "text_digits cs = e # es"
      using Cons.prems by (simp_all add: parse_text_step set_nibble_def)
    from parse_text_second [OF this] show ?thesis by simp
  next
    case False
    then show ?thesis using Cons by (auto simp: parse_text_step split: if_splits)
  qed
qed simp

lemma byte_of_digits:
  assumes "a < 16" "b < 16"
  shows "unat (push_bit 4 (of_nat a) OR of_nat b :: BYTE) = 16 * a + b"
proof -
  have "push_bit 4 (of_nat a) AND (of_nat b :: BYTE) = 0"
  proof (rule bit_word_eqI)
    fix i assume "i < LENGTH(8)"
    have "\<not> bit b i" if "4 \<le> i"
    proof -
      have "b < 2 ^ i" using assms(2) power_increasing [of 4 i "2 :: nat"] that by simp
      then show ?thesis by (simp add: bit_iff_odd)
    qed
    then show "bit (push_bit 4 (of_nat a) AND (of_nat b :: BYTE)) i = bit (0 :: BYTE) i"
      by (auto simp: bit_simps)
  qed
  then have "push_bit 4 (of_nat a) OR of_nat b = push_bit 4 (of_nat a) + (of_nat b :: BYTE)"
    by (simp add: disjunctive_add_eq_or)
  also have "\<dots> = of_nat (16 * a + b)" by (simp add: push_bit_eq_mult)
  finally have e: "push_bit 4 (of_nat a) OR of_nat b = (of_nat (16 * a + b) :: BYTE)" .
  have "take_bit 8 (16 * a + b) = 16 * a + b" using assms by (intro take_bit_nat_eq_self) simp
  then show ?thesis unfolding e unsigned_of_nat by simp
qed

text \<open>The operation code of a text: its first two digits, or what the memory held before.\<close>

definition text_opcode :: "(nat \<Rightarrow> BYTE) \<Rightarrow> WORD list \<Rightarrow> nat" where
  "text_opcode junk cs =
     (case text_digits cs of d # e # _ \<Rightarrow> 16 * digit_value d + digit_value e | _ \<Rightarrow> unat (junk 0))"

lemma parse_text_opcode:
  assumes "parse_text cs 0 junk = (True, n, raw)" "n mod 2 \<noteq> 1"
  shows "unat (raw 0) = text_opcode junk cs"
proof -
  have n: "n = length (text_digits cs)" using parse_text_count [OF assms(1)] by simp
  consider "text_digits cs = []" | d e es where "text_digits cs = d # e # es"
    using assms(2) n by (cases "text_digits cs" rule: remdups_adj.cases) auto
  then show ?thesis
  proof cases
    case 1
    then show ?thesis using parse_text_no_digits [OF assms(1)] by (simp add: text_opcode_def)
  next
    case 2
    have "set (text_digits cs) \<subseteq> set hex_chars" by (auto simp: text_digits_def)
    then have "d \<in> set hex_chars" "e \<in> set hex_chars" by (simp_all add: 2)
    then show ?thesis using parse_text_first [OF assms(1) 2] 2 by (simp add: byte_of_digits nibble_digit(2) text_opcode_def)
  qed
qed

lemma packet_from_raw_opcode: "packet_from_raw raw \<noteq> None \<longleftrightarrow> unat (raw 0) \<le> 2"
proof -
  have "unat (raw 0) \<le> 2 \<longleftrightarrow> unat (raw 0) = 0 \<or> unat (raw 0) = 1 \<or> unat (raw 0) = 2" by auto
  also have "\<dots> \<longleftrightarrow> raw 0 = 0 \<or> raw 0 = 1 \<or> raw 0 = 2"
    by (simp add: unat_eq_0 word_unat_eq_iff [of _ 1] word_unat_eq_iff [of _ 2])
  finally show ?thesis by (simp add: packet_from_raw_def)
qed

end
