(* ===== verification/NesHciProps.thy ===== *)
theory NesHciProps
  imports NesProps
begin

text \<open>
  The interface of the NES at the other end of the link.  Its writes depend on the bytes it receives and
  not on when they arrive, on how fast its answers leave, or on what its buses read: every run is matched
  against the undisturbed run \<open>future\<close>, and the writes of each packet follow from that run.
\<close>

section \<open>Writes\<close>

fun is_write :: "hci_event \<Rightarrow> bool" where
  "is_write (Transmit b) = False"
| "is_write _ = True"

definition writes :: "hci_event list \<Rightarrow> hci_event list" where
  "writes es = filter is_write es"

lemma writes_simps [simp]:
  "writes [] = []" "writes (e # es) = (if is_write e then e # writes es else writes es)"
  "writes (es @ es') = writes es @ writes es'"
  by (simp_all add: writes_def)

lemmas clk_defs = clk_disabled_def clk_decode_def clk_echo_0_def clk_echo_1_def clk_mem_0_def clk_mem_rd_1_def
  clk_mem_wr_1_def clk_reg_rd_def clk_reg_wr_0_def clk_reg_wr_1_def clk_query_err_def clk_ppu_disable_def
  clk_cart_0_def clk_cart_1_def decode_opcode_def

definition undisturbed :: "BYTE option \<Rightarrow> hci_in" where
  "undisturbed b = \<lparr>rx = b, tx_full = False, parity_err = False, brk = False, cpu_din = 0,
     cpu_dbgreg_in = (\<lambda>_. 0), ppu_vram_din = 0\<rparr>"

text \<open>A state in which the interface works on its own, and how many cycles that takes.\<close>

definition working :: "hci \<Rightarrow> bool" where
  "working h \<longleftrightarrow> q_state h \<in> {S_CPU_MEM_RD_STG_1, S_PPU_MEM_RD_STG_1, S_QUERY_ERR_CODE, S_PPU_DISABLE,
     S_CART_SET_CFG_STG_0}"

definition work_left :: "hci \<Rightarrow> nat" where
  "work_left h =
     (case q_state h of
        S_CPU_MEM_RD_STG_1 \<Rightarrow> Suc (unat (q_execute_cnt h - 1))
      | S_PPU_MEM_RD_STG_1 \<Rightarrow> Suc (unat (q_execute_cnt h - 1))
      | S_QUERY_ERR_CODE \<Rightarrow> 1
      | S_PPU_DISABLE \<Rightarrow> Suc (unat (5 - q_decode_cnt h))
      | S_CART_SET_CFG_STG_0 \<Rightarrow> 1
      | _ \<Rightarrow> 0)"

lemma unat_pred: "x \<noteq> 0 \<Longrightarrow> unat (x - 1) < unat x" for x :: "'a :: len word"
  by (metis measure_unat)

lemma work_left_decreases:
  assumes "working h" and "hci_clock (undisturbed b) h = (h', pop, es)"
  shows "work_left h' < work_left h"
proof -
  have m: "unat (q_execute_cnt h - 1 - 1) < unat (q_execute_cnt h - 1)" if "q_execute_cnt h - 1 \<noteq> 0"
    using that by (rule unat_pred)
  have d: "unat (5 - (q_decode_cnt h + 1)) < unat (5 - q_decode_cnt h)" if "q_decode_cnt h \<noteq> 5"
    using unat_pred [of "5 - q_decode_cnt h"] that by (simp add: algebra_simps)
  have o1: "q_execute_cnt h \<noteq> 1" if "q_execute_cnt h AND 1 = 0" using that by auto
  show ?thesis
    using assms m d o1
    by (auto simp: working_def work_left_def hci_clock_def clk_defs undisturbed_def Let_def split: if_splits)
qed


section \<open>The undisturbed run\<close>

function future :: "BYTE list \<Rightarrow> hci \<Rightarrow> hci_event list" where
  "future bs h =
     (if working h then
        (case hci_clock (undisturbed None) h of (h', _, es) \<Rightarrow> writes es @ future bs h')
      else
        (case bs of
           [] \<Rightarrow> []
         | b # bs \<Rightarrow> (case hci_clock (undisturbed (Some b)) h of (h', _, es) \<Rightarrow> writes es @ future bs h')))"
  by pat_completeness auto
termination
  by (relation "measures [\<lambda>(bs, h). length bs, \<lambda>(bs, h). work_left h]")
     (auto dest: work_left_decreases [OF _ sym])

declare future.simps [simp del]

lemma future_working:
  "working h \<Longrightarrow> hci_clock (undisturbed None) h = (h', pop, es) \<Longrightarrow> future bs h = writes es @ future bs h'"
  by (subst future.simps) simp

lemma future_byte:
  "\<not> working h \<Longrightarrow> hci_clock (undisturbed (Some b)) h = (h', pop, es) \<Longrightarrow>
     future (b # bs) h = writes es @ future bs h'"
  by (subst future.simps) simp

lemma future_Nil: "\<not> working h \<Longrightarrow> future [] h = []"
  by (subst future.simps) simp

text \<open>The error code has no influence on the writes.\<close>

lemma clock_err_code:
  assumes "hci_clock (undisturbed b) h = (h', pop, es)"
  shows "\<exists>c' es'. hci_clock (undisturbed b) (h\<lparr>q_err_code := c\<rparr>) = (h'\<lparr>q_err_code := c'\<rparr>, pop, es')
    \<and> writes es' = writes es"
  using assms
  by (cases h; cases "q_state h"; cases b) (auto simp: hci_clock_def clk_defs undisturbed_def Let_def)

lemma working_err_code [simp]: "working (h\<lparr>q_err_code := c\<rparr>) = working h"
  by (simp add: working_def)

lemma future_err_code: "future bs (h\<lparr>q_err_code := c\<rparr>) = future bs h"
proof (induction bs h arbitrary: c rule: future.induct)
  case (1 bs h)
  show ?case
  proof (cases "working h")
    case True
    obtain h' pop es where k: "hci_clock (undisturbed None) h = (h', pop, es)" by (metis prod_cases3)
    from clock_err_code [OF this, of c] obtain c' es' where
      "hci_clock (undisturbed None) (h\<lparr>q_err_code := c\<rparr>) = (h'\<lparr>q_err_code := c'\<rparr>, pop, es')"
      "writes es' = writes es" by blast
    then show ?thesis using 1(1) [OF True k [symmetric] refl] True k by (simp add: future_working)
  next
    case False
    show ?thesis
    proof (cases bs)
      case Nil
      then show ?thesis using False by (simp add: future_Nil)
    next
      case (Cons b bs')
      obtain h' pop es where k: "hci_clock (undisturbed (Some b)) h = (h', pop, es)" by (metis prod_cases3)
      from clock_err_code [OF this, of c] obtain c' es' where
        "hci_clock (undisturbed (Some b)) (h\<lparr>q_err_code := c\<rparr>) = (h'\<lparr>q_err_code := c'\<rparr>, pop, es')"
        "writes es' = writes es" by blast
      then show ?thesis using 1(2) [OF False Cons k [symmetric] refl] False k Cons by (simp add: future_byte)
    qed
  qed
qed

section \<open>Any run\<close>

text \<open>
  A cycle either does what the undisturbed cycle does (up to the error code and what it transmits) and
  pops a byte exactly in a state that is not working, or it waits.
\<close>

lemma clock_undisturbed:
  assumes "hci_clock i h = (h', pop, es)" and "\<not> brk i"
  shows "(\<exists>c. h' = h\<lparr>q_err_code := c\<rparr>) \<and> \<not> pop \<and> writes es = []
    \<or> (\<exists>c h0 es0. hci_clock (undisturbed (if working h then None else rx i)) h = (h0, pop, es0)
         \<and> h' = h0\<lparr>q_err_code := c\<rparr> \<and> writes es = writes es0 \<and> pop = (\<not> working h)
         \<and> (\<not> working h \<longrightarrow> rx i \<noteq> None))"
  using assms
  by (cases h; cases "q_state h"; cases "rx i")
     (auto simp: hci_clock_def clk_defs undisturbed_def working_def Let_def split: if_splits)

lemma run_future:
  assumes "hci_run is bs h = (es, bs', h')" and "\<forall>i \<in> set is. \<not> brk (snd i)"
  shows "future bs h = writes es @ future bs' h'"
  using assms
proof (induction "is" arbitrary: bs h es)
  case (Cons ai "is")
  obtain a i where ai: "ai = (a, i)" by fastforce
  define i' where "i' = i\<lparr>rx := (if a \<and> bs \<noteq> [] then Some (hd bs) else None)\<rparr>"
  obtain h1 pop es1 where k: "hci_clock i' h = (h1, pop, es1)" by (metis prod_cases3)
  obtain es2 where r: "hci_run is (if pop then tl bs else bs) h1 = (es2, bs', h')" and es: "es = es1 @ es2"
    using Cons.prems(1) k by (auto simp: ai i'_def [symmetric] split: prod.splits)
  have "future (if pop then tl bs else bs) h1 = writes es2 @ future bs' h'"
    using Cons.IH [OF r] Cons.prems(2) by simp
  moreover have "\<not> brk i'" using Cons.prems(2) by (simp add: i'_def ai)
  moreover have "future bs h = writes es1 @ future (if pop then tl bs else bs) h1"
    using clock_undisturbed [OF k \<open>\<not> brk i'\<close>]
  proof (elim disjE exE conjE)
    fix c assume "h1 = h\<lparr>q_err_code := c\<rparr>" "\<not> pop" "writes es1 = []"
    then show ?thesis by (simp add: future_err_code)
  next
    fix c h0 es0
    assume u: "hci_clock (undisturbed (if working h then None else rx i')) h = (h0, pop, es0)"
      "h1 = h0\<lparr>q_err_code := c\<rparr>" "writes es1 = writes es0" "pop = (\<not> working h)"
      "\<not> working h \<longrightarrow> rx i' \<noteq> None"
    show ?thesis
    proof (cases "working h")
      case True
      then show ?thesis using u future_working [of h h0 pop es0 bs] by (simp add: future_err_code)
    next
      case False
      then have "bs \<noteq> []" "rx i' = Some (hd bs)" using u(5) by (auto simp: i'_def split: if_splits)
      then show ?thesis
        using u False future_byte [of h "hd bs" h0 pop es0 "tl bs"] by (simp add: future_err_code)
    qed
  qed
  ultimately show ?case by (simp add: es)
qed simp

text \<open>With bytes and cycles enough, the interface comes to rest with nothing left to read.\<close>

definition rests :: "nat \<Rightarrow> BYTE list \<Rightarrow> hci \<Rightarrow> bool" where
  "rests n bs h =
     (case hci_run (replicate n (True, undisturbed None)) bs h of (es, bs', h') \<Rightarrow> bs' = [] \<and> \<not> working h')"

lemma run_rests: "\<exists>N. \<forall>n \<ge> N. rests n bs h"
proof (induction bs h rule: future.induct)
  case (1 bs h)
  have later: "\<exists>N. \<forall>n \<ge> N. rests n bs h"
    if "\<exists>N. \<forall>n \<ge> N. rests n bs1 h1" and "\<And>n. rests (Suc n) bs h = rests n bs1 h1" for bs1 h1
  proof -
    from that(1) obtain N where N: "rests n bs1 h1" if "n \<ge> N" for n by blast
    have "rests n bs h" if "n \<ge> Suc N" for n
      using that N [of "n - 1"] \<open>rests (Suc (n - 1)) bs h = rests (n - 1) bs1 h1\<close> by simp
    then show ?thesis by blast
  qed
  have rx: "undisturbed None\<lparr>rx := b\<rparr> = undisturbed b" for b by (simp add: undisturbed_def)
  show ?case
  proof (cases "working h")
    case True
    obtain h' pop es where k: "hci_clock (undisturbed None) h = (h', pop, es)" by (metis prod_cases3)
    have b: "hci_clock (undisturbed b) h = (h', False, es)" for b
      using True k by (cases h; cases "q_state h")
        (auto simp: working_def hci_clock_def clk_defs undisturbed_def Let_def split: if_splits)
    show ?thesis
      by (rule later [OF 1(1) [OF True k [symmetric] refl]]) (simp add: rests_def rx b split: prod.splits)
  next
    case False
    show ?thesis
    proof (cases bs)
      case Nil
      have "hci_clock (undisturbed None) h = (h, False, [])"
        using False by (cases h; cases "q_state h")
          (auto simp: working_def hci_clock_def clk_defs undisturbed_def Let_def)
      then have "rests n [] h" for n using False by (induction n) (auto simp: rests_def rx split: prod.splits)
      then show ?thesis using Nil by blast
    next
      case (Cons b bs')
      obtain h' pop es where k: "hci_clock (undisturbed (Some b)) h = (h', pop, es)" by (metis prod_cases3)
      have "pop" using False k by (cases h; cases "q_state h")
        (auto simp: working_def hci_clock_def clk_defs undisturbed_def Let_def split: if_splits)
      then show ?thesis
        by (intro later [OF 1(2) [OF False Cons k [symmetric] refl]]) (simp add: rests_def rx k Cons split: prod.splits)
    qed
  qed
qed

end
