(* ===== verification/NesLink.thy ===== *)
theory NesLink
  imports NesHciProps
begin

text \<open>
  What a packet does to the NES: the writes of the undisturbed run for each packet, then for a sequence of
  packets and for the stream \<open>LoadRom\<close> sends.
\<close>

section \<open>Stepping through bytes\<close>

lemma future_Cons:
  "\<not> working h \<Longrightarrow> future (b # bs) h
     = writes (snd (snd (hci_clock (undisturbed (Some b)) h))) @ future bs (fst (hci_clock (undisturbed (Some b)) h))"
  by (metis future_byte prod.collapse)

lemma future_work:
  "working h \<Longrightarrow> future bs h
     = writes (snd (snd (hci_clock (undisturbed None) h))) @ future bs (fst (hci_clock (undisturbed None) h))"
  by (metis future_working prod.collapse)

abbreviation decoding :: "hci \<Rightarrow> bool" where "decoding h \<equiv> q_state h = S_DECODE"

lemma undisturbed_simps [simp]:
  "rx (undisturbed b) = b" "tx_full (undisturbed b) = False" "parity_err (undisturbed b) = False"
  "brk (undisturbed b) = False"
  by (simp_all add: undisturbed_def)

lemma low_high_bytes: "low_high (ucast (drop_bit 8 w)) (ucast (ucast w :: BYTE)) = w" for w :: WORD
proof -
  have "(ucast (ucast w :: BYTE) :: WORD) AND 0xFF = ucast (ucast w :: BYTE)"
  proof -
    have m: "(0xFF :: WORD) = mask 8" by (simp add: mask_eq_exp_minus_1)
    show ?thesis unfolding m by (rule bit_word_eqI) (auto simp: bit_simps)
  qed
  then show ?thesis by (simp add: low_high_def byte_pair)
qed

lemma low_high_cnt_bytes: "low_high_cnt (ucast (drop_bit 8 w)) (ucast (ucast w :: BYTE)) = ucast w" for w :: WORD
proof -
  have m: "(0xFF :: 17 word) = mask 8" by (simp add: mask_eq_exp_minus_1)
  show ?thesis unfolding low_high_cnt_def m
    by (rule bit_word_eqI) (auto simp: bit_simps dest: bit_imp_le_length)
qed

text \<open>The data of a write packet and of an echo.\<close>

lemma future_data:
  assumes "q_state h = S_CPU_MEM_WR_STG_1 \<and> wr = CpuWrite \<or> q_state h = S_PPU_MEM_WR_STG_1 \<and> wr = VramWrite"
    and "q_execute_cnt h = of_nat (length ds)" and "0 < length ds" and "length ds < 2 ^ 17"
  shows "\<exists>h'. decoding h' \<and> future (ds @ bs) h
    = map (\<lambda>i. wr (q_addr h + of_nat i) (ds ! i)) [0 ..< length ds] @ future bs h'"
  using assms
proof (induction ds arbitrary: h)
  case (Cons d ds)
  have s: "\<not> working h" using Cons.prems(1) by (auto simp: working_def)
  obtain h1 where h1: "fst (hci_clock (undisturbed (Some d)) h) = h1"
    and w: "writes (snd (snd (hci_clock (undisturbed (Some d)) h))) = [wr (q_addr h) d]"
    using Cons.prems(1) by (auto simp: hci_clock_def clk_defs undisturbed_def Let_def)
  have f: "future ((d # ds) @ bs) h = wr (q_addr h) d # future (ds @ bs) h1"
    using s h1 w by (simp add: future_Cons)
  have m: "[0 ..< Suc (length ds)] = 0 # map Suc [0 ..< length ds]"
    by (simp add: map_Suc_upt upt_conv_Cons del: upt_Suc)
  show ?case
  proof (cases ds)
    case Nil
    then have "decoding h1" using Cons.prems h1 by (auto simp: hci_clock_def clk_defs undisturbed_def Let_def)
    then show ?thesis using f Nil by (intro exI [of _ h1]) simp
  next
    case (Cons d' ds')
    have "unat (of_nat (length ds) :: 17 word) = length ds"
      using Cons.prems(4) by (simp add: unsigned_of_nat take_bit_nat_eq_self)
    then have "of_nat (length ds) \<noteq> (0 :: 17 word)" using Cons by auto
    then have "q_state h1 = q_state h" "q_execute_cnt h1 = of_nat (length ds)" "q_addr h1 = q_addr h + 1"
      using Cons.prems(1,2) h1 by (auto simp: hci_clock_def clk_defs undisturbed_def Let_def)
    with Cons.IH [of h1] Cons.prems Cons obtain h' where "decoding h'"
      "future (ds @ bs) h1 = map (\<lambda>i. wr (q_addr h + 1 + of_nat i) (ds ! i)) [0 ..< length ds] @ future bs h'"
      by auto
    then show ?thesis using f by (intro exI [of _ h']) (simp add: m o_def algebra_simps del: upt_Suc)
  qed
qed simp


lemma future_echo_data:
  assumes "q_state h = S_ECHO_STG_1" and "q_execute_cnt h = of_nat (length ds)" and "0 < length ds"
    and "length ds < 2 ^ 17"
  shows "\<exists>h'. decoding h' \<and> future (ds @ bs) h = future bs h'"
  using assms
proof (induction ds arbitrary: h)
  case (Cons d ds)
  obtain h1 where h1: "fst (hci_clock (undisturbed (Some d)) h) = h1"
    and w: "writes (snd (snd (hci_clock (undisturbed (Some d)) h))) = []"
    using Cons.prems(1) by (auto simp: hci_clock_def clk_defs undisturbed_def Let_def)
  have f: "future ((d # ds) @ bs) h = future (ds @ bs) h1"
    using h1 w Cons.prems(1) by (simp add: future_Cons working_def)
  show ?case
  proof (cases ds)
    case Nil
    then have "decoding h1" using Cons.prems h1 by (auto simp: hci_clock_def clk_defs undisturbed_def Let_def)
    then show ?thesis using f Nil by (intro exI [of _ h1]) simp
  next
    case (Cons d' ds')
    have "unat (of_nat (length ds) :: 17 word) = length ds"
      using Cons.prems(4) by (simp add: unsigned_of_nat take_bit_nat_eq_self)
    then have "of_nat (length ds) \<noteq> (0 :: 17 word)" using Cons by auto
    then have "q_state h1 = q_state h" "q_execute_cnt h1 = of_nat (length ds)"
      using Cons.prems(1,2) h1 by (auto simp: hci_clock_def clk_defs undisturbed_def Let_def)
    with Cons.IH [of h1] Cons.prems Cons f show ?thesis by auto
  qed
qed simp

text \<open>Reading memory for the host takes cycles and writes nothing.\<close>

lemma future_read:
  assumes "q_state h \<in> {S_CPU_MEM_RD_STG_1, S_PPU_MEM_RD_STG_1}"
  shows "\<exists>h'. decoding h' \<and> future bs h = future bs h'"
  using assms
proof (induction "work_left h" arbitrary: h rule: less_induct)
  case less
  have w: "working h" using less.prems by (auto simp: working_def)
  obtain h1 pop es where k: "hci_clock (undisturbed None) h = (h1, pop, es)" by (metis prod_cases3)
  have e: "writes es = []" and q: "decoding h1 \<or> q_state h1 = q_state h"
    using k less.prems by (auto simp: hci_clock_def clk_defs undisturbed_def Let_def split: if_splits)
  have "future bs h = future bs h1" using future_working [OF w k] e by simp
  then show ?case using q less.hyps [OF work_left_decreases [OF w k]] less.prems by auto
qed


section \<open>Packets\<close>

text \<open>The writes a packet is meant to cause.\<close>

definition data_writes :: "(WORD \<Rightarrow> BYTE \<Rightarrow> hci_event) \<Rightarrow> BYTE list \<Rightarrow> hci_event list" where
  "data_writes wr bs = map (\<lambda>i. wr (LD_WORD bs 1 + of_nat i) (bs ! (5 + i))) [0 ..< length bs - 5]"

definition cart_word :: "BYTE list \<Rightarrow> 40 word" where
  "cart_word bs = fold (\<lambda>b w. push_bit 8 w OR ucast b) bs 0"

definition packet_writes :: "DbgPacket \<Rightarrow> hci_event list" where
  "packet_writes p =
     (case packet_class p of
        CpuMemWrPacket \<Rightarrow> data_writes CpuWrite (PacketData p)
      | PpuMemWrPacket \<Rightarrow> data_writes VramWrite (PacketData p)
      | CpuRegWrPacket \<Rightarrow> [RegWrite (ucast (PacketData p ! 1)) (PacketData p ! 2)]
      | PpuDisablePacket \<Rightarrow> [CpuWrite 0x2000 0, CpuWrite 0x2001 0]
      | CartSetCfgPacket \<Rightarrow> [CartCfg (cart_word (tl (PacketData p)))]
      | _ \<Rightarrow> [])"

lemma ucast_zero_iff: "ucast n = (0 :: 17 word) \<longleftrightarrow> n = 0" for n :: WORD
proof
  assume "ucast n = (0 :: 17 word)"
  then have "unat (ucast n :: 17 word) = 0" by simp
  moreover have "unat (ucast n :: 17 word) = unat n"
    by (simp add: unsigned_ucast_eq take_bit_nat_eq_self less_trans [OF unat_bounds(2)])
  ultimately have "unat n = 0" by simp
  then show "n = 0" by (simp only: unsigned_eq_0_iff)
qed simp

lemma future_opcode:
  assumes "decoding h" and "decode_opcode b (h\<lparr>q_decode_cnt := 0\<rparr>) = (h', es)"
  shows "future (b # bs) h = writes es @ future bs h'"
  using assms by (simp add: future_Cons working_def hci_clock_def clk_decode_def)

lemma future_header:
  assumes "\<And>h b. q_state h = S \<Longrightarrow> hci_clock (undisturbed b) h = clk_mem_0 k stg (undisturbed b) h"
    and "\<And>h. q_state h = S \<Longrightarrow> \<not> working h" and "q_state h = S" and "q_decode_cnt h = 0"
  shows "future (ushort_bytes a @ ushort_bytes n @ bs) h
    = future bs (h\<lparr>q_addr := a, q_decode_cnt := 4, q_execute_cnt := push_bit k (ucast n),
        q_state := (if push_bit k (ucast n :: 17 word) \<noteq> 0 then stg else S_DECODE)\<rparr>)"
  using assms(3,4)
  by (simp add: ushort_bytes_def future_Cons assms(1,2) clk_mem_0_def Let_def
      low_high_bytes low_high_cnt_bytes)

lemma future_echo_header:
  assumes "q_state h = S_ECHO_STG_0" and "q_decode_cnt h = 0"
  shows "future (ushort_bytes n @ bs) h
    = future bs (h\<lparr>q_decode_cnt := 2, q_execute_cnt := ucast n,
        q_state := (if n \<noteq> 0 then S_ECHO_STG_1 else S_DECODE)\<rparr>)"
  using assms
  by (simp add: ushort_bytes_def future_Cons working_def hci_clock_def clk_echo_0_def Let_def
      low_high_cnt_bytes ucast_zero_iff)

lemma header_clocks:
  "q_state h = S_CPU_MEM_RD_STG_0 \<Longrightarrow> hci_clock (undisturbed b) h = clk_mem_0 1 S_CPU_MEM_RD_STG_1 (undisturbed b) h"
  "q_state h = S_PPU_MEM_RD_STG_0 \<Longrightarrow> hci_clock (undisturbed b) h = clk_mem_0 1 S_PPU_MEM_RD_STG_1 (undisturbed b) h"
  "q_state h = S_CPU_MEM_WR_STG_0 \<Longrightarrow> hci_clock (undisturbed b) h = clk_mem_0 0 S_CPU_MEM_WR_STG_1 (undisturbed b) h"
  "q_state h = S_PPU_MEM_WR_STG_0 \<Longrightarrow> hci_clock (undisturbed b) h = clk_mem_0 0 S_PPU_MEM_WR_STG_1 (undisturbed b) h"
  by (simp_all add: hci_clock_def undisturbed_def)

lemma future_read_opt:
  assumes "q_state h = (if x then stg else S_DECODE)" and "stg \<in> {S_CPU_MEM_RD_STG_1, S_PPU_MEM_RD_STG_1}"
  shows "\<exists>h'. decoding h' \<and> future bs h = future bs h'"
  using assms future_read [of h bs] by (cases x) auto

lemma future_data_opt:
  fixes n :: WORD
  assumes "q_state h = (if n \<noteq> 0 then stg else S_DECODE)" and "length ds = unat n"
    and "stg = S_CPU_MEM_WR_STG_1 \<and> wr = CpuWrite \<or> stg = S_PPU_MEM_WR_STG_1 \<and> wr = VramWrite"
    and "q_execute_cnt h = ucast n" and "q_addr h = a"
  shows "\<exists>h'. decoding h' \<and> future (ds @ bs) h
    = map (\<lambda>i. wr (a + of_nat i) (ds ! i)) [0 ..< length ds] @ future bs h'"
proof (cases "n = 0")
  case True
  then show ?thesis using assms(1,2) by auto
next
  case False
  then have "0 < length ds" using assms(2) by (simp add: unat_gt_0)
  moreover have "ucast n = (of_nat (length ds) :: 17 word)" unfolding assms(2) by simp
  moreover have "length ds < 2 ^ 17" using unat_bounds(2) [of n] assms(2) by simp
  ultimately show ?thesis using future_data [of h wr ds bs] assms False by auto
qed

lemma future_mem_read:
  assumes "decoding h"
  shows "\<exists>h'. decoding h' \<and> future (PacketData (new_CpuMemRdPacket a n) @ bs) h = future bs h'"
    and "\<exists>h'. decoding h' \<and> future (PacketData (new_PpuMemRdPacket a n) @ bs) h = future bs h'"
proof -
  have o1: "decode_opcode 1 (h\<lparr>q_decode_cnt := 0\<rparr>) = (h\<lparr>q_decode_cnt := 0, q_state := S_CPU_MEM_RD_STG_0\<rparr>, [])"
    and o9: "decode_opcode 9 (h\<lparr>q_decode_cnt := 0\<rparr>) = (h\<lparr>q_decode_cnt := 0, q_state := S_PPU_MEM_RD_STG_0\<rparr>, [])"
    by (simp_all add: decode_opcode_def)
  let ?g = "\<lambda>stg. h\<lparr>q_addr := a, q_decode_cnt := 4, q_execute_cnt := push_bit 1 (ucast n),
        q_state := (if push_bit 1 (ucast n :: 17 word) \<noteq> 0 then stg else S_DECODE)\<rparr>"
  have c: "future (PacketData (new_CpuMemRdPacket a n) @ bs) h = future bs (?g S_CPU_MEM_RD_STG_1)"
    by (simp add: packet_bytes future_opcode [OF assms o1] future_header [OF header_clocks(1)] working_def)
  have v: "future (PacketData (new_PpuMemRdPacket a n) @ bs) h = future bs (?g S_PPU_MEM_RD_STG_1)"
    by (simp add: packet_bytes future_opcode [OF assms o9] future_header [OF header_clocks(2)] working_def)
  show "\<exists>h'. decoding h' \<and> future (PacketData (new_CpuMemRdPacket a n) @ bs) h = future bs h'"
    unfolding c by (rule future_read_opt [where x = "push_bit 1 (ucast n :: 17 word) \<noteq> 0" and stg = S_CPU_MEM_RD_STG_1]) simp_all
  show "\<exists>h'. decoding h' \<and> future (PacketData (new_PpuMemRdPacket a n) @ bs) h = future bs h'"
    unfolding v by (rule future_read_opt [where x = "push_bit 1 (ucast n :: 17 word) \<noteq> 0" and stg = S_PPU_MEM_RD_STG_1]) simp_all
qed

lemma data_writes_bytes:
  "length pre = 5 \<Longrightarrow> data_writes wr (pre @ ds) = map (\<lambda>i. wr (LD_WORD pre 1 + of_nat i) (ds ! i)) [0 ..< length ds]"
  by (simp add: data_writes_def LD_WORD_def nth_append)

lemma future_mem_write:
  assumes "decoding h"
  shows "\<exists>h'. decoding h' \<and> future (PacketData (new_CpuMemWrPacket a n d) @ bs) h
      = packet_writes (new_CpuMemWrPacket a n d) @ future bs h'"
    and "\<exists>h'. decoding h' \<and> future (PacketData (new_PpuMemWrPacket a n d) @ bs) h
      = packet_writes (new_PpuMemWrPacket a n d) @ future bs h'"
proof -
  have o2: "decode_opcode 2 (h\<lparr>q_decode_cnt := 0\<rparr>) = (h\<lparr>q_decode_cnt := 0, q_state := S_CPU_MEM_WR_STG_0\<rparr>, [])"
    and oA: "decode_opcode 0xA (h\<lparr>q_decode_cnt := 0\<rparr>) = (h\<lparr>q_decode_cnt := 0, q_state := S_PPU_MEM_WR_STG_0\<rparr>, [])"
    by (simp_all add: decode_opcode_def)
  let ?g = "\<lambda>stg. h\<lparr>q_addr := a, q_decode_cnt := 4, q_execute_cnt := ucast n,
        q_state := (if n \<noteq> 0 then stg else S_DECODE)\<rparr>"
  let ?ds = "map d [0 ..< unat n]"
  have w: "data_writes wr (x # ushort_bytes a @ ushort_bytes n @ ?ds)
      = map (\<lambda>i. wr (a + of_nat i) (?ds ! i)) [0 ..< length ?ds]" for wr x
    using data_writes_bytes [of "x # ushort_bytes a @ ushort_bytes n" wr ?ds]
    by (simp add: LD_WORD_packet [unfolded One_nat_def])
  have c: "future (PacketData (new_CpuMemWrPacket a n d) @ bs) h = future (?ds @ bs) (?g S_CPU_MEM_WR_STG_1)"
    by (simp add: packet_bytes future_opcode [OF assms o2] future_header [OF header_clocks(3)] working_def ucast_zero_iff)
  have v: "future (PacketData (new_PpuMemWrPacket a n d) @ bs) h = future (?ds @ bs) (?g S_PPU_MEM_WR_STG_1)"
    by (simp add: packet_bytes future_opcode [OF assms oA] future_header [OF header_clocks(4)] working_def ucast_zero_iff)
  have dw: "packet_writes (new_CpuMemWrPacket a n d) = map (\<lambda>i. CpuWrite (a + of_nat i) (?ds ! i)) [0 ..< length ?ds]"
    "packet_writes (new_PpuMemWrPacket a n d) = map (\<lambda>i. VramWrite (a + of_nat i) (?ds ! i)) [0 ..< length ?ds]"
    using w [of CpuWrite 2] w [of VramWrite "0xA"] by (simp_all add: packet_writes_def packet_bytes)
  show "\<exists>h'. decoding h' \<and> future (PacketData (new_CpuMemWrPacket a n d) @ bs) h
      = packet_writes (new_CpuMemWrPacket a n d) @ future bs h'"
    unfolding c dw by (rule future_data_opt [where n = n and stg = S_CPU_MEM_WR_STG_1]) auto
  show "\<exists>h'. decoding h' \<and> future (PacketData (new_PpuMemWrPacket a n d) @ bs) h
      = packet_writes (new_PpuMemWrPacket a n d) @ future bs h'"
    unfolding v dw by (rule future_data_opt [where n = n and stg = S_PPU_MEM_WR_STG_1]) auto
qed


lemma future_echo:
  assumes "decoding h"
  shows "\<exists>h'. decoding h' \<and> future (PacketData (new_EchoPacket d n) @ bs) h = future bs h'"
proof -
  have o0: "decode_opcode 0 (h\<lparr>q_decode_cnt := 0\<rparr>) = (h\<lparr>q_decode_cnt := 0, q_state := S_ECHO_STG_0\<rparr>, [])"
    by (simp add: decode_opcode_def)
  let ?ds = "map d [0 ..< unat n]"
  let ?g = "h\<lparr>q_decode_cnt := 2, q_execute_cnt := ucast n,
        q_state := (if n \<noteq> 0 then S_ECHO_STG_1 else S_DECODE)\<rparr>"
  have c: "future (PacketData (new_EchoPacket d n) @ bs) h = future (?ds @ bs) ?g"
    by (simp add: packet_bytes future_opcode [OF assms o0] future_echo_header)
  show ?thesis
  proof (cases "n = 0")
    case False
    then have "0 < length ?ds" by (simp add: unat_gt_0)
    moreover have "length ?ds < 2 ^ 17" using unat_bounds(2) [of n] by simp
    moreover have "q_execute_cnt ?g = of_nat (length ?ds)" by simp
    moreover have "q_state ?g = S_ECHO_STG_1" using False by simp
    ultimately show ?thesis unfolding c by (intro future_echo_data)
  next
    case True
    then show ?thesis unfolding c by (intro exI [of _ ?g]) simp
  qed
qed

lemma future_ppu_disable:
  assumes "decoding h"
  shows "\<exists>h'. decoding h' \<and> future (PacketData new_PpuDisablePacket @ bs) h
    = [CpuWrite 0x2000 0, CpuWrite 0x2001 0] @ future bs h'"
proof -
  have o: "decode_opcode 0xB (h\<lparr>q_decode_cnt := 0\<rparr>) = (h\<lparr>q_decode_cnt := 0, q_state := S_PPU_DISABLE\<rparr>, [])"
    by (simp add: decode_opcode_def)
  have "future (PacketData new_PpuDisablePacket @ bs) h
      = [CpuWrite 0x2000 0, CpuWrite 0x2001 0]
        @ future bs (h\<lparr>q_decode_cnt := 6, q_addr := 0, q_state := S_DECODE\<rparr>)"
    by (simp add: packet_bytes future_opcode [OF assms o] future_work working_def hci_clock_def
        clk_ppu_disable_def Let_def)
  then show ?thesis by (intro exI [of _ "h\<lparr>q_decode_cnt := 6, q_addr := 0, q_state := S_DECODE\<rparr>"]) simp
qed

lemma cart_word_shift:
  fixes c :: "40 word"
  shows "fold (\<lambda>b w. push_bit 8 w OR ucast b) [a0, a1, a2, a3, a4 :: BYTE] c = cart_word [a0, a1, a2, a3, a4]"
  unfolding cart_word_def by (rule bit_word_eqI) (auto simp: bit_simps)

lemma future_cart:
  assumes "decoding h"
  shows "\<exists>h'. decoding h' \<and> future (PacketData (new_CartSetCfgPacket f) @ bs) h
    = CartCfg (cart_word [f 4, f 5, f 6, f 7, f 8]) # future bs h'"
proof -
  have o: "decode_opcode 0xC (h\<lparr>q_decode_cnt := 0\<rparr>) = (h\<lparr>q_decode_cnt := 0, q_state := S_CART_SET_CFG_STG_0\<rparr>, [])"
    by (simp add: decode_opcode_def)
  let ?c = "fold (\<lambda>b w. push_bit 8 w OR ucast b) [f 4, f 5, f 6, f 7, f 8] (q_cart_cfg h)"
  have "future (PacketData (new_CartSetCfgPacket f) @ bs) h
      = CartCfg ?c # future bs (h\<lparr>q_decode_cnt := 0, q_execute_cnt := - 1, q_cart_cfg := ?c, q_state := S_DECODE\<rparr>)"
    by (simp add: packet_bytes future_opcode [OF assms o] future_work future_Cons working_def hci_clock_def
        clk_cart_0_def clk_cart_1_def Let_def)
  then show ?thesis unfolding cart_word_shift
    by (intro exI [of _ "h\<lparr>q_decode_cnt := 0, q_execute_cnt := - 1, q_cart_cfg := cart_word [f 4, f 5, f 6, f 7, f 8],
          q_state := S_DECODE\<rparr>"]) simp
qed

lemma future_regs:
  assumes "decoding h"
  shows "\<exists>h'. decoding h' \<and> future (PacketData (new_CpuRegRdPacket r) @ bs) h = future bs h'"
    and "\<exists>h'. decoding h' \<and> future (PacketData (new_CpuRegWrPacket r v) @ bs) h
      = RegWrite (ucast (ucast r :: BYTE)) v # future bs h'"
    and "\<exists>h'. decoding h' \<and> future (PacketData new_QueryHltPacket @ bs) h = future bs h'"
    and "\<exists>h'. decoding h' \<and> future (PacketData new_DbgHltPacket @ bs) h = future bs h'"
proof -
  have o: "decode_opcode 5 (h\<lparr>q_decode_cnt := 0\<rparr>) = (h\<lparr>q_decode_cnt := 0, q_state := S_CPU_REG_RD\<rparr>, [])"
    "decode_opcode 6 (h\<lparr>q_decode_cnt := 0\<rparr>) = (h\<lparr>q_decode_cnt := 0, q_state := S_CPU_REG_WR_STG_0\<rparr>, [])"
    "decode_opcode 7 (h\<lparr>q_decode_cnt := 0\<rparr>) = (h\<lparr>q_decode_cnt := 0\<rparr>, [Transmit 1])"
    "decode_opcode 3 (h\<lparr>q_decode_cnt := 0\<rparr>) = (h\<lparr>q_decode_cnt := 0, q_state := S_DECODE\<rparr>, [])"
    by (simp_all add: decode_opcode_def)
  let ?h = "h\<lparr>q_decode_cnt := 0, q_state := S_DECODE\<rparr>"
  have "future (PacketData (new_CpuRegRdPacket r) @ bs) h = future bs ?h"
    by (simp add: packet_bytes future_opcode [OF assms o(1)] future_Cons working_def hci_clock_def clk_reg_rd_def)
  then show "\<exists>h'. decoding h' \<and> future (PacketData (new_CpuRegRdPacket r) @ bs) h = future bs h'"
    by (intro exI [of _ ?h]) simp
  let ?w = "h\<lparr>q_decode_cnt := 0, q_addr := ucast (ucast r :: BYTE), q_state := S_DECODE\<rparr>"
  have u: "ucast (ucast (ucast r :: BYTE) :: WORD) = (ucast (ucast r :: BYTE) :: 4 word)"
    by (rule bit_word_eqI) (auto simp: bit_simps)
  have "future (PacketData (new_CpuRegWrPacket r v) @ bs) h = RegWrite (ucast (ucast r :: BYTE)) v # future bs ?w"
    by (simp add: packet_bytes future_opcode [OF assms o(2)] future_Cons working_def hci_clock_def
        clk_reg_wr_0_def clk_reg_wr_1_def u)
  then show "\<exists>h'. decoding h' \<and> future (PacketData (new_CpuRegWrPacket r v) @ bs) h
      = RegWrite (ucast (ucast r :: BYTE)) v # future bs h'"
    by (intro exI [of _ ?w]) simp
  show "\<exists>h'. decoding h' \<and> future (PacketData new_QueryHltPacket @ bs) h = future bs h'"
    by (intro exI [of _ "h\<lparr>q_decode_cnt := 0\<rparr>"]) (simp add: packet_bytes future_opcode [OF assms o(3)] assms)
  show "\<exists>h'. decoding h' \<and> future (PacketData new_DbgHltPacket @ bs) h = future bs h'"
    by (intro exI [of _ ?h]) (simp add: packet_bytes future_opcode [OF assms o(4)])
qed

section \<open>Sequences of packets\<close>

lemma future_packet:
  assumes "constructed p" and "packet_class p \<noteq> DbgRunPacket" and "decoding h"
  shows "\<exists>h'. decoding h' \<and> future (PacketData p @ bs) h = packet_writes p @ future bs h'"
  using assms(1)
proof (cases rule: constructed.cases)
  case (echo d n)
  then show ?thesis using future_echo [OF assms(3)] by (simp add: packet_writes_def packet_classes)
next
  case (cpu_rd a n)
  then show ?thesis using future_mem_read(1) [OF assms(3)] by (simp add: packet_writes_def packet_classes)
next
  case (ppu_rd a n)
  then show ?thesis using future_mem_read(2) [OF assms(3)] by (simp add: packet_writes_def packet_classes)
next
  case (cpu_wr a n d)
  then show ?thesis using future_mem_write(1) [OF assms(3)] by simp
next
  case (ppu_wr a n d)
  then show ?thesis using future_mem_write(2) [OF assms(3)] by simp
next
  case (reg_wr r v)
  have "packet_writes p = [RegWrite (ucast (ucast r :: BYTE)) v]"
    by (simp add: reg_wr packet_writes_def packet_bytes)
  then show ?thesis using future_regs(2) [OF assms(3), of r v bs] by (simp add: reg_wr)
next
  case (cart f)
  have "packet_writes p = [CartCfg (cart_word [f 4, f 5, f 6, f 7, f 8])]"
    by (simp add: cart packet_writes_def packet_bytes)
  then show ?thesis using future_cart [OF assms(3), of f bs] by (simp add: cart)
next
  case ppu_off
  then show ?thesis using future_ppu_disable [OF assms(3)] by (simp add: packet_writes_def packet_classes)
next
  case hlt
  then show ?thesis using future_regs(4) [OF assms(3)] by (simp add: packet_writes_def packet_classes)
next
  case query
  then show ?thesis using future_regs(3) [OF assms(3)] by (simp add: packet_writes_def packet_classes)
next
  case (reg_rd r)
  then show ?thesis using future_regs(1) [OF assms(3)] by (simp add: packet_writes_def packet_classes)
next
  case run
  then show ?thesis using assms(2) by (simp add: packet_classes)
qed

definition stream :: "DbgPacket list \<Rightarrow> BYTE list" where
  "stream ps = concat (map PacketData ps)"

lemma stream_simps [simp]:
  "stream [] = []" "stream (p # ps) = PacketData p @ stream ps" "stream (ps @ qs) = stream ps @ stream qs"
  by (simp_all add: stream_def)

lemma future_packets:
  assumes "list_all (\<lambda>p. constructed p \<and> packet_class p \<noteq> DbgRunPacket) ps" and "decoding h"
  shows "\<exists>h'. decoding h' \<and> future (stream ps @ bs) h = concat (map packet_writes ps) @ future bs h'"
  using assms
proof (induction ps arbitrary: h)
  case (Cons p ps)
  obtain h1 where h1: "decoding h1" "future (PacketData p @ stream ps @ bs) h = packet_writes p @ future (stream ps @ bs) h1"
    using future_packet [of p h "stream ps @ bs"] Cons.prems by auto
  then show ?case using Cons.IH [of h1] Cons.prems by auto
qed auto

text \<open>A halt packet is understood also while the CPU runs; after a run packet the interface waits.\<close>

lemma future_halt_first:
  assumes "q_state h \<in> {S_DISABLED, S_DECODE}"
  shows "\<exists>h'. decoding h' \<and> future (PacketData new_DbgHltPacket @ bs) h = future bs h'"
proof (cases "decoding h")
  case False
  then have d: "q_state h = S_DISABLED" using assms by simp
  have "future (PacketData new_DbgHltPacket @ bs) h = future bs (h\<lparr>q_state := S_DECODE\<rparr>)"
    by (simp add: packet_bytes future_Cons working_def hci_clock_def clk_disabled_def d)
  then show ?thesis by (intro exI [of _ "h\<lparr>q_state := S_DECODE\<rparr>"]) simp
qed (rule future_regs)

lemma future_run_packet:
  assumes "decoding h"
  shows "future (PacketData new_DbgRunPacket) h = []"
  using future_opcode [OF assms, of 4 "h\<lparr>q_decode_cnt := 0, q_state := S_DISABLED\<rparr>" "[]" "[]"]
  by (simp add: packet_bytes decode_opcode_def future_Nil working_def)

section \<open>The host side\<close>

text \<open>A port to which every write is appended to what has been sent.\<close>

locale serial_port =
  fixes H :: "'c host" and sent :: "'c \<Rightarrow> BYTE list"
  assumes write_file: "sent (snd (snd (WriteFile H bs c))) = sent c @ bs"
begin

lemma sent_send: "constructed p \<Longrightarrow> sent (send H p c) = sent c @ PacketData p"
  using write_file [of "PacketData p" c] size_of_constructed [of p]
  by (auto simp: send_def SendData_def split: prod.splits)

lemma sent_fold:
  assumes "\<And>i. constructed (f i)"
  shows "sent (fold (\<lambda>i. send H (f i)) xs c) = sent c @ stream (map f xs)"
  by (induction xs arbitrary: c) (simp_all add: sent_send assms)


lemma sent_transfer:
  "sent (transfer_rom H f c) = sent c @ PacketData new_DbgHltPacket @
     stream (new_PpuDisablePacket # new_CartSetCfgPacket f
       # map (prg_packet f) [0 ..< unat (f 4) * 0x4000 div transferBlockSize]
       @ map (chr_packet f (unat (f 4) * 0x4000)) [0 ..< unat (f 5) * 0x2000 div transferBlockSize]
       @ [new_CpuRegWrPacket CpuRegPcl (f (16 + unat (f 4) * 0x4000 - 4)),
          new_CpuRegWrPacket CpuRegPch (f (16 + unat (f 4) * 0x4000 - 3))])
     @ PacketData new_DbgRunPacket"
proof -
  have p: "constructed (prg_packet f i)" "constructed (chr_packet f n i)" for i n
    by (simp_all add: prg_packet_def chr_packet_def Let_def constructed.intros)
  show ?thesis
    by (simp add: transfer_rom_def Let_def sent_send sent_fold p constructed.intros)
qed

end

section \<open>Loading a ROM, end to end\<close>

text \<open>What the NES is meant to receive for a ROM file: the banks at their addresses and the start address.\<close>

definition rom_writes :: "(nat \<Rightarrow> BYTE) \<Rightarrow> hci_event list" where
  "rom_writes f =
     (let prg = unat (f 4) * 0x4000; chr = unat (f 5) * 0x2000 in
      [CpuWrite 0x2000 0, CpuWrite 0x2001 0, CartCfg (cart_word [f 4, f 5, f 6, f 7, f 8])]
      @ map (\<lambda>i. CpuWrite (of_nat (0x8000 + i)) (f (16 + i))) [0 ..< prg]
      @ map (\<lambda>i. VramWrite (of_nat i) (f (16 + prg + i))) [0 ..< chr]
      @ [RegWrite 0 (f (16 + prg - 4)), RegWrite 1 (f (16 + prg - 3))])"

lemma blocks_concat:
  "concat (map (\<lambda>i. map (\<lambda>j. g (k * i + j)) [0 ..< k]) [0 ..< n]) = map g [0 ..< k * n]"
proof (induction n)
  case (Suc n)
  have "[0 ..< k * Suc n] = [0 ..< k * n] @ map (\<lambda>j. k * n + j) [0 ..< k]"
    using upt_add_eq_append [of 0 "k * n" k] by (simp add: add.commute map_add_upt)
  then show ?case using Suc by (simp add: o_def)
qed simp

lemma mem_packet_writes:
  "packet_writes (new_CpuMemWrPacket a n d) = map (\<lambda>i. CpuWrite (a + of_nat i) (d i)) [0 ..< unat n]"
  "packet_writes (new_PpuMemWrPacket a n d) = map (\<lambda>i. VramWrite (a + of_nat i) (d i)) [0 ..< unat n]"
proof -
  have w: "data_writes wr (x # ushort_bytes a @ ushort_bytes n @ map d [0 ..< unat n])
      = map (\<lambda>i. wr (a + of_nat i) (d i)) [0 ..< unat n]" for wr x
    using data_writes_bytes [of "x # ushort_bytes a @ ushort_bytes n" wr "map d [0 ..< unat n]"]
    by (simp add: LD_WORD_packet [unfolded One_nat_def])
  show "packet_writes (new_CpuMemWrPacket a n d) = map (\<lambda>i. CpuWrite (a + of_nat i) (d i)) [0 ..< unat n]"
    "packet_writes (new_PpuMemWrPacket a n d) = map (\<lambda>i. VramWrite (a + of_nat i) (d i)) [0 ..< unat n]"
    using w [of CpuWrite 2] w [of VramWrite "0xA"] by (simp_all add: packet_writes_def packet_bytes)
qed

lemma bank_writes:
  "concat (map packet_writes (map (prg_packet f) [0 ..< n]))
    = map (\<lambda>i. CpuWrite (of_nat (0x8000 + i)) (f (16 + i))) [0 ..< transferBlockSize * n]"
  "concat (map packet_writes (map (chr_packet f m) [0 ..< n]))
    = map (\<lambda>i. VramWrite (of_nat i) (f (16 + m + i))) [0 ..< transferBlockSize * n]"
proof -
  have t: "unat (of_nat transferBlockSize :: WORD) = transferBlockSize" by (simp add: transferBlockSize_def)
  show "concat (map packet_writes (map (prg_packet f) [0 ..< n]))
    = map (\<lambda>i. CpuWrite (of_nat (0x8000 + i)) (f (16 + i))) [0 ..< transferBlockSize * n]"
    using blocks_concat [of "\<lambda>i. CpuWrite (of_nat (0x8000 + i)) (f (16 + i))" transferBlockSize n]
    by (simp add: o_def prg_packet_def Let_def mem_packet_writes t add.assoc)
  show "concat (map packet_writes (map (chr_packet f m) [0 ..< n]))
    = map (\<lambda>i. VramWrite (of_nat i) (f (16 + m + i))) [0 ..< transferBlockSize * n]"
    using blocks_concat [of "\<lambda>i. VramWrite (of_nat i) (f (16 + m + i))" transferBlockSize n]
    by (simp add: o_def chr_packet_def Let_def mem_packet_writes t add.assoc)
qed

context serial_port
begin

lemma future_rom:
  assumes "q_state h \<in> {S_DISABLED, S_DECODE}" and "sent c = []"
  shows "future (sent (transfer_rom H f c)) h = rom_writes f"
proof -
  let ?prg = "unat (f 4) * 0x4000" and ?chr = "unat (f 5) * 0x2000"
  let ?ps = "new_PpuDisablePacket # new_CartSetCfgPacket f
       # map (prg_packet f) [0 ..< ?prg div transferBlockSize]
       @ map (chr_packet f ?prg) [0 ..< ?chr div transferBlockSize]
       @ [new_CpuRegWrPacket CpuRegPcl (f (16 + ?prg - 4)), new_CpuRegWrPacket CpuRegPch (f (16 + ?prg - 3))]"
  obtain h1 where h1: "decoding h1"
    "future (PacketData new_DbgHltPacket @ stream ?ps @ PacketData new_DbgRunPacket) h
      = future (stream ?ps @ PacketData new_DbgRunPacket) h1"
    using future_halt_first [OF assms(1)] by blast
  have "list_all (\<lambda>p. constructed p \<and> packet_class p \<noteq> DbgRunPacket) ?ps"
    by (auto simp: list_all_iff packet_classes prg_packet_def chr_packet_def Let_def intro: constructed.intros)
  then obtain h2 where h2: "decoding h2" "future (stream ?ps @ PacketData new_DbgRunPacket) h1
      = concat (map packet_writes ?ps) @ future (PacketData new_DbgRunPacket) h2"
    using future_packets h1(1) by blast
  have b: "transferBlockSize * (?prg div transferBlockSize) = ?prg" "transferBlockSize * (?chr div transferBlockSize) = ?chr"
    by (simp_all add: transferBlockSize_def)
  have "concat (map packet_writes ?ps) = rom_writes f"
    by (simp only: map_append concat_append list.map concat.simps bank_writes b rom_writes_def Let_def)
       (simp add: packet_writes_def packet_bytes CpuRegPcl_def CpuRegPch_def)
  then show ?thesis
    using h1(2) h2(2) future_run_packet [OF h2(1)] by (simp add: sent_transfer assms(2))
qed

end

end
