(* ===== verification/NesTheorems.thy ===== *)
theory NesTheorems
  imports NesLink
begin

text \<open>
  The correctness theorems of the NES debugger: packets and text, the effect of a packet stream on the
  NES under any timing, loading a ROM, and echoing over the link.
\<close>

section \<open>The link as the host sees it\<close>

text \<open>
  The interface of theory \<open>NesHci\<close> behind the serial port: what is written waits on the wire; a read lets
  the interface run for \<open>N\<close> cycles with inputs \<open>i\<close> and takes the bytes it has transmitted.
\<close>

record nes_link =
  nl_hci :: hci
  nl_wire :: "BYTE list"
  nl_back :: "BYTE list"
  nl_sent :: "BYTE list"

fun transmitted :: "hci_event list \<Rightarrow> BYTE list" where
  "transmitted [] = []"
| "transmitted (Transmit b # es) = b # transmitted es"
| "transmitted (_ # es) = transmitted es"

lemma transmitted_append [simp]: "transmitted (es @ es') = transmitted es @ transmitted es'"
  by (induction es rule: transmitted.induct) simp_all

lemma transmitted_map [simp]: "transmitted (map Transmit bs) = bs"
  by (induction bs) simp_all

definition nes_host :: "nat \<Rightarrow> hci_in \<Rightarrow> (nat \<Rightarrow> BYTE) \<Rightarrow> nes_link host" where
  "nes_host N i junk =
     \<lparr>WriteFile = (\<lambda>bs l. (True, of_nat (length bs), l\<lparr>nl_wire := nl_wire l @ bs, nl_sent := nl_sent l @ bs\<rparr>)),
      ReadFile = (\<lambda>n l.
        case hci_run (replicate N (True, i)) (nl_wire l) (nl_hci l) of (es, bs, h) \<Rightarrow>
          let back = nl_back l @ transmitted es in
          (True, take (unat n) back, l\<lparr>nl_hci := h, nl_wire := bs, nl_back := drop (unat n) back\<rparr>)),
      heap = junk\<rparr>"

interpretation nes: serial_port "nes_host N i junk" nl_sent
  by unfold_locales (simp add: nes_host_def)

text \<open>The cycles of an echo.\<close>

lemma run_idle:
  "q_state h = S_DECODE \<Longrightarrow> \<not> parity_err i \<Longrightarrow> hci_run (replicate n (True, i)) [] h = ([], [], h)"
  by (induction n) (simp_all add: hci_clock_def clk_decode_def Let_def)

lemma run_echo_data:
  assumes "q_state h = S_ECHO_STG_1" and "q_execute_cnt h = of_nat (length ds)" and "0 < length ds"
    and "length ds < 2 ^ 17" and "\<not> parity_err i" and "length ds \<le> n"
  shows "\<exists>h'. decoding h' \<and> hci_run (replicate n (True, i)) ds h = (map Transmit ds, [], h')"
  using assms
proof (induction ds arbitrary: h n)
  case (Cons d ds)
  obtain m where n: "n = Suc m" using Cons.prems(6) by (cases n) auto
  obtain h1 where h1: "hci_clock (i\<lparr>rx := Some d\<rparr>) h = (h1, True, [Transmit d])"
    "q_execute_cnt h1 = of_nat (length ds)" "q_state h1 = (if of_nat (length ds) = (0 :: 17 word) then S_DECODE else S_ECHO_STG_1)"
    using Cons.prems by (auto simp: hci_clock_def clk_echo_1_def Let_def)
  show ?case
  proof (cases ds)
    case Nil
    then show ?thesis using h1 run_idle [of h1 i m] Cons.prems(5)
      by (intro exI [of _ h1]) (simp add: n)
  next
    case (Cons d' ds')
    have "unat (of_nat (length ds) :: 17 word) = length ds"
      using Cons.prems(4) by (simp add: unsigned_of_nat take_bit_nat_eq_self)
    then have "of_nat (length ds) \<noteq> (0 :: 17 word)" using Cons by auto
    then obtain h' where "decoding h'" "hci_run (replicate m (True, i)) ds h1 = (map Transmit ds, [], h')"
      using Cons.IH [of h1 m] Cons.prems h1 Cons n by auto
    then show ?thesis using h1(1) by (intro exI [of _ h']) (simp add: n)
  qed
qed simp

lemma run_echo:
  assumes "decoding h" and "\<not> parity_err i" and "\<not> brk i" and "unat n + 3 \<le> N"
  shows "\<exists>h'. decoding h' \<and> hci_run (replicate N (True, i)) (PacketData (new_EchoPacket d n)) h
    = (map Transmit (map d [0 ..< unat n]), [], h')"
proof -
  let ?ds = "map d [0 ..< unat n]"
  define m where "m = N - 3"
  have N: "N = Suc (Suc (Suc m))" "unat n \<le> m" using assms(4) by (simp_all add: m_def)
  let ?g = "h\<lparr>q_decode_cnt := 2, q_execute_cnt := ucast n,
        q_state := (if n \<noteq> 0 then S_ECHO_STG_1 else S_DECODE)\<rparr>"
  have r: "hci_run (replicate N (True, i)) (PacketData (new_EchoPacket d n)) h
      = hci_run (replicate m (True, i)) ?ds ?g"
    using assms(1-3)
    by (simp add: N(1) packet_bytes ushort_bytes_def hci_clock_def clk_decode_def clk_echo_0_def decode_opcode_def
        Let_def low_high_cnt_bytes ucast_zero_iff split: prod.split)
  show ?thesis
  proof (cases "n = 0")
    case True
    then show ?thesis using r run_idle [of ?g i m] assms(2) by (intro exI [of _ ?g]) simp
  next
    case False
    then have "0 < length ?ds" by (simp add: unat_gt_0)
    moreover have "length ?ds < 2 ^ 17" using unat_bounds(2) [of n] by simp
    moreover have "q_execute_cnt ?g = of_nat (length ?ds)" by simp
    moreover have "q_state ?g = S_ECHO_STG_1" using False by simp
    ultimately show ?thesis unfolding r using run_echo_data [of ?g ?ds i m] assms(2) N(2) by simp
  qed
qed

section \<open>Packets and text\<close>

text \<open>C37: The size a packet reports is the number of bytes it holds, without wrap-around, for every packet a
  constructor builds, also with 65535 bytes of data: \<open>SendData\<close> sends the whole packet and reads nothing
  past its array.\<close>

theorem packet_size_exact:
  assumes "constructed p"
  shows "unat (SizeInBytes p) = length (PacketData p)
    \<and> take (unat (SizeInBytes p)) (PacketData p) = PacketData p"
  using size_of_constructed [OF assms] by simp

theorem packet_size_exact_witness:
  "unat (SizeInBytes (new_CpuMemWrPacket 0x8000 0x400 (\<lambda>_. 0))) = 1029"
proof -
  have "constructed (new_CpuMemWrPacket 0x8000 0x400 (\<lambda>_. 0))" by (rule constructed.intros)
  from packet_size_exact [OF this] show ?thesis by (simp add: packet_bytes)
qed

text \<open>C35: Printing a packet and reading the text back gives the packet: for the echo and CPU memory packets
  \<open>CreateObjFromString\<close> applied to the dialog's own hexadecimal notation of the packet rebuilds it
  exactly, whatever the heap held before; every other packet it refuses.\<close>

theorem packet_text_roundtrip:
  assumes "constructed p"
  shows "CreateObjFromString junk (hex_text (PacketData p))
    = (if packet_class p \<in> {EchoPacket, CpuMemRdPacket, CpuMemWrPacket} then Some p else None)"
  by (rule text_round_trip [OF assms])

theorem packet_text_roundtrip_witness:
  "CreateObjFromString (\<lambda>_. 0xAA) (hex_text [0x01, 0x34, 0x00, 0x02, 0x00]) = Some (new_CpuMemRdPacket 0x34 2)"
proof -
  have "constructed (new_CpuMemRdPacket 0x34 2)" by (rule constructed.intros)
  from packet_text_roundtrip [OF this, of "\<lambda>_. 0xAA"] show ?thesis by (simp add: packet_bytes ushort_bytes_def)
qed

text \<open>C36: Which text is a packet.  \<open>CreateObjFromString\<close> accepts a text exactly if every character is, in the
  low byte of its 16 bits, the ASCII code of a hexadecimal digit (\<open>0-9\<close>, \<open>A-F\<close>, \<open>a-f\<close>) or of a space, the number of
  digits is even, and the first two digits - for a text without digits, the uninitialised memory - are an
  operation code of 0 to 2; the packet is then a well-formed echo or CPU memory packet.\<close>

theorem packet_text_accepted:
  "(CreateObjFromString junk cs \<noteq> None \<longleftrightarrow>
      (\<forall>c \<in> set cs. (ucast c :: BYTE) \<in> set hex_chars \<or> (ucast c :: BYTE) = 0x20)
      \<and> even (length (text_digits cs)) \<and> text_opcode junk cs \<le> 2)
    \<and> (\<forall>p. CreateObjFromString junk cs = Some p \<longrightarrow>
        constructed p \<and> packet_class p \<in> {EchoPacket, CpuMemRdPacket, CpuMemWrPacket})"
proof -
  obtain ok n raw where r: "parse_text cs 0 junk = (ok, n, raw)" by (metis prod_cases3)
  have ok: "ok \<longleftrightarrow> (\<forall>c \<in> set cs. (ucast c :: BYTE) \<in> set hex_chars \<or> (ucast c :: BYTE) = 0x20)"
    using parse_text_succeeds [of cs 0 junk] by (simp add: r)
  have n: "n = length (text_digits cs)" if ok using parse_text_count [of cs 0 junk n raw] r that by simp
  have opc: "packet_from_raw raw \<noteq> None \<longleftrightarrow> text_opcode junk cs \<le> 2" if ok "n mod 2 \<noteq> 1"
    using parse_text_opcode [of cs junk n raw] that r packet_from_raw_opcode [of raw] by simp
  have "constructed p \<and> packet_class p \<in> {EchoPacket, CpuMemRdPacket, CpuMemWrPacket}" if "packet_from_raw raw = Some p" for p
    using that by (auto simp: packet_from_raw_def packet_classes split: if_splits intro: constructed.intros)
  then have "\<forall>p. CreateObjFromString junk cs = Some p \<longrightarrow>
      constructed p \<and> packet_class p \<in> {EchoPacket, CpuMemRdPacket, CpuMemWrPacket}"
    by (auto simp: CreateObjFromString_def r split: if_splits)
  moreover have "CreateObjFromString junk cs \<noteq> None \<longleftrightarrow> ok \<and> even (length (text_digits cs)) \<and> text_opcode junk cs \<le> 2"
  proof (cases "ok \<and> n mod 2 \<noteq> 1")
    case True
    then show ?thesis using opc n by (simp add: CreateObjFromString_def r even_iff_mod_2_eq_zero)
  next
    case False
    then show ?thesis using n by (auto simp: CreateObjFromString_def r even_iff_mod_2_eq_zero)
  qed
  ultimately show ?thesis unfolding ok by blast
qed

theorem packet_text_accepted_witness:
  "CreateObjFromString (\<lambda>_. 0xAA) [0x30, 0x31, 0x20, 0x34, 0x46, 0x30, 0x30, 0x30, 0x30, 0x30, 0x30] \<noteq> None
    \<and> CreateObjFromString (\<lambda>_. 0xAA) [0x30, 0x67] = None \<and> CreateObjFromString (\<lambda>_. 0xAA) [0x30, 0x33] = None"
  using packet_text_accepted [of "\<lambda>_. 0xAA" "[0x30, 0x31, 0x20, 0x34, 0x46, 0x30, 0x30, 0x30, 0x30, 0x30, 0x30]"]
    packet_text_accepted [of "\<lambda>_. 0xAA" "[0x30, 0x67]"] packet_text_accepted [of "\<lambda>_. 0xAA" "[0x30, 0x33]"]
  by (simp add: hex_chars_def text_opcode_def digit_value_def)

section \<open>The NES under any timing\<close>

text \<open>C34: What a stream of packets writes on the NES does not depend on timing.  From a halted interface, in
  every run over the bytes of packets without a run packet - however they arrive, however the transmit
  buffer stalls, whatever the buses read - the writes so far are a prefix of the packets' writes in their
  order, and all of them once the bytes are read and the interface is at rest.\<close>

theorem packet_stream_writes:
  assumes "list_all (\<lambda>p. constructed p \<and> packet_class p \<noteq> DbgRunPacket) ps" and "q_state h = S_DECODE"
    and "hci_run is (stream ps) h = (es, bs', h')" and "\<forall>i \<in> set is. \<not> brk (snd i)"
  shows "(\<exists>ws. writes es @ ws = concat (map packet_writes ps))
    \<and> (bs' = [] \<and> \<not> working h' \<longrightarrow> writes es = concat (map packet_writes ps))"
proof -
  obtain h1 where h1: "decoding h1" "future (stream ps @ []) h = concat (map packet_writes ps) @ future [] h1"
    using future_packets [OF assms(1,2)] by blast
  have "future [] h1 = []" using h1(1) by (simp add: future_Nil working_def)
  then have "concat (map packet_writes ps) = writes es @ future bs' h'"
    using h1(2) run_future [OF assms(3,4)] by simp
  then show ?thesis using future_Nil [of h'] by auto
qed

theorem packet_stream_writes_witness:
  "writes (fst (hci_run (replicate 10 (True, undisturbed None)) (stream [new_PpuDisablePacket]) hci_reset))
    = [CpuWrite 0x2000 0, CpuWrite 0x2001 0]"
proof -
  have r: "hci_run (replicate 10 (True, undisturbed None)) (stream [new_PpuDisablePacket]) hci_reset
      = ([CpuWrite 0x2000 0, CpuWrite 0x2001 0], [], hci_reset\<lparr>q_decode_cnt := 6\<rparr>)"
    by code_simp
  have l: "list_all (\<lambda>p. constructed p \<and> packet_class p \<noteq> DbgRunPacket) [new_PpuDisablePacket]"
    by (simp add: constructed.intros packet_classes)
  have b: "\<forall>i \<in> set (replicate 10 (True, undisturbed None)). \<not> brk (snd i)" by simp
  from packet_stream_writes [OF l _ r b] show ?thesis unfolding r
    by (simp add: hci_reset_def working_def packet_writes_def packet_classes)
qed

text \<open>C33: \<open>LoadRom\<close> loads the ROM, end to end.  For a file that passes the header checks, over a port that
  delivers what is written, the NES - running or halted - performs exactly these writes in this order,
  under any timing: the PPU is switched off, the cartridge configured, every PRG byte stored from 0x8000
  on, every CHR byte from 0 on, and the program counter set to the reset vector.  A file that fails a
  check sends nothing.\<close>

theorem load_rom_end_to_end:
  assumes "serial_port H sent" and "sent c = []" and "LoadRom H (RomData bs) c = (ms, c')"
    and "q_state h \<in> {S_DISABLED, S_DECODE}"
    and "hci_run is (sent c') h = (es, bs', h')" and "\<forall>i \<in> set is. \<not> brk (snd i)"
  shows "(ms \<noteq> [] \<longrightarrow> c' = c)
    \<and> (ms = [] \<longrightarrow> (\<exists>ws. writes es @ ws = rom_writes (file_buffer H bs))
        \<and> (bs' = [] \<and> \<not> working h' \<longrightarrow> writes es = rom_writes (file_buffer H bs)))"
proof -
  have m: "ms = rom_checks (file_buffer H bs)"
    and c': "c' = (if ms = [] then transfer_rom H (file_buffer H bs) c else c)"
    using assms(3) by (auto simp: LoadRom_def Let_def)
  have "writes es @ future bs' h' = rom_writes (file_buffer H bs)" if "ms = []"
    using run_future [OF assms(5,6)] serial_port.future_rom [OF assms(1,4,2), of "file_buffer H bs"] c' that by simp
  then show ?thesis using c' future_Nil [of h'] by auto
qed

definition demo_rom :: "BYTE list" where
  "demo_rom = [0x4E, 0x45, 0x53, 0x1A, 0, 0, 0, 0, 0, 0, 0, 0, 0x12, 0x34, 0, 0]"

definition demo_link :: nes_link where
  "demo_link = \<lparr>nl_hci = hci_reset, nl_wire = [], nl_back = [], nl_sent = []\<rparr>"

theorem load_rom_end_to_end_witness:
  "\<exists>N. writes (fst (hci_run (replicate N (True, undisturbed None))
      (nl_sent (snd (LoadRom (nes_host 0 (undisturbed None) (\<lambda>_. 0)) (RomData demo_rom) demo_link))) hci_reset))
    = rom_writes (file_buffer (nes_host 0 (undisturbed None) (\<lambda>_. 0)) demo_rom)"
proof -
  let ?H = "nes_host 0 (undisturbed None) (\<lambda>_. 0)"
  obtain ms c' where l: "LoadRom ?H (RomData demo_rom) demo_link = (ms, c')" by fastforce
  have ms: "ms = []" using l
    by (auto simp: LoadRom_def rom_checks_def file_buffer_def demo_rom_def Let_def)
  obtain N where N: "rests N (nl_sent c') hci_reset" using run_rests by blast
  obtain es bs' h' where r: "hci_run (replicate N (True, undisturbed None)) (nl_sent c') hci_reset = (es, bs', h')"
    by (metis prod_cases3)
  have e: "bs' = []" "\<not> working h'" using N r by (simp_all add: rests_def)
  from load_rom_end_to_end [OF nes.serial_port_axioms _ l _ r] ms e
  show ?thesis using r l by (intro exI [of _ N]) (simp add: demo_link_def hci_reset_def)
qed

text \<open>C38: The interface always comes to rest: with enough cycles and a transmit buffer that is not full it has
  read every byte sent to it and has nothing left to do, from any state and for any bytes, valid packets
  or not.\<close>

theorem hci_comes_to_rest:
  "\<exists>N. \<forall>n \<ge> N. rests n bs h"
  by (rule run_rests)

theorem hci_comes_to_rest_witness: "\<exists>n. rests n [0xFF, 0x01] hci_reset"
  using hci_comes_to_rest [of "[0xFF, 0x01]" hci_reset] by blast

text \<open>C39: The connection test succeeds on a halted NES: with an idle link, an interface waiting for a packet,
  and time for at least 7 cycles before the answer is read, the handshake sends \<open>"NES"\<close>, receives it back
  and reports success, leaving the link idle and the interface waiting.\<close>

theorem handshake_succeeds:
  assumes "q_state (nl_hci l) = S_DECODE" and "nl_wire l = []" and "nl_back l = []"
    and "7 \<le> N" and "\<not> parity_err i" and "\<not> brk i"
  shows "\<exists>l'. handshake (nes_host N i junk) l = (True, l') \<and> q_state (nl_hci l') = S_DECODE
    \<and> nl_wire l' = [] \<and> nl_back l' = []"
proof -
  define p where "p = new_EchoPacket (nth init_string) 4"
  let ?H = "nes_host N i junk"
  have d: "map (nth init_string) [0 ..< 4] = init_string" "length init_string = 4"
    by (simp_all add: init_string_def upt_rec)
  have s: "unat (SizeInBytes p) = length (PacketData p)"
    unfolding p_def by (rule size_of_constructed) (rule constructed.echo)
  obtain h' where h': "decoding h'"
    "hci_run (replicate N (True, i)) (PacketData p) (nl_hci l) = (map Transmit init_string, [], h')"
    using run_echo [OF assms(1,5,6), of 4 N "nth init_string"] assms(4) d by (auto simp: p_def)
  have n: "ReturnBytesExpected p = 4"
    by (simp add: p_def ReturnBytesExpected_def packet_classes EchoPacket_ReturnBytesExpected_def
        EchoPacket_bytes [unfolded PacketData_def] LD_WORD_packet [unfolded One_nat_def])
  have sd: "send ?H p l = l\<lparr>nl_wire := PacketData p, nl_sent := nl_sent l @ PacketData p\<rparr>"
    using assms(2) by (simp add: send_def SendData_def nes_host_def s)
  have rc: "receive ?H p (send ?H p l) = (init_string,
      l\<lparr>nl_wire := [], nl_sent := nl_sent l @ PacketData p, nl_hci := h', nl_back := []\<rparr>)"
    unfolding sd using h'(2) assms(3) d(2)
    by (simp add: receive_def ReceiveData_def n nes_host_def fresh_def blit_def)
  show ?thesis using h'(1) by (simp add: handshake_def Let_def p_def [symmetric] rc)
qed

theorem handshake_succeeds_witness:
  "fst (handshake (nes_host 7 (undisturbed None) (\<lambda>_. 0)) demo_link) = True"
  using handshake_succeeds [of demo_link 7 "undisturbed None" "\<lambda>_. 0"]
  by (auto simp: demo_link_def hci_reset_def)

end
