(* ===== verification/TffOpenProps.thy ===== *)
theory TffOpenProps
  imports TffPathProps
begin

text \<open>
  Opening a file in the shipped, read-only build: \<open>f_open\<close> on a mounted volume returns the handle of the
  directory entry that the path resolves to, ready for \<open>f_read\<close> at offset 0.
\<close>

section \<open>A mounted volume\<close>

definition mounted :: "'d diskio \<Rightarrow> 'd tff \<Rightarrow> bool" where
  "mounted io s \<longleftrightarrow>
     FatFs s \<noteq> 0 \<and> fs_type (cur_fs s) \<noteq> 0 \<and> \<not> has (dio_status io 0 (disk s)) STA_NOINIT"

lemma mounted_auto_mount:
  assumes "FS_READONLY io" "mounted io s"
  shows "auto_mount io path chk s = (FR_OK, strip_path path, s)"
  using assms by (simp add: auto_mount_def mounted_def)

lemma mounted_same: "same_vol io dsec s s' \<Longrightarrow> mounted io s' = mounted io s"
  by (simp add: mounted_def same_vol_simps)

section \<open>The file of a directory entry\<close>

definition entry_size :: "BYTE list \<Rightarrow> nat" where
  "entry_size e = unat (LD_DWORD e DIR_FileSize)"

definition entry_chain :: "(nat \<Rightarrow> BYTE list) \<Rightarrow> FATFS \<Rightarrow> BYTE list \<Rightarrow> WORD list \<Rightarrow> bool" where
  "entry_chain sec fs e cl \<longleftrightarrow>
     chain_ok sec fs cl \<and> (cl \<noteq> [] \<longrightarrow> hd cl = LD_WORD e DIR_FstClusLO)
     \<and> entry_size e \<le> length cl * (spc fs * 512)"

definition entry_bytes :: "(nat \<Rightarrow> BYTE list) \<Rightarrow> FATFS \<Rightarrow> BYTE list \<Rightarrow> WORD list \<Rightarrow> BYTE list" where
  "entry_bytes sec fs e cl = take (entry_size e) (chain_bytes sec fs cl)"

lemma shows_size:
  assumes "shows_entry sec fs tab dj i win"
  shows "LD_DWORD win (entry_off dj + DIR_FileSize) = LD_DWORD (tab_entry sec fs tab i) DIR_FileSize"
proof -
  have l: "entry_off dj + 32 \<le> length win" "slice (entry_off dj) 32 win = tab_entry sec fs tab i"
    using assms by (auto simp: shows_entry_def)
  have "win ! (entry_off dj + k) = tab_entry sec fs tab i ! k" if "k < 32" for k
    using l(1) that by (subst l(2) [symmetric]) (simp add: slice_nth)
  from this [of 28] this [of 29] this [of 30] this [of 31] show ?thesis
    by (simp add: LD_DWORD_def tff_consts add.commute)
qed

text \<open>The handle that \<open>f_open\<close> makes of an entry.\<close>

definition opened :: "'d diskio \<Rightarrow> BYTE list \<Rightarrow> FIL \<Rightarrow> 'd tff \<Rightarrow> bool" where
  "opened io e fp s \<longleftrightarrow>
     open_on io fp s \<and> fp_org_clust fp = LD_WORD e DIR_FstClusLO \<and> unat (fp_fsize fp) = entry_size e
     \<and> fp_fptr fp = 0 \<and> fp_sect_clust fp = 1 \<and> \<not> has (fp_flag fp) FA_WRITE"

lemma opened_file:
  assumes "opened io e fp s" "entry_chain sec fs e cl"
  shows "file_on sec fs fp cl" "pos_ok fs cl fp" "file_bytes sec fs fp cl = entry_bytes sec fs e cl"
  using assms by (auto simp: opened_def entry_chain_def file_on_def pos_ok_def file_bytes_def entry_bytes_def)

lemma mode_flags:
  assumes "has mode FA_READ"
  shows "has (mode AND FA_READ) FA_READ" "\<not> has (mode AND FA_READ) FA_ERROR" "\<not> has (mode AND FA_READ) FA_WRITE"
  using assms by (simp_all add: has_def and.assoc FA_READ_def FA_ERROR_def FA_WRITE_def)

lemma init_file_opened:
  assumes "FS_READONLY io" "mounted io s" "has mode FA_READ" "shows_entry sec fs tab dj i (fs_win s)"
  shows "opened io (tab_entry sec fs tab i) (init_file io fp (mode AND FA_READ) (entry_off dj) s) s"
  using assms(1,2) mode_flags [OF assms(3)] shows_attr [OF assms(4)] shows_size [OF assms(4)]
  by (simp add: opened_def open_on_def init_file_def Let_def validate_def mounted_def entry_size_def)

section \<open>Opening\<close>

lemma resolve_not_ok: "names \<noteq> [] \<Longrightarrow> snd (resolve sec fs tab st names) = None \<Longrightarrow> fst (resolve sec fs tab st names) \<noteq> FR_OK"
proof (induction sec fs tab st names rule: resolve.induct)
  case (2 sec fs tab st b e ns)
  then show ?case by (cases ns) (auto simp: Let_def split: option.splits)
qed simp

lemma resolve_some_ok: "snd (resolve sec fs tab st names) = Some x \<Longrightarrow> fst (resolve sec fs tab st names) = FR_OK"
proof (induction sec fs tab st names rule: resolve.induct)
  case (2 sec fs tab st b e ns)
  then show ?case by (auto simp: Let_def split: option.splits if_splits)
qed simp

context disk_device
begin

lemma f_open_resolves:
  assumes rd: reads_ok and ro: "FS_READONLY io" and m: "mounted io s"
    and coh: "coh s" and vol: "vol_ok dcap (cur_fs s)"
    and tok: "tables_ok dcap (dsec (disk s)) (cur_fs s) RootTab 0 names"
    and names: "names \<noteq> []" "list_all legal_name names" and len: "length fn = 12"
    and root: "unat (fs_dirbase (cur_fs s)) < 65536"
    and path: "strip_path path = path_text names" and mode: "has mode FA_READ"
  shows "\<exists>res fp' s'. f_open io dj fn fp path mode s = Some (res, fp', s') \<and> coh s' \<and> sv s s'
    \<and> (case resolve (dsec (disk s)) (cur_fs s) RootTab 0 names of
         (r, None) \<Rightarrow> res = r \<and> res \<noteq> FR_OK \<and> fp_fs fp' = 0
       | (r, Some (t, i)) \<Rightarrow>
           let e = tab_entry (dsec (disk s)) (cur_fs s) t i in
           if has (e ! DIR_Attr) AM_DIR then res = FR_NO_FILE \<and> fp_fs fp' = 0
           else res = FR_OK \<and> opened io e fp' s')"
proof -
  let ?sec = "dsec (disk s)" and ?fs = "cur_fs s"
  let ?spec = "resolve ?sec ?fs RootTab 0 names"
  from trace_path_resolves [OF rd coh vol tok names len root, of dj]
  obtain res dj' fn' dir s' where t: "trace_path io dj fn (path_text names) s = Some (res, dj', fn', dir, s')"
    and tr: "traced (dj\<lparr>dir_fs := FatFs s\<rparr>) s ?spec (res, dj', fn', dir, s')" by blast
  have s': "coh s'" "sv s s'" "res = fst ?spec" using tr by (simp_all add: traced_def)
  have m': "mounted io s'" using mounted_same [OF s'(2)] m by simp
  have o: "f_open io dj fn fp path mode s =
      (case (f_existing io (mode AND FA_READ) res dir s', dir) of
         (FR_OK, Some p) \<Rightarrow> Some (FR_OK, init_file io (fp\<lparr>fp_fs := 0\<rparr>) (mode AND FA_READ) p s', s')
       | (r, _) \<Rightarrow> Some (r, fp\<lparr>fp_fs := 0\<rparr>, s'))"
    by (simp add: f_open_def mounted_auto_mount [OF ro m] path t ro Let_def split: FRESULT.splits option.splits)
  show ?thesis
  proof (cases "snd ?spec")
    case None
    then have d: "dir = None" using tr by (simp add: traced_def)
    have r: "res \<noteq> FR_OK" using resolve_not_ok [OF names(1) None] s'(3) by simp
    then have "f_open io dj fn fp path mode s = Some (res, fp\<lparr>fp_fs := 0\<rparr>, s')"
      by (cases res) (simp_all add: o d f_existing_def)
    moreover have "?spec = (res, None)" using None s'(3) by (simp add: prod_eq_iff)
    ultimately show ?thesis using s'(1,2) r by simp
  next
    case (Some ti)
    obtain tb i where ti: "ti = (tb, i)" by fastforce
    have d: "dir = Some (entry_off dj')" "shows_entry ?sec ?fs tb dj' i (fs_win s')"
      using tr Some ti by (simp_all add: traced_def)
    have r: "res = FR_OK" using resolve_some_ok [OF Some] s'(3) by simp
    note at = shows_attr [OF d(2)] and op = init_file_opened [OF ro m' mode d(2)]
    have "?spec = (FR_OK, Some (tb, i))" using Some s'(3) r ti by (simp add: prod_eq_iff)
    then show ?thesis using o s'(1,2) r d(1) at op ro by (simp add: f_existing_def Let_def)
  qed
qed

text \<open>Opening and then reading a file.\<close>

lemma open_read_content:
  assumes rd: reads_ok and op: "opened io e fp s" and coh: "coh s" and vol: "vol_ok dcap (cur_fs s)"
    and ch: "entry_chain (dsec (disk s)) (cur_fs s) e cl"
    and n: "n = min (unat btr) (entry_size e)" and len: "n \<le> length buf"
  shows "\<exists>fp' br s'. f_read io fp buf btr s
      = Some (FR_OK, fp', blit buf 0 (take n (entry_bytes (dsec (disk s)) (cur_fs s) e cl)), br, s') \<and> unat br = n"
proof -
  note f = opened_file [OF op ch]
  have o: "open_on io fp s" and z: "unat (fp_fptr fp) = 0" "unat (fp_fsize fp) = entry_size e"
    using op by (simp_all add: opened_def)
  have n': "n = min (unat btr) (unat (fp_fsize fp) - unat (fp_fptr fp))" using n z by simp
  from f_read_content [OF coh vol o f(1) f(2) n' len] rd
  obtain r fp' buf' br s' where "f_read io fp buf btr s = Some (r, fp', buf', br, s')" "r = FR_OK" "unat br = n"
    "buf' = blit buf 0 (slice (unat (fp_fptr fp)) n (file_bytes (dsec (disk s)) (cur_fs s) fp cl))" by fastforce
  then show ?thesis using z f(3) by (simp add: slice_def)
qed

end

end
