(* ===== verification/TffListProps.thy ===== *)
theory TffListProps
  imports TffOpenProps TffVolume
begin

text \<open>
  Enumerating a directory: the object of \<open>f_readdir\<close> stands for the entries of the table that have not
  been read yet, and every call delivers the next listed one.
\<close>

section \<open>Entries in order\<close>

text \<open>
  An entry is listed if it is neither deleted nor a volume label and its decoded name is not empty.
  The table ends at an entry whose first byte is 0.
\<close>

definition listed :: "BYTE list \<Rightarrow> bool" where
  "listed e \<longleftrightarrow> e ! 0 \<noteq> 0xE5 \<and> \<not> has (e ! 11) AM_VOL \<and> c_hd (entry_name e) \<noteq> 0"

fun next_listed :: "BYTE list list \<Rightarrow> (BYTE list \<times> BYTE list list) option" where
  "next_listed [] = None"
| "next_listed (e # es) =
     (if e ! 0 = 0 then None else if listed e then Some (e, es) else next_listed es)"

text \<open>The entries a directory object has before it; an object at sector 0 is at the end.\<close>

definition listing :: "(nat \<Rightarrow> BYTE list) \<Rightarrow> FATFS \<Rightarrow> dirtab \<Rightarrow> DIR \<Rightarrow> BYTE list list \<Rightarrow> bool" where
  "listing sec fs tab dj es \<longleftrightarrow>
     dir_sect dj = 0 \<and> es = []
     \<or> (\<exists>i. dir_at fs tab dj i \<and> es = drop i (tab_entries sec fs tab))"

text \<open>What \<open>get_fileinfo\<close> makes of an entry.\<close>

definition info_of :: "BYTE list \<Rightarrow> FILINFO \<Rightarrow> bool" where
  "info_of e fi \<longleftrightarrow>
     length (fi_fname fi) = 13 \<and> name_of (fi_fname fi) = name_of (entry_name e)
     \<and> fi_fattrib fi = e ! DIR_Attr \<and> fi_fsize fi = LD_DWORD e DIR_FileSize"

lemma length_copy_body: "length (copy_body n d) \<le> n"
  by (induction n arbitrary: d) (auto simp: Let_def)

lemma length_copy_ext: "length (copy_ext n d) \<le> n"
  by (induction n arbitrary: d) (auto simp: Let_def)

lemma length_entry_name: "length (entry_name e) \<le> 12"
  using length_copy_body [of 8 e] length_copy_ext [of 3 "drop 8 e"] by (auto simp: entry_name_def)

lemma fileinfo_of:
  assumes "length (fi_fname fi) = 13"
  shows "info_of e (get_fileinfo fi e)" "length (fi_fname (get_fileinfo fi e)) = 13"
    "fi_fname (get_fileinfo fi e) ! 0 = c_hd (entry_name e)"
proof -
  have b: "fi_fname (get_fileinfo fi e) = entry_name e @ 0 # drop (length (entry_name e) + 1) (fi_fname fi)"
    by (simp add: get_fileinfo_def blit_def)
  show l: "length (fi_fname (get_fileinfo fi e)) = 13"
    using length_entry_name [of e] assms by (simp add: b)
  have "name_of (cs @ 0 # xs) = name_of cs" for cs xs
    by (induction cs) (auto simp: name_of_def)
  then show "info_of e (get_fileinfo fi e)" using l by (simp add: info_of_def b) (simp add: get_fileinfo_def)
  show "fi_fname (get_fileinfo fi e) ! 0 = c_hd (entry_name e)"
    unfolding b by (cases "entry_name e") (simp_all add: c_hd_def)
qed

section \<open>The next entry\<close>

context disk_device
begin

text \<open>The object after the entry at index \<open>i\<close> has been passed.\<close>

lemma passed_entry:
  assumes coh: "coh s" and vol: "vol_ok dcap (cur_fs s)" and tab: "tab_ok dcap (dsec (disk s)) (cur_fs s) tab"
    and at: "dir_at (cur_fs s) tab dj i" and rd: reads_ok
    and nx: "next_dir_entry io dj s = (ok, dj1, s')" and dj': "dj' = (if ok then dj1 else dj1\<lparr>dir_sect := 0\<rparr>)"
  shows "coh s' \<and> sv s s' \<and> listing (dsec (disk s)) (cur_fs s) tab dj' (drop (i + 1) (tab_entries (dsec (disk s)) (cur_fs s) tab))
    \<and> dir_fs dj' = dir_fs dj \<and> dir_id dj' = dir_id dj"
proof -
  note n = next_dir_entry_ok [OF coh vol tab at rd nx]
  have "\<not> ok \<Longrightarrow> drop (i + 1) (tab_entries (dsec (disk s)) (cur_fs s) tab) = []"
    using n by (simp add: tab_entries_def)
  then show ?thesis using n dj' by (cases ok) (auto simp: listing_def)
qed

lemma readdir_loop_next:
  assumes "coh s" "vol_ok dcap (cur_fs s)" "tab_ok dcap (dsec (disk s)) (cur_fs s) tab"
    and "listing (dsec (disk s)) (cur_fs s) tab dj es" and rd: reads_ok
    and "length (fi_fname fi) = 13" "fi_fname fi ! 0 = 0"
  shows "\<exists>dj' fi' s'. readdir_loop io dj fi s = Some (True, dj', fi', s') \<and> coh s' \<and> sv s s'
    \<and> dir_fs dj' = dir_fs dj \<and> dir_id dj' = dir_id dj \<and> length (fi_fname fi') = 13
    \<and> (case next_listed es of
         None \<Rightarrow> fi_fname fi' ! 0 = 0
           \<and> (\<exists>es'. listing (dsec (disk s)) (cur_fs s) tab dj' es' \<and> next_listed es' = None)
       | Some (e, es') \<Rightarrow> info_of e fi' \<and> fi_fname fi' ! 0 \<noteq> 0 \<and> listing (dsec (disk s)) (cur_fs s) tab dj' es')"
  using assms(1-4,6,7)
proof (induction es arbitrary: dj fi s)
  case Nil
  then have "dir_sect dj = 0 \<or> (\<exists>i. dir_at (cur_fs s) tab dj i \<and> [] = drop i (tab_entries (dsec (disk s)) (cur_fs s) tab))"
    by (simp add: listing_def)
  moreover have "\<not> dir_at (cur_fs s) tab dj i" if "[] = drop i (tab_entries (dsec (disk s)) (cur_fs s) tab)" for i
    using that by (auto simp: dir_at_def tab_entries_def)
  ultimately have "dir_sect dj = 0" by blast
  then show ?case using Nil by (subst readdir_loop.simps) auto
next
  case (Cons e es)
  note coh = Cons.prems(1) and vol = Cons.prems(2) and tab = Cons.prems(3)
  obtain i where at: "dir_at (cur_fs s) tab dj i" and es: "e # es = drop i (tab_entries (dsec (disk s)) (cur_fs s) tab)"
    using Cons.prems(4) by (auto simp: listing_def)
  have il: "i < tab_size (cur_fs s) tab" using at by (simp add: dir_at_def)
  have e: "e = tab_entry (dsec (disk s)) (cur_fs s) tab i" and es': "es = drop (i + 1) (tab_entries (dsec (disk s)) (cur_fs s) tab)"
    using es drop_tab_entries [OF il, where sec = "dsec (disk s)"] by simp_all
  obtain ok s1 where mw: "move_window io (dir_sect dj) s = (ok, s1)" by (metis prod.exhaust)
  have s1: ok "coh s1" "sv s s1" "shows_entry (dsec (disk s)) (cur_fs s) tab dj i (fs_win s1)"
    using window_on_entry [OF coh vol tab at mw] rd by auto
  have sl: "slice (entry_off dj) 32 (fs_win s1) = e" using s1(4) e unfolding shows_entry_def by blast
  have nz: "dir_sect dj \<noteq> 0" using tab_sector_bound(2) [OF vol tab il] at by (auto simp: dir_at_def)
  obtain ok2 dj2 s2 where nx: "next_dir_entry io dj s1 = (ok2, dj2, s2)" by (metis prod_cases3)
  define dj3 where "dj3 = (if ok2 then dj2 else dj2\<lparr>dir_sect := 0\<rparr>)"
  define fi1 where "fi1 = (if e ! 0 \<noteq> 0xE5 \<and> \<not> has (e ! 11) AM_VOL then get_fileinfo fi e else fi)"
  have step: "readdir_loop io dj fi s = (if e ! 0 = 0 then Some (True, dj, fi, s1)
      else if fi_fname fi1 ! 0 \<noteq> 0 then Some (True, dj3, fi1, s2) else readdir_loop io dj3 fi1 s2)"
    using mw s1(1) nx nz by (subst readdir_loop.simps) (simp add: sl Let_def dj3_def fi1_def tff_consts)
  have fi1: "length (fi_fname fi1) = 13" "fi_fname fi1 ! 0 \<noteq> 0 \<longleftrightarrow> listed e" "listed e \<Longrightarrow> info_of e fi1"
    using fileinfo_of [OF Cons.prems(5), of e] Cons.prems(5,6) by (auto simp: fi1_def listed_def)
  note t1 = tab_transported [OF s1(3)] transported(1) [OF s1(3) same_file_refl] transported(7) [OF s1(3) same_file_refl]
  have "vol_ok dcap (cur_fs s1)" "tab_ok dcap (dsec (disk s1)) (cur_fs s1) tab" "dir_at (cur_fs s1) tab dj i"
    using vol tab at by (simp_all add: t1)
  have li: "listing (dsec (disk s1)) (cur_fs s1) = listing (dsec (disk s)) (cur_fs s)"
    by (intro ext) (simp add: listing_def tab_transported [OF s1(3)] t1)
  note p = passed_entry [OF s1(2) \<open>vol_ok dcap (cur_fs s1)\<close> \<open>tab_ok dcap (dsec (disk s1)) (cur_fs s1) tab\<close> \<open>dir_at (cur_fs s1) tab dj i\<close> rd nx dj3_def, unfolded li t1(4)]
  have p': "listing (dsec (disk s)) (cur_fs s) tab dj3 es"
    using p es' same_vol_simps(4) [OF s1(3)] by simp
  have v2: "sv s s2" using same_vol_trans [OF s1(3)] p by blast
  consider "e ! 0 = 0" | "e ! 0 \<noteq> 0" "listed e" | "e ! 0 \<noteq> 0" "\<not> listed e" by blast
  then show ?case
  proof cases
    case 1
    then have "next_listed (e # es) = None" by simp
    then show ?thesis using step 1 s1 Cons.prems(4-6) by auto
  next
    case 2
    then show ?thesis using step fi1 p p' v2 by simp
  next
    case 3
    note t2 = tab_transported [OF v2] transported(1) [OF v2 same_file_refl] transported(7) [OF v2 same_file_refl]
    have li2: "listing sec (cur_fs s2) = listing sec (cur_fs s)" for sec
      by (intro ext) (simp add: listing_def t2)
    have "coh s2" "vol_ok dcap (cur_fs s2)" "tab_ok dcap (dsec (disk s2)) (cur_fs s2) tab"
      "listing (dsec (disk s2)) (cur_fs s2) tab dj3 es" "fi_fname fi1 ! 0 = 0"
      using p p' vol tab fi1(2) 3 by (simp_all add: t2 li2)
    from Cons.IH [OF this(1-4) fi1(1) this(5)] obtain dj' fi' s' where
      r: "readdir_loop io dj3 fi1 s2 = Some (True, dj', fi', s')" "coh s'" "sv s2 s'" "dir_fs dj' = dir_fs dj3"
        "dir_id dj' = dir_id dj3" "length (fi_fname fi') = 13"
      and c: "case next_listed es of
         None \<Rightarrow> fi_fname fi' ! 0 = 0
           \<and> (\<exists>es'. listing (dsec (disk s)) (cur_fs s) tab dj' es' \<and> next_listed es' = None)
       | Some (e, es') \<Rightarrow> info_of e fi' \<and> fi_fname fi' ! 0 \<noteq> 0 \<and> listing (dsec (disk s)) (cur_fs s) tab dj' es'"
      unfolding li2 same_vol_simps(4) [OF v2] by blast
    have "readdir_loop io dj fi s = Some (True, dj', fi', s')" using step 3 fi1(2) r(1) by simp
    then show ?thesis using r c p 3 same_vol_trans [OF v2 r(3)] by simp
  qed
qed

text \<open>The call \<open>f_readdir\<close>, on a valid object.\<close>

lemma f_readdir_next:
  assumes "coh s" "vol_ok dcap (cur_fs s)" "tab_ok dcap (dsec (disk s)) (cur_fs s) tab"
    and "listing (dsec (disk s)) (cur_fs s) tab dj es" and rd: reads_ok
    and "length (fi_fname fi) = 13" and v: "validate io (dir_fs dj) (dir_id dj) s = FR_OK"
  shows "\<exists>dj' fi' s'. f_readdir io dj fi s = Some (FR_OK, dj', fi', s') \<and> coh s' \<and> sv s s'
    \<and> dir_fs dj' = dir_fs dj \<and> dir_id dj' = dir_id dj \<and> length (fi_fname fi') = 13
    \<and> (case next_listed es of
         None \<Rightarrow> fi_fname fi' ! 0 = 0
           \<and> (\<exists>es'. listing (dsec (disk s)) (cur_fs s) tab dj' es' \<and> next_listed es' = None)
       | Some (e, es') \<Rightarrow> info_of e fi' \<and> fi_fname fi' ! 0 \<noteq> 0 \<and> listing (dsec (disk s)) (cur_fs s) tab dj' es')"
proof -
  let ?fi = "fi\<lparr>fi_fname := (fi_fname fi)[0 := 0]\<rparr>"
  have "length (fi_fname ?fi) = 13" "fi_fname ?fi ! 0 = 0" using assms(6) by simp_all
  from readdir_loop_next [OF assms(1-4) rd this] show ?thesis using v by (fastforce simp: f_readdir_def)
qed

text \<open>Opening a directory by its path.\<close>

lemma dir_at_cong:
  "dir_index dj = dir_index dj' \<Longrightarrow> dir_sect dj = dir_sect dj' \<Longrightarrow> dir_clust dj = dir_clust dj'
    \<Longrightarrow> dir_at fs tab dj i \<longleftrightarrow> dir_at fs tab dj' i"
  by (simp add: dir_at_def)

lemma f_opendir_resolves:
  assumes rd: reads_ok and ro: "FS_READONLY io" and m: "mounted io s"
    and coh: "coh s" and vol: "vol_ok dcap (cur_fs s)"
    and tok: "tables_ok dcap (dsec (disk s)) (cur_fs s) RootTab 0 names"
    and names: "names \<noteq> []" "list_all legal_name names" and len: "length fn = 12"
    and root: "unat (fs_dirbase (cur_fs s)) < 65536"
    and path: "strip_path path = path_text names"
  shows "\<exists>res dj' s'. f_opendir io fn dj path s = Some (res, dj', s') \<and> coh s' \<and> sv s s'
    \<and> (case resolve (dsec (disk s)) (cur_fs s) RootTab 0 names of
         (r, None) \<Rightarrow> res = r \<and> res \<noteq> FR_OK
       | (r, Some (t, i)) \<Rightarrow>
           let e = tab_entry (dsec (disk s)) (cur_fs s) t i; sub = sub_table (dsec (disk s)) (cur_fs s) e in
           if has (e ! DIR_Attr) AM_DIR then res = FR_OK \<and> validate io (dir_fs dj') (dir_id dj') s' = FR_OK
             \<and> (tab_ok dcap (dsec (disk s)) (cur_fs s) sub \<longrightarrow>
                  listing (dsec (disk s)) (cur_fs s) sub dj' (drop 2 (tab_entries (dsec (disk s)) (cur_fs s) sub)))
           else res = FR_NO_FILE)"
proof -
  let ?sec = "dsec (disk s)" and ?fs = "cur_fs s"
  let ?spec = "resolve ?sec ?fs RootTab 0 names"
  from trace_path_resolves [OF rd coh vol tok names len root, of dj]
  obtain res dj1 fn' dir s' where t: "trace_path io dj fn (path_text names) s = Some (res, dj1, fn', dir, s')"
    and fsp: "dir_fs dj1 = FatFs s"
    and tr: "traced (dj\<lparr>dir_fs := FatFs s\<rparr>) s ?spec (res, dj1, fn', dir, s')" by blast
  have s': "coh s'" "sv s s'" and rs: "res = fst ?spec" using tr by (simp_all add: traced_def)
  note o = f_opendir_def [of io fn dj path s] mounted_auto_mount [OF ro m] path t
  show ?thesis
  proof (cases "snd ?spec")
    case None
    then have r: "res \<noteq> FR_OK" using resolve_not_ok [OF names(1) None] rs by simp
    moreover have "?spec = (res, None)" using None rs by (simp add: prod_eq_iff)
    ultimately show ?thesis using s' by (simp add: o)
  next
    case (Some ti)
    obtain tb i where ti: "ti = (tb, i)" by fastforce
    have d: "dir = Some (entry_off dj1)" "shows_entry ?sec ?fs tb dj1 i (fs_win s')"
      using tr Some ti by (simp_all add: traced_def)
    have r: "res = FR_OK" using resolve_some_ok [OF Some] rs by simp
    have sp: "?spec = (FR_OK, Some (tb, i))" using Some rs r ti by (simp add: prod_eq_iff)
    let ?e = "tab_entry ?sec ?fs tb i" and ?c = "LD_WORD (tab_entry ?sec ?fs tb i) DIR_FstClusLO"
    have fs': "fs_id (fsobj s' (FatFs s)) = fs_id ?fs" "clust2sect (fsobj s' (FatFs s)) = clust2sect ?fs" "FatFs s' = FatFs s"
      using same_vol_simps [OF s'(2)] by (auto simp: clust2sect_def Let_def)
    let ?dj = "dj1\<lparr>dir_clust := ?c, dir_sect := clust2sect ?fs ?c, dir_index := 2, dir_id := fs_id ?fs\<rparr>"
    have v: "validate io (FatFs s) (fs_id ?fs) s' = FR_OK"
      using mounted_same [OF s'(2)] m fs' by (simp add: validate_def mounted_def)
    have "dir_at ?fs (sub_table ?sec ?fs ?e) ?dj 2" if "tab_ok dcap ?sec ?fs (sub_table ?sec ?fs ?e)"
      by (rule dir_at_cong [THEN iffD1, OF _ _ _ dir_at_sub [OF vol that, where dj = dj1]]) simp_all
    then have "listing ?sec ?fs (sub_table ?sec ?fs ?e) ?dj (drop 2 (tab_entries ?sec ?fs (sub_table ?sec ?fs ?e)))"
      if "tab_ok dcap ?sec ?fs (sub_table ?sec ?fs ?e)"
      using that by (auto simp: listing_def)
    moreover have "f_opendir io fn dj path s = (if has (?e ! DIR_Attr) AM_DIR then Some (FR_OK, ?dj, s')
        else Some (FR_NO_FILE, dj1\<lparr>dir_id := fs_id ?fs\<rparr>, s'))"
      by (simp add: o r d(1) shows_attr [OF d(2)] fs' Let_def)
    ultimately show ?thesis using s' sp v fsp by (simp add: Let_def)
  qed
qed

end

end
