(* ===== verification/PhilesProps.thy ===== *)
theory PhilesProps
  imports TffListProps MenuProps
begin

text \<open>
  The image directory: \<open>philes_nextfile\<close> walks through the disk images of the open directory in order,
  and the file selector shows them page by page.
\<close>

section \<open>The images of a directory\<close>

definition is_image :: "BYTE list \<Rightarrow> bool" where
  "is_image e \<longleftrightarrow> listed e \<and> \<not> has (e ! DIR_Attr) AM_DIR \<and> endsWith (entry_name e) dot_FDD"

definition images :: "BYTE list list \<Rightarrow> BYTE list list" where
  "images es = filter is_image (takeWhile (\<lambda>e. e ! 0 \<noteq> 0) es)"

text \<open>The entries after the next image.\<close>

fun after_image :: "BYTE list list \<Rightarrow> BYTE list list" where
  "after_image [] = []"
| "after_image (e # es) = (if e ! 0 = 0 then [] else if is_image e then es else after_image es)"

lemma images_Cons: "images (e # es) = (if e ! 0 = 0 then [] else if is_image e then e # images es else images es)"
  by (simp add: images_def)

lemma images_after: "images es \<noteq> [] \<Longrightarrow> images (after_image es) = tl (images es)"
  by (induction es) (auto simp: images_Cons images_def [of "[]"])

lemma next_listed_images:
  "images es = (case next_listed es of None \<Rightarrow> []
     | Some (e, es') \<Rightarrow> if is_image e then e # images es' else images es')"
  by (induction es) (auto simp: images_Cons images_def [of "[]"] is_image_def)

lemma next_listed_after:
  "next_listed es = Some (e, es') \<Longrightarrow> images es \<noteq> [] \<Longrightarrow> after_image es = (if is_image e then es' else after_image es')"
  by (induction es) (auto simp: is_image_def images_Cons split: if_splits)

lemma next_listed_shorter: "next_listed es = Some (e, es') \<Longrightarrow> length es' < length es \<and> listed e"
  by (induction es) (auto split: if_splits)

text \<open>The name as the firmware copies it.\<close>

definition shown_name :: "bool \<Rightarrow> BYTE list \<Rightarrow> BYTE list" where
  "shown_name t e = (if t then strncpy12 (entry_name e) else strxcpy 12 (entry_name e))"

lemma info_name:
  assumes "info_of e fi"
  shows "cstr (fi_fname fi) = cstr (entry_name e)"
    "endsWith (fi_fname fi) x = endsWith (entry_name e) x"
    "(if t then strncpy12 (fi_fname fi) else strxcpy 12 (fi_fname fi)) = shown_name t e"
    "fi_fattrib fi = e ! DIR_Attr"
proof -
  show c: "cstr (fi_fname fi) = cstr (entry_name e)"
    using assms by (simp add: info_of_def name_of_def cstr_def)
  show "endsWith (fi_fname fi) x = endsWith (entry_name e) x" by (simp add: endsWith_def c)
  show "(if t then strncpy12 (fi_fname fi) else strxcpy 12 (fi_fname fi)) = shown_name t e"
    by (simp add: shown_name_def strncpy12_def strxcpy_take c)
  show "fi_fattrib fi = e ! DIR_Attr" using assms by (simp add: info_of_def)
qed

lemma put_name_files:
  "put_name dst bs (w\<lparr>tffs := s, g_dir := dj, g_finfo := fi\<rparr>) = (put_name dst bs w)\<lparr>tffs := s, g_dir := dj, g_finfo := fi\<rparr>"
  by (cases dst) (simp_all add: put_name_def)

section \<open>The next image\<close>

text \<open>
  \<open>browsing\<close>: the card is mounted and coherent, and the directory object of the firmware stands before
  the entries \<open>es\<close> of the table.
\<close>

context disk_device
begin

definition browsing :: "'d tff \<Rightarrow> dirtab \<Rightarrow> BYTE list list \<Rightarrow> 'd world \<Rightarrow> bool" where
  "browsing s tab es w \<longleftrightarrow>
     coh (tffs w) \<and> sv s (tffs w)
     \<and> listing (dsec (disk s)) (cur_fs s) tab (g_dir w) es
     \<and> validate io (dir_fs (g_dir w)) (dir_id (g_dir w)) (tffs w) = FR_OK
     \<and> length (fi_fname (g_finfo w)) = 13"

lemma browsing_readdir:
  assumes br: "browsing s tab es w" and vol: "vol_ok dcap (cur_fs s)"
    and tab: "tab_ok dcap (dsec (disk s)) (cur_fs s) tab" and rd: reads_ok
  shows "\<exists>dj fi t. f_readdir io (g_dir w) (g_finfo w) (tffs w) = Some (FR_OK, dj, fi, t)
    \<and> (case next_listed es of
         None \<Rightarrow> fi_fname fi ! 0 = 0
           \<and> (\<exists>es'. browsing s tab es' (w\<lparr>tffs := t, g_dir := dj, g_finfo := fi\<rparr>) \<and> next_listed es' = None)
       | Some (e, es') \<Rightarrow> info_of e fi \<and> fi_fname fi ! 0 \<noteq> 0
           \<and> browsing s tab es' (w\<lparr>tffs := t, g_dir := dj, g_finfo := fi\<rparr>))"
proof -
  have b: "coh (tffs w)" "sv s (tffs w)" "length (fi_fname (g_finfo w)) = 13"
    "validate io (dir_fs (g_dir w)) (dir_id (g_dir w)) (tffs w) = FR_OK"
    "listing (dsec (disk s)) (cur_fs s) tab (g_dir w) es" using br by (simp_all add: browsing_def)
  note t = tab_transported [OF b(2)] transported(1) [OF b(2) same_file_refl] same_vol_simps(4) [OF b(2)]
  have li: "listing sec (cur_fs (tffs w)) = listing sec (cur_fs s)" for sec
    by (intro ext) (simp add: listing_def t)
  have p: "vol_ok dcap (cur_fs (tffs w))" "tab_ok dcap (dsec (disk (tffs w))) (cur_fs (tffs w)) tab"
    "listing (dsec (disk (tffs w))) (cur_fs (tffs w)) tab (g_dir w) es" using vol tab b(5) by (simp_all add: t li)
  from f_readdir_next [OF b(1) p rd b(3,4)]
  obtain dj fi u where r: "f_readdir io (g_dir w) (g_finfo w) (tffs w) = Some (FR_OK, dj, fi, u)" "coh u" "sv (tffs w) u"
      "dir_fs dj = dir_fs (g_dir w)" "dir_id dj = dir_id (g_dir w)" "length (fi_fname fi) = 13"
    and c: "case next_listed es of
         None \<Rightarrow> fi_fname fi ! 0 = 0
           \<and> (\<exists>es'. listing (dsec (disk s)) (cur_fs s) tab dj es' \<and> next_listed es' = None)
       | Some (e, es') \<Rightarrow> info_of e fi \<and> fi_fname fi ! 0 \<noteq> 0 \<and> listing (dsec (disk s)) (cur_fs s) tab dj es'"
    unfolding li t by blast
  have "browsing s tab es' (w\<lparr>tffs := u, g_dir := dj, g_finfo := fi\<rparr>)"
    if "listing (dsec (disk s)) (cur_fs s) tab dj es'" for es'
    using that r b(4) same_vol_trans [OF b(2) r(3)] validate_same [OF r(3)] by (simp add: browsing_def)
  then show ?thesis using r(1) c by (fastforce split: option.splits)
qed

lemma nextfile_next:
  assumes "browsing s tab es w" and vol: "vol_ok dcap (cur_fs s)"
    and tab: "tab_ok dcap (dsec (disk s)) (cur_fs s) tab" and rd: reads_ok and b: "fio b = io"
  shows "\<exists>u dj fi. (if images es = [] then
        philes_nextfile b dst t w = Some (FR_NO_FILE, w\<lparr>tffs := u, g_dir := dj, g_finfo := fi\<rparr>)
        \<and> (\<exists>es'. browsing s tab es' (w\<lparr>tffs := u, g_dir := dj, g_finfo := fi\<rparr>) \<and> images es' = [])
      else philes_nextfile b dst t w
          = Some (FR_OK, (put_name dst (shown_name t (hd (images es))) w)\<lparr>tffs := u, g_dir := dj, g_finfo := fi\<rparr>)
        \<and> browsing s tab (after_image es) (w\<lparr>tffs := u, g_dir := dj, g_finfo := fi\<rparr>))"
  using assms(1)
proof (induction es arbitrary: w rule: measure_induct_rule [where f = length])
  case (less es)
  from browsing_readdir [OF less.prems vol tab rd] obtain dj fi u where
    r: "f_readdir io (g_dir w) (g_finfo w) (tffs w) = Some (FR_OK, dj, fi, u)"
    and c: "case next_listed es of
         None \<Rightarrow> fi_fname fi ! 0 = 0
           \<and> (\<exists>es'. browsing s tab es' (w\<lparr>tffs := u, g_dir := dj, g_finfo := fi\<rparr>) \<and> next_listed es' = None)
       | Some (e, es') \<Rightarrow> info_of e fi \<and> fi_fname fi ! 0 \<noteq> 0
           \<and> browsing s tab es' (w\<lparr>tffs := u, g_dir := dj, g_finfo := fi\<rparr>)" by blast
  let ?w = "w\<lparr>tffs := u, g_dir := dj, g_finfo := fi\<rparr>"
  have w: "(set_tff u w)\<lparr>g_dir := dj, g_finfo := fi\<rparr> = ?w" by (simp add: set_tff_def)
  show ?case
  proof (cases "next_listed es")
    case None
    then show ?thesis using c r next_listed_images [of es]
      by (subst (1 2) philes_nextfile.simps) (fastforce simp: b w Let_def next_listed_images)
  next
    case (Some x)
    obtain e es' where x: "x = (e, es')" by fastforce
    note n = next_listed_shorter [OF Some [unfolded x]]
    have e: "info_of e fi" "fi_fname fi ! 0 \<noteq> 0" "browsing s tab es' ?w" using c Some x by simp_all
    note i = info_name [OF e(1)]
    have im: "images es = (if is_image e then e # images es' else images es')"
      using next_listed_images [of es] Some x by simp
    have aft: "images es \<noteq> [] \<Longrightarrow> after_image es = (if is_image e then es' else after_image es')"
      using next_listed_after [OF Some [unfolded x]] .
    have isi: "is_image e \<longleftrightarrow> \<not> has (e ! DIR_Attr) AM_DIR \<and> endsWith (entry_name e) dot_FDD"
      using n by (simp add: is_image_def)
    have step: "philes_nextfile b dst t w = (if is_image e then Some (FR_OK, put_name dst (shown_name t e) ?w)
        else philes_nextfile b dst t ?w)"
      using r e(2) by (subst philes_nextfile.simps) (simp add: b w Let_def i isi)
    show ?thesis
    proof (cases "is_image e")
      case True
      then show ?thesis using step im aft e(3) by (fastforce simp: put_name_files)
    next
      case False
      from less.IH [OF _ e(3)] n obtain u' dj' fi' where
        "if images es' = [] then
        philes_nextfile b dst t ?w = Some (FR_NO_FILE, ?w\<lparr>tffs := u', g_dir := dj', g_finfo := fi'\<rparr>)
        \<and> (\<exists>es'. browsing s tab es' (?w\<lparr>tffs := u', g_dir := dj', g_finfo := fi'\<rparr>) \<and> images es' = [])
      else philes_nextfile b dst t ?w
          = Some (FR_OK, (put_name dst (shown_name t (hd (images es'))) ?w)\<lparr>tffs := u', g_dir := dj', g_finfo := fi'\<rparr>)
        \<and> browsing s tab (after_image es') (?w\<lparr>tffs := u', g_dir := dj', g_finfo := fi'\<rparr>)" by blast
      then show ?thesis using step im aft False
        by (intro exI [of _ u'] exI [of _ dj'] exI [of _ fi']) (auto simp: put_name_files)
    qed
  qed
qed

end

end
