(* ===== verification/FselProps.thy ===== *)
theory FselProps
  imports PhilesProps SlaveProps
begin

text \<open>
  The page of the file selector: \<open>draw_fsel\<close> opens the image directory, skips the images of the pages
  before and shows the next twelve.
\<close>

section \<open>Skipping and showing\<close>

context disk_device
begin

lemma skip_images:
  assumes "browsing s tab es w" and vol: "vol_ok dcap (cur_fs s)"
    and tab: "tab_ok dcap (dsec (disk s)) (cur_fs s) tab" and rd: reads_ok and b: "fio b = io"
    and "n \<le> length (images es)"
  shows "\<exists>u dj fi es'. fsel_skip b n w = Some (w\<lparr>tffs := u, g_dir := dj, g_finfo := fi\<rparr>)
    \<and> browsing s tab es' (w\<lparr>tffs := u, g_dir := dj, g_finfo := fi\<rparr>) \<and> images es' = drop n (images es)"
  using assms(1,6)
proof (induction n arbitrary: w es)
  case 0
  then show ?case by (intro exI [of _ "tffs w"] exI [of _ "g_dir w"] exI [of _ "g_finfo w"] exI [of _ es]) simp
next
  case (Suc n)
  then have ne: "images es \<noteq> []" by auto
  from nextfile_next [OF Suc.prems(1) vol tab rd b, of DNull False] ne obtain u dj fi where
    p: "philes_nextfile b DNull False w = Some (FR_OK, w\<lparr>tffs := u, g_dir := dj, g_finfo := fi\<rparr>)"
    and br: "browsing s tab (after_image es) (w\<lparr>tffs := u, g_dir := dj, g_finfo := fi\<rparr>)"
    by (auto simp: put_name_def)
  have im: "images (after_image es) = tl (images es)" by (rule images_after [OF ne])
  have "n \<le> length (images (after_image es))" using Suc.prems(2) by (simp add: im)
  from Suc.IH [OF br this, unfolded im] obtain u' dj' fi' es' where
    "fsel_skip b n (w\<lparr>tffs := u, g_dir := dj, g_finfo := fi\<rparr>) = Some (w\<lparr>tffs := u', g_dir := dj', g_finfo := fi'\<rparr>)"
    "browsing s tab es' (w\<lparr>tffs := u', g_dir := dj', g_finfo := fi'\<rparr>)" "images es' = drop n (tl (images es))"
    by fastforce
  then show ?case using p by (intro exI [of _ u'] exI [of _ dj'] exI [of _ fi'] exI [of _ es']) (simp add: drop_Suc)
qed

end

text \<open>The display memory with the given names in the given slots.\<close>

fun page_mem :: "nat list \<Rightarrow> BYTE list list \<Rightarrow> BYTE list \<Rightarrow> BYTE list" where
  "page_mem [] names mem = mem"
| "page_mem (i # is) names mem =
     page_mem is (tl names) (shown_in i (if names = [] then [] else hd names) mem)"

lemma shown_in_simps [simp]: "length (shown_in i cs mem) = length mem"
  by (simp add: shown_in_def)

lemma shown_elsewhere:
  assumes "i < 12" "length mem = 256" "length cs \<le> 12" "k < 12" "j < 12" "k \<noteq> i"
  shows "shown_in i cs mem ! (slot_start k + j) = mem ! (slot_start k + j)"
proof -
  have "slot_start k + j < slot_start i \<or> slot_start i + 12 \<le> slot_start k + j"
    using assms(4-6) unfolding slot_start_def by linarith
  then show ?thesis using assms(1-3) by (auto simp: shown_in_def poke_nth slot_start_def)
qed

lemma page_mem_nth:
  assumes "i \<le> 12" "length mem = 256" "\<forall>nm \<in> set names. length nm \<le> 12" "k < 12" "j < 12"
  shows "page_mem [i ..< 12] names mem ! (slot_start k + j)
    = (if k < i then mem ! (slot_start k + j)
       else if k - i < length names \<and> j < length (names ! (k - i)) then names ! (k - i) ! j else 32)"
  using assms(1-3)
proof (induction "12 - i" arbitrary: i names mem)
  case 0
  then show ?case using assms(4) by simp
next
  case (Suc n)
  then have i: "i < 12" by simp
  then have u: "[i ..< 12] = i # [i + 1 ..< 12]" by (simp add: upt_conv_Cons)
  let ?nm = "if names = [] then [] else hd names"
  have l: "length ?nm \<le> 12" using Suc.prems(3) by (cases names) auto
  have tl: "\<forall>nm \<in> set (tl names). length nm \<le> 12" using Suc.prems(3) by (cases names) auto
  have ih: "page_mem [i + 1 ..< 12] (tl names) (shown_in i ?nm mem) ! (slot_start k + j)
    = (if k < i + 1 then shown_in i ?nm mem ! (slot_start k + j)
       else if k - (i + 1) < length (tl names) \<and> j < length (tl names ! (k - (i + 1))) then tl names ! (k - (i + 1)) ! j else 32)"
    using Suc.hyps(1) [of "i + 1" "shown_in i ?nm mem" "tl names"] Suc.hyps(2) Suc.prems(2) tl i by simp
  consider "k < i" | "k = i" | "i < k" by linarith
  then show ?case
  proof cases
    case 1
    then show ?thesis using ih u shown_elsewhere [OF i Suc.prems(2) l assms(4,5)] by simp
  next
    case 2
    then show ?thesis using ih u shown_nth [OF i Suc.prems(2) l assms(5)] by (cases names) auto
  next
    case 3
    then have "k - i = Suc (k - (i + 1))" by simp
    then show ?thesis using ih u 3 by (cases names) auto
  qed
qed

context disk_device
begin

lemma show_images:
  assumes "browsing s tab es w" and vol: "vol_ok dcap (cur_fs s)"
    and tab: "tab_ok dcap (dsec (disk s)) (cur_fs s) tab" and rd: reads_ok and b: "fio b = io"
    and "\<forall>i \<in> set is. i < 12"
  shows "\<exists>w'. fsel_show b is w = Some w' \<and> dmem w' = page_mem is (map (shown_name False) (images es)) (dmem w)
    \<and> fsel_hasnextpage w' = (if length (images es) < length is then 0 else fsel_hasnextpage w)"
  using assms(1,6)
proof (induction "is" arbitrary: w es)
  case Nil
  then show ?case by simp
next
  case (Cons i "is")
  let ?p = "unat (fsel_index2offs (of_nat i))"
  let ?w = "w\<lparr>dmem := poke ?p (replicate 12 32) (dmem w)\<rparr>"
  have p: "?p = slot_start i" using Cons.prems(2) slot_offset by simp
  have br: "browsing s tab es ?w" using Cons.prems(1) by (simp add: browsing_def)
  note n = nextfile_next [OF br vol tab rd b, of "DDisplay ?p" False]
  show ?case
  proof (cases "images es = []")
    case True
    then obtain u dj fi es' where 1: "philes_nextfile b (DDisplay ?p) False ?w = Some (FR_NO_FILE, ?w\<lparr>tffs := u, g_dir := dj, g_finfo := fi\<rparr>)"
      "browsing s tab es' (?w\<lparr>tffs := u, g_dir := dj, g_finfo := fi\<rparr>)" "images es' = []" using n by auto
    let ?w2 = "?w\<lparr>tffs := u, g_dir := dj, g_finfo := fi, fsel_hasnextpage := 0\<rparr>"
    have "browsing s tab es' ?w2" using 1(2) by (simp add: browsing_def)
    from Cons.IH [OF this] Cons.prems(2) 1(3) obtain w' where
      "fsel_show b is ?w2 = Some w'" "dmem w' = page_mem is [] (dmem ?w2)" "fsel_hasnextpage w' = 0" by auto
    then show ?thesis using 1(1) True by (simp add: Let_def p shown_in_def)
  next
    case False
    then obtain im ims where im: "images es = im # ims" by (cases "images es") auto
    let ?nm = "shown_name False im"
    obtain u dj fi where 1: "philes_nextfile b (DDisplay ?p) False ?w
        = Some (FR_OK, (put_name (DDisplay ?p) ?nm ?w)\<lparr>tffs := u, g_dir := dj, g_finfo := fi\<rparr>)"
      "browsing s tab (after_image es) (?w\<lparr>tffs := u, g_dir := dj, g_finfo := fi\<rparr>)" using n im by auto
    have af: "images (after_image es) = ims" using images_after [OF False] im by simp
    let ?w2 = "(put_name (DDisplay ?p) ?nm ?w)\<lparr>tffs := u, g_dir := dj, g_finfo := fi\<rparr>"
    have "browsing s tab (after_image es) ?w2" using 1(2) by (simp add: browsing_def put_name_def)
    from Cons.IH [OF this] Cons.prems(2) obtain w' where
      "fsel_show b is ?w2 = Some w'" "dmem w' = page_mem is (map (shown_name False) ims) (dmem ?w2)"
      "fsel_hasnextpage w' = (if length ims < length is then 0 else fsel_hasnextpage ?w2)" by (auto simp: af)
    then show ?thesis using 1(1) by (simp add: Let_def p shown_in_def put_name_def im)
  qed
qed

end

section \<open>The image directory\<close>

definition image_dir :: "(BYTE list \<times> BYTE list) list" where
  "image_dir = [(bytes ''VECTOR06'', [])]"

lemma image_dir_path:
  assumes "take 10 path = bytes ''/VECTOR06/''"
  shows "strip_path (cstr (path[9 := 0])) = path_text image_dir" "(path[9 := 0])[9 := 0x2F] = path"
    "list_all legal_name image_dir" "image_dir \<noteq> []"
proof -
  obtain rest where p: "path = bytes ''/VECTOR06/'' @ rest" using assms by (metis append_take_drop_id)
  show "strip_path (cstr (path[9 := 0])) = path_text image_dir" "(path[9 := 0])[9 := 0x2F] = path"
    by (simp_all add: p bytes_def cstr_def strip_path_def c_hd_def c_tl_def image_dir_def name_text_def)
  show "list_all legal_name image_dir" "image_dir \<noteq> []"
    by (simp_all add: image_dir_def bytes_def legal_char_def)
qed

text \<open>The directory is on the card: \<open>image_table\<close> is its table.\<close>

definition image_table :: "(nat \<Rightarrow> BYTE list) \<Rightarrow> FATFS \<Rightarrow> nat \<Rightarrow> dirtab \<Rightarrow> bool" where
  "image_table sec fs cap tab \<longleftrightarrow>
     unat (fs_dirbase fs) < 65536 \<and> tables_ok cap sec fs RootTab 0 image_dir \<and> tab_ok cap sec fs tab
     \<and> (\<exists>t i. resolve sec fs RootTab 0 image_dir = (FR_OK, Some (t, i))
          \<and> has (tab_entry sec fs t i ! DIR_Attr) AM_DIR \<and> tab = sub_table sec fs (tab_entry sec fs t i))"

text \<open>The lookup depends on the geometry of the volume only, not on the window or the identifier.\<close>

definition same_shape :: "FATFS \<Rightarrow> FATFS \<Rightarrow> bool" where
  "same_shape fs fs' \<longleftrightarrow>
     fs_type fs' = fs_type fs \<and> fs_fatbase fs' = fs_fatbase fs \<and> fs_dirbase fs' = fs_dirbase fs
     \<and> fs_database fs' = fs_database fs \<and> fs_n_rootdir fs' = fs_n_rootdir fs
     \<and> fs_sects_clust fs' = fs_sects_clust fs \<and> fs_max_clust fs' = fs_max_clust fs"

lemma shape_tables:
  assumes "same_shape fs fs'"
  shows "tab_sectors fs' tab = tab_sectors fs tab" "tab_size fs' tab = tab_size fs tab"
    "tab_entry sec fs' tab i = tab_entry sec fs tab i" "tab_entries sec fs' tab = tab_entries sec fs tab"
    "chain_from sec fs' m c = chain_from sec fs m c" "sub_table sec fs' e = sub_table sec fs e"
    "chain_ok sec fs' cl = chain_ok sec fs cl" "chain_bytes sec fs' cl = chain_bytes sec fs cl"
    "tab_ok cap sec fs' tab = tab_ok cap sec fs tab"
proof -
  have s: "fs_type fs' = fs_type fs" "fs_fatbase fs' = fs_fatbase fs" "fs_dirbase fs' = fs_dirbase fs"
    "fs_database fs' = fs_database fs" "fs_n_rootdir fs' = fs_n_rootdir fs"
    "fs_sects_clust fs' = fs_sects_clust fs" "fs_max_clust fs' = fs_max_clust fs"
    using assms by (simp_all add: same_shape_def)
  have v: "valid_clust fs' c = valid_clust fs c" "fat_entry sec fs' c = fat_entry sec fs c" for c
    by (simp_all add: s valid_clust_def fat_entry_def fat_width_def)
  have c: "chain_sectors fs' cl = chain_sectors fs cl" for cl
    by (simp add: s chain_sectors_def first_sector_def)
  then show "chain_bytes sec fs' cl = chain_bytes sec fs cl" by (simp add: chain_bytes_def)
  show t: "tab_sectors fs' tab = tab_sectors fs tab" for tab by (cases tab) (simp_all add: c s)
  show z: "tab_size fs' tab = tab_size fs tab" "tab_entry sec fs' tab i = tab_entry sec fs tab i" for tab i
    by (simp_all add: tab_size_def tab_entry_def t)
  then show "tab_entries sec fs' tab = tab_entries sec fs tab" by (simp add: tab_entries_def)
  show f: "chain_from sec fs' m c = chain_from sec fs m c" for m c by (induction m arbitrary: c) (simp_all add: v)
  show "sub_table sec fs' e = sub_table sec fs e" unfolding sub_table_def f by (simp add: s)
  show k: "chain_ok sec fs' cl = chain_ok sec fs cl" for cl by (simp add: chain_ok_def v)
  show "tab_ok cap sec fs' tab = tab_ok cap sec fs tab" by (cases tab) (simp_all add: k v s)
qed

lemma shape_resolve:
  assumes "same_shape fs fs'"
  shows "resolve sec fs' tab st names = resolve sec fs tab st names"
  using assms
  by (induction sec fs tab st names rule: resolve.induct) (auto simp: shape_tables Let_def split: option.splits)

lemma shape_tables_ok:
  assumes "same_shape fs fs'"
  shows "tables_ok cap sec fs' tab st names = tables_ok cap sec fs tab st names"
  using assms
  by (induction cap sec fs tab st names rule: tables_ok.induct) (auto simp: shape_tables Let_def split: option.splits)

lemma shape_image_table:
  assumes "same_shape fs fs'"
  shows "image_table sec fs' cap tab = image_table sec fs cap tab"
proof -
  have "fs_dirbase fs' = fs_dirbase fs" using assms by (simp add: same_shape_def)
  then show ?thesis
    by (simp add: image_table_def shape_tables [OF assms] shape_resolve [OF assms] shape_tables_ok [OF assms])
qed

lemma same_vol_shape: "same_vol io dsec s s' \<Longrightarrow> same_shape (cur_fs s) (cur_fs s')"
  by (simp add: same_shape_def same_vol_simps)

lemmas image_table_same = shape_image_table [OF same_vol_shape]

context disk_device
begin

lemma opendir_images:
  assumes rd: reads_ok and ro: "FS_READONLY io" and b: "fio b = io" and m: "mounted io (tffs w)"
    and coh: "coh (tffs w)" and vol: "vol_ok dcap (cur_fs (tffs w))"
    and tab: "image_table (dsec (disk (tffs w))) (cur_fs (tffs w)) dcap tab"
    and path: "take 10 (ptrfile w) = bytes ''/VECTOR06/''" and len: "length (fi_fname (g_finfo w)) = 13"
  shows "\<exists>u dj. philes_opendir b w = Some (FR_OK, w\<lparr>tffs := u, g_dir := dj\<rparr>)
    \<and> browsing (tffs w) tab (drop 2 (tab_entries (dsec (disk (tffs w))) (cur_fs (tffs w)) tab)) (w\<lparr>tffs := u, g_dir := dj\<rparr>)"
proof -
  note p = image_dir_path [OF path]
  have t: "tables_ok dcap (dsec (disk (tffs w))) (cur_fs (tffs w)) RootTab 0 image_dir" "unat (fs_dirbase (cur_fs (tffs w))) < 65536"
    using tab by (simp_all add: image_table_def)
  from f_opendir_resolves [OF rd ro m coh vol t(1) p(4,3) _ t(2) p(1), of "replicate 12 0" "g_dir w"] tab
  obtain dj u where o: "f_opendir io (replicate 12 0) (g_dir w) (cstr ((ptrfile w)[9 := 0])) (tffs w) = Some (FR_OK, dj, u)"
    "coh u" "sv (tffs w) u" "validate io (dir_fs dj) (dir_id dj) u = FR_OK"
    "listing (dsec (disk (tffs w))) (cur_fs (tffs w)) tab dj (drop 2 (tab_entries (dsec (disk (tffs w))) (cur_fs (tffs w)) tab))"
    by (fastforce simp: image_table_def Let_def)
  have "philes_opendir b w = Some (FR_OK, w\<lparr>tffs := u, g_dir := dj\<rparr>)"
    using o(1) p(2) by (simp add: philes_opendir_def b Let_def set_tff_def)
  then show ?thesis using o len by (auto simp: browsing_def)
qed

end

section \<open>The page\<close>

context port_frame
begin

definition console :: "'d world \<Rightarrow> 'd world \<Rightarrow> bool" where
  "console w w' \<longleftrightarrow> (\<exists>os d. w' = w\<lparr>tffs := (tffs w)\<lparr>disk := d\<rparr>, outputs := os\<rparr> \<and> R (disk (tffs w)) d)"

lemma console_refl [simp]: "console w w"
  unfolding console_def by (rule exI [of _ "outputs w"], rule exI [of _ "disk (tffs w)"]) (simp add: R_refl)

lemma console_putc: "console w0 w \<Longrightarrow> console w0 (ser_putc b c w)"
  unfolding console_def by (fastforce simp: ser_putc_def out_port_def upd_disk_def intro: R_trans R_uart)

lemma console_puts: "console w0 w \<Longrightarrow> console w0 (ser_puts b s w)"
  by (induction s arbitrary: w) (auto intro: console_putc)

lemma console_nl: "console w0 w \<Longrightarrow> console w0 (ser_nl b w)"
  unfolding ser_nl_def by (intro console_putc)

end

context fdc_board
begin

lemma console_card:
  assumes "console w w'" "coh (tffs w)"
  shows "coh (tffs w')" "sv (tffs w) (tffs w')"
proof -
  obtain d os where d: "w' = w\<lparr>tffs := (tffs w)\<lparr>disk := d\<rparr>, outputs := os\<rparr>" "same_card (disk (tffs w)) d"
    using assms(1) by (auto simp: console_def)
  then have "quiet w (w\<lparr>tffs := (tffs w)\<lparr>disk := d\<rparr>\<rparr>)" by (auto simp: quiet_def written_def)
  then show "coh (tffs w')" "sv (tffs w) (tffs w')" using quiet_card [OF _ assms(2)] by (fastforce simp: d)+
qed

lemma console_browsing:
  assumes "console w w'" "browsing s tab es w"
  shows "browsing s tab es w'"
proof -
  have b: "coh (tffs w)" "sv s (tffs w)" using assms(2) by (simp_all add: browsing_def)
  note c = console_card [OF assms(1) b(1)]
  have "g_dir w' = g_dir w" "g_finfo w' = g_finfo w" using assms(1) by (auto simp: console_def)
  then show ?thesis using assms(2) c same_vol_trans [OF b(2) c(2)] validate_same [OF c(2)] by (simp add: browsing_def)
qed

lemma draw_fsel_page:
  assumes rd: reads_ok and ro: "FS_READONLY (fio b)" and m: "mounted (fio b) (tffs w)"
    and coh: "coh (tffs w)" and vol: "vol_ok dcap (cur_fs (tffs w))"
    and tab: "image_table (dsec (disk (tffs w))) (cur_fs (tffs w)) dcap tab"
    and path: "take 10 (ptrfile w) = bytes ''/VECTOR06/''" and len: "length (fi_fname (g_finfo w)) = 13"
    and mem: "length (dmem w) = 256"
    and ims: "ims = images (drop 2 (tab_entries (dsec (disk (tffs w))) (cur_fs (tffs w)) tab))"
    and page: "unat (fsel_pagestart w) \<le> length ims"
  shows "\<exists>w'. draw_fsel b w = Some w'
    \<and> dmem w' = page_mem [0 ..< 12] (map (shown_name False) (drop (unat (fsel_pagestart w)) ims)) (dmem w)
    \<and> fsel_hasnextpage w' = (if length ims - unat (fsel_pagestart w) < 12 then 0 else 1)"
proof -
  let ?w0 = "w\<lparr>fsel_hasnextpage := 1\<rparr>" and ?pg = "unat (fsel_pagestart w)"
  let ?w1 = "ser_puts b (bytes ''opendir'') ?w0"
  have c1: "console ?w0 ?w1" by (intro console_puts console_refl)
  then obtain d1 os1 where w1: "?w1 = ?w0\<lparr>tffs := (tffs w)\<lparr>disk := d1\<rparr>, outputs := os1\<rparr>"
    by (auto simp: console_def)
  have k1: "coh (tffs ?w1)" "sv (tffs w) (tffs ?w1)" using console_card [OF c1] coh by simp_all
  note t1 = tab_transported [OF k1(2)] transported(1) [OF k1(2) same_file_refl] same_vol_simps(4) [OF k1(2)]
    mounted_same [OF k1(2)] image_table_same [OF k1(2)]
  have p1: "mounted (fio b) (tffs ?w1)" "vol_ok dcap (cur_fs (tffs ?w1))"
    "image_table (dsec (disk (tffs ?w1))) (cur_fs (tffs ?w1)) dcap tab"
    "take 10 (ptrfile ?w1) = bytes ''/VECTOR06/''" "length (fi_fname (g_finfo ?w1)) = 13"
    using m vol tab path len by (simp_all add: t1) (simp_all add: w1)
  from opendir_images [OF rd ro refl p1(1) k1(1) p1(2-5)] obtain u2 dj2 where
    o: "philes_opendir b ?w1 = Some (FR_OK, ?w1\<lparr>tffs := u2, g_dir := dj2\<rparr>)"
    and br2: "browsing (tffs ?w1) tab (drop 2 (tab_entries (dsec (disk (tffs w))) (cur_fs (tffs w)) tab)) (?w1\<lparr>tffs := u2, g_dir := dj2\<rparr>)"
    unfolding t1 by blast
  let ?w2 = "?w1\<lparr>tffs := u2, g_dir := dj2\<rparr>"
  let ?w3 = "ser_nl b (ser_puts b (bytes '' ok'') ?w2)"
  have c3: "console ?w2 ?w3" by (intro console_nl console_puts console_refl)
  then obtain d3 os3 where w3: "?w3 = ?w2\<lparr>tffs := u2\<lparr>disk := d3\<rparr>, outputs := os3\<rparr>" by (auto simp: console_def)
  have tab': "tab_ok dcap (dsec (disk (tffs ?w1))) (cur_fs (tffs ?w1)) tab" using p1(3) by (simp add: image_table_def)
  note br3 = console_browsing [OF c3 br2]
  have pg: "?pg \<le> length (images (drop 2 (tab_entries (dsec (disk (tffs w))) (cur_fs (tffs w)) tab)))"
    using page ims by simp
  from skip_images [OF br3 p1(2) tab' rd refl pg] obtain u4 dj4 fi4 es4 where
    sk: "fsel_skip b ?pg ?w3 = Some (?w3\<lparr>tffs := u4, g_dir := dj4, g_finfo := fi4\<rparr>)"
    and br4: "browsing (tffs ?w1) tab es4 (?w3\<lparr>tffs := u4, g_dir := dj4, g_finfo := fi4\<rparr>)"
    and es4: "images es4 = drop ?pg ims" by (auto simp: ims)
  let ?w4 = "?w3\<lparr>tffs := u4, g_dir := dj4, g_finfo := fi4\<rparr>"
  have "\<forall>i \<in> set [0 ..< 12]. i < (12 :: nat)" by simp
  from show_images [OF br4 p1(2) tab' rd refl this] obtain w' where
    sh: "fsel_show b [0 ..< 12] ?w4 = Some w'"
    and d: "dmem w' = page_mem [0 ..< 12] (map (shown_name False) (drop ?pg ims)) (dmem ?w4)"
    and h: "fsel_hasnextpage w' = (if length (drop ?pg ims) < length [0 ..< 12 :: nat] then 0 else fsel_hasnextpage ?w4)"
    unfolding es4 by blast
  have fw: "fsel_pagestart ?w2 = fsel_pagestart w" "dmem ?w4 = dmem w" "fsel_hasnextpage ?w4 = 1"
    unfolding w3 by (simp_all add: w1)
  have "draw_fsel b w = Some w'"
    unfolding draw_fsel_def Let_def o using fw(1) sk sh by (simp add: FSEL_PAGESIZE_def)
  then show ?thesis using d h fw by (simp add: length_drop)
qed

end

end
