(* ===== verification/BrowseTheorems.thy ===== *)
theory BrowseTheorems
  imports FselProps SlaveTheorems
begin

text \<open>
  Opening files and browsing the image directory: the correctness theorems, each with an application to
  the volume of theory \<open>Ram_Volume\<close>, or to a variant of it with an image directory.
\<close>

section \<open>Opening a file\<close>

text \<open>C21: In the shipped build \<open>f_open\<close> finds exactly the file that the path names.  On a mounted volume it
  terminates and, for a path of legal names, reports the abstract lookup's result: a missing file or
  path and a directory in the file's place are errors that leave the handle closed; otherwise it
  returns \<open>FR_OK\<close> and a handle that passes \<open>validate\<close>, with the first cluster and the size of the
  directory entry and the file pointer at 0.\<close>

theorem f_open_finds_file:
  assumes "reliable_device io dinv dsec dcap" and "FS_READONLY io" and "mounted io s"
    and "coherent dinv dsec dcap s" and "vol_ok dcap (cur_fs s)"
    and "tables_ok dcap (dsec (disk s)) (cur_fs s) RootTab 0 names"
    and "names \<noteq> []" and "list_all legal_name names" and "length fn = 12"
    and "unat (fs_dirbase (cur_fs s)) < 65536"
    and "strip_path path = path_text names" and "has mode FA_READ"
  shows "\<exists>res fp' s'. f_open io dj fn fp path mode s = Some (res, fp', s')
    \<and> coherent dinv dsec dcap s' \<and> same_vol io dsec s s'
    \<and> (case resolve (dsec (disk s)) (cur_fs s) RootTab 0 names of
         (r, None) \<Rightarrow> res = r \<and> res \<noteq> FR_OK \<and> fp_fs fp' = 0
       | (r, Some (t, i)) \<Rightarrow>
           let e = tab_entry (dsec (disk s)) (cur_fs s) t i in
           if has (e ! DIR_Attr) AM_DIR then res = FR_NO_FILE \<and> fp_fs fp' = 0
           else res = FR_OK \<and> opened io e fp' s')"
  by (rule disk_device.f_open_resolves [OF reliable_device.axioms(1) [OF assms(1)]
        reliable_device.reliable [OF assms(1)] assms(2-)])

definition demo_names :: "(BYTE list \<times> BYTE list) list" where
  "demo_names = [([0x64], []), ([0x62], [0x66, 0x64, 0x64])]"

lemma demo_names_ok: "demo_names \<noteq> []" "list_all legal_name demo_names"
  "strip_path (0x2F # path_text demo_names) = path_text demo_names"
  by (simp_all add: demo_names_def legal_char_def strip_path_def c_hd_def c_tl_def)

lemma demo_mounted: "mounted ram_io demo_state"
  by (simp add: mounted_def ram_io_def has_def demo_fs_def tff_consts)

lemma demo_dirbase: "unat (fs_dirbase (cur_fs demo_state)) < 65536"
  by (simp add: demo_fs_def)

lemma demo_lookup: "resolve demo_sec demo_fs RootTab 0 demo_names = (FR_OK, Some (ChainTab [4], 2))"
  "tables_ok ram_cap demo_sec demo_fs RootTab 0 demo_names"
  unfolding demo_names_def by (rule demo_resolve, rule demo_tables)

lemma demo_entry_2: "tab_entry demo_sec demo_fs (ChainTab [4]) 2 ! DIR_Attr = 0x20"
  "entry_size (tab_entry demo_sec demo_fs (ChainTab [4]) 2) = 600"
  "LD_WORD (tab_entry demo_sec demo_fs (ChainTab [4]) 2) DIR_FstClusLO = 5"
  by code_simp+

theorem f_open_finds_file_witness:
  "\<exists>fp' s'. f_open ram_io (g_dir demo_world) (replicate 12 0) demo_file (0x2F # path_text demo_names) FA_READ demo_state
     = Some (FR_OK, fp', s') \<and> fp_org_clust fp' = 5 \<and> unat (fp_fsize fp') = 600"
proof -
  have ro: "FS_READONLY ram_io" by (simp add: ram_io_def)
  have v: "vol_ok ram_cap (cur_fs demo_state)" using demo_vol by simp
  have t: "tables_ok ram_cap (disk demo_state) (cur_fs demo_state) RootTab 0 demo_names" using demo_lookup by simp
  have m: "has FA_READ FA_READ" by (simp add: has_def FA_READ_def)
  have d: "\<not> has 0x20 AM_DIR" by (simp add: has_def tff_consts)
  from f_open_finds_file [OF ram.reliable_device_axioms ro demo_mounted demo_coherent v t demo_names_ok(1,2) _ demo_dirbase demo_names_ok(3) m,
      of "replicate 12 0" "g_dir demo_world" demo_file]
  show ?thesis by (auto simp: demo_lookup demo_entry_2 d Let_def opened_def)
qed

text \<open>C20: Opening a file by its path and reading it delivers the bytes the medium records for that path.
  If the abstract lookup of the path finds a file whose cluster chain on the medium is well-formed and
  holds its size, \<open>f_open\<close> succeeds, and \<open>f_read\<close> through the new handle returns \<open>FR_OK\<close> with the first
  bytes of the chain's contents, as many as asked for and as the directory entry's size allows.\<close>

theorem open_then_read:
  assumes "reliable_device io dinv dsec dcap" and "FS_READONLY io" and "mounted io s"
    and "coherent dinv dsec dcap s" and "vol_ok dcap (cur_fs s)"
    and "tables_ok dcap (dsec (disk s)) (cur_fs s) RootTab 0 names"
    and "names \<noteq> []" and "list_all legal_name names" and "length fn = 12"
    and "unat (fs_dirbase (cur_fs s)) < 65536"
    and "strip_path path = path_text names" and "has mode FA_READ"
    and "resolve (dsec (disk s)) (cur_fs s) RootTab 0 names = (FR_OK, Some (t, i))"
    and "e = tab_entry (dsec (disk s)) (cur_fs s) t i" and "\<not> has (e ! DIR_Attr) AM_DIR"
    and "entry_chain (dsec (disk s)) (cur_fs s) e cl"
    and "n = min (unat btr) (entry_size e)" and "n \<le> length buf"
  shows "\<exists>fp' s' fp'' br s''. f_open io dj fn fp path mode s = Some (FR_OK, fp', s')
    \<and> f_read io fp' buf btr s'
        = Some (FR_OK, fp'', blit buf 0 (take n (entry_bytes (dsec (disk s)) (cur_fs s) e cl)), br, s'')
    \<and> unat br = n"
proof -
  have d: "disk_device io dinv dsec dcap" using assms(1) by (rule reliable_device.axioms)
  from f_open_finds_file [OF assms(1-12), of dj fp] assms(13-15) obtain fp' s' where
    o: "f_open io dj fn fp path mode s = Some (FR_OK, fp', s')" and s': "coherent dinv dsec dcap s'" "same_vol io dsec s s'"
    and op: "opened io e fp' s'" by (auto simp: Let_def)
  note t = disk_device.transported [OF d s'(2) same_file_refl]
  have v: "vol_ok dcap (cur_fs s')" using assms(5) t by simp
  have ch: "entry_chain (dsec (disk s')) (cur_fs s') e cl"
    and eb: "entry_bytes (dsec (disk s')) (cur_fs s') e cl = entry_bytes (dsec (disk s)) (cur_fs s) e cl"
    using assms(16) by (simp_all add: entry_chain_def entry_bytes_def t vol_funs_same [OF s'(2)] same_vol_simps [OF s'(2)])
  from disk_device.open_read_content [OF d reliable_device.reliable [OF assms(1)] op s'(1) v ch assms(17,18)]
  show ?thesis using o unfolding eb by blast
qed

theorem open_then_read_witness:
  "\<exists>fp' s' fp'' br s''. f_open ram_io (g_dir demo_world) (replicate 12 0) demo_file (0x2F # path_text demo_names) FA_READ demo_state = Some (FR_OK, fp', s')
    \<and> f_read ram_io fp' (replicate 600 0) 1000 s' = Some (FR_OK, fp'', replicate 512 6 @ replicate 88 7, br, s'') \<and> unat br = 600"
proof -
  let ?e = "tab_entry demo_sec demo_fs (ChainTab [4]) 2"
  have ro: "FS_READONLY ram_io" by (simp add: ram_io_def)
  have v: "vol_ok ram_cap (cur_fs demo_state)" using demo_vol by simp
  have t: "tables_ok ram_cap (disk demo_state) (cur_fs demo_state) RootTab 0 demo_names" using demo_lookup by simp
  have m: "has FA_READ FA_READ" by (simp add: has_def FA_READ_def)
  have d: "\<not> has (?e ! DIR_Attr) AM_DIR" unfolding demo_entry_2 by (simp add: has_def tff_consts)
  have r: "resolve (disk demo_state) (cur_fs demo_state) RootTab 0 demo_names = (FR_OK, Some (ChainTab [4], 2))"
    using demo_lookup by simp
  have "chain_ok demo_sec demo_fs [5, 6]"
    by (simp add: chain_ok_def demo_links) (simp add: valid_clust_def demo_fs_def)
  then have ch: "entry_chain demo_sec demo_fs ?e [5, 6]"
    by (simp add: entry_chain_def demo_entry_2) (simp add: demo_fs_def)
  have n: "600 = min (unat (1000 :: WORD)) (entry_size ?e)" by (simp add: demo_entry_2)
  have b: "take 600 (entry_bytes demo_sec demo_fs ?e [5, 6]) = replicate 512 6 @ replicate 88 7"
  proof -
    have "chain_sectors demo_fs [5, 6] = [6, 7]" by code_simp
    then show ?thesis by (simp add: entry_bytes_def demo_entry_2 chain_bytes_def demo_sec.simps take_replicate)
  qed
  from open_then_read [OF ram.reliable_device_axioms ro demo_mounted demo_coherent v t demo_names_ok(1,2) _ demo_dirbase demo_names_ok(3) m
      r _ d _ n, of "replicate 12 0" "[5, 6]" "replicate 600 0" "g_dir demo_world" demo_file]
  show ?thesis using ch b by (simp add: blit_def)
qed

section \<open>Browsing the images\<close>

text \<open>C23: \<open>philes_nextfile\<close> walks through the disk images of a directory.  With the directory object of the
  firmware standing before the entries \<open>es\<close> of a well-formed table, a call terminates: if no image (a
  listed entry that is not a directory and whose name ends in \<open>.FDD\<close>) is left before the end of the
  table it returns \<open>FR_NO_FILE\<close> and stores nothing; otherwise it returns \<open>FR_OK\<close>, stores the name of the
  first one at the destination, and the object then stands behind that entry, so that the images are
  delivered in the order of the directory, none skipped and none twice.\<close>

theorem nextfile_in_order:
  assumes "reliable_device io dinv dsec dcap" and "fio b = io"
    and "disk_device.browsing io dinv dsec dcap s tab es w" and "vol_ok dcap (cur_fs s)"
    and "tab_ok dcap (dsec (disk s)) (cur_fs s) tab"
  shows "\<exists>r w'. philes_nextfile b dst t w = Some (r, w')
    \<and> (case images es of
         [] \<Rightarrow> r = FR_NO_FILE \<and> dmem w' = dmem w \<and> ptrfile w' = ptrfile w
           \<and> (\<exists>es'. disk_device.browsing io dinv dsec dcap s tab es' w' \<and> images es' = [])
       | e # es' \<Rightarrow> r = FR_OK \<and> dmem w' = dmem (put_name dst (shown_name t e) w)
           \<and> ptrfile w' = ptrfile (put_name dst (shown_name t e) w)
           \<and> disk_device.browsing io dinv dsec dcap s tab (after_image es) w'
           \<and> images (after_image es) = es')"
proof -
  have d: "disk_device io dinv dsec dcap" using assms(1) by (rule reliable_device.axioms)
  have put: "disk_device.browsing io dinv dsec dcap s tab es' ((put_name dst nm w)\<lparr>tffs := u, g_dir := dj, g_finfo := fi\<rparr>)"
    if "disk_device.browsing io dinv dsec dcap s tab es' (w\<lparr>tffs := u, g_dir := dj, g_finfo := fi\<rparr>)" for es' u dj fi nm
    using that by (simp add: disk_device.browsing_def [OF d])
  note n = disk_device.nextfile_next [OF d assms(3-5) reliable_device.reliable [OF assms(1)] assms(2), of dst t]
  show ?thesis
  proof (cases "images es")
    case Nil
    then show ?thesis using n by auto
  next
    case (Cons e es')
    then show ?thesis using n put images_after [of es] by fastforce
  qed
qed

text \<open>A volume with an image directory: the directory of \<open>demo_sec\<close> under the name \<open>VECTOR06\<close>.\<close>

definition vec_root :: "BYTE list" where
  "vec_root = demo_entry (name_83 (bytes ''VECTOR06'') []) 0x10 4 0 0 @ replicate 480 0"

definition vec_sec :: "nat \<Rightarrow> BYTE list" where
  "vec_sec m = (if m = 2 then vec_root else demo_sec m)"

definition vec_state :: "(nat \<Rightarrow> BYTE list) tff" where
  "vec_state = demo_state\<lparr>disk := vec_sec\<rparr>"

definition vec_world :: "(nat \<Rightarrow> BYTE list) world" where
  "vec_world = demo_world\<lparr>tffs := vec_state\<rparr>"

lemma vec_ok: "ram_ok vec_sec"
  using demo_ok by (simp add: ram_ok_def vec_sec_def vec_root_def demo_entry_def name_83_def bytes_def)

lemma vec_coherent: "coherent ram_ok (\<lambda>d. d) ram_cap vec_state"
  using vec_ok demo_coherent by (simp add: coherent_def vec_state_def demo_fs_def zero_FATFS_def)

lemma vec_simps [simp]: "disk vec_state = vec_sec" "fsobj vec_state 1 = demo_fs" "FatFs vec_state = 1"
  "tffs vec_world = vec_state"
  by (simp_all add: vec_state_def vec_world_def)

lemma vec_sub: "sub_table vec_sec demo_fs (tab_entry vec_sec demo_fs RootTab 0) = ChainTab [4]"
  by code_simp

lemma vec_lookup: "resolve vec_sec demo_fs RootTab 0 image_dir = (FR_OK, Some (RootTab, 0))"
  by code_simp

lemma vec_chain: "tab_ok ram_cap vec_sec demo_fs (ChainTab [4])"
proof -
  have "fat_entry vec_sec demo_fs 4 = 0xFFF" by code_simp
  then show ?thesis
    by (simp add: chain_ok_def) (auto simp: valid_clust_def demo_fs_def zero_FATFS_def intro!: exI [of _ 0])
qed

lemma vec_table: "image_table vec_sec demo_fs ram_cap (ChainTab [4])"
proof -
  have r: "tab_ok ram_cap vec_sec demo_fs RootTab" by (simp add: demo_fs_def zero_FATFS_def ram_cap_def)
  have s: "scan_entries (drop 0 (tab_entries vec_sec demo_fs RootTab)) (name_83 (bytes ''VECTOR06'') []) = Some 0"
    by code_simp
  have t: "tables_ok ram_cap vec_sec demo_fs RootTab 0 image_dir"
    using r s by (simp add: image_dir_def del: tab_ok.simps drop_0)
  have a: "has (tab_entry vec_sec demo_fs RootTab 0 ! DIR_Attr) AM_DIR" by code_simp
  show ?thesis using t a vec_chain vec_lookup vec_sub
    by (auto simp: image_table_def demo_fs_def)
qed

lemma vec_images: "images (drop 2 (tab_entries vec_sec demo_fs (ChainTab [4])))
    = [tab_entry vec_sec demo_fs (ChainTab [4]) 2]"
  by code_simp

lemma vec_name: "shown_name False (tab_entry vec_sec demo_fs (ChainTab [4]) 2) = bytes ''B.FDD''"
  by code_simp

definition vec_browse :: "(nat \<Rightarrow> BYTE list) world" where
  "vec_browse = vec_world\<lparr>g_dir := \<lparr>dir_id = 1, dir_index = 2, dir_fs = 1, dir_sclust = 4, dir_clust = 4, dir_sect = 5\<rparr>\<rparr>"

lemma vec_browsing:
  "disk_device.browsing ram_io ram_ok (\<lambda>d. d) ram_cap vec_state (ChainTab [4]) (drop 2 (tab_entries vec_sec demo_fs (ChainTab [4]))) vec_browse"
proof -
  have "dir_at demo_fs (ChainTab [4]) (g_dir vec_browse) 2"
    by (simp add: dir_at_def vec_browse_def tab_size_def chain_sectors_def first_sector_def) (simp add: demo_fs_def zero_FATFS_def)
  then have l: "listing vec_sec demo_fs (ChainTab [4]) (g_dir vec_browse) (drop 2 (tab_entries vec_sec demo_fs (ChainTab [4])))"
    unfolding listing_def by blast
  have t: "tffs vec_browse = vec_state" "dir_fs (g_dir vec_browse) = 1" "dir_id (g_dir vec_browse) = 1"
    "length (fi_fname (g_finfo vec_browse)) = 13"
    by (simp_all add: vec_browse_def vec_world_def demo_world_def)
  have v: "validate ram_io 1 1 vec_state = FR_OK"
    by (simp add: validate_def ram_io_def has_def vec_state_def) (simp add: demo_fs_def)
  show ?thesis unfolding disk_device.browsing_def [OF ram.disk_device_axioms] using vec_coherent l v by (simp add: t)
qed

theorem nextfile_in_order_witness:
  "\<exists>w'. philes_nextfile (ram_board 0 0) (DPtrfile 10) True vec_browse = Some (FR_OK, w')
     \<and> take 16 (ptrfile w') = bytes ''/VECTOR06/B.FDD'' @ [0]"
proof -
  have io: "fio (ram_board 0 0) = ram_io" by (simp add: ram_board_def)
  have v: "vol_ok ram_cap (cur_fs vec_state)" using demo_vol by simp
  have t: "tab_ok ram_cap (disk vec_state) (cur_fs vec_state) (ChainTab [4])" using vec_chain by simp
  have nm: "shown_name True (tab_entry vec_sec demo_fs (ChainTab [4]) 2) = bytes ''B.FDD'' @ replicate 7 0" by code_simp
  have p: "ptrfile vec_browse = ptrfile_init" by (simp add: vec_browse_def vec_world_def demo_world_def)
  from nextfile_in_order [OF ram.reliable_device_axioms io vec_browsing v t, of "DPtrfile 10" True]
  obtain w' where "philes_nextfile (ram_board 0 0) (DPtrfile 10) True vec_browse = Some (FR_OK, w')"
    "ptrfile w' = poke 10 (bytes ''B.FDD'' @ replicate 7 0) ptrfile_init"
    by (auto simp: vec_images nm put_name_def p)
  moreover have "take 16 (poke 10 (bytes ''B.FDD'' @ replicate 7 0) ptrfile_init) = bytes ''/VECTOR06/B.FDD'' @ [0]"
    by code_simp
  ultimately show ?thesis by auto
qed

text \<open>C22: The file selector shows the disk images of the card's image directory.  On a board whose ports and
  transmitter leave the card alone, with a mounted volume that has the directory \<open>/VECTOR06\<close>,
  \<open>draw_fsel\<close> terminates, and slot \<open>k\<close> of the page then shows the name of image number
  \<open>fsel_pagestart + k\<close> of the directory padded with spaces, or only spaces if there are fewer images.  The
  next-page flag is set exactly if all twelve slots are filled, that is, also if the page shows the last
  images and there are no more.\<close>

theorem selector_shows_images:
  assumes "fdc_board b dinv dsec dcap" and "reliable_device (fio b) dinv dsec dcap" and "FS_READONLY (fio b)"
    and "mounted (fio b) (tffs w)" and "coherent dinv dsec dcap (tffs w)" and "vol_ok dcap (cur_fs (tffs w))"
    and "image_table (dsec (disk (tffs w))) (cur_fs (tffs w)) dcap tab"
    and "take 10 (ptrfile w) = bytes ''/VECTOR06/''" and "length (fi_fname (g_finfo w)) = 13"
    and "length (dmem w) = DISPLAY_RAMSIZE"
    and "ims = images (drop 2 (tab_entries (dsec (disk (tffs w))) (cur_fs (tffs w)) tab))"
    and "unat (fsel_pagestart w) \<le> length ims"
  shows "\<exists>w'. draw_fsel b w = Some w'
    \<and> (\<forall>k < 12. \<forall>j < 12. dmem w' ! (slot_start k + j) =
         (let i = unat (fsel_pagestart w) + k in
          if i < length ims \<and> j < length (shown_name False (ims ! i)) then shown_name False (ims ! i) ! j else 0x20))
    \<and> (fsel_hasnextpage w' \<noteq> 0 \<longleftrightarrow> unat (fsel_pagestart w) + 12 \<le> length ims)"
proof -
  let ?names = "map (shown_name False) (drop (unat (fsel_pagestart w)) ims)"
  have mem: "length (dmem w) = 256" using assms(10) by (simp add: DISPLAY_RAMSIZE_def)
  have l: "\<forall>nm \<in> set ?names. length nm \<le> 12" by (auto simp: shown_name_def strxcpy_take)
  from fdc_board.draw_fsel_page [OF assms(1) reliable_device.reliable [OF assms(2)] assms(3-9) mem assms(11,12)]
  obtain w' where w': "draw_fsel b w = Some w'" "dmem w' = page_mem [0 ..< 12] ?names (dmem w)"
    "fsel_hasnextpage w' = (if length ims - unat (fsel_pagestart w) < 12 then 0 else 1)" by blast
  have "dmem w' ! (slot_start k + j) =
      (let i = unat (fsel_pagestart w) + k in
       if i < length ims \<and> j < length (shown_name False (ims ! i)) then shown_name False (ims ! i) ! j else 0x20)"
    if "k < 12" "j < 12" for k j
    unfolding w'(2) page_mem_nth [OF _ mem l that, of 0, simplified] by (auto simp: Let_def)
  then show ?thesis using w'(1,3) by auto
qed

theorem selector_shows_images_witness:
  "\<exists>w'. draw_fsel (ram_board 0 0) vec_world = Some w'
     \<and> map (\<lambda>j. dmem w' ! (33 + j)) [0 ..< 6] = bytes ''B.FDD '' \<and> dmem w' ! 49 = 0x20 \<and> fsel_hasnextpage w' = 0"
proof -
  have io: "fio (ram_board 0 0) = ram_io" by (simp add: ram_board_def)
  have rel: "reliable_device (fio (ram_board 0 0)) ram_ok (\<lambda>d. d) ram_cap" using ram.reliable_device_axioms by (simp add: io)
  have ro: "FS_READONLY (fio (ram_board 0 0))" by (simp add: io) (simp add: ram_io_def)
  have m: "mounted (fio (ram_board 0 0)) (tffs vec_world)"
    by (simp add: io mounted_def) (simp add: ram_io_def has_def demo_fs_def tff_consts)
  have v: "vol_ok ram_cap (cur_fs (tffs vec_world))" using demo_vol by simp
  have c: "coherent ram_ok (\<lambda>d. d) ram_cap (tffs vec_world)" using vec_coherent by simp
  have t: "image_table (disk (tffs vec_world)) (cur_fs (tffs vec_world)) ram_cap (ChainTab [4])" using vec_table by simp
  have f: "take 10 (ptrfile vec_world) = bytes ''/VECTOR06/''" "length (fi_fname (g_finfo vec_world)) = 13"
    "length (dmem vec_world) = DISPLAY_RAMSIZE" "unat (fsel_pagestart vec_world) = 0"
    by (simp_all add: vec_world_def demo_world_def ptrfile_init_def bytes_def DISPLAY_RAMSIZE_def)
  have i: "[tab_entry vec_sec demo_fs (ChainTab [4]) 2]
      = images (drop 2 (tab_entries (disk (tffs vec_world)) (cur_fs (tffs vec_world)) (ChainTab [4])))"
    using vec_images by simp
  from selector_shows_images [OF ram_fdc.fdc_board_axioms rel ro m c v t f(1-3) i] f(4)
  obtain w' where w': "draw_fsel (ram_board 0 0) vec_world = Some w'" "fsel_hasnextpage w' = 0"
    and d: "\<forall>k < 12. \<forall>j < 12. dmem w' ! (slot_start k + j) =
         (if k = 0 \<and> j < length (shown_name False ([tab_entry vec_sec demo_fs (ChainTab [4]) 2] ! k))
          then shown_name False ([tab_entry vec_sec demo_fs (ChainTab [4]) 2] ! k) ! j else 0x20)"
    by (auto simp: Let_def)
  have d: "dmem w' ! (slot_start k + j) = (if k = 0 \<and> j < length (bytes ''B.FDD'') then bytes ''B.FDD'' ! j else 0x20)"
    if "k < 12" "j < 12" for k j
    using d that by (cases "k = 0") (simp_all add: vec_name)
  have v: "dmem w' ! (33 + j) = (if j < 5 then bytes ''B.FDD'' ! j else 0x20)" if "j < 12" for j
    using d [of 0 j] that by (simp add: slot_start_def bytes_def)
  have "dmem w' ! 49 = 0x20" using d [of 1 0] by (simp add: slot_start_def)
  then show ?thesis using w' v [of 0] v [of 1] v [of 2] v [of 3] v [of 4] v [of 5]
    by (simp add: upt_rec bytes_def)
qed

end
