(* ===== verification/BootProps.thy ===== *)
theory BootProps
  imports FselProps TffMountProps
begin

text \<open>
  From an inserted card to the first request: one pass of the eternal loop mounts the card, opens the
  image directory, takes the first image and opens it, so that \<open>slave\<close> starts with an open image.
\<close>

section \<open>The path of the image\<close>

lemma poke_blit:
  assumes "i + length vs \<le> length mem"
  shows "poke i vs mem = blit mem i vs"
proof (rule nth_equalityI)
  show "length (poke i vs mem) = length (blit mem i vs)" using assms by simp
next
  fix j assume "j < length (poke i vs mem)"
  then have j: "j < length mem" by simp
  show "poke i vs mem ! j = blit mem i vs ! j"
    using assms j nth_blit_same [OF assms, of j] nth_blit_other [OF assms j] by (auto simp: poke_nth)
qed

lemma takeWhile_zeros: "takeWhile (\<lambda>c. c \<noteq> 0) (replicate n 0 @ 0 # xs) = []"
  by (cases n) simp_all

lemma cstr_nonzero: "\<forall>c \<in> set (cstr bs). c \<noteq> 0"
  by (auto simp: cstr_def dest: set_takeWhileD)

lemma image_path:
  assumes "take 10 p = bytes ''/VECTOR06/''" "length p = 26" "p ! 22 = 0" "length n \<le> 12"
  shows "cstr (poke 10 (strncpy12 n) p) = bytes ''/VECTOR06/'' @ cstr n"
    "take 10 (poke 10 (strncpy12 n) p) = bytes ''/VECTOR06/''"
proof -
  have l: "length (cstr n) \<le> 12" using length_takeWhile_le [of "\<lambda>c. c \<noteq> 0" n] assms(4) by (simp add: cstr_def)
  have s: "strncpy12 n = cstr n @ replicate (12 - length (cstr n)) 0" "length (strncpy12 n) = 12"
    using l by (simp_all add: strncpy12_def)
  have d: "drop 22 p = 0 # drop 23 p" using assms(2,3) Cons_nth_drop_Suc [of 22 p] by simp
  have e: "poke 10 (strncpy12 n) p = bytes ''/VECTOR06/'' @ cstr n @ replicate (12 - length (cstr n)) 0 @ 0 # drop 23 p"
    using poke_blit [of 10 "strncpy12 n" p] assms(1,2) s(2) d by (simp add: blit_def) (simp add: s(1))
  show "take 10 (poke 10 (strncpy12 n) p) = bytes ''/VECTOR06/''" unfolding e by (simp add: bytes_def)
  have "\<forall>c \<in> set (bytes ''/VECTOR06/'' @ cstr n). c \<noteq> 0" using cstr_nonzero [of n] by (auto simp: bytes_def)
  then have "cstr ((bytes ''/VECTOR06/'' @ cstr n) @ xs) = (bytes ''/VECTOR06/'' @ cstr n) @ cstr xs" for xs
    unfolding cstr_def by (intro takeWhile_append2) blast
  from this [of "replicate (12 - length (cstr n)) 0 @ 0 # drop 23 p"]
  show "cstr (poke 10 (strncpy12 n) p) = bytes ''/VECTOR06/'' @ cstr n"
    unfolding e by (simp add: cstr_def takeWhile_zeros)
qed

lemma image_path_names:
  assumes "cstr n = name_text (fst nm) (snd nm)"
  shows "strip_path (bytes ''/VECTOR06/'' @ cstr n) = path_text (image_dir @ [nm])"
  by (cases nm) (simp add: assms image_dir_def bytes_def strip_path_def c_hd_def c_tl_def name_text_def)

section \<open>The first image of a card\<close>

text \<open>
  \<open>e\<close> is the entry of the first image in the directory of images, and looking its name up leads to it.
\<close>

definition first_image :: "(nat \<Rightarrow> BYTE list) \<Rightarrow> FATFS \<Rightarrow> nat \<Rightarrow> BYTE list \<Rightarrow> bool" where
  "first_image sec fs cap e \<longleftrightarrow>
     (\<exists>tab nm t i. image_table sec fs cap tab
        \<and> images (drop 2 (tab_entries sec fs tab)) \<noteq> [] \<and> hd (images (drop 2 (tab_entries sec fs tab))) = e
        \<and> legal_name nm \<and> cstr (entry_name e) = name_text (fst nm) (snd nm)
        \<and> tables_ok cap sec fs RootTab 0 (image_dir @ [nm])
        \<and> resolve sec fs RootTab 0 (image_dir @ [nm]) = (FR_OK, Some (t, i)) \<and> tab_entry sec fs t i = e)"

lemma shape_first_image:
  assumes "same_shape fs fs'"
  shows "first_image sec fs' cap e = first_image sec fs cap e"
  by (simp add: first_image_def shape_tables [OF assms] shape_image_table [OF assms] shape_tables_ok [OF assms]
      shape_resolve [OF assms])

lemma geometry_shape:
  assumes "geometry_of b win fs" "geometry_of b win fs'"
  shows "same_shape fs fs'"
  using assms by (simp add: same_shape_def geometry_of_def word_eq_unat)

lemma images_file: "e \<in> set (images es) \<Longrightarrow> \<not> has (e ! DIR_Attr) AM_DIR"
  by (auto simp: images_def is_image_def)

section \<open>One pass\<close>

lemma mounted_at_first_use:
  assumes "auto_mount (fio b) (cstr ((ptrfile w)[9 := 0])) False (tffs w) = (FR_OK, p, s)"
    and "auto_mount (fio b) (cstr ((ptrfile w)[9 := 0])) False s = (FR_OK, p, s)"
  shows "philes_opendir b w = philes_opendir b (w\<lparr>tffs := s\<rparr>)"
  using assms by (simp add: philes_opendir_def f_opendir_def set_tff_def Let_def)

lemma philes_mount_fresh:
  assumes "dio_initialize (fio b) 0 (disk (tffs w)) = (st, d)"
  obtains s where "philes_mount b w = (FR_OK, w\<lparr>tffs := s\<rparr>)" "FatFs s = fatfs_addr" "fatfs_addr \<noteq> 0"
    "fs_type (cur_fs s) = 0" "fs_win s = fs_win (tffs w)" "disk s = d"
  using assms
  by (simp add: philes_mount_def f_mount_def set_tff_def fatfs_addr_def Let_def upd_fs_def zero_FATFS_def)

context fdc_board
begin

lemma console_fields:
  assumes "console w w'"
  shows "g_dir w' = g_dir w" "ptrfile w' = ptrfile w" "file1 w' = file1 w" "fdd_buffer w' = fdd_buffer w"
  using assms by (auto simp: console_def)

text \<open>Mounting and opening the directory: the first image is the next one to come.\<close>

lemma boot_opendir:
  assumes rd: reads_ok and ready: "\<And>d. dinv d \<Longrightarrow> \<not> has (dio_status (fio b) 0 d) STA_NOINIT"
    and ro: "FS_READONLY (fio b)"
    and init: "dio_initialize (fio b) 0 (disk (tffs w)) = (st0, d0)" "dio_initialize (fio b) 0 d0 = (st, d)"
      "\<not> has st STA_NOINIT" "\<not> has st STA_PROTECT" "dinv d"
    and vol: "v = volume_sector (dsec d)" "unat v < dcap" "boot_kind (dsec d (unat v)) = 0"
      "LD_WORD (dsec d (unat v)) BPB_BytsPerSec = 512" "volume_fits dcap (unat v) (dsec d (unat v))"
    and geo: "geometry_of (unat v) (dsec d (unat v)) fs0"
    and tab: "image_table (dsec d) fs0 dcap tab"
    and mem: "length (fs_win (tffs w)) = 512" "take 10 (ptrfile w) = bytes ''/VECTOR06/''" "length (fi_fname (g_finfo w)) = 13"
  shows "\<exists>s0 s u dj. philes_mount b w = (FR_OK, w\<lparr>tffs := s0\<rparr>)
    \<and> philes_opendir b (w\<lparr>tffs := s0\<rparr>) = Some (FR_OK, w\<lparr>tffs := u, g_dir := dj\<rparr>)
    \<and> mounted (fio b) s \<and> vol_ok dcap (cur_fs s) \<and> same_shape fs0 (cur_fs s) \<and> dsec (disk s) = dsec d
    \<and> browsing s tab (drop 2 (tab_entries (dsec d) fs0 tab)) (w\<lparr>tffs := u, g_dir := dj\<rparr>)"
proof -
  obtain s0 where m: "philes_mount b w = (FR_OK, w\<lparr>tffs := s0\<rparr>)" and s0: "FatFs s0 \<noteq> 0" "fs_type (cur_fs s0) = 0"
    "length (fs_win s0) = 512" "disk s0 = d0"
    using philes_mount_fresh [OF init(1)] mem(1) by metis
  let ?w1 = "w\<lparr>tffs := s0\<rparr>" and ?path = "cstr ((ptrfile w)[9 := 0])"
  from auto_mount_fresh [OF rd s0(1,2,3) _ init(3-5) vol, where path = ?path and chk = False] s0(4) init(2)
  obtain s where am: "auto_mount (fio b) ?path False s0 = (FR_OK, strip_path ?path, s)" and coh: "coh s"
    and v: "vol_ok dcap (cur_fs s)" and g: "geometry_of (unat v) (dsec d (unat v)) (cur_fs s)"
    and F: "FatFs s = FatFs s0" "dsec (disk s) = dsec d" by auto
  have sh: "same_shape fs0 (cur_fs s)" by (rule geometry_shape [OF geo g])
  have "fs_type (cur_fs s) \<noteq> 0" using v by (auto simp: vol_ok_def FS_FAT12_def FS_FAT16_def)
  then have mt: "mounted (fio b) s" using coh s0(1) F(1) ready by (simp add: mounted_def coherent_def)
  have "philes_opendir b ?w1 = philes_opendir b (?w1\<lparr>tffs := s\<rparr>)"
    by (rule mounted_at_first_use [where p = "strip_path ?path"])
       (simp_all add: am mounted_auto_mount [OF ro mt])
  moreover have "\<exists>u dj. philes_opendir b (?w1\<lparr>tffs := s\<rparr>) = Some (FR_OK, ?w1\<lparr>tffs := s\<rparr>\<lparr>tffs := u, g_dir := dj\<rparr>)
      \<and> browsing (tffs (?w1\<lparr>tffs := s\<rparr>)) tab (drop 2 (tab_entries (dsec (disk (tffs (?w1\<lparr>tffs := s\<rparr>)))) (cur_fs (tffs (?w1\<lparr>tffs := s\<rparr>))) tab))
          (?w1\<lparr>tffs := s\<rparr>\<lparr>tffs := u, g_dir := dj\<rparr>)"
    by (rule opendir_images [OF rd ro refl])
       (use mt coh v tab mem in \<open>simp_all add: F(2) shape_image_table [OF sh]\<close>)
  ultimately obtain u dj where "philes_opendir b ?w1 = Some (FR_OK, w\<lparr>tffs := u, g_dir := dj\<rparr>)"
    "browsing s tab (drop 2 (tab_entries (dsec d) fs0 tab)) (w\<lparr>tffs := u, g_dir := dj\<rparr>)"
    by (auto simp: F(2) shape_tables [OF sh])
  then show ?thesis using m mt v sh F(2) by blast
qed

text \<open>Opening the image by the path in \<open>ptrfile\<close>.\<close>

lemma boot_open_image:
  assumes rd: reads_ok and ro: "FS_READONLY (fio b)" and m: "mounted (fio b) s" and vol: "vol_ok dcap (cur_fs s)"
    and w: "coh (tffs w)" "sv s (tffs w)"
    and path: "cstr (ptrfile w) = bytes ''/VECTOR06/'' @ cstr (entry_name e)"
    and nm: "legal_name nm" "cstr (entry_name e) = name_text (fst nm) (snd nm)"
    and tok: "tables_ok dcap (dsec (disk s)) (cur_fs s) RootTab 0 (image_dir @ [nm])"
    and res: "resolve (dsec (disk s)) (cur_fs s) RootTab 0 (image_dir @ [nm]) = (FR_OK, Some (t, i))"
      "tab_entry (dsec (disk s)) (cur_fs s) t i = e" "\<not> has (e ! DIR_Attr) AM_DIR"
    and root: "unat (fs_dirbase (cur_fs s)) < 65536"
  shows "\<exists>fp u. open_image b w = Some (FR_OK, (set_tff u w)\<lparr>file1 := fp\<rparr>) \<and> coh u \<and> sv s u \<and> opened (fio b) e fp u"
proof -
  note sh = same_vol_shape [OF w(2)] and v = same_vol_simps [OF w(2)]
  have p: "strip_path (cstr (ptrfile w)) = path_text (image_dir @ [nm])"
    unfolding path by (rule image_path_names [OF nm(2)])
  have mw: "mounted (fio b) (tffs w)" using m mounted_same [OF w(2)] by simp
  have vw: "vol_ok dcap (cur_fs (tffs w))" using vol transported(1) [OF w(2) same_file_refl] by simp
  have tw: "tables_ok dcap (dsec (disk (tffs w))) (cur_fs (tffs w)) RootTab 0 (image_dir @ [nm])"
    using tok by (simp add: v(4) shape_tables_ok [OF sh])
  have lw: "list_all legal_name (image_dir @ [nm])" using nm(1) by (simp add: image_dir_def bytes_def legal_char_def)
  have rw: "unat (fs_dirbase (cur_fs (tffs w))) < 65536" using root sh by (simp add: same_shape_def)
  have "has FA_READ FA_READ" by (simp add: has_def FA_READ_def)
  from f_open_resolves [OF rd ro mw w(1) vw tw _ lw _ rw p this, of "replicate 12 0" "g_dir w" "file1 w"]
  obtain fp u where o: "f_open (fio b) (g_dir w) (replicate 12 0) (file1 w) (cstr (ptrfile w)) FA_READ (tffs w) = Some (FR_OK, fp, u)"
    "coh u" "sv (tffs w) u" "opened (fio b) e fp u"
    using res by (auto simp: v(4) shape_resolve [OF sh] shape_tables [OF sh] Let_def)
  have "open_image b w = Some (FR_OK, (set_tff u w)\<lparr>file1 := fp\<rparr>)" using o(1) by (simp add: open_image_def)
  then show ?thesis using o(2,4) same_vol_trans [OF w(2) o(3)] by blast
qed

lemma opened_same:
  assumes "opened (fio b) e fp s" "sv s s'"
  shows "opened (fio b) e fp s'"
  using assms validate_same [OF assms(2)] same_vol_simps(1) [OF assms(2)] by (simp add: opened_def open_on_def)

text \<open>A whole pass, up to the call of \<open>slave\<close>.\<close>

lemma boot_pass:
  assumes rd: reads_ok and ready: "\<And>d. dinv d \<Longrightarrow> \<not> has (dio_status (fio b) 0 d) STA_NOINIT"
    and ro: "FS_READONLY (fio b)"
    and init: "dio_initialize (fio b) 0 (disk (tffs w)) = (st0, d0)" "dio_initialize (fio b) 0 d0 = (st, d)"
      "\<not> has st STA_NOINIT" "\<not> has st STA_PROTECT" "dinv d"
    and vol: "v = volume_sector (dsec d)" "unat v < dcap" "boot_kind (dsec d (unat v)) = 0"
      "LD_WORD (dsec d (unat v)) BPB_BytsPerSec = 512" "volume_fits dcap (unat v) (dsec d (unat v))"
    and geo: "geometry_of (unat v) (dsec d (unat v)) fs0"
    and first: "first_image (dsec d) fs0 dcap e"
    and mem: "length (fs_win (tffs w)) = 512" "take 10 (ptrfile w) = bytes ''/VECTOR06/''"
      "length (ptrfile w) = 26" "ptrfile w ! 22 = 0" "length (fi_fname (g_finfo w)) = 13"
  shows "\<exists>w'. thrall_try b result0 t10 0 w = Option.bind (slave b result0 t10 w') (\<lambda>(_, w2). Some (1, w2))
    \<and> coh (tffs w') \<and> vol_ok dcap (cur_fs (tffs w')) \<and> same_shape fs0 (cur_fs (tffs w'))
    \<and> dsec (disk (tffs w')) = dsec d \<and> opened (fio b) e (file1 w') (tffs w')
    \<and> fdd_buffer w' = fdd_buffer w \<and> written SLAVE_STATUS w' = written SLAVE_STATUS w"
proof -
  obtain tab nm t i where F: "image_table (dsec d) fs0 dcap tab" "images (drop 2 (tab_entries (dsec d) fs0 tab)) \<noteq> []"
    "hd (images (drop 2 (tab_entries (dsec d) fs0 tab))) = e" "legal_name nm" "cstr (entry_name e) = name_text (fst nm) (snd nm)"
    "tables_ok dcap (dsec d) fs0 RootTab 0 (image_dir @ [nm])"
    "resolve (dsec d) fs0 RootTab 0 (image_dir @ [nm]) = (FR_OK, Some (t, i))" "tab_entry (dsec d) fs0 t i = e"
    using first by (auto simp: first_image_def)
  have nodir: "\<not> has (e ! DIR_Attr) AM_DIR" using images_file F(2,3) hd_in_set by metis
  from boot_opendir [OF rd ready ro init vol geo F(1) mem(1,2,5)] obtain s0 s u dj where
    m: "philes_mount b w = (FR_OK, w\<lparr>tffs := s0\<rparr>)"
    and o: "philes_opendir b (w\<lparr>tffs := s0\<rparr>) = Some (FR_OK, w\<lparr>tffs := u, g_dir := dj\<rparr>)"
    and s: "mounted (fio b) s" "vol_ok dcap (cur_fs s)" "same_shape fs0 (cur_fs s)" "dsec (disk s) = dsec d"
    and br: "browsing s tab (drop 2 (tab_entries (dsec d) fs0 tab)) (w\<lparr>tffs := u, g_dir := dj\<rparr>)" by blast
  note sh = s(3)
  have tab: "tab_ok dcap (dsec (disk s)) (cur_fs s) tab" and root: "unat (fs_dirbase (cur_fs s)) < 65536"
    using F(1) sh by (simp_all add: image_table_def s(4) shape_tables [OF sh]) (simp add: same_shape_def)
  let ?w2 = "w\<lparr>tffs := u, g_dir := dj\<rparr>"
  from nextfile_next [OF br s(2) tab rd refl, of "DPtrfile 10" True] F(2,3) obtain u3 dj3 fi3 where
    n: "philes_nextfile b (DPtrfile 10) True ?w2
        = Some (FR_OK, (put_name (DPtrfile 10) (shown_name True e) ?w2)\<lparr>tffs := u3, g_dir := dj3, g_finfo := fi3\<rparr>)"
    and br3: "coh u3" "sv s u3" by (auto simp: browsing_def)
  let ?w3 = "(put_name (DPtrfile 10) (shown_name True e) ?w2)\<lparr>tffs := u3, g_dir := dj3, g_finfo := fi3\<rparr>"
  let ?w4 = "ser_nl b ?w3"
  have q4: "console ?w3 ?w4" "quiet ?w3 ?w4" by (intro console_nl console_refl quiet_intros quiet_refl)+
  note c4 = console_card [OF q4(1)] and f4 = console_fields [OF q4(1)]
  have p3: "ptrfile ?w3 = poke 10 (strncpy12 (entry_name e)) (ptrfile w)" by (simp add: put_name_def shown_name_def)
  have path: "cstr (ptrfile ?w4) = bytes ''/VECTOR06/'' @ cstr (entry_name e)"
    using image_path(1) [OF mem(2-4) length_entry_name] f4(2) p3 by simp
  have "coh (tffs ?w4)" "sv s (tffs ?w4)" using c4 br3 same_vol_trans [OF br3(2)] by simp_all
  from boot_open_image [OF rd ro s(1,2) this path F(4,5) _ _ _ nodir root, of t i] F(6-8) obtain fp u5 where
    op: "open_image b ?w4 = Some (FR_OK, (set_tff u5 ?w4)\<lparr>file1 := fp\<rparr>)" and u5: "coh u5" "sv s u5" "opened (fio b) e fp u5"
    by (auto simp: s(4) shape_tables_ok [OF sh] shape_resolve [OF sh] shape_tables [OF sh])
  define w5 where "w5 = (set_tff u5 ?w4)\<lparr>file1 := fp\<rparr>"
  define x where "x = ser_puts b (bytes ''=> '') w5"
  define w6 where "w6 = ser_nl b (ser_putc b 0x24 (ser_puts b (ptrfile x) x))"
  have q6: "console w5 w6" "quiet w5 w6" unfolding w6_def x_def
    by (intro console_nl console_putc console_puts console_refl quiet_intros quiet_refl)+
  have t5: "tffs w5 = u5" "file1 w5 = fp" by (simp_all add: w5_def set_tff_def)
  note c6 = console_card [OF q6(1), unfolded t5, OF u5(1)] and f6 = console_fields [OF q6(1)]
  obtain fdd fe where ld: "fdd_load (file1 w6) (fddimage w6) (fdderror w6) = (0, fdd, fe)"
    by (auto simp: fdd_load_def fdd_clearerror_def)
  define w7 where "w7 = w6\<lparr>fddimage := fdd, fdderror := fe\<rparr>"
  have run: "thrall_try b result0 t10 0 w = Option.bind (slave b result0 t10 w7) (\<lambda>(_, w2). Some (1, w2))"
    using m o n op ld by (simp add: thrall_try_def Let_def w5_def [symmetric] x_def [symmetric] w6_def [symmetric] w7_def [symmetric])
  have v: "sv s (tffs w7)" using same_vol_trans [OF u5(2) c6(2)] by (simp add: w7_def)
  have "same_shape fs0 (cur_fs (tffs w7))" using sh same_vol_shape [OF v] by (simp add: same_shape_def)
  moreover have "vol_ok dcap (cur_fs (tffs w7))" using s(2) transported(1) [OF v same_file_refl] by simp
  moreover have "opened (fio b) e (file1 w7) (tffs w7)" using opened_same [OF u5(3) c6(2)] f6(3) t5(2) by (simp add: w7_def)
  moreover have "fdd_buffer w7 = fdd_buffer w" "written SLAVE_STATUS w7 = written SLAVE_STATUS w"
    using q4(2) q6(2) by (simp_all add: w7_def w5_def quiet_def set_tff_def written_def put_name_def)
  ultimately show ?thesis using run c6(1) s(4) same_vol_simps(4) [OF v]
    by (intro exI [of _ w7]) (simp add: w7_def)
qed

end

end
