(* ===== verification/BootTheorems.thy ===== *)
theory BootTheorems
  imports BootProps BrowseTheorems
begin

text \<open>
  From power-on to serving: one pass of the eternal loop opens the first image of an inserted card, with an
  application to the volume with an image directory of theory \<open>BrowseTheorems\<close>.
\<close>

lemma shape_file:
  assumes "same_shape fs fs'"
  shows "entry_chain sec fs' e cl = entry_chain sec fs e cl" "entry_bytes sec fs' e cl = entry_bytes sec fs e cl"
proof -
  have "fs_sects_clust fs' = fs_sects_clust fs" using assms by (simp add: same_shape_def)
  then show "entry_chain sec fs' e cl = entry_chain sec fs e cl" "entry_bytes sec fs' e cl = entry_bytes sec fs e cl"
    by (simp_all add: entry_chain_def entry_bytes_def shape_tables [OF assms])
qed

text \<open>C15: With a card inserted, one pass of the eternal loop reaches the request server with the first image
  open.  On a board whose ports and transmitter leave the card alone, for a card that initialises and reads
  without failing, has a FAT volume that fits it, the directory \<open>/VECTOR06\<close> and an image in it whose name
  looks up to it, a pass that has no image chosen yet mounts the card, opens the directory, takes the first
  image in the directory's order, opens it by the path it has composed in \<open>ptrfile\<close>, and calls \<open>slave\<close>
  in a state in which the image is open for reading and its bytes are those of the medium, so that the
  read requests of the host can be served; nothing has been written to the status port on the way.\<close>

theorem boot_opens_first_image:
  assumes "fdc_board b dinv dsec dcap" and "reliable_device (fio b) dinv dsec dcap" and "FS_READONLY (fio b)"
    and "dio_initialize (fio b) 0 (disk (tffs w)) = (st0, d0)" and "dio_initialize (fio b) 0 d0 = (st, d)"
    and "\<not> has st STA_NOINIT" and "\<not> has st STA_PROTECT" and "dinv d"
    and "v = volume_sector (dsec d)" and "unat v < dcap" and "boot_kind (dsec d (unat v)) = 0"
    and "LD_WORD (dsec d (unat v)) BPB_BytsPerSec = 512" and "volume_fits dcap (unat v) (dsec d (unat v))"
    and "geometry_of (unat v) (dsec d (unat v)) fs0" and "first_image (dsec d) fs0 dcap e"
    and "length (fs_win (tffs w)) = 512" and "take 10 (ptrfile w) = bytes ''/VECTOR06/''"
    and "length (ptrfile w) = 26" and "ptrfile w ! 22 = 0" and "length (fi_fname (g_finfo w)) = 13"
  shows "\<exists>w'. thrall_try b result0 t10 0 w = Option.bind (slave b result0 t10 w') (\<lambda>(_, w2). Some (1, w2))
    \<and> coherent dinv dsec dcap (tffs w') \<and> vol_ok dcap (cur_fs (tffs w')) \<and> dsec (disk (tffs w')) = dsec d
    \<and> opened (fio b) e (file1 w') (tffs w') \<and> fdd_buffer w' = fdd_buffer w
    \<and> written SLAVE_STATUS w' = written SLAVE_STATUS w
    \<and> (\<forall>cl. entry_chain (dsec d) fs0 e cl \<longrightarrow>
         file_on (dsec d) (cur_fs (tffs w')) (file1 w') cl
         \<and> file_bytes (dsec d) (cur_fs (tffs w')) (file1 w') cl = entry_bytes (dsec d) fs0 e cl)"
proof -
  have ready: "\<not> has (dio_status (fio b) 0 d') STA_NOINIT" if "dinv d'" for d'
    using reliable_device.ready [OF assms(2) that] .
  from fdc_board.boot_pass [OF assms(1) reliable_device.reliable [OF assms(2)] ready assms(3-)]
  obtain w' where w': "thrall_try b result0 t10 0 w = Option.bind (slave b result0 t10 w') (\<lambda>(_, w2). Some (1, w2))"
    "coherent dinv dsec dcap (tffs w')" "vol_ok dcap (cur_fs (tffs w'))" "same_shape fs0 (cur_fs (tffs w'))"
    "dsec (disk (tffs w')) = dsec d" "opened (fio b) e (file1 w') (tffs w')" "fdd_buffer w' = fdd_buffer w"
    "written SLAVE_STATUS w' = written SLAVE_STATUS w" by blast
  show ?thesis using w' opened_file [OF w'(6)] by (intro exI [of _ w']) (simp add: shape_file [OF w'(4), symmetric])
qed

definition boot_world :: "(nat \<Rightarrow> BYTE list) world" where
  "boot_world = vec_world\<lparr>tffs := \<lparr>FatFs = 0, fsid = 0, fs_win = replicate 512 0, fsobj = \<lambda>_. zero_FATFS, disk = vec_sec\<rparr>\<rparr>"

lemma vec_first: "first_image vec_sec demo_fs ram_cap (tab_entry vec_sec demo_fs (ChainTab [4]) 2)"
proof -
  let ?nm = "([0x42 :: BYTE], [0x46, 0x44, 0x44 :: BYTE])"
  have r: "tab_ok ram_cap vec_sec demo_fs RootTab" by (simp add: demo_fs_def zero_FATFS_def ram_cap_def)
  have s: "scan_entries (drop 0 (tab_entries vec_sec demo_fs RootTab)) (name_83 (bytes ''VECTOR06'') []) = Some 0"
    "scan_entries (drop 2 (tab_entries vec_sec demo_fs (ChainTab [4]))) (name_83 [0x42] [0x46, 0x44, 0x44]) = Some 0"
    by code_simp+
  have t: "tables_ok ram_cap vec_sec demo_fs RootTab 0 (image_dir @ [?nm])"
    using r s vec_sub vec_chain by (simp add: image_dir_def del: tab_ok.simps drop_0)
  have v: "resolve vec_sec demo_fs RootTab 0 (image_dir @ [?nm]) = (FR_OK, Some (ChainTab [4], 2))" by code_simp
  have n: "cstr (entry_name (tab_entry vec_sec demo_fs (ChainTab [4]) 2)) = name_text (fst ?nm) (snd ?nm)" by code_simp
  have l: "legal_name ?nm" by (simp add: legal_char_def)
  show ?thesis unfolding first_image_def
    by (rule exI [of _ "ChainTab [4]"], rule exI [of _ ?nm], rule exI [of _ "ChainTab [4]"], rule exI [of _ 2])
       (use vec_table vec_images l n t v in simp)
qed

theorem boot_opens_first_image_witness:
  "\<exists>w'. thrall_try (ram_board 0 0) 0 0 0 boot_world = Option.bind (slave (ram_board 0 0) 0 0 w') (\<lambda>(_, w2). Some (1, w2))
    \<and> written SLAVE_STATUS w' = [] \<and> file_bytes vec_sec (cur_fs (tffs w')) (file1 w') [5, 6] = replicate 512 6 @ replicate 88 7"
proof -
  let ?b = "ram_board 0 0" and ?e = "tab_entry vec_sec demo_fs (ChainTab [4]) 2"
  have io: "fio ?b = ram_io" by (simp add: ram_board_def)
  have rel: "reliable_device (fio ?b) ram_ok (\<lambda>d. d) ram_cap" using ram.reliable_device_axioms by (simp add: io)
  have ro: "FS_READONLY (fio ?b)" by (simp add: io) (simp add: ram_io_def)
  have i: "dio_initialize (fio ?b) 0 (disk (tffs boot_world)) = (0, vec_sec)" "dio_initialize (fio ?b) 0 vec_sec = (0, vec_sec)"
    by (simp_all add: io boot_world_def) (simp_all add: ram_io_def)
  have z: "\<not> has 0 STA_NOINIT" "\<not> has 0 STA_PROTECT" by (simp_all add: has_def)
  have b: "0 = volume_sector vec_sec" "boot_kind (vec_sec (unat (0 :: DWORD))) = 0"
    "LD_WORD (vec_sec (unat (0 :: DWORD))) BPB_BytsPerSec = 512" by code_simp+
  have g: "bpb_rsvd (demo_sec 0) = 1" "bpb_fatsz (demo_sec 0) = 1" "bpb_fats (demo_sec 0) = 1" "bpb_root (demo_sec 0) = 16"
    "bpb_clusters (demo_sec 0) = 17" "bpb_spc (demo_sec 0) = 1" "bpb_total (demo_sec 0) = 20"
    "bpb_system (demo_sec 0) = 3" by code_simp+
  have s0: "vec_sec (unat (0 :: DWORD)) = demo_sec 0" by (simp add: vec_sec_def)
  have f: "volume_fits ram_cap (unat (0 :: DWORD)) (vec_sec (unat (0 :: DWORD)))"
    "geometry_of (unat (0 :: DWORD)) (vec_sec (unat (0 :: DWORD))) demo_fs"
    unfolding s0 by (simp_all add: volume_fits_def geometry_of_def g ram_cap_def) (simp add: demo_fs_def)
  have w: "length (fs_win (tffs boot_world)) = 512" "take 10 (ptrfile boot_world) = bytes ''/VECTOR06/''"
    "length (ptrfile boot_world) = 26" "ptrfile boot_world ! 22 = 0" "length (fi_fname (g_finfo boot_world)) = 13"
    by (simp_all add: boot_world_def vec_world_def demo_world_def ptrfile_init_def bytes_def)
  from boot_opens_first_image [OF ram_fdc.fdc_board_axioms rel ro i z vec_ok b(1) _ b(2,3) f vec_first w, of 0 0]
  obtain w' where w': "thrall_try ?b 0 0 0 boot_world = Option.bind (slave ?b 0 0 w') (\<lambda>(_, w2). Some (1, w2))"
    "written SLAVE_STATUS w' = written SLAVE_STATUS boot_world"
    "entry_chain vec_sec demo_fs ?e [5, 6] \<longrightarrow>
       file_bytes vec_sec (cur_fs (tffs w')) (file1 w') [5, 6] = entry_bytes vec_sec demo_fs ?e [5, 6]"
    by (auto simp: ram_cap_def)
  have e: "entry_size ?e = 600" "LD_WORD ?e DIR_FstClusLO = 5" by code_simp+
  have "fat_entry vec_sec demo_fs 5 = 6" by code_simp
  then have "chain_ok vec_sec demo_fs [5, 6]" by (simp add: chain_ok_def) (simp add: valid_clust_def demo_fs_def)
  then have ch: "entry_chain vec_sec demo_fs ?e [5, 6]" by (simp add: entry_chain_def e) (simp add: demo_fs_def)
  have "chain_sectors demo_fs [5, 6] = [6, 7]" by code_simp
  then have en: "entry_bytes vec_sec demo_fs ?e [5, 6] = replicate 512 6 @ replicate 88 7"
    by (simp add: entry_bytes_def e chain_bytes_def vec_sec_def demo_sec.simps take_replicate)
  have "written SLAVE_STATUS boot_world = []" by (simp add: written_def boot_world_def vec_world_def demo_world_def)
  then show ?thesis using w' ch en by auto
qed

end
