(* ===== verification/Mmc.thy ===== *)
theory Mmc
  imports Diskio
begin

text \<open>
  The SD/MMC card driver in SPI mode (\<^verbatim>\<open>mmc.c\<close>), in the build with DMA that \<^verbatim>\<open>config.h\<close> selects, and
  \<open>disk_ioctl\<close>, which the shipped build leaves out.  The SPI port, the chip select and the timers are
  the record \<open>spi_hw\<close> over a hardware state \<open>'h\<close>; everything else is the driver's own state.
\<close>

section \<open>Hardware and driver state\<close>

text \<open>
  \<open>spi_xfer b\<close> writes \<open>b\<close> to \<open>SPDR\<close> and gives what the register holds after the exchange; \<open>spi_cs\<close> drives
  the chip select line (\<open>True\<close> is high, deselected).  A timer register set to \<open>n\<close> counts down to 0 on
  its own: \<open>timer_polls n h\<close> is how many polls of it still read a non-zero value.
\<close>

record 'h spi_hw =
  spi_xfer :: "BYTE \<Rightarrow> 'h \<Rightarrow> BYTE \<times> 'h"
  spi_cs :: "bool \<Rightarrow> 'h \<Rightarrow> 'h"
  timer_polls :: "BYTE \<Rightarrow> 'h \<Rightarrow> nat"

record 'h mmc =
  Stat :: BYTE
  CardType :: BYTE
  timer1 :: nat
  spi :: 'h

text \<open>The driver's static variables as the program starts.\<close>

definition mmc_start :: "'h \<Rightarrow> 'h mmc" where
  "mmc_start h = \<lparr>Stat = STA_NOINIT, CardType = 0, timer1 = 0, spi = h\<rparr>"

definition CMD0 :: BYTE where "CMD0 = 0x40"
definition CMD1 :: BYTE where "CMD1 = 0x41"
definition ACMD41 :: BYTE where "ACMD41 = 0xE9"
definition CMD8 :: BYTE where "CMD8 = 0x48"
definition CMD9 :: BYTE where "CMD9 = 0x49"
definition CMD10 :: BYTE where "CMD10 = 0x4A"
definition CMD12 :: BYTE where "CMD12 = 0x4C"
definition ACMD13 :: BYTE where "ACMD13 = 0xCD"
definition CMD16 :: BYTE where "CMD16 = 0x50"
definition CMD17 :: BYTE where "CMD17 = 0x51"
definition CMD18 :: BYTE where "CMD18 = 0x52"
definition ACMD23 :: BYTE where "ACMD23 = 0xD7"
definition CMD24 :: BYTE where "CMD24 = 0x58"
definition CMD25 :: BYTE where "CMD25 = 0x59"
definition CMD55 :: BYTE where "CMD55 = 0x77"
definition CMD58 :: BYTE where "CMD58 = 0x7A"

lemmas cmd_defs = CMD0_def CMD1_def ACMD41_def CMD8_def CMD9_def CMD10_def CMD12_def ACMD13_def
  CMD16_def CMD17_def CMD18_def ACMD23_def CMD24_def CMD25_def CMD55_def CMD58_def

section \<open>Bytes on the bus\<close>

definition xmit_spi :: "'h spi_hw \<Rightarrow> BYTE \<Rightarrow> 'h mmc \<Rightarrow> 'h mmc" where
  "xmit_spi H dat m = m\<lparr>spi := snd (spi_xfer H dat (spi m))\<rparr>"

definition rcvr_spi :: "'h spi_hw \<Rightarrow> 'h mmc \<Rightarrow> BYTE \<times> 'h mmc" where
  "rcvr_spi H m = (case spi_xfer H 0xFF (spi m) of (r, h) \<Rightarrow> (r, m\<lparr>spi := h\<rparr>))"

definition SELECT :: "'h spi_hw \<Rightarrow> 'h mmc \<Rightarrow> 'h mmc" where
  "SELECT H m = m\<lparr>spi := spi_cs H False (spi m)\<rparr>"

definition DESELECT :: "'h spi_hw \<Rightarrow> 'h mmc \<Rightarrow> 'h mmc" where
  "DESELECT H m = m\<lparr>spi := spi_cs H True (spi m)\<rparr>"

fun rcvr_n :: "'h spi_hw \<Rightarrow> nat \<Rightarrow> 'h mmc \<Rightarrow> BYTE list \<times> 'h mmc" where
  "rcvr_n H 0 m = ([], m)"
| "rcvr_n H (Suc n) m =
     (case rcvr_spi H m of (b, m) \<Rightarrow> case rcvr_n H n m of (bs, m) \<Rightarrow> (b # bs, m))"

fun xmit_n :: "'h spi_hw \<Rightarrow> BYTE list \<Rightarrow> 'h mmc \<Rightarrow> 'h mmc" where
  "xmit_n H [] m = m"
| "xmit_n H (b # bs) m = xmit_n H bs (xmit_spi H b m)"

text \<open>
  The loop of \<open>wait_ready\<close>: \<open>n\<close> polls of the timer will still succeed.  \<open>wait_token\<close> is the same loop
  of \<open>rcvr_datablock\<close>, which goes on while the byte is 0xFF.
\<close>

fun wait_loop :: "'h spi_hw \<Rightarrow> nat \<Rightarrow> 'h mmc \<Rightarrow> BYTE \<times> 'h mmc" where
  "wait_loop H 0 m = rcvr_spi H m"
| "wait_loop H (Suc n) m =
     (case rcvr_spi H m of (res, m) \<Rightarrow> if res \<noteq> 0xFF then wait_loop H n m else (res, m))"

fun wait_token :: "'h spi_hw \<Rightarrow> nat \<Rightarrow> 'h mmc \<Rightarrow> BYTE \<times> 'h mmc" where
  "wait_token H 0 m = rcvr_spi H m"
| "wait_token H (Suc n) m =
     (case rcvr_spi H m of (token, m) \<Rightarrow> if token = 0xFF then wait_token H n m else (token, m))"

definition wait_ready :: "'h spi_hw \<Rightarrow> 'h mmc \<Rightarrow> BYTE \<times> 'h mmc" where
  "wait_ready H m =
     (let n = timer_polls H 50 (spi m) in wait_loop H n (snd (rcvr_spi H m)))"

definition release_spi :: "'h spi_hw \<Rightarrow> 'h mmc \<Rightarrow> 'h mmc" where
  "release_spi H m = snd (rcvr_spi H (DESELECT H m))"

definition power_off :: "'h spi_hw \<Rightarrow> 'h mmc \<Rightarrow> 'h mmc" where
  "power_off H m =
     (let m = release_spi H (snd (wait_ready H (SELECT H m)))
      in m\<lparr>Stat := Stat m OR STA_NOINIT\<rparr>)"

text \<open>The socket power control does nothing on this board.\<close>

definition power_on :: "'h mmc \<Rightarrow> 'h mmc" where
  "power_on m = m"

definition chk_power :: "'h mmc \<Rightarrow> BYTE" where
  "chk_power m = 1"

section \<open>Data blocks\<close>

text \<open>
  A non-zero block count written to \<open>SPSR\<close> makes the DMA controller (\<^verbatim>\<open>dma_rw.v\<close>) exchange 512 bytes per
  block with the memory at the DMA address: it sends 0xFF and stores, or sends and drops the answer.
  The memory at the address is the byte list \<open>buff\<close>.
\<close>

definition rcvr_datablock :: "'h spi_hw \<Rightarrow> BYTE list \<Rightarrow> nat \<Rightarrow> 'h mmc \<Rightarrow> bool \<times> BYTE list \<times> 'h mmc" where
  "rcvr_datablock H buff btr m =
     (case wait_token H (timer_polls H 10 (spi m)) m of (token, m) \<Rightarrow>
        if token \<noteq> 0xFE then (False, buff, m)
        else
          (case rcvr_n H (btr div 512 * 512) m of (bs, m) \<Rightarrow>
             (True, blit buff 0 bs, snd (rcvr_n H 2 m))))"

definition xmit_datablock :: "'h spi_hw \<Rightarrow> BYTE list \<Rightarrow> BYTE \<Rightarrow> 'h mmc \<Rightarrow> bool \<times> 'h mmc" where
  "xmit_datablock H buff token m =
     (case wait_ready H m of (r, m) \<Rightarrow>
        if r \<noteq> 0xFF then (False, m)
        else
          let m = xmit_spi H token m in
          if token \<noteq> 0xFD then
            (case rcvr_spi H (xmit_n H [0xFF, 0xFF] (xmit_n H (take 512 buff) m)) of (resp, m) \<Rightarrow>
               (resp AND 0x1F = 0x05, m))
          else (True, m))"

section \<open>Commands\<close>

text \<open>The response loop: at most \<open>n\<close> attempts (\<open>n \<ge> 1\<close>), until bit 7 is clear.\<close>

fun wait_resp :: "'h spi_hw \<Rightarrow> nat \<Rightarrow> 'h mmc \<Rightarrow> BYTE \<times> 'h mmc" where
  "wait_resp H 0 m = rcvr_spi H m"
| "wait_resp H (Suc n) m =
     (case rcvr_spi H m of (res, m) \<Rightarrow>
        if has res 0x80 \<and> n \<noteq> 0 then wait_resp H n m else (res, m))"

definition cmd_frame :: "BYTE \<Rightarrow> DWORD \<Rightarrow> BYTE list" where
  "cmd_frame cmd arg =
     [cmd, ucast (drop_bit 24 arg), ucast (drop_bit 16 arg), ucast (drop_bit 8 arg), ucast arg,
      if cmd = CMD8 then 0x87 else if cmd = CMD0 then 0x95 else 0xFF]"

definition send_cmd_plain :: "'h spi_hw \<Rightarrow> BYTE \<Rightarrow> DWORD \<Rightarrow> 'h mmc \<Rightarrow> BYTE \<times> 'h mmc" where
  "send_cmd_plain H cmd arg m =
     (case wait_ready H (SELECT H (DESELECT H m)) of (r, m) \<Rightarrow>
        if r \<noteq> 0xFF then (0xFF, m)
        else
          let m = xmit_n H (cmd_frame cmd arg) m;
              m = (if cmd = CMD12 then snd (rcvr_spi H m) else m)
          in wait_resp H 10 m)"

text \<open>An application command is preceded by \<open>CMD55\<close>; \<open>CMD55\<close> itself has bit 7 clear, so the recursion of the source has one level.\<close>

definition send_cmd :: "'h spi_hw \<Rightarrow> BYTE \<Rightarrow> DWORD \<Rightarrow> 'h mmc \<Rightarrow> BYTE \<times> 'h mmc" where
  "send_cmd H cmd arg m =
     (if has cmd 0x80 then
        (case send_cmd_plain H CMD55 0 m of (res, m) \<Rightarrow>
           if res > 1 then (res, m) else send_cmd_plain H (cmd AND 0x7F) arg m)
      else send_cmd_plain H cmd arg m)"

section \<open>Polling and initialisation\<close>

definition disk_poll :: "'h spi_hw \<Rightarrow> BYTE \<Rightarrow> 'h mmc \<Rightarrow> BYTE \<times> 'h mmc" where
  "disk_poll H drv m =
     (if drv \<noteq> 0 then (STA_NOINIT, m)
      else
        (case send_cmd H CMD58 0 m of (r, m) \<Rightarrow>
           let (res, m) = (if r = 0 then (0, snd (rcvr_n H 4 m)) else (3, m))
           in (res, release_spi H m)))"

definition poll_timer1 :: "'h mmc \<Rightarrow> bool \<times> 'h mmc" where
  "poll_timer1 m = (timer1 m \<noteq> 0, m\<lparr>timer1 := timer1 m - 1\<rparr>)"

lemma timer1_frame [simp]:
  "timer1 (xmit_spi H dat m) = timer1 m"
  "timer1 (snd (rcvr_spi H m)) = timer1 m"
  "timer1 (SELECT H m) = timer1 m"
  "timer1 (DESELECT H m) = timer1 m"
  by (simp_all add: xmit_spi_def rcvr_spi_def SELECT_def DESELECT_def split: prod.split)

lemma rcvr_spi_timer1: "rcvr_spi H m = (r, m') \<Longrightarrow> timer1 m' = timer1 m"
  by (metis snd_conv timer1_frame(2))

lemma timer1_xmit_n [simp]: "timer1 (xmit_n H bs m) = timer1 m"
  by (induction bs arbitrary: m) simp_all

lemma timer1_wait_loop [simp]: "timer1 (snd (wait_loop H n m)) = timer1 m"
  by (induction n arbitrary: m) (auto split: prod.split dest: rcvr_spi_timer1)

lemma timer1_wait_resp [simp]: "timer1 (snd (wait_resp H n m)) = timer1 m"
  by (induction n arbitrary: m) (auto split: prod.split dest: rcvr_spi_timer1)

lemma timer1_send_cmd_plain [simp]: "timer1 (snd (send_cmd_plain H cmd arg m)) = timer1 m"
proof -
  obtain r m' where w: "wait_ready H (SELECT H (DESELECT H m)) = (r, m')" by fastforce
  have "timer1 m' = timer1 (snd (wait_ready H (SELECT H (DESELECT H m))))" using w by simp
  also have "\<dots> = timer1 m" by (simp add: wait_ready_def Let_def)
  finally show ?thesis by (simp add: send_cmd_plain_def w Let_def)
qed

lemma timer1_send_cmd [simp]: "timer1 (snd (send_cmd H cmd arg m)) = timer1 m"
proof -
  obtain r m' where w: "send_cmd_plain H CMD55 0 m = (r, m')" by fastforce
  then have "timer1 m' = timer1 m" by (metis snd_conv timer1_send_cmd_plain)
  then show ?thesis by (simp add: send_cmd_def w)
qed

text \<open>\<open>while (Timer1 && send_cmd(cmd, arg));\<close>\<close>

function leave_idle :: "'h spi_hw \<Rightarrow> BYTE \<Rightarrow> DWORD \<Rightarrow> 'h mmc \<Rightarrow> 'h mmc" where
  "leave_idle H cmd arg m =
     (if timer1 m \<noteq> 0 then
        (let rm = send_cmd H cmd arg (snd (poll_timer1 m)) in
         if fst rm \<noteq> 0 then leave_idle H cmd arg (snd rm) else snd rm)
      else snd (poll_timer1 m))"
  by pat_completeness auto
termination
  by (relation "measure (\<lambda>(H, cmd, arg, m). timer1 m)") (auto simp: poll_timer1_def)

declare leave_idle.simps [simp del]

text \<open>
  The two halves of \<open>disk_initialize\<close> after the card has entered the idle state: a version 2 card, and
  an older SD card or an MMC.  The result is \<open>ty\<close>.
\<close>

definition init_v2 :: "'h spi_hw \<Rightarrow> 'h mmc \<Rightarrow> BYTE \<times> 'h mmc" where
  "init_v2 H m =
     (case rcvr_n H 4 m of (ocr, m) \<Rightarrow>
        if ocr ! 2 = 0x01 \<and> ocr ! 3 = 0xAA then
          (case poll_timer1 (leave_idle H ACMD41 (push_bit 30 1) m) of (t, m) \<Rightarrow>
             if t then
               (case send_cmd H CMD58 0 m of (r, m) \<Rightarrow>
                  if r = 0 then
                    (case rcvr_n H 4 m of (ocr, m) \<Rightarrow> (if has (ocr ! 0) 0x40 then 12 else 4, m))
                  else (0, m))
             else (0, m))
        else (0, m))"

definition init_v1 :: "'h spi_hw \<Rightarrow> 'h mmc \<Rightarrow> BYTE \<times> 'h mmc" where
  "init_v1 H m =
     (case send_cmd H ACMD41 0 m of (r, m) \<Rightarrow>
        let (ty, cmd) = (if r \<le> 1 then (2, ACMD41) else (1, CMD1)) in
        (case poll_timer1 (leave_idle H cmd 0 m) of (t, m) \<Rightarrow>
           if \<not> t then (0, m)
           else (case send_cmd H CMD16 512 m of (r, m) \<Rightarrow> (if r \<noteq> 0 then 0 else ty, m))))"

definition disk_initialize :: "'h spi_hw \<Rightarrow> BYTE \<Rightarrow> 'h mmc \<Rightarrow> BYTE \<times> 'h mmc" where
  "disk_initialize H drv m =
     (if drv \<noteq> 0 then (STA_NOINIT, m)
      else if has (Stat m) STA_NODISK then (Stat m, m)
      else
        (case send_cmd H CMD0 0 (snd (rcvr_n H 10 (power_on m))) of (r, m) \<Rightarrow>
           case (if r = 1 then
                   let m = m\<lparr>timer1 := timer_polls H 100 (spi m)\<rparr> in
                   (case send_cmd H CMD8 0x1AA m of (r, m) \<Rightarrow>
                      if r = 1 then init_v2 H m else init_v1 H m)
                 else (0, m)) of (ty, m) \<Rightarrow>
             let m = release_spi H (m\<lparr>CardType := ty\<rparr>);
                 m = (if ty \<noteq> 0 then m\<lparr>Stat := Stat m AND NOT STA_NOINIT\<rparr> else power_off H m)
             in (Stat m, m)))"

definition disk_status :: "BYTE \<Rightarrow> 'h mmc \<Rightarrow> BYTE" where
  "disk_status drv m = (if drv \<noteq> 0 then STA_NOINIT else Stat m)"

section \<open>Reading and writing sectors\<close>

text \<open>
  The block loops; the first argument is the remaining count, at least 1 on entry.  The result is the
  count left when the loop stops.
\<close>

fun read_blocks :: "'h spi_hw \<Rightarrow> nat \<Rightarrow> BYTE list \<Rightarrow> nat \<Rightarrow> 'h mmc \<Rightarrow> nat \<times> BYTE list \<times> 'h mmc" where
  "read_blocks H 0 buff p m = (0, buff, m)"
| "read_blocks H (Suc k) buff p m =
     (case rcvr_datablock H (drop p buff) 512 m of (ok, bs, m) \<Rightarrow>
        let buff = take p buff @ bs in
        if \<not> ok then (Suc k, buff, m) else read_blocks H k buff (p + 512) m)"

fun write_blocks :: "'h spi_hw \<Rightarrow> nat \<Rightarrow> BYTE list \<Rightarrow> 'h mmc \<Rightarrow> nat \<times> 'h mmc" where
  "write_blocks H 0 buff m = (0, m)"
| "write_blocks H (Suc k) buff m =
     (case xmit_datablock H buff 0xFC m of (ok, m) \<Rightarrow>
        if \<not> ok then (Suc k, m) else write_blocks H k (drop 512 buff) m)"

definition block_address :: "'h mmc \<Rightarrow> DWORD \<Rightarrow> DWORD" where
  "block_address m sector = (if \<not> has (CardType m) 8 then sector * 512 else sector)"

definition disk_read ::
  "'h spi_hw \<Rightarrow> BYTE \<Rightarrow> BYTE list \<Rightarrow> DWORD \<Rightarrow> BYTE \<Rightarrow> 'h mmc \<Rightarrow> DRESULT \<times> BYTE list \<times> 'h mmc" where
  "disk_read H drv buff sector count m =
     (if drv \<noteq> 0 \<or> count = 0 then (RES_PARERR, buff, m)
      else if has (Stat m) STA_NOINIT then (RES_NOTRDY, buff, m)
      else
        let sector = block_address m sector;
            (left, buff, m) =
              (if count = 1 then
                 (case send_cmd H CMD17 sector m of (r, m) \<Rightarrow>
                    if r = 0 then
                      (case rcvr_datablock H buff 512 m of (ok, buff, m) \<Rightarrow>
                         (if ok then 0 else 1, buff, m))
                    else (1, buff, m))
               else
                 (case send_cmd H CMD18 sector m of (r, m) \<Rightarrow>
                    if r = 0 then
                      (case read_blocks H (unat count) buff 0 m of (left, buff, m) \<Rightarrow>
                         (left, buff, snd (send_cmd H CMD12 0 m)))
                    else (unat count, buff, m)))
        in (if left \<noteq> 0 then RES_ERROR else RES_OK, buff, release_spi H m))"

definition disk_write ::
  "'h spi_hw \<Rightarrow> BYTE \<Rightarrow> BYTE list \<Rightarrow> DWORD \<Rightarrow> BYTE \<Rightarrow> 'h mmc \<Rightarrow> DRESULT \<times> 'h mmc" where
  "disk_write H drv buff sector count m =
     (if drv \<noteq> 0 \<or> count = 0 then (RES_PARERR, m)
      else if has (Stat m) STA_NOINIT then (RES_NOTRDY, m)
      else if has (Stat m) STA_PROTECT then (RES_WRPRT, m)
      else
        let sector = block_address m sector;
            (left, m) =
              (if count = 1 then
                 (case send_cmd H CMD24 sector m of (r, m) \<Rightarrow>
                    if r = 0 then
                      (case xmit_datablock H buff 0xFE m of (ok, m) \<Rightarrow> (if ok then 0 else 1, m))
                    else (1, m))
               else
                 let m = (if has (CardType m) 6 then snd (send_cmd H ACMD23 (ucast count) m) else m) in
                 (case send_cmd H CMD25 sector m of (r, m) \<Rightarrow>
                    if r = 0 then
                      (case write_blocks H (unat count) buff m of (left, m) \<Rightarrow>
                         case xmit_datablock H [] 0xFD m of (ok, m) \<Rightarrow>
                           (if \<not> ok then 1 else left, m))
                    else (unat count, m)))
        in (if left \<noteq> 0 then RES_ERROR else RES_OK, release_spi H m))"

section \<open>Control calls\<close>

definition CTRL_SYNC :: BYTE where "CTRL_SYNC = 0"
definition GET_SECTOR_COUNT :: BYTE where "GET_SECTOR_COUNT = 1"
definition GET_SECTOR_SIZE :: BYTE where "GET_SECTOR_SIZE = 2"
definition GET_BLOCK_SIZE :: BYTE where "GET_BLOCK_SIZE = 3"
definition CTRL_POWER :: BYTE where "CTRL_POWER = 4"
definition MMC_GET_TYPE :: BYTE where "MMC_GET_TYPE = 10"
definition MMC_GET_CSD :: BYTE where "MMC_GET_CSD = 11"
definition MMC_GET_CID :: BYTE where "MMC_GET_CID = 12"
definition MMC_GET_OCR :: BYTE where "MMC_GET_OCR = 13"
definition MMC_GET_SDSTAT :: BYTE where "MMC_GET_SDSTAT = 14"

lemmas ioctl_defs = CTRL_SYNC_def GET_SECTOR_COUNT_def GET_SECTOR_SIZE_def GET_BLOCK_SIZE_def
  CTRL_POWER_def MMC_GET_TYPE_def MMC_GET_CSD_def MMC_GET_CID_def MMC_GET_OCR_def MMC_GET_SDSTAT_def

text \<open>
  The arithmetic on the register bytes.  \<open>int\<close> has 16 bits on this machine, and \<open>csize\<close> is a \<open>WORD\<close>.
  The code's shift by \<open>n - 9\<close>, and the one by \<open>(csd[13] >> 6) - 1\<close>, are undefined in C when the count is
  negative; here such a count is 0.
\<close>

definition csd_sectors :: "BYTE list \<Rightarrow> DWORD" where
  "csd_sectors csd =
     (if drop_bit 6 (csd ! 0) = 1 then
        let csize = ucast (csd ! 9) + push_bit 8 (ucast (csd ! 8)) + 1 :: WORD
        in push_bit 10 (ucast csize)
      else
        let n = (csd ! 5 AND 15) + drop_bit 7 (csd ! 10 AND 128) + push_bit 1 (csd ! 9 AND 3) + 2;
            csize = ucast (drop_bit 6 (csd ! 8)) + push_bit 2 (ucast (csd ! 7))
                    + push_bit 10 (ucast (csd ! 6 AND 3)) + 1 :: WORD
        in push_bit (unat n - 9) (ucast csize))"

definition csd_erase_block :: "BYTE \<Rightarrow> BYTE list \<Rightarrow> DWORD" where
  "csd_erase_block ct csd =
     (if has ct 2 then
        ucast (push_bit (unat (drop_bit 6 (csd ! 13)) - 1)
          (push_bit 1 (ucast (csd ! 10 AND 63)) + drop_bit 7 (ucast (csd ! 11 AND 128)) + 1 :: WORD))
      else
        ucast ((ucast (drop_bit 2 (csd ! 10 AND 124)) + 1)
          * (push_bit 3 (ucast (csd ! 11 AND 3)) + drop_bit 5 (ucast (csd ! 11 AND 224)) + 1) :: WORD))"

text \<open>A register read as a data block: \<open>send_cmd(cmd, 0) == 0 && rcvr_datablock(ptr, k)\<close>.\<close>

definition read_register ::
  "'h spi_hw \<Rightarrow> BYTE \<Rightarrow> BYTE list \<Rightarrow> nat \<Rightarrow> 'h mmc \<Rightarrow> bool \<times> BYTE list \<times> 'h mmc" where
  "read_register H cmd buf k m =
     (case send_cmd H cmd 0 m of (r, m) \<Rightarrow>
        if r = 0 then
          rcvr_datablock H buf k (if cmd = ACMD13 then snd (rcvr_spi H m) else m)
        else (False, buf, m))"

definition ioctl_power ::
  "'h spi_hw \<Rightarrow> BYTE list \<Rightarrow> 'h mmc \<Rightarrow> DRESULT \<times> BYTE list \<times> 'h mmc" where
  "ioctl_power H buff m =
     (if buff ! 0 = 0 then (RES_OK, buff, if chk_power m \<noteq> 0 then power_off H m else m)
      else if buff ! 0 = 1 then (RES_OK, buff, power_on m)
      else if buff ! 0 = 2 then (RES_OK, buff[1 := chk_power m], m)
      else (RES_PARERR, buff, m))"

text \<open>
  The control calls on a ready drive, before the bus is released.  \<open>csd\<close> is what the local array of that name
  holds before it is filled: the code leaves it uninitialised, and with DMA a block of 16 bytes
  transfers nothing.
\<close>

definition ioctl_query ::
  "'h spi_hw \<Rightarrow> BYTE \<Rightarrow> BYTE list \<Rightarrow> BYTE list \<Rightarrow> 'h mmc \<Rightarrow> DRESULT \<times> BYTE list \<times> 'h mmc" where
  "ioctl_query H ctrl csd buff m =
     (if ctrl = CTRL_SYNC then
        (case wait_ready H (SELECT H m) of (r, m) \<Rightarrow> (if r = 0xFF then RES_OK else RES_ERROR, buff, m))
      else if ctrl = GET_SECTOR_COUNT then
        (case read_register H CMD9 csd 16 m of (ok, csd, m) \<Rightarrow>
           if ok then (RES_OK, ST_DWORD buff 0 (csd_sectors csd), m) else (RES_ERROR, buff, m))
      else if ctrl = GET_SECTOR_SIZE then (RES_OK, ST_WORD buff 0 512, m)
      else if ctrl = GET_BLOCK_SIZE then
        (if has (CardType m) 4 then
           (case read_register H ACMD13 csd 16 m of (ok, csd, m) \<Rightarrow>
              if ok then
                (RES_OK, ST_DWORD buff 0 (push_bit (unat (drop_bit 4 (csd ! 10))) 16), snd (rcvr_n H 48 m))
              else (RES_ERROR, buff, m))
         else
           (case read_register H CMD9 csd 16 m of (ok, csd, m) \<Rightarrow>
              if ok then (RES_OK, ST_DWORD buff 0 (csd_erase_block (CardType m) csd), m)
              else (RES_ERROR, buff, m)))
      else if ctrl = MMC_GET_TYPE then (RES_OK, buff[0 := CardType m], m)
      else if ctrl = MMC_GET_CSD \<or> ctrl = MMC_GET_CID then
        (case read_register H (if ctrl = MMC_GET_CSD then CMD9 else CMD10) buff 16 m of (ok, buff, m) \<Rightarrow>
           (if ok then RES_OK else RES_ERROR, buff, m))
      else if ctrl = MMC_GET_OCR then
        (case send_cmd H CMD58 0 m of (r, m) \<Rightarrow>
           if r = 0 then (case rcvr_n H 4 m of (bs, m) \<Rightarrow> (RES_OK, blit buff 0 bs, m))
           else (RES_ERROR, buff, m))
      else if ctrl = MMC_GET_SDSTAT then
        (case read_register H ACMD13 buff 64 m of (ok, buff, m) \<Rightarrow>
           (if ok then RES_OK else RES_ERROR, buff, m))
      else (RES_PARERR, buff, m))"

definition disk_ioctl ::
  "'h spi_hw \<Rightarrow> BYTE \<Rightarrow> BYTE \<Rightarrow> BYTE list \<Rightarrow> BYTE list \<Rightarrow> 'h mmc \<Rightarrow> DRESULT \<times> BYTE list \<times> 'h mmc" where
  "disk_ioctl H drv ctrl csd buff m =
     (if drv \<noteq> 0 then (RES_PARERR, buff, m)
      else if ctrl = CTRL_POWER then ioctl_power H buff m
      else if has (Stat m) STA_NOINIT then (RES_NOTRDY, buff, m)
      else (case ioctl_query H ctrl csd buff m of (res, buff, m) \<Rightarrow> (res, buff, release_spi H m)))"

section \<open>The driver as the disk of the file system\<close>

definition mmc_io :: "bool \<Rightarrow> 'h spi_hw \<Rightarrow> 'h mmc diskio" where
  "mmc_io ro H =
     \<lparr>FS_READONLY = ro, dio_initialize = disk_initialize H, dio_status = disk_status,
      dio_read = disk_read H, dio_write = disk_write H,
      dio_ioctl_sync = (\<lambda>drv m. case disk_ioctl H drv CTRL_SYNC [] [] m of (res, _, m) \<Rightarrow> (res, m))\<rparr>"

end
