(* ===== verification/SdCard.thy ===== *)
theory SdCard
  imports Mmc
begin

text \<open>
  What the driver relies on: an SD card in SPI mode as an automaton over the bytes exchanged on the bus,
  with its answers, its failures and, within the limits of its specification, its delays left open.  The
  locale \<open>sd_card\<close> says that the hardware behind the SPI port is such a card.

  A multiple block read ends with \<open>CMD12\<close>, which the card takes at any byte of the transfer, and a multiple
  block write with the stop token.  The specification wants the chip select low for a whole transaction,
  but \<open>send_cmd\<close> raises it before every command, also before the \<open>CMD12\<close> that ends a read.  What a card does
  then is left open: it may go on as if nothing had happened, or give the transaction up.
\<close>

section \<open>The automaton\<close>

text \<open>
  \<open>Frame bs\<close> has received the first bytes of a command, \<open>Wait k c a\<close> has a whole command and answers it after
  at most \<open>k\<close> bytes, \<open>Stuff a\<close> sends a byte without meaning before the answer to \<open>CMD12\<close>, \<open>Tail bs\<close> has the
  bytes \<open>bs\<close> of the answer still to send.  \<open>DataWait n multi\<close> prepares block \<open>n\<close>, \<open>Data\<close> sends it and its
  checksum.  \<open>WriteWait n multi\<close> expects the start of block \<open>n\<close>, \<open>WriteData\<close> receives it and its checksum,
  \<open>WriteResp\<close> answers.  \<open>Busy\<close> and \<open>BusyW n\<close> are programming.  After a byte it does not expect the card is
  \<open>Lost\<close>.
\<close>

datatype phase = Ready | Busy | Frame "BYTE list" | Wait nat BYTE DWORD | Stuff DWORD | Tail "BYTE list"
  | DataWait nat bool | Data "BYTE list" nat bool | DataCrc nat nat bool
  | WriteWait nat bool | WriteData "BYTE list" nat bool | WriteResp "BYTE list" nat bool | BusyW nat
  | Lost

type_synonym medium = "nat \<Rightarrow> BYTE list"

definition frame_arg :: "BYTE list \<Rightarrow> DWORD" where
  "frame_arg bs = push_bit 24 (ucast (bs ! 1)) OR push_bit 16 (ucast (bs ! 2))
     OR push_bit 8 (ucast (bs ! 3)) OR ucast (bs ! 4)"

text \<open>The block an argument addresses: its number on a high capacity card, otherwise its first byte.\<close>

definition block_of :: "bool \<Rightarrow> DWORD \<Rightarrow> nat" where
  "block_of hc a = (if hc then unat a else unat a div 512)"

text \<open>The phases of a multiple block read, in which the card takes \<open>CMD12\<close>.\<close>

fun reading_on :: "phase \<Rightarrow> bool" where
  "reading_on (DataWait n multi) = multi"
| "reading_on (Data ds n multi) = multi"
| "reading_on (DataCrc k n multi) = multi"
| "reading_on ph = False"

fun expects :: "phase \<Rightarrow> BYTE \<Rightarrow> bool" where
  "expects Ready b = (b = 0xFF \<or> b AND 0xC0 = 0x40)"
| "expects (Frame bs) b = (length bs \<le> 5)"
| "expects (Tail bs) b = (b = 0xFF \<and> bs \<noteq> [])"
| "expects (DataWait n multi) b = (b = 0xFF \<or> multi \<and> b = CMD12)"
| "expects (Data ds n multi) b = (b = 0xFF \<and> ds \<noteq> [] \<or> multi \<and> b = CMD12)"
| "expects (DataCrc k n multi) b = (b = 0xFF \<and> k \<noteq> 0 \<or> multi \<and> b = CMD12)"
| "expects (WriteWait n multi) b = (b = 0xFF \<or> b = (if multi then 0xFC else 0xFE) \<or> multi \<and> b = 0xFD)"
| "expects (WriteData bs n multi) b = (length bs \<le> 513)"
| "expects Lost b = False"
| "expects _ b = (b = 0xFF)"

text \<open>
  The phase after an answer \<open>r\<close> with bit 7 clear.  \<open>CMD8\<close> sends the interface conditions if the card, which
  is idle then, knows the command.  \<open>CMD58\<close> sends the OCR, whose bit 30 says whether the card has high capacity.  A card of high
  capacity does not leave the idle state for a host that does not announce its support in bit 30.
\<close>

inductive answered :: "bool \<Rightarrow> BYTE \<Rightarrow> DWORD \<Rightarrow> BYTE \<Rightarrow> phase \<Rightarrow> bool" for hc where
  read_one: "answered hc CMD17 a 0 (DataWait (block_of hc a) False)"
| read_many: "answered hc CMD18 a 0 (DataWait (block_of hc a) True)"
| write_one: "answered hc CMD24 a 0 (WriteWait (block_of hc a) False)"
| write_many: "answered hc CMD25 a 0 (WriteWait (block_of hc a) True)"
| conditions: "length bs = 4 \<Longrightarrow> answered hc CMD8 a 1 (Tail bs)"
| ocr: "length bs = 4 \<Longrightarrow> r \<le> 1 \<Longrightarrow> r = 0 \<longrightarrow> (has (bs ! 0) 0x40 \<longleftrightarrow> hc) \<Longrightarrow> answered hc CMD58 a r (Tail bs)"
| refused: "r \<noteq> 0 \<Longrightarrow> answered hc c a r Ready"
| plain: "c \<notin> {CMD8, CMD17, CMD18, CMD24, CMD25, CMD58} \<Longrightarrow> ph = Ready \<or> ph = Busy \<Longrightarrow>
    hc \<and> r = 0 \<and> c \<in> {CMD1, ACMD41 AND 0x7F} \<longrightarrow> bit a 30 \<Longrightarrow> answered hc c a r ph"

inductive_cases answered_read_one: "answered hc CMD17 a 0 ph"
inductive_cases answered_read_many: "answered hc CMD18 a 0 ph"
inductive_cases answered_write_one: "answered hc CMD24 a 0 ph"
inductive_cases answered_write_many: "answered hc CMD25 a 0 ph"
inductive_cases answered_conditions: "answered hc CMD8 a r ph"
inductive_cases answered_init: "answered hc c a 0 ph"
inductive_cases answered_ocr: "answered hc CMD58 a 0 ph"

text \<open>
  \<open>card_step hc ph S b r ph' S'\<close>: the card receives \<open>b\<close> while it sends \<open>r\<close>.  An answer comes after at most 8
  bytes.  After an error in a multiple block read the card may or may not wait for \<open>CMD12\<close>.
\<close>

inductive card_step :: "bool \<Rightarrow> phase \<Rightarrow> medium \<Rightarrow> BYTE \<Rightarrow> BYTE \<Rightarrow> phase \<Rightarrow> medium \<Rightarrow> bool" for hc where
  ready: "card_step hc Ready S 0xFF 0xFF Ready S"
| busy: "r \<noteq> 0xFF \<Longrightarrow> card_step hc Busy S 0xFF r Busy S"
| busy_end: "card_step hc Busy S 0xFF 0xFF Ready S"
| command: "b AND 0xC0 = 0x40 \<Longrightarrow> card_step hc Ready S b r (Frame [b]) S"
| frame: "length bs < 5 \<Longrightarrow> card_step hc (Frame bs) S b r (Frame (bs @ [b])) S"
| frame_end: "length bs = 5 \<Longrightarrow> card_step hc (Frame bs) S b r (Wait 8 (bs ! 0) (frame_arg bs)) S"
| frame_stop: "length bs = 5 \<Longrightarrow> bs ! 0 = CMD12 \<Longrightarrow> card_step hc (Frame bs) S b r (Stuff (frame_arg bs)) S"
| stuff: "card_step hc (Stuff a) S 0xFF r (Wait 8 CMD12 a) S"
| wait: "has r 0x80 \<Longrightarrow> card_step hc (Wait (Suc k) c a) S 0xFF r (Wait k c a) S"
| answer: "\<not> has r 0x80 \<Longrightarrow> answered hc c a r ph \<Longrightarrow> card_step hc (Wait k c a) S 0xFF r ph S"
| tail: "card_step hc (Tail (d # bs)) S 0xFF d (if bs = [] then Ready else Tail bs) S"
| data_wait: "card_step hc (DataWait n multi) S 0xFF 0xFF (DataWait n multi) S"
| data_start: "card_step hc (DataWait n multi) S 0xFF 0xFE (Data (S n) n multi) S"
| data_error: "r \<noteq> 0xFF \<Longrightarrow> r \<noteq> 0xFE \<Longrightarrow> ph = Ready \<or> multi \<and> ph = DataWait n True \<Longrightarrow>
    card_step hc (DataWait n multi) S 0xFF r ph S"
| data: "card_step hc (Data (d # ds) n multi) S 0xFF d (if ds = [] then DataCrc 2 n multi else Data ds n multi) S"
| data_crc: "card_step hc (DataCrc (Suc k) n multi) S 0xFF r
    (if k \<noteq> 0 then DataCrc k n multi else if multi then DataWait (n + 1) True else Ready) S"
| stop: "reading_on ph \<Longrightarrow> card_step hc ph S CMD12 r (Frame [CMD12]) S"
| write_wait: "card_step hc (WriteWait n multi) S 0xFF 0xFF (WriteWait n multi) S"
| write_start: "b = (if multi then 0xFC else 0xFE) \<Longrightarrow> card_step hc (WriteWait n multi) S b r (WriteData [] n multi) S"
| write_stop: "card_step hc (WriteWait n True) S 0xFD r Busy S"
| write_data: "length bs < 513 \<Longrightarrow> card_step hc (WriteData bs n multi) S b r (WriteData (bs @ [b]) n multi) S"
| write_last: "length bs = 513 \<Longrightarrow> card_step hc (WriteData bs n multi) S b r (WriteResp (take 512 bs) n multi) S"
| accept: "r AND 0x1F = 0x05 \<Longrightarrow>
    card_step hc (WriteResp bs n multi) S 0xFF r (if multi then BusyW (n + 1) else Busy) (S(n := bs))"
| reject: "r AND 0x1F \<noteq> 0x05 \<Longrightarrow> length bs' = 512 \<Longrightarrow>
    card_step hc (WriteResp bs n multi) S 0xFF r (if multi then BusyW n else Busy) (S(n := bs'))"
| busy_w: "r \<noteq> 0xFF \<Longrightarrow> card_step hc (BusyW n) S 0xFF r (BusyW n) S"
| busy_w_end: "card_step hc (BusyW n) S 0xFF 0xFF (WriteWait n True) S"
| lost: "\<not> expects ph b \<Longrightarrow> card_step hc ph S b r Lost S'"

inductive_cases ready_ff: "card_step hc Ready S 0xFF r ph S'"
inductive_cases ready_cmd: "card_step hc Ready S b r ph S'"
inductive_cases busy_ff: "card_step hc Busy S 0xFF r ph S'"
inductive_cases frame_any: "card_step hc (Frame bs) S b r ph S'"
inductive_cases stuff_ff: "card_step hc (Stuff a) S 0xFF r ph S'"
inductive_cases wait_ff: "card_step hc (Wait k c a) S 0xFF r ph S'"
inductive_cases tail_ff: "card_step hc (Tail bs) S 0xFF r ph S'"
inductive_cases data_wait_ff: "card_step hc (DataWait n multi) S 0xFF r ph S'"
inductive_cases data_ff: "card_step hc (Data ds n multi) S 0xFF r ph S'"
inductive_cases data_crc_ff: "card_step hc (DataCrc k n multi) S 0xFF r ph S'"
inductive_cases data_wait_any: "card_step hc (DataWait n multi) S b r ph S'"
inductive_cases data_any: "card_step hc (Data ds n multi) S b r ph S'"
inductive_cases data_crc_any: "card_step hc (DataCrc k n multi) S b r ph S'"
inductive_cases write_wait_any: "card_step hc (WriteWait n multi) S b r ph S'"
inductive_cases write_data_any: "card_step hc (WriteData bs n multi) S b r ph S'"
inductive_cases write_resp_ff: "card_step hc (WriteResp bs n multi) S 0xFF r ph S'"
inductive_cases busy_w_ff: "card_step hc (BusyW n) S 0xFF r ph S'"

text \<open>A card that gives up its transaction as the chip select is raised; programming goes on.\<close>

fun given_up :: "phase \<Rightarrow> phase" where
  "given_up Busy = Busy"
| "given_up (BusyW n) = Busy"
| "given_up Lost = Lost"
| "given_up _ = Ready"

text \<open>The byte number \<open>k\<close> the card sends from now on, if the host only clocks it.\<close>

definition sent :: "'h spi_hw \<Rightarrow> nat \<Rightarrow> 'h \<Rightarrow> BYTE" where
  "sent H k h = fst (spi_xfer H 0xFF (((\<lambda>h. snd (spi_xfer H 0xFF h)) ^^ k) h))"

text \<open>
  The driver's state between two calls: no transaction is under way, the card type the driver has noted
  has the right addressing, and the medium has sectors of 512 bytes.
\<close>

definition card_ok :: "('h \<Rightarrow> phase) \<Rightarrow> ('h \<Rightarrow> medium) \<Rightarrow> bool \<Rightarrow> 'h mmc \<Rightarrow> bool" where
  "card_ok ph medium hc m \<longleftrightarrow>
     ph (spi m) \<in> {Busy, Ready} \<and> (has (CardType m) 8 \<longleftrightarrow> hc) \<and> (\<forall>n. length (medium (spi m) n) = 512)"

section \<open>The card behind the port\<close>

text \<open>
  The laws: the bytes exchanged follow the automaton; lowering the chip select changes nothing, raising it
  leaves the card as it is or makes it give up.  The two laws on time are the limits of the specification
  against the driver's timers: a card that programs, or sends blocks with the gaps between them, sends a
  byte 0xFF before a timer set to 500 ms runs out, and a card that prepares a block sends the start of
  it, or an error, before a timer set to 100 ms does.
\<close>

locale sd_card =
  fixes H :: "'h spi_hw"
    and ph :: "'h \<Rightarrow> phase"
    and medium :: "'h \<Rightarrow> medium"
    and hc :: bool
    and cap :: nat
  assumes xfer: "spi_xfer H b h = (r, h') \<Longrightarrow> card_step hc (ph h) (medium h) b r (ph h') (medium h')"
    and select: "ph (spi_cs H False h) = ph h \<and> medium (spi_cs H False h) = medium h"
    and deselect: "ph (spi_cs H True h) \<in> {ph h, given_up (ph h)} \<and> medium (spi_cs H True h) = medium h"
    and ready_in_time: "ph h = Busy \<or> ph h = BusyW n \<or> ph h = DataWait n True \<Longrightarrow>
      \<forall>i. length (medium h i) = 512 \<Longrightarrow> \<exists>k \<le> timer_polls H 50 h. sent H (Suc k) h = 0xFF"
    and block_in_time: "ph h = DataWait n multi \<Longrightarrow> \<forall>i. length (medium h i) = 512 \<Longrightarrow>
      \<exists>k \<le> timer_polls H 10 h. sent H k h \<noteq> 0xFF"
    and capacity: "cap < 2 ^ 32" "\<not> hc \<Longrightarrow> cap \<le> 2 ^ 23"

end
