(* ===== verification/MmcProps.thy ===== *)
theory MmcProps
  imports SdCard
begin

text \<open>
  The driver against the card: what each transfer does to the card, from the bytes up to \<open>disk_read\<close> and
  \<open>disk_write\<close>, and from there the contract \<open>disk_device\<close> for the driver's own functions.
\<close>

section \<open>Bytes and waiting\<close>

lemma frame_arg_cmd_frame: "frame_arg (cmd_frame c a) = a"
proof (rule bit_word_eqI)
  fix n assume "n < LENGTH(32)"
  then have "n < 8 \<or> 8 \<le> n \<and> n < 16 \<or> 16 \<le> n \<and> n < 24 \<or> 24 \<le> n \<and> n < 32" by auto
  then show "bit (frame_arg (cmd_frame c a)) n = bit a n"
    unfolding frame_arg_def cmd_frame_def
    by (elim disjE) (auto simp: bit_simps)
qed

lemma answered_transfer:
  "answered hc CMD17 a 0 q \<Longrightarrow> q = DataWait (block_of hc a) False"
  "answered hc CMD18 a 0 q \<Longrightarrow> q = DataWait (block_of hc a) True"
  "answered hc CMD24 a 0 q \<Longrightarrow> q = WriteWait (block_of hc a) False"
  "answered hc CMD25 a 0 q \<Longrightarrow> q = WriteWait (block_of hc a) True"
     apply (erule answered_read_one; simp add: cmd_defs)
    apply (erule answered_read_many; simp add: cmd_defs)
   apply (erule answered_write_one; simp add: cmd_defs)
  apply (erule answered_write_many; simp add: cmd_defs)
  done

lemma transfer_codes:
  "CMD17 AND 0x7F \<noteq> CMD12" "CMD18 AND 0x7F \<noteq> CMD12" "CMD24 AND 0x7F \<noteq> CMD12" "CMD25 AND 0x7F \<noteq> CMD12"
  "ACMD23 AND 0x7F \<noteq> CMD12" "CMD17 \<noteq> CMD8 \<and> CMD17 \<noteq> CMD58" "CMD18 \<noteq> CMD8 \<and> CMD18 \<noteq> CMD58"
  "CMD24 \<noteq> CMD8 \<and> CMD24 \<noteq> CMD58" "CMD25 \<noteq> CMD8 \<and> CMD25 \<noteq> CMD58"
  "ACMD23 AND 0x7F \<notin> {CMD8, CMD17, CMD18, CMD24, CMD25, CMD58}"
  by (simp_all add: cmd_defs)

lemma command_codes:
  "(CMD12 AND 0x7F) AND 0xC0 = 0x40" "(CMD17 AND 0x7F) AND 0xC0 = 0x40" "(CMD18 AND 0x7F) AND 0xC0 = 0x40"
  "(CMD24 AND 0x7F) AND 0xC0 = 0x40" "(CMD25 AND 0x7F) AND 0xC0 = 0x40" "(ACMD23 AND 0x7F) AND 0xC0 = 0x40"
  by (simp_all add: cmd_defs)

lemma not_application:
  "\<not> has CMD17 0x80 \<and> CMD17 \<noteq> CMD12" "\<not> has CMD18 0x80 \<and> CMD18 \<noteq> CMD12"
  "\<not> has CMD24 0x80 \<and> CMD24 \<noteq> CMD12" "\<not> has CMD25 0x80 \<and> CMD25 \<noteq> CMD12" "\<not> has 0 0x80"
  by (simp_all add: cmd_defs has_def)

lemma stop_code: "\<not> has CMD12 0x80"
  by (simp add: cmd_defs has_def)

lemma not_clock [simp]: "CMD12 \<noteq> 0xFF" "0xFF \<noteq> CMD12"
  by (simp_all add: cmd_defs)

lemma has_bit7: "has r 0x80 \<Longrightarrow> r \<noteq> 0"
  by (auto simp: has_def)

lemma and_7F: "\<not> has c 0x80 \<Longrightarrow> c AND 0x7F = c"
proof -
  assume a: "\<not> has c 0x80"
  have "c = c AND (- 1)" by simp
  also have "\<dots> = c AND (0x80 OR 0x7F)" by (rule arg_cong [where f = "\<lambda>x. c AND x"]) simp
  also have "\<dots> = (c AND 0x80) OR (c AND 0x7F)" by (rule bit.conj_disj_distrib)
  finally show ?thesis using a by (simp add: has_def)
qed

lemma store_sectors_Suc:
  "store_sectors (S(n := take 512 buff)) (n + 1) k (drop 512 buff) = store_sectors S n (Suc k) buff"
proof
  fix i
  have "slice ((i - Suc n) * 512) 512 (drop 512 buff) = slice ((i - n) * 512) 512 buff" if "n < i"
  proof -
    have "i - n = Suc (i - Suc n)" using that by simp
    then show ?thesis by (simp add: slice_def add.commute)
  qed
  then show "store_sectors (S(n := take 512 buff)) (n + 1) k (drop 512 buff) i = store_sectors S n (Suc k) buff i"
    by (auto simp: store_sectors_def slice_def)
qed

lemma answered_idle:
  assumes "answered hc c a r q" and "r \<noteq> 0 \<and> c \<noteq> CMD8 \<and> c \<noteq> CMD58 \<or> c \<notin> {CMD8, CMD17, CMD18, CMD24, CMD25, CMD58}"
  shows "q \<in> {Busy, Ready}"
  using assms(1) by cases (use assms(2) in auto)

text \<open>The waiting loops against the bytes the card is going to send.\<close>

lemma sent_rcvr: "rcvr_spi H m = (r, m') \<Longrightarrow> sent H 0 (spi m) = r \<and> sent H (Suc k) (spi m) = sent H k (spi m')"
  by (auto simp: sent_def rcvr_spi_def funpow_Suc_right simp del: funpow.simps split: prod.splits)

lemma wait_loop_in_time:
  assumes "k \<le> n" "sent H k (spi m) = 0xFF"
  shows "fst (wait_loop H n m) = 0xFF"
  using assms
proof (induction n arbitrary: k m)
  case 0
  obtain r m' where 1: "rcvr_spi H m = (r, m')" by fastforce
  then show ?case using 0 sent_rcvr [OF 1] by simp
next
  case (Suc n)
  obtain r m' where 1: "rcvr_spi H m = (r, m')" by fastforce
  show ?case using Suc.IH [of "k - 1" m'] Suc.prems sent_rcvr [OF 1] by (cases k) (auto simp: 1)
qed

lemma wait_token_in_time:
  assumes "k \<le> n" "sent H k (spi m) \<noteq> 0xFF"
  shows "fst (wait_token H n m) \<noteq> 0xFF"
  using assms
proof (induction n arbitrary: k m)
  case 0
  obtain r m' where 1: "rcvr_spi H m = (r, m')" by fastforce
  then show ?case using 0 sent_rcvr [OF 1] by simp
next
  case (Suc n)
  obtain r m' where 1: "rcvr_spi H m = (r, m')" by fastforce
  show ?case using Suc.IH [of "k - 1" m'] Suc.prems sent_rcvr [OF 1] by (cases k) (auto simp: 1)
qed

text \<open>What every received byte keeps, \<open>wait_ready\<close> keeps.\<close>

lemma wait_loop_keeps:
  assumes "\<And>m r m'. Q m \<Longrightarrow> rcvr_spi H m = (r, m') \<Longrightarrow> Q m'" and "Q m" "wait_loop H n m = (r, m')"
  shows "Q m'"
  using assms(2,3)
proof (induction n arbitrary: m)
  case (Suc n)
  obtain r1 m1 where 1: "rcvr_spi H m = (r1, m1)" by fastforce
  have "Q m1" using assms(1) [OF Suc.prems(1) 1] .
  then show ?case using Suc.IH [of m1] Suc.prems(2) by (auto simp: 1 split: if_splits)
qed (use assms(1) in auto)

lemma wait_ready_keeps:
  assumes "\<And>m r m'. Q m \<Longrightarrow> rcvr_spi H m = (r, m') \<Longrightarrow> Q m'" and "Q m" "wait_ready H m = (r, m')"
  shows "Q m'"
proof -
  obtain r1 m1 where 1: "rcvr_spi H m = (r1, m1)" by fastforce
  have "Q m1" using assms(1) [OF assms(2) 1] .
  have l: "wait_loop H (timer_polls H 50 (spi m)) m1 = (r, m')" using assms(3) by (simp add: wait_ready_def Let_def 1)
  show ?thesis by (rule wait_loop_keeps [of Q H, OF _ \<open>Q m1\<close> l]) (rule assms(1))
qed

lemma xmit_n_append: "xmit_n H (bs @ cs) m = xmit_n H cs (xmit_n H bs m)"
  by (induction bs arbitrary: m) simp_all

context sd_card
begin

definition P :: "'h mmc \<Rightarrow> phase" where "P m = ph (spi m)"
definition M :: "'h mmc \<Rightarrow> medium" where "M m = medium (spi m)"

definition kept :: "'h mmc \<Rightarrow> 'h mmc \<Rightarrow> bool" where
  "kept m m' \<longleftrightarrow> Stat m' = Stat m \<and> CardType m' = CardType m \<and> M m' = M m"

lemma kept_refl [simp]: "kept m m"
  by (simp add: kept_def)

lemma kept_trans: "kept m m' \<Longrightarrow> kept m' m'' \<Longrightarrow> kept m m''"
  by (simp add: kept_def)

lemma rcvr_step:
  assumes "rcvr_spi H m = (r, m')"
  shows "card_step hc (P m) (M m) 0xFF r (P m') (M m')" "Stat m' = Stat m" "CardType m' = CardType m"
  using assms xfer [where b = "0xFF" and h = "spi m"] by (auto simp: rcvr_spi_def P_def M_def split: prod.splits)

lemma xmit_step:
  "\<exists>r. card_step hc (P m) (M m) b r (P (xmit_spi H b m)) (M (xmit_spi H b m))"
  "Stat (xmit_spi H b m) = Stat m" "CardType (xmit_spi H b m) = CardType m"
proof -
  obtain r h where x: "spi_xfer H b (spi m) = (r, h)" by fastforce
  show "\<exists>r. card_step hc (P m) (M m) b r (P (xmit_spi H b m)) (M (xmit_spi H b m))"
    using xfer [OF x] by (auto simp: xmit_spi_def P_def M_def x)
qed (simp_all add: xmit_spi_def)

lemma select_step [simp]:
  "P (SELECT H m) = P m" "kept m (SELECT H m)" "kept m (DESELECT H m)"
  using select [of "spi m"] deselect [of "spi m"]
  by (simp_all add: SELECT_def DESELECT_def P_def M_def kept_def)

lemma deselect_step: "P (DESELECT H m) \<in> {P m, given_up (P m)}"
  using deselect [of "spi m"] by (simp add: DESELECT_def P_def)

text \<open>The sectors of the medium have 512 bytes; the card has no transaction under way.\<close>

definition sized :: "'h mmc \<Rightarrow> bool" where
  "sized m \<longleftrightarrow> (\<forall>i. length (M m i) = 512)"

definition idle :: "'h mmc \<Rightarrow> bool" where
  "idle m \<longleftrightarrow> P m \<in> {Busy, Ready}"

lemma kept_sized: "kept m m' \<Longrightarrow> sized m' = sized m"
  by (simp add: kept_def sized_def)

text \<open>A pair of phases of which the first is programming and the second is done.\<close>

definition settles :: "phase \<Rightarrow> phase \<Rightarrow> bool" where
  "settles b q \<longleftrightarrow> b = Busy \<and> q = Ready \<or> (\<exists>n. b = BusyW n \<and> q = WriteWait n True) \<or> (\<exists>n. b = WriteWait n False \<and> q = b)"

lemma settles_idle: "settles Busy Ready"
  by (simp add: settles_def)

lemma settles_step:
  assumes "settles b q" and "P m \<in> {b, q}" and "rcvr_spi H m = (r, m')"
  shows "P m' \<in> {b, q}" "r = 0xFF \<Longrightarrow> P m' = q" "P m = q \<Longrightarrow> r = 0xFF" "kept m m'"
  using rcvr_step [OF assms(3)] assms(1,2)
  by (auto simp: settles_def kept_def elim!: busy_ff ready_ff busy_w_ff write_wait_any split: if_splits)

lemma wait_loop_settles:
  assumes "settles b q" and "P m \<in> {b, q}" and "wait_loop H n m = (r, m')"
  shows "P m' \<in> {b, q} \<and> (r = 0xFF \<longrightarrow> P m' = q) \<and> (P m = q \<longrightarrow> r = 0xFF) \<and> kept m m'"
  using assms(2,3)
proof (induction n arbitrary: m)
  case 0
  then have "rcvr_spi H m = (r, m')" by simp
  from settles_step [OF assms(1) 0(1) this] show ?case by blast
next
  case (Suc n)
  obtain r1 m1 where 1: "rcvr_spi H m = (r1, m1)" by fastforce
  note s = settles_step [OF assms(1) Suc.prems(1) 1]
  show ?case
  proof (cases "r1 = 0xFF")
    case True
    then have "r = r1" "m' = m1" using Suc.prems(2) by (simp_all add: 1)
    then show ?thesis using s True by blast
  next
    case False
    then have "wait_loop H n m1 = (r, m')" using Suc.prems(2) by (simp add: 1)
    from Suc.IH [OF s(1) this] show ?thesis using s(3,4) False kept_trans by blast
  qed
qed

text \<open>The programming ends before the timer does.\<close>

lemma wait_ready_settles:
  assumes b: "settles b q" and p: "P m \<in> {b, q}" and "sized m" and w: "wait_ready H m = (r, m')"
  shows "r = 0xFF" "P m' = q" "kept m m'"
proof -
  let ?n = "timer_polls H 50 (spi m)"
  obtain r1 m1 where 1: "rcvr_spi H m = (r1, m1)" by fastforce
  note s = settles_step [OF b p 1]
  have l: "wait_loop H ?n m1 = (r, m')" using w by (simp add: wait_ready_def Let_def 1)
  note t = wait_loop_settles [OF b s(1) l]
  show r: "r = 0xFF"
  proof (cases "P m = q")
    case True
    then show ?thesis using t s by simp
  next
    case False
    then have "P m = Busy \<or> (\<exists>n. P m = BusyW n)" using b p by (auto simp: settles_def)
    then obtain k where "k \<le> ?n" "sent H (Suc k) (spi m) = 0xFF"
      using ready_in_time [of "spi m"] assms(3) by (auto simp: P_def M_def sized_def)
    then show ?thesis using wait_loop_in_time [of k ?n H m1] sent_rcvr [OF 1] l by simp
  qed
  show "P m' = q" "kept m m'" using t r s(4) kept_trans by blast+
qed

lemma idle_deselect: "idle m \<Longrightarrow> idle (DESELECT H m)"
  using deselect_step [of m] by (auto simp: idle_def)

lemma idle_rcvr: "idle m \<Longrightarrow> rcvr_spi H m = (r, m') \<Longrightarrow> idle m' \<and> kept m m'"
  using settles_step(1,4) [OF settles_idle, of m r m'] unfolding idle_def by blast

text \<open>Releasing the bus leaves a card at rest at rest.\<close>

lemma release_spi_idle:
  assumes "idle m"
  shows "idle (release_spi H m)" "kept m (release_spi H m)"
proof -
  obtain r m' where 1: "rcvr_spi H (DESELECT H m) = (r, m')" by fastforce
  note s = idle_rcvr [OF idle_deselect [OF assms] 1]
  then show "idle (release_spi H m)" "kept m (release_spi H m)"
    using kept_trans [OF select_step(3)] by (simp_all add: release_spi_def 1)
qed

section \<open>Commands\<close>

lemma frame_step:
  assumes "P m = Frame bs"
  shows "length bs < 5 \<Longrightarrow> P (xmit_spi H b m) = Frame (bs @ [b])"
    "length bs = 5 \<Longrightarrow> P (xmit_spi H b m) = Wait 8 (bs ! 0) (frame_arg bs)
      \<or> bs ! 0 = CMD12 \<and> P (xmit_spi H b m) = Stuff (frame_arg bs)"
    "length bs \<le> 5 \<Longrightarrow> kept m (xmit_spi H b m)"
  using xmit_step [where m = m and b = b] assms by (auto simp: kept_def elim!: frame_any)

lemma frame_more:
  assumes "P m = Frame bs" "length bs + length cs = 5"
  shows "P (xmit_n H cs m) = Frame (bs @ cs) \<and> kept m (xmit_n H cs m)"
  using assms
proof (induction cs arbitrary: bs m)
  case (Cons c cs)
  have 1: "P (xmit_spi H c m) = Frame (bs @ [c])" "kept m (xmit_spi H c m)"
    using frame_step [where m = m and bs = bs and b = c] Cons.prems by auto
  show ?case using Cons.IH [OF 1(1)] Cons.prems(2) 1(2) kept_trans by auto
qed simp

text \<open>A command frame of which the card has taken the first byte is received.\<close>

lemma xmit_frame:
  assumes "P (xmit_spi H c m) = Frame [c]" and k: "kept m (xmit_spi H c m)"
  shows "(P (xmit_n H (cmd_frame c a) m) = Wait 8 c a \<or> c = CMD12 \<and> P (xmit_n H (cmd_frame c a) m) = Stuff a)
    \<and> kept m (xmit_n H (cmd_frame c a) m)"
proof -
  define cs where "cs = [ucast (drop_bit 24 a), ucast (drop_bit 16 a), ucast (drop_bit 8 a), ucast a :: BYTE]"
  define z :: BYTE where "z = (if c = CMD8 then 0x87 else if c = CMD0 then 0x95 else 0xFF)"
  have f: "cmd_frame c a = c # cs @ [z]" by (simp add: cmd_frame_def cs_def z_def)
  let ?m = "xmit_n H cs (xmit_spi H c m)"
  have 2: "P ?m = Frame (c # cs)" "kept (xmit_spi H c m) ?m"
    using frame_more [OF assms(1), of cs] by (simp_all add: cs_def)
  have "frame_arg (c # cs) = frame_arg (cmd_frame c a)"
    by (simp add: f frame_arg_def cs_def)
  then have a: "frame_arg (c # cs) = a" by (simp add: frame_arg_cmd_frame)
  have x: "xmit_n H (cmd_frame c a) m = xmit_spi H z ?m"
    by (simp add: f cs_def)
  have l: "length (c # cs) = 5" by (simp add: cs_def)
  have "P (xmit_spi H z ?m) = Wait 8 c a \<or> c = CMD12 \<and> P (xmit_spi H z ?m) = Stuff a"
    using frame_step(2) [OF 2(1) l, where b = z] by (simp add: a)
  moreover have "kept m (xmit_spi H z ?m)"
    using kept_trans [OF k kept_trans [OF 2(2) frame_step(3) [OF 2(1), where b = z]]] l by simp
  ultimately show ?thesis by (simp add: x)
qed

lemma xmit_first:
  assumes "P m = Ready" and "c AND 0xC0 = 0x40"
  shows "P (xmit_spi H c m) = Frame [c]" "kept m (xmit_spi H c m)"
  using xmit_step [where m = m and b = c] assms by (auto simp: kept_def elim!: ready_cmd)

text \<open>The answer comes within the attempts of the driver and puts the card in the phase after the command.\<close>

lemma wait_resp_answer:
  assumes "P m = Wait j c a" "j < n" and "wait_resp H n m = (r, m')"
  shows "kept m m' \<and> \<not> has r 0x80 \<and> answered hc c a r (P m')"
  using assms
proof (induction n arbitrary: j m)
  case (Suc n)
  obtain r1 m1 where 1: "rcvr_spi H m = (r1, m1)" by fastforce
  have a: "kept m m1 \<and> (if has r1 0x80 then j \<noteq> 0 \<and> P m1 = Wait (j - 1) c a else answered hc c a r1 (P m1))"
    using rcvr_step [OF 1] Suc.prems(1) by (auto simp: kept_def elim!: wait_ff)
  show ?case
  proof (cases "has r1 0x80")
    case True
    then have j: "j - 1 < n" "n \<noteq> 0" "P m1 = Wait (j - 1) c a" using Suc.prems(2) a by auto
    then have "wait_resp H n m1 = (r, m')" using Suc.prems(3) True by (simp add: 1)
    from Suc.IH [OF j(3,1) this] show ?thesis using a kept_trans by blast
  next
    case False
    then have "r = r1" "m' = m1" using Suc.prems(3) by (auto simp: 1)
    then show ?thesis using a False by simp
  qed
qed simp

text \<open>A command to a card at rest.\<close>

lemma send_cmd_plain_step:
  assumes "idle m" "sized m" and c: "c AND 0xC0 = 0x40" "c \<noteq> CMD12" and "send_cmd_plain H c a m = (r, m')"
  shows "kept m m'" "\<not> has r 0x80" "answered hc c a r (P m')"
proof -
  let ?m0 = "SELECT H (DESELECT H m)"
  obtain r1 m1 where w: "wait_ready H ?m0 = (r1, m1)" by fastforce
  have k0: "kept m ?m0" by (rule kept_trans [OF select_step(3) select_step(2)])
  have "P ?m0 \<in> {Busy, Ready}" "sized ?m0"
    using idle_deselect [OF assms(1)] kept_sized [OF k0] assms(2) by (simp_all add: idle_def)
  note s = wait_ready_settles [OF settles_idle this w]
  let ?m2 = "xmit_n H (cmd_frame c a) m1"
  have p2: "P ?m2 = Wait 8 c a" "kept m1 ?m2"
    using xmit_frame [OF xmit_first [OF s(2) c(1)], of a] c(2) by auto
  have "wait_resp H 10 ?m2 = (r, m')"
    using assms(5) s(1) c(2) by (simp add: send_cmd_plain_def w Let_def)
  then have a: "kept ?m2 m' \<and> \<not> has r 0x80 \<and> answered hc c a r (P m')"
    using wait_resp_answer [OF p2(1), of 10] by simp
  then show "\<not> has r 0x80" "answered hc c a r (P m')" by simp_all
  show "kept m m'" using kept_trans [OF k0 kept_trans [OF s(3) kept_trans [OF p2(2)]]] a by blast
qed

text \<open>The commands of the driver, application commands included.\<close>

lemma send_cmd_step:
  assumes "idle m" "sized m" and c: "(c AND 0x7F) AND 0xC0 = 0x40" "c AND 0x7F \<noteq> CMD12"
    and "send_cmd H c a m = (r, m')"
  shows "kept m m'" "\<not> has c 0x80 \<Longrightarrow> answered hc c a r (P m')"
    "has c 0x80 \<Longrightarrow> r = 0 \<Longrightarrow> answered hc (c AND 0x7F) a 0 (P m')"
    "c AND 0x7F \<notin> {CMD8, CMD17, CMD18, CMD24, CMD25, CMD58} \<Longrightarrow> idle m'"
proof -
  have res: "kept m m' \<and> (\<not> has c 0x80 \<longrightarrow> answered hc c a r (P m'))
      \<and> (has c 0x80 \<longrightarrow> r = 0 \<longrightarrow> answered hc (c AND 0x7F) a 0 (P m'))
      \<and> (c AND 0x7F \<notin> {CMD8, CMD17, CMD18, CMD24, CMD25, CMD58} \<longrightarrow> idle m')"
  proof (cases "has c 0x80")
    case False
    note e = and_7F [OF False]
    have "send_cmd_plain H c a m = (r, m')" using assms(5) False by (simp add: send_cmd_def)
    note s = send_cmd_plain_step [OF assms(1,2) c [unfolded e] this]
    then show ?thesis using False answered_idle [OF s(3)] by (auto simp: e idle_def)
  next
    case True
    obtain r1 m1 where 1: "send_cmd_plain H CMD55 0 m = (r1, m1)" by fastforce
    have 55: "CMD55 AND 0xC0 = (0x40 :: BYTE)" "CMD55 \<noteq> CMD12"
      "CMD55 \<notin> {CMD8, CMD17, CMD18, CMD24, CMD25, CMD58}" by (simp_all add: cmd_defs)
    note s = send_cmd_plain_step [OF assms(1,2) 55(1,2) 1]
    have i: "idle m1" using answered_idle [OF s(3)] 55(3) by (simp add: idle_def)
    show ?thesis
    proof (cases "r1 > 1")
      case False
      then have "send_cmd_plain H (c AND 0x7F) a m1 = (r, m')"
        using assms(5) True by (simp add: send_cmd_def 1)
      note t = send_cmd_plain_step [OF i _ c this] 
      have "sized m1" using kept_sized [OF s(1)] assms(2) by simp
      note t = t [OF this]
      then show ?thesis using True kept_trans [OF s(1) t(1)] answered_idle [OF t(3)] by (auto simp: idle_def)
    qed (use assms(5) True s i in \<open>auto simp: send_cmd_def 1\<close>)
  qed
  then show "kept m m'" "\<not> has c 0x80 \<Longrightarrow> answered hc c a r (P m')"
    "has c 0x80 \<Longrightarrow> r = 0 \<Longrightarrow> answered hc (c AND 0x7F) a 0 (P m')"
    "c AND 0x7F \<notin> {CMD8, CMD17, CMD18, CMD24, CMD25, CMD58} \<Longrightarrow> idle m'"
    by blast+
qed

section \<open>Stopping a multiple block read\<close>

text \<open>
  \<open>streaming m\<close>: a multiple block read is under way, at any byte, or the card has given it up.  Only
  \<open>CMD12\<close> is certain to end it.
\<close>

definition streaming :: "'h mmc \<Rightarrow> bool" where
  "streaming m \<longleftrightarrow> P m = Ready \<or> (\<exists>n. P m = DataWait n True) \<or> (\<exists>ds n. P m = Data ds n True \<and> ds \<noteq> [])
     \<or> (\<exists>k n. P m = DataCrc (Suc k) n True)"

lemma streaming_rcvr:
  assumes "streaming m" "sized m" "rcvr_spi H m = (r, m')"
  shows "streaming m' \<and> kept m m'"
proof -
  note s = rcvr_step [OF assms(3)]
  consider "P m = Ready" | n where "P m = DataWait n True" | d ds n where "P m = Data (d # ds) n True"
    | k n where "P m = DataCrc (Suc k) n True"
    using assms(1) unfolding streaming_def by (metis neq_Nil_conv)
  then show ?thesis
  proof cases
    case 1
    then show ?thesis using s by (auto simp: streaming_def kept_def elim!: ready_ff)
  next
    case 2
    have "M m n \<noteq> []" using assms(2) by (metis length_0_conv sized_def zero_neq_numeral)
    then show ?thesis using s 2 by (auto simp: streaming_def kept_def elim!: data_wait_ff)
  next
    case 3
    then show ?thesis using s by (auto simp: streaming_def kept_def numeral_2_eq_2 elim!: data_ff split: if_splits)
  next
    case 4
    then have "P m' = (if k \<noteq> 0 then DataCrc k n True else DataWait (n + 1) True) \<and> kept m m'"
      using s by (auto simp: kept_def elim!: data_crc_ff)
    then show ?thesis by (cases k) (auto simp: streaming_def)
  qed
qed

lemma streaming_ready:
  assumes "P m = Ready \<or> P m = DataWait n True" "sized m" "wait_ready H m = (r, m')"
  shows "r = 0xFF" "streaming m'" "kept m m'"
proof -
  let ?n = "timer_polls H 50 (spi m)"
  have "streaming m" using assms(1) by (auto simp: streaming_def)
  moreover have "streaming m2 \<and> kept m m2" if "streaming m1 \<and> kept m m1" "rcvr_spi H m1 = (x, m2)" for m1 x m2
    using streaming_rcvr [OF _ _ that(2)] that(1) kept_sized [of m m1] assms(2) kept_trans by blast
  ultimately have "streaming m' \<and> kept m m'"
    using wait_ready_keeps [where Q = "\<lambda>x. streaming x \<and> kept m x" and m = m, OF _ _ assms(3)] kept_refl by blast
  then show "streaming m'" "kept m m'" by simp_all
  show "r = 0xFF"
  proof (cases "P m = Ready")
    case True
    then show ?thesis using wait_ready_settles(1) [OF settles_idle _ assms(2,3)] by simp
  next
    case False
    then have "ph (spi m) = DataWait n True" "\<forall>i. length (medium (spi m) i) = 512"
      using assms(1,2) by (simp_all add: P_def M_def sized_def)
    then obtain k where k: "k \<le> ?n" "sent H (Suc k) (spi m) = 0xFF" using ready_in_time by blast
    obtain r1 m1 where 1: "rcvr_spi H m = (r1, m1)" by fastforce
    have "wait_loop H ?n m1 = (r, m')" using assms(3) by (simp add: wait_ready_def Let_def 1)
    then show ?thesis using wait_loop_in_time [of k ?n H m1] k sent_rcvr [OF 1] by simp
  qed
qed

text \<open>The card takes \<open>CMD12\<close> at any byte.\<close>

lemma streaming_stop:
  assumes "streaming m"
  shows "P (xmit_spi H CMD12 m) = Frame [CMD12]" "kept m (xmit_spi H CMD12 m)"
proof -
  obtain r where r: "card_step hc (P m) (M m) CMD12 r (P (xmit_spi H CMD12 m)) (M (xmit_spi H CMD12 m))"
    using xmit_step(1) by blast
  have "CMD12 AND 0xC0 = 0x40" by (simp add: cmd_defs)
  then have "P (xmit_spi H CMD12 m) = Frame [CMD12] \<and> M (xmit_spi H CMD12 m) = M m"
    using assms r unfolding streaming_def
    by (elim disjE exE conjE) (auto elim!: ready_cmd data_wait_any data_any data_crc_any)
  then show "P (xmit_spi H CMD12 m) = Frame [CMD12]" "kept m (xmit_spi H CMD12 m)"
    using xmit_step(2,3) by (simp_all add: kept_def)
qed

text \<open>
  \<open>stopping j m\<close>: the card answers \<open>CMD12\<close> after at most \<open>j\<close> more bytes, or has done so.  The byte the driver
  skips may already be the answer.
\<close>

definition stopping :: "nat \<Rightarrow> 'h mmc \<Rightarrow> bool" where
  "stopping j m \<longleftrightarrow> idle m \<or> (\<exists>i \<le> j. \<exists>a. P m = Wait i CMD12 a)"

lemma stopping_rcvr:
  assumes "stopping j m" "rcvr_spi H m = (r, m')"
  shows "stopping (j - 1) m' \<and> (j = 0 \<or> \<not> has r 0x80 \<longrightarrow> idle m') \<and> kept m m'"
proof (cases "idle m")
  case True
  then show ?thesis using idle_rcvr [OF True assms(2)] by (simp add: stopping_def)
next
  case False
  then obtain i a where "i \<le> j" "P m = Wait i CMD12 a" using assms(1) by (auto simp: stopping_def)
  moreover have "idle m'" if "answered hc CMD12 a r (P m')" 
    using answered_idle [OF that] by (simp add: idle_def cmd_defs)
  ultimately show ?thesis
    using rcvr_step [OF assms(2)] by (auto simp: kept_def stopping_def elim!: wait_ff)
qed

lemma wait_resp_stopping:
  assumes "stopping j m" "j < n" and "wait_resp H n m = (r, m')"
  shows "idle m' \<and> kept m m'"
  using assms
proof (induction n arbitrary: j m)
  case (Suc n)
  obtain r1 m1 where 1: "rcvr_spi H m = (r1, m1)" by fastforce
  note s = stopping_rcvr [OF Suc.prems(1) 1]
  show ?case
  proof (cases "has r1 0x80 \<and> n \<noteq> 0")
    case True
    then have "wait_resp H n m1 = (r, m')" using Suc.prems(3) by (simp add: 1)
    moreover have "j - 1 < n" using Suc.prems(2) True by auto
    ultimately show ?thesis using Suc.IH [of "j - 1" m1] s kept_trans by blast
  next
    case False
    then have "m' = m1" using Suc.prems(3) by (auto simp: 1)
    then show ?thesis using s False Suc.prems(2) by auto
  qed
qed simp

text \<open>\<open>CMD12\<close> ends the read, whether the card has gone on while it was deselected or has given up.\<close>

lemma send_stop_step:
  assumes "P m = Ready \<or> P m = DataWait n True" "sized m" and "send_cmd H CMD12 a m = (r, m')"
  shows "idle m' \<and> kept m m'"
proof -
  let ?m0 = "SELECT H (DESELECT H m)"
  obtain r1 m1 where w: "wait_ready H ?m0 = (r1, m1)" by fastforce
  have k0: "kept m ?m0" by (rule kept_trans [OF select_step(3) select_step(2)])
  have "P ?m0 = Ready \<or> P ?m0 = DataWait n True" "sized ?m0"
    using deselect_step [of m] kept_sized [OF k0] assms(1,2) by auto
  note s = streaming_ready [OF this w]
  let ?m2 = "xmit_n H (cmd_frame CMD12 a) m1"
  note f = xmit_frame [OF streaming_stop [OF s(2)], of a]
  obtain r3 m3 where 3: "rcvr_spi H ?m2 = (r3, m3)" by fastforce
  have "stopping 8 m3 \<and> kept ?m2 m3"
  proof (cases "P ?m2 = Stuff a")
    case True
    then show ?thesis using rcvr_step [OF 3] by (auto simp: kept_def stopping_def elim!: stuff_ff)
  next
    case False
    then have "stopping 8 ?m2" using f by (auto simp: stopping_def)
    from stopping_rcvr [OF this 3] show ?thesis by (auto simp: stopping_def)
  qed
  moreover have "wait_resp H 10 m3 = (r, m')"
    using assms(3) s(1) stop_code by (simp add: send_cmd_def send_cmd_plain_def w Let_def 3)
  ultimately have "idle m' \<and> kept ?m2 m'" using wait_resp_stopping [of 8 m3 10] kept_trans by auto
  then show ?thesis using k0 s(3) f kept_trans by blast
qed

section \<open>Reading\<close>

lemma wait_token_step:
  assumes "P m = DataWait n multi" and "wait_token H k m = (t, m')"
  shows "kept m m' \<and> (if t = 0xFF then P m' = DataWait n multi else if t = 0xFE then P m' = Data (M m n) n multi
    else P m' = Ready \<or> multi \<and> P m' = DataWait n True)"
  using assms
proof (induction k arbitrary: m)
  case 0
  then have "rcvr_spi H m = (t, m')" by simp
  from rcvr_step [OF this] 0 show ?case by (auto simp: kept_def elim!: data_wait_ff)
next
  case (Suc k)
  obtain t1 m1 where 1: "rcvr_spi H m = (t1, m1)" by fastforce
  have a: "kept m m1 \<and> (if t1 = 0xFF then P m1 = DataWait n multi else if t1 = 0xFE then P m1 = Data (M m n) n multi
      else P m1 = Ready \<or> multi \<and> P m1 = DataWait n True)"
    using rcvr_step [OF 1] Suc.prems(1) by (auto simp: kept_def elim!: data_wait_ff)
  show ?case
  proof (cases "t1 = 0xFF")
    case True
    then have "P m1 = DataWait n multi" "wait_token H k m1 = (t, m')" "M m1 = M m"
      using a Suc.prems(2) by (simp_all add: 1 kept_def)
    then show ?thesis using Suc.IH [of m1] a kept_trans by auto
  qed (use Suc.prems(2) a in \<open>auto simp: 1\<close>)
qed

lemma rcvr_n_data:
  assumes "P m = Data ds n multi" "ds \<noteq> []" and "rcvr_n H (length ds) m = (bs, m')"
  shows "bs = ds \<and> P m' = DataCrc 2 n multi \<and> kept m m'"
  using assms
proof (induction ds arbitrary: m bs)
  case (Cons d ds)
  obtain r1 m1 where 1: "rcvr_spi H m = (r1, m1)" by fastforce
  have a: "r1 = d" "kept m m1" "P m1 = (if ds = [] then DataCrc 2 n multi else Data ds n multi)"
    using rcvr_step [OF 1] Cons.prems(1) by (auto simp: kept_def elim!: data_ff)
  obtain bs1 where 2: "rcvr_n H (length ds) m1 = (bs1, m')" "bs = d # bs1"
    using Cons.prems(3) a(1) by (auto simp: 1 split: prod.splits)
  show ?case
  proof (cases "ds = []")
    case True
    then show ?thesis using 2 a by simp
  next
    case False
    from Cons.IH [OF _ False 2(1)] show ?thesis using False a 2(2) kept_trans by auto
  qed
qed simp

lemma rcvr_crc:
  assumes "P m = DataCrc 2 n multi"
  shows "P (snd (rcvr_n H 2 m)) = (if multi then DataWait (n + 1) True else Ready)"
    "kept m (snd (rcvr_n H 2 m))"
proof -
  obtain r1 m1 where 1: "rcvr_spi H m = (r1, m1)" by fastforce
  obtain r2 m2 where 2: "rcvr_spi H m1 = (r2, m2)" by fastforce
  have a: "kept m m1" "P m1 = DataCrc 1 n multi"
    using rcvr_step [OF 1] assms by (auto simp: kept_def numeral_2_eq_2 elim!: data_crc_ff)
  have b: "kept m1 m2" "P m2 = (if multi then DataWait (n + 1) True else Ready)"
    using rcvr_step [OF 2] a(2) by (auto simp: kept_def elim!: data_crc_ff)
  have "snd (rcvr_n H 2 m) = m2" by (simp add: numeral_2_eq_2 1 2)
  then show "P (snd (rcvr_n H 2 m)) = (if multi then DataWait (n + 1) True else Ready)"
    "kept m (snd (rcvr_n H 2 m))"
    using b kept_trans [OF a(1) b(1)] by auto
qed

text \<open>
  One block: a delivered block is the card's, a failure leaves the buffer alone.  A single block ends the
  read; otherwise it goes on with the next block, or has failed.
\<close>

lemma rcvr_datablock_step:
  assumes p: "P m = DataWait n multi" and "sized m" and "rcvr_datablock H buff 512 m = (ok, buff', m')"
  shows "kept m m' \<and> buff' = (if ok then blit buff 0 (M m n) else buff)
    \<and> (if \<not> multi then P m' = Ready else if ok then P m' = DataWait (n + 1) True
        else P m' = Ready \<or> P m' = DataWait n True)"
proof -
  obtain t m1 where w: "wait_token H (timer_polls H 10 (spi m)) m = (t, m1)" by fastforce
  have "\<exists>k \<le> timer_polls H 10 (spi m). sent H k (spi m) \<noteq> 0xFF"
    using block_in_time [of "spi m" n multi] assms(1,2) by (simp add: P_def M_def sized_def)
  then have t: "t \<noteq> 0xFF" using wait_token_in_time [of _ _ H m] w by (metis fst_conv)
  note a = wait_token_step [OF assms(1) w]
  have n: "length (M m n) = 512" using assms(2) by (simp add: sized_def)
  show ?thesis
  proof (cases "t = 0xFE")
    case False
    then show ?thesis using assms(3) a t by (auto simp: rcvr_datablock_def w)
  next
    case True
    obtain bs m2 where 2: "rcvr_n H 512 m1 = (bs, m2)" by fastforce
    have "P m1 = Data (M m n) n multi" "M m n \<noteq> []" using a True n by auto
    from rcvr_n_data [OF this, of bs m2] 2 n
    have b: "bs = M m n" "P m2 = DataCrc 2 n multi" "kept m1 m2" by auto
    note c = rcvr_crc [OF b(2)]
    have "ok" "buff' = blit buff 0 bs" "m' = snd (rcvr_n H 2 m2)"
      using assms(3) True by (simp_all add: rcvr_datablock_def w 2)
    then show ?thesis using b(1) c kept_trans [OF conjunct1 [OF a] kept_trans [OF b(3) c(2)]] by auto
  qed
qed

lemma sectors_Suc: "sectors f n (Suc k) = f n @ sectors f (n + 1) k"
  using sectors_add [of f n 1 k] by simp

lemma length_sectors_512: "\<forall>i. length (f i) = 512 \<Longrightarrow> length (sectors f n k) = k * 512"
  by (induction k) (simp_all add: sectors_def)

lemma read_blocks_step:
  assumes "P m = DataWait n True" and "sized m" and "p + 512 * k \<le> length buff"
    and "read_blocks H k buff p m = (left, buff', m')"
  shows "kept m m' \<and> (P m' = Ready \<or> (\<exists>j. P m' = DataWait j True)) \<and> length buff' = length buff
    \<and> (left = 0 \<longrightarrow> buff' = blit buff p (sectors (M m) n k))"
  using assms
proof (induction k arbitrary: n buff p m)
  case (Suc k)
  obtain ok bs m1 where 1: "rcvr_datablock H (drop p buff) 512 m = (ok, bs, m1)" by (metis prod_cases3)
  have l: "length (M m n) = 512" using Suc.prems(2) by (simp add: sized_def)
  note a = rcvr_datablock_step [OF Suc.prems(1,2) 1]
  show ?case
  proof (cases ok)
    case False
    then show ?thesis using Suc.prems(3,4) a by (auto simp: 1 Let_def)
  next
    case True
    let ?b = "blit buff p (M m n)"
    have e: "take p buff @ bs = ?b" using a True by (simp add: blit_def add.commute)
    have m1: "M m1 = M m" "sized m1" using a kept_sized [of m m1] Suc.prems(2) by (simp_all add: kept_def)
    have lb: "length ?b = length buff" using Suc.prems(3) l by simp
    have "read_blocks H k ?b (p + 512) m1 = (left, buff', m')"
      using Suc.prems(4) True by (simp add: 1 Let_def e)
    note IH = Suc.IH [of m1 "n + 1", OF _ _ _ this]
    have "blit ?b (p + 512) (sectors (M m) (n + 1) k) = blit buff p (sectors (M m) n (Suc k))"
      if "length (sectors (M m) (n + 1) k) = k * 512"
      using blit_blit_adjacent [of p "M m n" "sectors (M m) (n + 1) k" buff] Suc.prems(3) l that
      by (simp only: sectors_Suc) simp
    moreover have "length (sectors (M m) (n + 1) k) = k * 512"
      using Suc.prems(2) by (intro length_sectors_512) (simp add: sized_def)
    ultimately show ?thesis
      using IH a True Suc.prems(3) m1 lb kept_trans by auto
  qed
qed simp

section \<open>Addresses\<close>

lemma block_of_address:
  assumes "card_ok ph medium hc m" and "unat n < cap"
  shows "block_of hc (block_address m n) = unat n"
proof (cases hc)
  case True
  then show ?thesis using assms(1) by (simp add: block_of_def block_address_def card_ok_def)
next
  case False
  then have "unat n < 2 ^ 23" using assms(2) capacity(2) by simp
  then have "unat (n * 512) = unat n * 512" by (simp add: unat_word_ariths)
  then show ?thesis using False assms(1) by (simp add: block_of_def block_address_def card_ok_def)
qed

lemma card_ok_kept:
  assumes "card_ok ph medium hc m" "kept m m'" "idle m'"
  shows "card_ok ph medium hc m'"
  using assms by (simp add: card_ok_def kept_def idle_def P_def M_def)

lemma card_okD:
  assumes "card_ok ph medium hc m"
  shows "idle m" "sized m"
  using assms by (auto simp: card_ok_def P_def M_def idle_def sized_def)

text \<open>A transfer command that the card refuses leaves it at rest.\<close>

lemma transfer_refused:
  assumes "answered hc c a r (P m)" "r \<noteq> 0" "c \<noteq> CMD8 \<and> c \<noteq> CMD58"
  shows "idle m"
  using answered_idle [OF assms(1)] assms(2,3) by (simp add: idle_def)

lemma read_one:
  assumes "card_ok ph medium hc m" and "unat n < cap" and "send_cmd H CMD17 (block_address m n) m = (0, m1)"
    and "rcvr_datablock H buff 512 m1 = (ok, buff', m')"
  shows "kept m m' \<and> idle m' \<and> buff' = (if ok then blit buff 0 (M m (unat n)) else buff)"
proof -
  note D = card_okD [OF assms(1)]
  note s = send_cmd_step [OF D command_codes(2) transfer_codes(1) assms(3)]
  have "answered hc CMD17 (block_address m n) 0 (P m1)" using s(2) not_application by blast
  then have p: "P m1 = DataWait (unat n) False"
    using answered_transfer(1) block_of_address [OF assms(1,2)] by metis
  have "M m1 = M m" "sized m1" using s(1) D(2) kept_sized [of m m1] by (simp_all add: kept_def)
  then show ?thesis
    using rcvr_datablock_step [OF p _ assms(4)] s(1) kept_trans by (auto simp: idle_def)
qed

lemma read_many:
  assumes "card_ok ph medium hc m" and "unat n < cap" and "send_cmd H CMD18 (block_address m n) m = (0, m1)"
    and "512 * k \<le> length buff" and "read_blocks H k buff 0 m1 = (left, buff', m')"
  shows "kept m m' \<and> (P m' = Ready \<or> (\<exists>j. P m' = DataWait j True)) \<and> length buff' = length buff
    \<and> (left = 0 \<longrightarrow> buff' = blit buff 0 (sectors (M m) (unat n) k))"
proof -
  note D = card_okD [OF assms(1)]
  note s = send_cmd_step [OF D command_codes(3) transfer_codes(2) assms(3)]
  have "answered hc CMD18 (block_address m n) 0 (P m1)" using s(2) not_application by blast
  then have p: "P m1 = DataWait (unat n) True"
    using answered_transfer(2) block_of_address [OF assms(1,2)] by metis
  have "M m1 = M m" "sized m1" using s(1) D(2) kept_sized [of m m1] by (simp_all add: kept_def)
  then show ?thesis
    using read_blocks_step [OF p _ _ assms(5)] assms(4) s(1) kept_trans by auto
qed

text \<open>What a read has done when it returns.\<close>

definition read_result :: "'h mmc \<Rightarrow> BYTE list \<Rightarrow> DWORD \<Rightarrow> BYTE \<Rightarrow> DRESULT \<Rightarrow> BYTE list \<Rightarrow> 'h mmc \<Rightarrow> bool" where
  "read_result m buff n cnt r buff' m' \<longleftrightarrow>
     card_ok ph medium hc m' \<and> kept m m' \<and> length buff' = length buff
     \<and> (r = RES_OK \<longrightarrow> cnt \<noteq> 0 \<and> buff' = blit buff 0 (sectors (M m) (unat n) (unat cnt)))
     \<and> (cnt = 1 \<longrightarrow> r \<noteq> RES_OK \<longrightarrow> buff' = buff)"

lemma disk_read_one:
  assumes "card_ok ph medium hc m" and "unat n < cap" "512 \<le> length buff"
    and "\<not> has (Stat m) STA_NOINIT" and "disk_read H 0 buff n 1 m = (r, buff', m')"
  shows "read_result m buff n 1 r buff' m'"
proof -
  note D = card_okD [OF assms(1)]
  obtain r1 m1 where 1: "send_cmd H CMD17 (block_address m n) m = (r1, m1)" by fastforce
  note s = send_cmd_step [OF D command_codes(2) transfer_codes(1) 1]
  have a: "answered hc CMD17 (block_address m n) r1 (P m1)" using s(2) not_application by blast
  show ?thesis
  proof (cases "r1 = 0")
    case False
    then have "r = RES_ERROR" "buff' = buff" "m' = release_spi H m1"
      using assms(4,5) by (simp_all add: disk_read_def 1 Let_def)
    moreover have "idle m1" using transfer_refused [OF a False] transfer_codes(6) .
    ultimately show ?thesis
      using release_spi_idle [of m1] s(1) kept_trans card_ok_kept [OF assms(1)] by (simp add: read_result_def)
  next
    case True
    obtain ok b m2 where 2: "rcvr_datablock H buff 512 m1 = (ok, b, m2)" by (metis prod_cases3)
    note t = read_one [OF assms(1,2) 1 [unfolded True] 2]
    have e: "r = (if ok then RES_OK else RES_ERROR)" "buff' = b" "m' = release_spi H m2"
      using assms(4,5) True by (auto simp: disk_read_def 1 2 Let_def)
    have k: "kept m m'" "idle m'" using t e(3) release_spi_idle kept_trans by blast+
    have "length (M m (unat n)) = 512" using D(2) by (simp add: sized_def)
    then show ?thesis
      using k t e(1,2) card_ok_kept [OF assms(1)] assms(3) by (auto simp: read_result_def)
  qed
qed

lemma disk_read_many:
  assumes "card_ok ph medium hc m" and "unat n < cap" "512 * unat cnt \<le> length buff" "cnt \<noteq> 0" "cnt \<noteq> 1"
    and "\<not> has (Stat m) STA_NOINIT" and "disk_read H 0 buff n cnt m = (r, buff', m')"
  shows "read_result m buff n cnt r buff' m'"
proof -
  note D = card_okD [OF assms(1)]
  obtain r1 m1 where 1: "send_cmd H CMD18 (block_address m n) m = (r1, m1)" by fastforce
  note s = send_cmd_step [OF D command_codes(3) transfer_codes(2) 1]
  have a: "answered hc CMD18 (block_address m n) r1 (P m1)" using s(2) not_application by blast
  show ?thesis
  proof (cases "r1 = 0")
    case False
    have "unat cnt \<noteq> 0" using assms(4) by (simp add: word_eq_unat [of cnt])
    then have "r = RES_ERROR" "buff' = buff" "m' = release_spi H m1"
      using assms(4-7) False by (simp_all add: disk_read_def 1 Let_def)
    moreover have "idle m1" using transfer_refused [OF a False] transfer_codes(7) .
    ultimately show ?thesis
      using release_spi_idle [of m1] s(1) kept_trans card_ok_kept [OF assms(1)] by (simp add: read_result_def)
  next
    case True
    obtain left b m2 where 2: "read_blocks H (unat cnt) buff 0 m1 = (left, b, m2)" by (metis prod_cases3)
    note t = read_many [OF assms(1,2) 1 [unfolded True] assms(3) 2]
    obtain r3 m3 where 3: "send_cmd H CMD12 0 m2 = (r3, m3)" by fastforce
    have "sized m2" using t kept_sized [of m m2] D(2) by simp
    with t 3 have u: "idle m3 \<and> kept m2 m3" using send_stop_step [of m2] by blast
    have e: "r = (if left = 0 then RES_OK else RES_ERROR)" "buff' = b" "m' = release_spi H m3"
      using assms(4-7) True by (auto simp: disk_read_def 1 2 3 Let_def)
    note rel = release_spi_idle [OF conjunct1 [OF u]]
    have k: "kept m m'" using kept_trans [OF conjunct1 [OF t] kept_trans [OF conjunct2 [OF u] rel(2)]] by (simp add: e(3))
    have "card_ok ph medium hc m'" using card_ok_kept [OF assms(1) k] rel(1) by (simp add: e(3))
    then show ?thesis using k t e(1,2) assms(4,5) by (auto simp: read_result_def)
  qed
qed

lemma disk_read_step:
  assumes "card_ok ph medium hc m" and "disk_read H 0 buff n cnt m = (r, buff', m')"
    and "512 * unat cnt \<le> length buff" "unat n + unat cnt \<le> cap"
  shows "read_result m buff n cnt r buff' m'"
proof -
  consider "cnt = 0 \<or> has (Stat m) STA_NOINIT" | "cnt = 1" "\<not> has (Stat m) STA_NOINIT"
    | "cnt \<noteq> 0" "cnt \<noteq> 1" "\<not> has (Stat m) STA_NOINIT" by blast
  then show ?thesis
  proof cases
    case 1
    then show ?thesis using assms(1,2) by (auto simp: disk_read_def read_result_def split: if_splits)
  next
    case 2
    then show ?thesis using disk_read_one [OF assms(1) _ _ _ assms(2) [unfolded 2(1)]] assms(3,4) by simp
  next
    case 3
    then have "unat cnt \<noteq> 0" by (simp add: word_eq_unat [of cnt])
    then show ?thesis using disk_read_many [OF assms(1) _ assms(3) 3(1,2,3) assms(2)] assms(4) by simp
  qed
qed

section \<open>Writing\<close>

lemma xmit_n_data:
  assumes "P m = WriteData bs n multi" "length bs + length cs \<le> 513"
  shows "P (xmit_n H cs m) = WriteData (bs @ cs) n multi \<and> kept m (xmit_n H cs m)"
  using assms
proof (induction cs arbitrary: bs m)
  case (Cons c cs)
  have 1: "P (xmit_spi H c m) = WriteData (bs @ [c]) n multi" "kept m (xmit_spi H c m)"
    using xmit_step [where m = m and b = c] Cons.prems by (auto simp: kept_def elim!: write_data_any)
  show ?case using Cons.IH [OF 1(1)] Cons.prems(2) 1(2) kept_trans by auto
qed simp

lemma xmit_n_block:
  assumes "P m = WriteData [] n multi" "length cs = 512"
  shows "P (xmit_n H [b, b'] (xmit_n H cs m)) = WriteResp cs n multi \<and> kept m (xmit_n H [b, b'] (xmit_n H cs m))"
proof -
  let ?m = "xmit_n H (cs @ [b]) m"
  have a: "P ?m = WriteData (cs @ [b]) n multi" "kept m ?m"
    using xmit_n_data [OF assms(1), of "cs @ [b]"] assms(2) by auto
  have "P (xmit_spi H b' ?m) = WriteResp cs n multi" "kept ?m (xmit_spi H b' ?m)"
    using xmit_step [where m = ?m and b = b'] a(1) assms(2) by (auto simp: kept_def elim!: write_data_any)
  moreover have "xmit_n H [b, b'] (xmit_n H cs m) = xmit_spi H b' ?m"
    by (simp add: xmit_n_append)
  ultimately show ?thesis using a(2) kept_trans by auto
qed

text \<open>
  One block of data: accepted, it is the block of the medium; otherwise that block may hold anything.
  \<open>stores m n bs m'\<close>: the block number \<open>n\<close> is the only change.
\<close>

definition stores :: "'h mmc \<Rightarrow> nat \<Rightarrow> BYTE list \<Rightarrow> 'h mmc \<Rightarrow> bool" where
  "stores m n bs m' \<longleftrightarrow> Stat m' = Stat m \<and> CardType m' = CardType m \<and> M m' = (M m)(n := bs) \<and> length bs = 512"

definition writing :: "nat \<Rightarrow> 'h mmc \<Rightarrow> bool" where
  "writing n m \<longleftrightarrow> P m \<in> {BusyW n, WriteWait n True}"

lemma kept_stores: "kept m m' \<Longrightarrow> length (M m n) = 512 \<Longrightarrow> stores m n (M m n) m'"
  by (auto simp: stores_def kept_def)

lemma xmit_datablock_step:
  assumes p: "P m \<in> {b, WriteWait n multi}" and b: "settles b (WriteWait n multi)"
    and "sized m" "512 \<le> length buff"
    and x: "xmit_datablock H buff (if multi then 0xFC else 0xFE) m = (ok, m')"
  shows "(if multi then writing (if ok then n + 1 else n) m' else idle m')
    \<and> (\<exists>bs. stores m n bs m' \<and> (ok \<longrightarrow> bs = take 512 buff))"
proof -
  obtain r m1 where w: "wait_ready H m = (r, m1)" by fastforce
  note s = wait_ready_settles [OF b p assms(3) w]
  let ?t = "if multi then 0xFC else 0xFE :: BYTE"
  let ?m2 = "xmit_spi H ?t m1"
  have 2: "P ?m2 = WriteData [] n multi" "kept m1 ?m2"
    using xmit_step [where m = m1 and b = ?t] s(2) by (auto simp: kept_def elim!: write_wait_any split: if_splits)
  let ?m3 = "xmit_n H [0xFF, 0xFF] (xmit_n H (take 512 buff) ?m2)"
  have 3: "P ?m3 = WriteResp (take 512 buff) n multi" "kept ?m2 ?m3"
    using xmit_n_block [OF 2(1), of "take 512 buff"] assms(4) by auto
  have k: "kept m ?m3" using s(3) 2(2) 3(2) kept_trans by blast
  obtain r4 m4 where 4: "rcvr_spi H ?m3 = (r4, m4)" by fastforce
  have e: "ok = (r4 AND 0x1F = 0x05)" "m' = m4"
    using x s(1) 4 by (auto simp: xmit_datablock_def w Let_def split: if_splits)
  note t = rcvr_step [OF 4]
  have l: "length (take 512 buff) = 512" using assms(4) by simp
  have "(if multi then writing (if ok then n + 1 else n) m4 else idle m4)
      \<and> (\<exists>bs. stores ?m3 n bs m4 \<and> (ok \<longrightarrow> bs = take 512 buff))"
    using t(1) unfolding 3(1)
    by (rule write_resp_ff) (use t(2,3) l e(1) in \<open>auto simp: stores_def writing_def idle_def\<close>)
  then show ?thesis using k e(2) by (auto simp: stores_def kept_def)
qed

lemma settles_writing: "settles (BusyW n) (WriteWait n True)" "settles (WriteWait n False) (WriteWait n False)"
  by (simp_all add: settles_def)

lemma xmit_stop_step:
  assumes "writing n m" "sized m" and x: "xmit_datablock H buff 0xFD m = (ok, m')"
  shows "kept m m' \<and> idle m'"
proof -
  obtain r m1 where w: "wait_ready H m = (r, m1)" by fastforce
  have "P m \<in> {BusyW n, WriteWait n True}" using assms(1) by (simp add: writing_def)
  note s = wait_ready_settles [OF settles_writing(1) this assms(2) w]
  have "P (xmit_spi H 0xFD m1) = Busy" "kept m1 (xmit_spi H 0xFD m1)"
    using xmit_step [where m = m1 and b = "0xFD"] s(2) by (auto simp: kept_def elim!: write_wait_any)
  then show ?thesis using s x kept_trans by (auto simp: xmit_datablock_def w idle_def)
qed

text \<open>\<open>stored m n k m'\<close>: only the \<open>k\<close> blocks from \<open>n\<close> on may have changed.\<close>

definition stored :: "'h mmc \<Rightarrow> nat \<Rightarrow> nat \<Rightarrow> 'h mmc \<Rightarrow> bool" where
  "stored m n k m' \<longleftrightarrow> Stat m' = Stat m \<and> CardType m' = CardType m \<and> (\<forall>i. length (M m' i) = 512)
     \<and> (\<forall>i. i < n \<or> n + k \<le> i \<longrightarrow> M m' i = M m i)"

lemma kept_stored: "kept m m' \<Longrightarrow> \<forall>i. length (M m i) = 512 \<Longrightarrow> stored m n k m'"
  by (simp add: stored_def kept_def)

lemma stored_kept: "stored m n k m' \<Longrightarrow> kept m' m'' \<Longrightarrow> stored m n k m''"
  by (simp add: stored_def kept_def)

lemma stores_stored: "stores m n bs m' \<Longrightarrow> \<forall>i. length (M m i) = 512 \<Longrightarrow> 0 < k \<Longrightarrow> stored m n k m'"
  by (simp add: stored_def stores_def)

lemma write_blocks_step:
  assumes "writing n m" and "sized m" and "512 * k \<le> length buff"
    and "write_blocks H k buff m = (left, m')"
  shows "stored m n k m' \<and> (\<exists>j. writing j m')
    \<and> (left = 0 \<longrightarrow> M m' = store_sectors (M m) n k buff)"
  using assms
proof (induction k arbitrary: n buff m)
  case 0
  then show ?case by (auto simp: stored_def store_sectors_def sized_def intro!: ext)
next
  case (Suc k)
  obtain ok m1 where 1: "xmit_datablock H buff 0xFC m = (ok, m1)" by fastforce
  have "P m \<in> {BusyW n, WriteWait n True}" "sized m" "512 \<le> length buff"
    using Suc.prems(1-3) by (auto simp: writing_def)
  from xmit_datablock_step [OF this(1) settles_writing(1) this(2,3)] 1
  obtain bs where a: "writing (if ok then n + 1 else n) m1" "stores m n bs m1" "ok \<Longrightarrow> bs = take 512 buff"
    by auto
  show ?case
  proof (cases ok)
    case False
    then have "left = Suc k" "m' = m1" using Suc.prems(4) by (simp_all add: 1)
    then show ?thesis using a False stores_stored [OF a(2)] Suc.prems(2) by (auto simp: sized_def)
  next
    case True
    have l: "sized m1" using a(2) Suc.prems(2) by (simp add: stores_def sized_def)
    have "write_blocks H k (drop 512 buff) m1 = (left, m')" using Suc.prems(4) True by (simp add: 1)
    from Suc.IH [OF _ l _ this, of "n + 1"] a(1) True Suc.prems(3)
    have b: "stored m1 (n + 1) k m'" "\<exists>j. writing j m'"
      "left = 0 \<Longrightarrow> M m' = store_sectors (M m1) (n + 1) k (drop 512 buff)" by auto
    have "stored m n (Suc k) m'" using b(1) a(2) by (auto simp: stored_def stores_def)
    moreover have "left = 0 \<Longrightarrow> M m' = store_sectors (M m) n (Suc k) buff"
      using b(3) a(2,3) True store_sectors_Suc by (simp add: stores_def)
    ultimately show ?thesis using b(2) by blast
  qed
qed

text \<open>What a write has done when it returns.\<close>

definition write_result :: "'h mmc \<Rightarrow> BYTE list \<Rightarrow> DWORD \<Rightarrow> BYTE \<Rightarrow> DRESULT \<Rightarrow> 'h mmc \<Rightarrow> bool" where
  "write_result m buff n cnt r m' \<longleftrightarrow>
     card_ok ph medium hc m' \<and> stored m (unat n) (unat cnt) m'
     \<and> (r = RES_OK \<longrightarrow> cnt \<noteq> 0 \<and> M m' = store_sectors (M m) (unat n) (unat cnt) buff)"

lemma card_ok_stored:
  assumes "card_ok ph medium hc m" "stored m n k m'" "idle m'"
  shows "card_ok ph medium hc m'"
  using assms by (simp add: card_ok_def stored_def idle_def P_def M_def)

lemma write_released:
  assumes "card_ok ph medium hc m" and "stored m (unat n) (unat cnt) m1" "idle m1"
    and "r = RES_OK \<Longrightarrow> cnt \<noteq> 0 \<and> M m1 = store_sectors (M m) (unat n) (unat cnt) buff"
  shows "write_result m buff n cnt r (release_spi H m1)"
proof -
  note k = release_spi_idle [OF assms(3)]
  have "stored m (unat n) (unat cnt) (release_spi H m1)" using stored_kept [OF assms(2) k(2)] .
  then show ?thesis
    using assms(4) k card_ok_stored [OF assms(1)] by (simp add: write_result_def kept_def)
qed

lemma disk_write_one:
  assumes "card_ok ph medium hc m" and "unat n < cap" "512 \<le> length buff"
    and "\<not> has (Stat m) STA_NOINIT" "\<not> has (Stat m) STA_PROTECT" and "disk_write H 0 buff n 1 m = (r, m')"
  shows "write_result m buff n 1 r m'"
proof -
  note D = card_okD [OF assms(1)]
  then have len: "\<forall>i. length (M m i) = 512" by (simp add: sized_def)
  obtain r1 m1 where 1: "send_cmd H CMD24 (block_address m n) m = (r1, m1)" by fastforce
  note s = send_cmd_step [OF D command_codes(4) transfer_codes(3) 1]
  have a: "answered hc CMD24 (block_address m n) r1 (P m1)" using s(2) not_application by blast
  show ?thesis
  proof (cases "r1 = 0")
    case False
    then have "r = RES_ERROR" "m' = release_spi H m1"
      using assms(4-6) by (simp_all add: disk_write_def 1 Let_def)
    moreover have "idle m1" using transfer_refused [OF a False] transfer_codes(8) .
    ultimately show ?thesis
      using write_released [OF assms(1) kept_stored [OF s(1) len], of r 1 n buff] by simp
  next
    case True
    obtain ok m2 where 2: "xmit_datablock H buff 0xFE m1 = (ok, m2)" by fastforce
    have e: "r = (if ok then RES_OK else RES_ERROR)" "m' = release_spi H m2"
      using assms(4-6) True by (auto simp: disk_write_def 1 2 Let_def)
    have "P m1 = WriteWait (unat n) False"
      using answered_transfer(3) block_of_address [OF assms(1,2)] a True by metis
    moreover have m1: "M m1 = M m" "Stat m1 = Stat m" "CardType m1 = CardType m" using s(1) by (simp_all add: kept_def)
    moreover have "sized m1" using kept_sized [OF s(1)] D(2) by simp
    ultimately obtain bs where t: "idle m2" "stores m1 (unat n) bs m2" "ok \<Longrightarrow> bs = take 512 buff"
      using xmit_datablock_step [of m1 _ "unat n" False buff ok m2, OF _ settles_writing(2) _ assms(3)] 2 by auto
    then have t2: "stores m (unat n) bs m2" using m1 by (simp add: stores_def)
    have "stored m (unat n) (unat (1 :: BYTE)) m2" using stores_stored [OF t2 len] by simp
    moreover have "M m2 = store_sectors (M m) (unat n) (unat (1 :: BYTE)) buff" if "r = RES_OK"
    proof -
      have "bs = take 512 buff" using that e(1) t(3) by (cases ok) auto
      then show ?thesis using t2 by (auto simp: stores_def store_sectors_def slice_def)
    qed
    ultimately show ?thesis using write_released [OF assms(1) _ t(1)] e(2) by simp
  qed
qed

lemma set_erase_count:
  fixes a :: DWORD
  assumes "card_ok ph medium hc m"
  defines "m1 \<equiv> if has (CardType m) 6 then snd (send_cmd H ACMD23 a m) else m"
  shows "kept m m1 \<and> idle m1"
proof (cases "has (CardType m) 6")
  case True
  obtain r m2 where 2: "send_cmd H ACMD23 a m = (r, m2)" by fastforce
  note s = send_cmd_step [OF card_okD [OF assms(1)] command_codes(6) transfer_codes(5) 2]
  show ?thesis using s(1) s(4) [OF transfer_codes(10)] True by (simp add: m1_def 2)
qed (use card_okD [OF assms(1)] in \<open>simp add: m1_def\<close>)

lemma disk_write_many:
  assumes "card_ok ph medium hc m" and "unat n < cap" "512 * unat cnt \<le> length buff" "cnt \<noteq> 0" "cnt \<noteq> 1"
    and "\<not> has (Stat m) STA_NOINIT" "\<not> has (Stat m) STA_PROTECT" and "disk_write H 0 buff n cnt m = (r, m')"
  shows "write_result m buff n cnt r m'"
proof -
  note D = card_okD [OF assms(1)]
  define m0 where "m0 = (if has (CardType m) 6 then snd (send_cmd H ACMD23 (ucast cnt) m) else m)"
  have len: "\<forall>i. length (M m i) = 512" using D(2) by (simp add: sized_def)
  have m0: "kept m m0" "idle m0"
    using set_erase_count [OF assms(1)] by (simp_all add: m0_def)
  have m0s: "sized m0" using kept_sized [OF m0(1)] D(2) by simp
  obtain r1 m1 where 1: "send_cmd H CMD25 (block_address m n) m0 = (r1, m1)" by fastforce
  note s = send_cmd_step [OF m0(2) m0s command_codes(5) transfer_codes(4) 1]
  have a: "answered hc CMD25 (block_address m n) r1 (P m1)" using s(2) not_application by blast
  have k: "kept m m1" using kept_trans [OF m0(1) s(1)] .
  have cnt: "unat cnt \<noteq> 0" using assms(4) by (simp add: word_eq_unat [of cnt])
  show ?thesis
  proof (cases "r1 = 0")
    case False
    then have "r = RES_ERROR" "m' = release_spi H m1"
      using assms(4-8) cnt 1 by (simp_all add: disk_write_def Let_def flip: m0_def)
    moreover have "idle m1" using transfer_refused [OF a False] transfer_codes(9) .
    ultimately show ?thesis
      using write_released [OF assms(1) kept_stored [OF k len], of r cnt n buff] by simp
  next
    case True
    obtain left m2 where 2: "write_blocks H (unat cnt) buff m1 = (left, m2)" by fastforce
    obtain ok m3 where 3: "xmit_datablock H [] 0xFD m2 = (ok, m3)" by fastforce
    have e: "r = (if ok \<and> left = 0 then RES_OK else RES_ERROR)" "m' = release_spi H m3"
      using assms(4-8) True cnt 1 2 3 by (auto simp: disk_write_def Let_def simp flip: m0_def)
    have "P m1 = WriteWait (unat n) True"
      using answered_transfer(4) block_of_address [OF assms(1,2)] a True by metis
    then have w: "writing (unat n) m1" by (simp add: writing_def)
    have m1: "M m1 = M m" "Stat m1 = Stat m" "CardType m1 = CardType m" using k by (simp_all add: kept_def)
    obtain j where t: "stored m1 (unat n) (unat cnt) m2" "writing j m2"
      "left = 0 \<longrightarrow> M m2 = store_sectors (M m1) (unat n) (unat cnt) buff"
      using write_blocks_step [OF w _ assms(3) 2] kept_sized [OF k] D(2) by auto
    have "sized m2" using t(1) by (simp add: stored_def sized_def)
    note u = xmit_stop_step [OF t(2) this 3]
    have "stored m (unat n) (unat cnt) m3" using stored_kept [OF t(1)] u m1 by (simp add: stored_def)
    moreover have "M m3 = M m2" using u by (simp add: kept_def)
    ultimately show ?thesis
      using write_released [OF assms(1) _ conjunct2 [OF u], of n cnt r buff] e t(3) m1(1) assms(4)
      by (auto split: if_splits)
  qed
qed

lemma disk_write_step:
  assumes "card_ok ph medium hc m" and "disk_write H 0 buff n cnt m = (r, m')"
    and "512 * unat cnt \<le> length buff" "unat n + unat cnt \<le> cap"
  shows "write_result m buff n cnt r m'"
proof -
  let ?go = "\<not> has (Stat m) STA_NOINIT \<and> \<not> has (Stat m) STA_PROTECT"
  consider "cnt = 0 \<or> \<not> ?go" | "cnt = 1" ?go | "cnt \<noteq> 0" "cnt \<noteq> 1" ?go by blast
  then show ?thesis
  proof cases
    case 1
    then have "r \<noteq> RES_OK" "m' = m" using assms(2) by (auto simp: disk_write_def split: if_splits)
    then show ?thesis
      using assms(1) kept_stored [OF kept_refl] card_okD(2) [OF assms(1)] by (simp add: write_result_def sized_def)
  next
    case 2
    then show ?thesis using disk_write_one [OF assms(1) _ _ _ _ assms(2) [unfolded 2(1)]] assms(3,4) by simp
  next
    case 3
    then have "unat cnt \<noteq> 0" by (simp add: word_eq_unat [of cnt])
    then show ?thesis using disk_write_many [OF assms(1) _ assms(3) 3(1,2) _ _ assms(2)] 3(3) assms(4) by simp
  qed
qed

section \<open>The driver is a disk\<close>

text \<open>The driver's functions meet the contract of the disk interface.\<close>

lemma mmc_disk: "disk_device (mmc_io ro H) (card_ok ph medium hc) (\<lambda>m. medium (spi m)) cap"
proof
  fix d d' :: "'h mmc" and buf buf' :: "BYTE list" and n :: DWORD and cnt :: BYTE and r
  assume d: "card_ok ph medium hc d"
  show "length (medium (spi d) m) = 512" for m using d by (simp add: card_ok_def)
  assume range: "512 * unat cnt \<le> length buf" "unat n + unat cnt \<le> cap"
  {
    assume "dio_read (mmc_io ro H) 0 buf n cnt d = (r, buf', d')"
    then have "disk_read H 0 buf n cnt d = (r, buf', d')" by (simp add: mmc_io_def)
    from disk_read_step [OF d this range]
    show "card_ok ph medium hc d' \<and> medium (spi d') = medium (spi d) \<and> length buf' = length buf
        \<and> dio_status (mmc_io ro H) 0 d' = dio_status (mmc_io ro H) 0 d"
      by (simp add: read_result_def kept_def M_def mmc_io_def disk_status_def)
  next
    assume "dio_read (mmc_io ro H) 0 buf n cnt d = (RES_OK, buf', d')"
    then have "disk_read H 0 buf n cnt d = (RES_OK, buf', d')" by (simp add: mmc_io_def)
    from disk_read_step [OF d this range]
    show "cnt \<noteq> 0 \<and> buf' = blit buf 0 (sectors (medium (spi d)) (unat n) (unat cnt))"
      by (simp add: read_result_def M_def)
  next
    assume "dio_write (mmc_io ro H) 0 buf n cnt d = (r, d')"
    then have "disk_write H 0 buf n cnt d = (r, d')" by (simp add: mmc_io_def)
    from disk_write_step [OF d this range]
    show "card_ok ph medium hc d'
        \<and> (\<forall>m. m < unat n \<or> unat n + unat cnt \<le> m \<longrightarrow> medium (spi d') m = medium (spi d) m)
        \<and> dio_status (mmc_io ro H) 0 d' = dio_status (mmc_io ro H) 0 d"
      by (simp add: write_result_def stored_def M_def mmc_io_def disk_status_def)
  next
    assume "dio_write (mmc_io ro H) 0 buf n cnt d = (RES_OK, d')"
    then have "disk_write H 0 buf n cnt d = (RES_OK, d')" by (simp add: mmc_io_def)
    from disk_write_step [OF d this range]
    show "cnt \<noteq> 0 \<and> medium (spi d') = store_sectors (medium (spi d)) (unat n) (unat cnt) buf"
      by (simp add: write_result_def M_def)
  }
next
  fix d d' :: "'h mmc" and buf buf' :: "BYTE list" and n :: DWORD and r
  assume d: "card_ok ph medium hc d" and "dio_read (mmc_io ro H) 0 buf n 1 d = (r, buf', d')"
    and range: "512 \<le> length buf" "unat n + 1 \<le> cap" and r: "r \<noteq> RES_OK"
  then have "disk_read H 0 buf n 1 d = (r, buf', d')" by (simp add: mmc_io_def)
  from disk_read_step [OF d this] show "buf' = buf" using range r by (simp add: read_result_def)
qed (rule capacity(1))

end

sublocale sd_card \<subseteq> disk: disk_device "mmc_io ro H" "card_ok ph medium hc" "\<lambda>m. medium (spi m)" cap for ro
  by (rule mmc_disk)

end
