(* ===== verification/MmcInit.thy ===== *)
theory MmcInit
  imports MmcProps
begin

text \<open>
  Initialisation of the card: \<open>disk_initialize\<close> leaves the card without a transaction and the medium as it
  was, and if it clears \<open>STA_NOINIT\<close> it has noted the right addressing.
\<close>

lemma init_commands:
  "\<not> has CMD8 0x80" "CMD8 \<noteq> CMD12" "\<not> has CMD58 0x80" "CMD58 \<noteq> CMD12" "\<not> has CMD1 0x80" "CMD1 \<noteq> CMD12"
  "has ACMD41 0x80" "ACMD41 AND 0x7F \<noteq> CMD12"
  "(CMD0 AND 0x7F) AND 0xC0 = 0x40" "(CMD8 AND 0x7F) AND 0xC0 = 0x40" "(CMD58 AND 0x7F) AND 0xC0 = 0x40"
  "(CMD1 AND 0x7F) AND 0xC0 = 0x40" "(CMD16 AND 0x7F) AND 0xC0 = 0x40" "(ACMD41 AND 0x7F) AND 0xC0 = 0x40"
  "CMD0 AND 0x7F \<noteq> CMD12" "CMD8 AND 0x7F \<noteq> CMD12" "CMD58 AND 0x7F \<noteq> CMD12" "CMD1 AND 0x7F \<noteq> CMD12"
  "CMD16 AND 0x7F \<noteq> CMD12"
  by (simp_all add: cmd_defs has_def)

text \<open>Commands after whose answer the card has nothing left to send or to receive.\<close>

lemma plain_commands:
  "CMD0 AND 0x7F \<notin> {CMD8, CMD17, CMD18, CMD24, CMD25, CMD58}" "CMD1 AND 0x7F \<notin> {CMD8, CMD17, CMD18, CMD24, CMD25, CMD58}"
  "CMD16 AND 0x7F \<notin> {CMD8, CMD17, CMD18, CMD24, CMD25, CMD58}"
  "ACMD41 AND 0x7F \<notin> {CMD8, CMD17, CMD18, CMD24, CMD25, CMD58}"
  by (simp_all add: cmd_defs)

lemma no_bit7: "\<not> has 0 0x80" "\<not> has 1 0x80"
  by (simp_all add: has_def)

lemma answered_not_ready: "hc \<Longrightarrow> c \<in> {CMD1, ACMD41 AND 0x7F} \<Longrightarrow> \<not> answered hc c 0 0 q"
  by (auto simp: cmd_defs elim!: answered_init)

context sd_card
begin

lemma rcvr_idle:
  assumes "idle m" and "rcvr_n H n m = (bs, m')"
  shows "idle m' \<and> kept m m'"
  using assms
proof (induction n arbitrary: m bs)
  case (Suc n)
  obtain r1 m1 where 1: "rcvr_spi H m = (r1, m1)" by fastforce
  obtain bs1 where 2: "rcvr_n H n m1 = (bs1, m')" using Suc.prems(2) by (auto simp: 1 split: prod.splits)
  note s = idle_rcvr [OF Suc.prems(1) 1]
  from Suc.IH [OF conjunct1 [OF s] 2] show ?case using s kept_trans by blast
qed simp

lemma rcvr_tail:
  assumes "P m = Tail ds" "ds \<noteq> []" and "rcvr_n H (length ds) m = (bs, m')"
  shows "bs = ds \<and> P m' = Ready \<and> kept m m'"
  using assms
proof (induction ds arbitrary: m bs)
  case (Cons d ds)
  obtain r1 m1 where 1: "rcvr_spi H m = (r1, m1)" by fastforce
  have a: "r1 = d" "kept m m1" "P m1 = (if ds = [] then Ready else Tail ds)"
    using rcvr_step [OF 1] Cons.prems(1) by (auto simp: kept_def elim!: tail_ff)
  obtain bs1 where 2: "rcvr_n H (length ds) m1 = (bs1, m')" "bs = d # bs1"
    using Cons.prems(3) a(1) by (auto simp: 1 split: prod.splits)
  show ?case
  proof (cases "ds = []")
    case True
    then show ?thesis using 2 a by simp
  next
    case False
    then have "P m1 = Tail ds" using a(3) by simp
    from Cons.IH [OF this False 2(1)] show ?thesis using a(1,2) 2(2) kept_trans by blast
  qed
qed simp

text \<open>
  \<open>draining k m\<close>: the card is at rest after at most \<open>k\<close> more bytes, because the driver has not read all
  of an answer.  Whether the card gives the rest of it up as it is deselected does not matter.
\<close>

definition draining :: "nat \<Rightarrow> 'h mmc \<Rightarrow> bool" where
  "draining k m \<longleftrightarrow> idle m \<or> (\<exists>bs. P m = Tail bs \<and> bs \<noteq> [] \<and> length bs \<le> k)"

lemma draining_0: "draining 0 m = idle m"
  by (simp add: draining_def)

lemma idle_draining: "idle m \<Longrightarrow> draining k m"
  by (simp add: draining_def)

lemma draining_mono: "draining j m \<Longrightarrow> j \<le> k \<Longrightarrow> draining k m"
  by (auto simp: draining_def)

lemma draining_select: "draining k m \<Longrightarrow> draining k (SELECT H m)" "draining k m \<Longrightarrow> draining k (DESELECT H m)"
  using idle_deselect [of m] deselect_step [of m] by (auto simp: draining_def idle_def)

lemma draining_rcvr:
  assumes "draining k m" "rcvr_spi H m = (r, m')"
  shows "draining (k - 1) m' \<and> kept m m'"
proof (cases "idle m")
  case True
  then show ?thesis using idle_rcvr [OF True assms(2)] by (simp add: draining_def)
next
  case False
  then obtain d bs where "P m = Tail (d # bs)" "length bs < k" using assms(1) by (auto simp: draining_def neq_Nil_conv)
  then show ?thesis
    using rcvr_step [OF assms(2)] by (auto simp: draining_def idle_def kept_def elim!: tail_ff split: if_splits)
qed

lemma draining_wait_ready:
  assumes "draining k m" "wait_ready H m = (r, m')"
  shows "draining (k - 2) m' \<and> kept m m'"
proof -
  obtain r1 m1 where 1: "rcvr_spi H m = (r1, m1)" by fastforce
  let ?n = "timer_polls H 50 (spi m)"
  have l: "wait_loop H ?n m1 = (r, m')" using assms(2) by (simp add: wait_ready_def Let_def 1)
  obtain r2 m2 where 2: "rcvr_spi H m1 = (r2, m2)" by fastforce
  note a = draining_rcvr [OF assms(1) 1]
  note b = draining_rcvr [OF conjunct1 [OF a] 2]
  let ?Q = "\<lambda>x. draining (k - 1 - 1) x \<and> kept m x"
  have keep: "?Q y" if "?Q x" "rcvr_spi H x = (u, y)" for x u y
    using draining_rcvr [OF conjunct1 [OF that(1)] that(2)] draining_mono kept_trans [OF conjunct2 [OF that(1)]] by (metis diff_le_self)
  have q2: "?Q m2" using a b kept_trans by blast
  have "m' = m2 \<or> (\<exists>j. wait_loop H j m2 = (r, m'))" using l 2 by (cases ?n) (auto split: if_splits)
  then have "?Q m'" using q2 wait_loop_keeps [of ?Q H m2 _ r m'] keep by blast
  then show ?thesis by (simp add: numeral_2_eq_2)
qed

lemma draining_release:
  assumes "draining k m"
  shows "draining (k - 1) (release_spi H m) \<and> kept m (release_spi H m)"
proof -
  obtain r m' where 1: "rcvr_spi H (DESELECT H m) = (r, m')" by fastforce
  from draining_rcvr [OF draining_select(2) [OF assms] 1] show ?thesis
    using kept_trans [OF select_step(3)] by (simp add: release_spi_def 1)
qed

lemma answered_ocr_draining: "answered hc CMD58 a r (P m) \<Longrightarrow> draining 4 m"
  by (cases "P m") (auto simp: draining_def idle_def cmd_defs elim!: answered.cases)

text \<open>Reading the 4 bytes after an answer, whether or not the card sends them.\<close>

lemma rcvr_answer:
  assumes "P m \<in> {Ready, Busy} \<or> (\<exists>bs. P m = Tail bs \<and> length bs = 4)" and "rcvr_n H 4 m = (ds, m')"
  shows "idle m' \<and> kept m m' \<and> (\<forall>bs. P m = Tail bs \<longrightarrow> ds = bs)"
proof (cases "P m \<in> {Ready, Busy}")
  case True
  then show ?thesis using rcvr_idle [OF _ assms(2)] by (auto simp: idle_def)
next
  case False
  then obtain bs where b: "P m = Tail bs" "length bs = 4" using assms(1) by blast
  then have "bs \<noteq> []" by auto
  from rcvr_tail [OF b(1) this, of ds m'] show ?thesis using assms(2) b by (simp add: idle_def)
qed

lemma poll_kept [simp]: "kept m (snd (poll_timer1 m))" "P (snd (poll_timer1 m)) = P m"
  by (simp_all add: poll_timer1_def kept_def M_def P_def)

lemma leave_idle_step:
  assumes "idle m" "sized m" and c: "c = ACMD41 \<or> c = CMD1"
  shows "kept m (leave_idle H c a m) \<and> idle (leave_idle H c a m)"
  using assms(1,2)
proof (induction "timer1 m" arbitrary: m rule: less_induct)
  case less
  let ?m = "snd (poll_timer1 m)"
  obtain r m1 where 1: "send_cmd H c a ?m = (r, m1)" by fastforce
  have c': "(c AND 0x7F) AND 0xC0 = 0x40" "c AND 0x7F \<noteq> CMD12"
    "c AND 0x7F \<notin> {CMD8, CMD17, CMD18, CMD24, CMD25, CMD58}" using c init_commands plain_commands by auto
  have "idle ?m" "sized ?m" using less.prems kept_sized [OF poll_kept(1)] by (simp_all add: idle_def)
  note s = send_cmd_step [OF this c'(1,2) 1]
  have k: "kept m m1" using kept_trans [OF poll_kept(1) s(1)] .
  have t: "timer1 m1 = timer1 m - 1" using timer1_send_cmd [of H c a ?m] unfolding 1 by (simp add: poll_timer1_def)
  show ?case
  proof (cases "timer1 m \<noteq> 0 \<and> r \<noteq> 0")
    case True
    have "sized m1" using kept_sized [OF k] less.prems(2) by simp
    then have "kept m1 (leave_idle H c a m1) \<and> idle (leave_idle H c a m1)"
      using less.hyps s(4) [OF c'(3)] t True by simp
    moreover have "leave_idle H c a m = leave_idle H c a m1"
      using True by (subst leave_idle.simps) (simp add: 1 Let_def)
    ultimately show ?thesis using k kept_trans by auto
  next
    case False
    then have "leave_idle H c a m = (if timer1 m \<noteq> 0 then m1 else ?m)"
      by (subst leave_idle.simps) (auto simp: 1 Let_def)
    then show ?thesis using k s(4) [OF c'(3)] less.prems by (auto simp: idle_def)
  qed
qed

text \<open>A host that does not announce high capacity waits in vain for such a card.\<close>

lemma leave_idle_in_vain:
  assumes hc and "idle m" "sized m" and c: "c = ACMD41 \<or> c = CMD1"
  shows "timer1 (leave_idle H c 0 m) = 0"
  using assms(2,3)
proof (induction "timer1 m" arbitrary: m rule: less_induct)
  case less
  let ?m = "snd (poll_timer1 m)"
  obtain r m1 where 1: "send_cmd H c 0 ?m = (r, m1)" by fastforce
  have c': "(c AND 0x7F) AND 0xC0 = 0x40" "c AND 0x7F \<noteq> CMD12"
    "c AND 0x7F \<notin> {CMD8, CMD17, CMD18, CMD24, CMD25, CMD58}" using c init_commands plain_commands by auto
  have "idle ?m" "sized ?m" using less.prems kept_sized [OF poll_kept(1)] by (simp_all add: idle_def)
  note s = send_cmd_step [OF this c'(1,2) 1]
  have "r \<noteq> 0" using s(2,3) init_commands answered_not_ready [OF assms(1)] c by auto
  moreover have t: "timer1 m1 = timer1 m - 1" using timer1_send_cmd [of H c 0 ?m] unfolding 1 by (simp add: poll_timer1_def)
  ultimately have e: "leave_idle H c 0 m = (if timer1 m \<noteq> 0 then leave_idle H c 0 m1 else ?m)"
    by (subst leave_idle.simps) (simp add: 1 Let_def)
  show ?case
  proof (cases "timer1 m = 0")
    case True
    then show ?thesis unfolding e by (simp add: poll_timer1_def)
  next
    case False
    have "kept m m1" using kept_trans [OF poll_kept(1) s(1)] .
    then have "sized m1" using kept_sized less.prems(2) by blast
    then show ?thesis using less.hyps [of m1] s(4) [OF c'(3)] t False by (simp add: e)
  qed
qed

text \<open>Reading the OCR tells the capacity.\<close>

lemma ocr_step:
  assumes "idle m" "sized m" and "send_cmd H CMD58 0 m = (0, m1)" and "rcvr_n H 4 m1 = (ocr, m')"
  shows "kept m m' \<and> idle m' \<and> (has (ocr ! 0) 0x40 \<longleftrightarrow> hc)"
proof -
  note s = send_cmd_step [OF assms(1,2) init_commands(11,17) assms(3)]
  have "answered hc CMD58 0 0 (P m1)" using s(2) init_commands by blast
  then obtain bs where b: "P m1 = Tail bs" "length bs = 4" "has (bs ! 0) 0x40 \<longleftrightarrow> hc"
    by (rule answered_ocr) (auto simp: cmd_defs)
  from rcvr_answer [OF _ assms(4)] b show ?thesis using s(1) kept_trans by blast
qed

lemma init_v2_step:
  assumes "P m \<in> {Ready, Busy} \<or> (\<exists>bs. P m = Tail bs \<and> length bs = 4)" and "sized m" and "init_v2 H m = (ty, m')"
  shows "kept m m' \<and> (if ty = 0 then draining 4 m' else idle m' \<and> (has ty 8 \<longleftrightarrow> hc))"
proof -
  obtain ds m1 where 1: "rcvr_n H 4 m = (ds, m1)" by fastforce
  note a = rcvr_answer [OF assms(1) 1]
  then have p1: "idle m1" "kept m m1" "sized m1" using assms(2) kept_sized by auto
  show ?thesis
  proof (cases "ds ! 2 = 0x01 \<and> ds ! 3 = 0xAA")
    case False
    then show ?thesis using assms(3) p1 by (auto simp: init_v2_def 1 draining_def)
  next
    case True
    let ?l = "leave_idle H ACMD41 0x40000000 m1"
    note l = leave_idle_step [OF p1(1,3), of ACMD41 "0x40000000"]
    obtain t m2 where 2: "poll_timer1 ?l = (t, m2)" by fastforce
    then have m2: "m2 = snd (poll_timer1 ?l)" by simp
    have p2: "kept m1 m2" "idle m2"
      using l kept_trans [OF _ poll_kept(1), of m1 ?l] by (simp_all add: m2 idle_def)
    have s2: "sized m2" using kept_sized [OF p2(1)] p1(3) by simp
    obtain r m3 where 3: "send_cmd H CMD58 0 m2 = (r, m3)" by fastforce
    note s = send_cmd_step [OF p2(2) s2 init_commands(11,17) 3]
    have k3: "kept m m3" using p1 p2 s(1) kept_trans by blast
    have d3: "draining 4 m3" using answered_ocr_draining s(2) init_commands by blast
    show ?thesis
    proof (cases "t \<and> r = 0")
      case False
      then have "ty = 0" "m' = m2 \<or> m' = m3"
        using assms(3) True by (auto simp: init_v2_def 1 2 3 split: if_splits)
      moreover have "draining 4 m2" using p2(2) by (simp add: draining_def)
      ultimately show ?thesis using kept_trans [OF p1(2) p2(1)] k3 d3 by auto
    next
      case True': True
      obtain ocr m4 where 4: "rcvr_n H 4 m3 = (ocr, m4)" by fastforce
      have "send_cmd H CMD58 0 m2 = (0, m3)" using 3 True' by simp
      note o = ocr_step [OF p2(2) s2 this 4]
      have e: "ty = (if has (ocr ! 0) 0x40 then 12 else 4)" "m' = m4"
        using assms(3) True True' by (simp_all add: init_v2_def 1 2 3 4)
      have "has 12 8" "\<not> has 4 8" by (simp_all add: has_def)
      then have "has ty 8 \<longleftrightarrow> hc" using e(1) o by simp
      moreover have "kept m m4" using kept_trans [OF p1(2) kept_trans [OF p2(1) conjunct1 [OF o]]] .
      ultimately show ?thesis using e o by auto
    qed
  qed
qed

lemma init_v1_step:
  assumes "idle m" "sized m" and "init_v1 H m = (ty, m')"
  shows "kept m m' \<and> idle m' \<and> (ty \<noteq> 0 \<longrightarrow> (has ty 8 \<longleftrightarrow> hc))"
proof -
  obtain r m1 where 1: "send_cmd H ACMD41 0 m = (r, m1)" by fastforce
  note s = send_cmd_step [OF assms(1,2) init_commands(14,8) 1]
  have m1: "idle m1" "sized m1" using s(4) [OF plain_commands(4)] kept_sized [OF s(1)] assms(2) by auto
  define c where "c = (if r \<le> 1 then ACMD41 else CMD1)"
  define t0 :: BYTE where "t0 = (if r \<le> 1 then 2 else 1)"
  have c: "c = ACMD41 \<or> c = CMD1" by (auto simp: c_def)
  define m2 where "m2 = leave_idle H c 0 m1"
  have p2: "kept m1 m2 \<and> idle m2" unfolding m2_def by (rule leave_idle_step [OF m1 c])
  have vain: "timer1 m2 = 0" if hc unfolding m2_def by (rule leave_idle_in_vain [OF that m1 c])
  define m3 where "m3 = snd (poll_timer1 m2)"
  have p3: "kept m m3" "idle m3"
    unfolding m3_def using kept_trans [OF s(1) kept_trans [OF conjunct1 [OF p2] poll_kept(1)]] p2 by (simp_all add: idle_def)
  have s3: "sized m3" using kept_sized [OF p3(1)] assms(2) by simp
  have e: "init_v1 H m = (if timer1 m2 = 0 then (0, m3)
      else (case send_cmd H CMD16 512 m3 of (r, m) \<Rightarrow> (if r \<noteq> 0 then 0 else t0, m)))"
    by (simp add: init_v1_def 1 m3_def m2_def c_def t0_def poll_timer1_def Let_def split: prod.splits)
  show ?thesis
  proof (cases "timer1 m2 = 0")
    case True
    then show ?thesis using assms(3) p3 by (simp add: e)
  next
    case False
    obtain r4 m4 where 4: "send_cmd H CMD16 512 m3 = (r4, m4)" by fastforce
    note u = send_cmd_step [OF p3(2) s3 init_commands(13,19) 4]
    have "ty = (if r4 \<noteq> 0 then 0 else t0)" "m' = m4" using assms(3) False by (simp_all add: e 4)
    moreover have "\<not> has t0 8" by (simp add: t0_def has_def)
    ultimately show ?thesis using vain False u(1) u(4) [OF plain_commands(3)] kept_trans [OF p3(1)] by auto
  qed
qed

section \<open>The whole initialisation\<close>

lemma answered_conditions_tail:
  "answered hc CMD8 a r q \<Longrightarrow> q \<in> {Ready, Busy} \<or> (\<exists>bs. q = Tail bs \<and> length bs = 4)"
  by (erule answered_conditions) (auto simp: cmd_defs)

lemma kept_update [simp]:
  "kept m (m'\<lparr>timer1 := n\<rparr>) = kept m m'" "P (m\<lparr>timer1 := n\<rparr>) = P m"
  "M (m\<lparr>CardType := ty\<rparr>) = M m" "P (m\<lparr>CardType := ty\<rparr>) = P m"
  "M (m\<lparr>Stat := st\<rparr>) = M m" "P (m\<lparr>Stat := st\<rparr>) = P m"
  by (simp_all add: kept_def M_def P_def)

lemma card_type_step:
  assumes "idle m" "sized m" and "send_cmd H CMD8 0x1AA m = (r, m1)"
    and "(if r = 1 then init_v2 H m1 else init_v1 H m1) = (ty, m')"
  shows "kept m m' \<and> (if ty = 0 then draining 4 m' else idle m' \<and> (has ty 8 \<longleftrightarrow> hc))"
proof -
  note s = send_cmd_step [OF assms(1,2) init_commands(10,16) assms(3)]
  have a: "answered hc CMD8 0x1AA r (P m1)" using s(2) init_commands by blast
  have s1: "sized m1" using kept_sized [OF s(1)] assms(2) by simp
  have "kept m1 m' \<and> (if ty = 0 then draining 4 m' else idle m' \<and> (has ty 8 \<longleftrightarrow> hc))"
  proof (cases "r = 1")
    case True
    then have "init_v2 H m1 = (ty, m')" using assms(4) by simp
    from init_v2_step [OF answered_conditions_tail [OF a] s1 this] show ?thesis .
  next
    case False
    then have "idle m1" using a by (auto simp: idle_def cmd_defs elim!: answered.cases)
    moreover have "init_v1 H m1 = (ty, m')" using assms(4) False by simp
    ultimately show ?thesis using init_v1_step [OF _ s1] by (auto simp: draining_def)
  qed
  then show ?thesis using kept_trans [OF s(1)] by blast
qed

lemma power_off_step:
  assumes "draining 3 m"
  shows "idle (power_off H m) \<and> M (power_off H m) = M m \<and> CardType (power_off H m) = CardType m
    \<and> Stat (power_off H m) = Stat m OR STA_NOINIT"
proof -
  obtain r m1 where w: "wait_ready H (SELECT H m) = (r, m1)" by fastforce
  note d = draining_wait_ready [OF draining_select(1) [OF assms] w]
  note r = draining_release [OF conjunct1 [OF d]]
  have "kept m (release_spi H m1)"
    using kept_trans [OF select_step(2) kept_trans [OF conjunct2 [OF d] conjunct2 [OF r]]] .
  then show ?thesis using r by (simp add: power_off_def w Let_def kept_def draining_0 idle_def)
qed

lemma sta_bits:
  "has (x OR STA_NOINIT) STA_NOINIT" "\<not> has (x AND NOT STA_NOINIT) STA_NOINIT"
  by (simp_all add: has_def STA_NOINIT_def and.assoc bit.conj_disj_distrib2)

lemma disk_initialize_step:
  assumes "idle m" and "sized m" and "\<not> has (Stat m) STA_NODISK"
    and "disk_initialize H 0 m = (st, m')"
  shows "idle m' \<and> M m' = M m \<and> st = Stat m' \<and> (\<not> has st STA_NOINIT \<longrightarrow> card_ok ph medium hc m')"
proof -
  define m0 where "m0 = snd (rcvr_n H 10 (power_on m))"
  have m0: "kept m m0" "idle m0"
    using rcvr_idle [OF assms(1), of 10 "fst (rcvr_n H 10 m)" m0] by (simp_all add: m0_def power_on_def)
  have s0: "sized m0" using kept_sized [OF m0(1)] assms(2) by simp
  obtain r m1 where 1: "send_cmd H CMD0 0 m0 = (r, m1)" by fastforce
  note s = send_cmd_step [OF m0(2) s0 init_commands(9,15) 1]
  have m1: "idle m1" "sized m1" using s(4) [OF plain_commands(1)] kept_sized [OF s(1)] s0 by auto
  define m1' where "m1' = m1\<lparr>timer1 := timer_polls H 100 (spi m1)\<rparr>"
  have m1': "idle m1'" "sized m1'" using m1 by (simp_all add: m1'_def idle_def sized_def M_def)
  obtain r8 m8 where 8: "send_cmd H CMD8 0x1AA m1' = (r8, m8)" by fastforce
  define tm where "tm = (if r = 1 then (if r8 = 1 then init_v2 H m8 else init_v1 H m8) else (0, m1))"
  obtain ty m2 where 2: "tm = (ty, m2)" by fastforce
  have p2: "kept m m2 \<and> (if ty = 0 then draining 4 m2 else idle m2 \<and> (has ty 8 \<longleftrightarrow> hc))"
  proof (cases "r = 1")
    case True
    then have "(if r8 = 1 then init_v2 H m8 else init_v1 H m8) = (ty, m2)" using 2 by (simp add: tm_def)
    from card_type_step [OF m1' 8 this]
    have "kept m1' m2 \<and> (if ty = 0 then draining 4 m2 else idle m2 \<and> (has ty 8 \<longleftrightarrow> hc))" .
    moreover have "kept m m1'" using kept_trans [OF m0(1) s(1)] by (simp add: m1'_def)
    ultimately show ?thesis using kept_trans by blast
  next
    case False
    then show ?thesis using 2 kept_trans [OF m0(1) s(1)] m1(1) by (auto simp: tm_def draining_def)
  qed
  define m3 where "m3 = release_spi H (m2\<lparr>CardType := ty\<rparr>)"
  have "draining (if ty = 0 then 4 else 0) (m2\<lparr>CardType := ty\<rparr>)" using p2 by (auto simp: draining_def idle_def)
  from draining_release [OF this]
  have p3: "draining 3 m3" "ty \<noteq> 0 \<longrightarrow> idle m3" "M m3 = M m" "CardType m3 = ty"
    using p2 by (auto simp: m3_def kept_def draining_0 idle_draining split: if_splits)
  define m4 where "m4 = (if ty \<noteq> 0 then m3\<lparr>Stat := Stat m3 AND NOT STA_NOINIT\<rparr> else power_off H m3)"
  have t: "(if r = 1 then
        let m = m1\<lparr>timer1 := timer_polls H 100 (spi m1)\<rparr> in
        (case send_cmd H CMD8 0x1AA m of (r, m) \<Rightarrow> if r = 1 then init_v2 H m else init_v1 H m)
      else (0, m1)) = (ty, m2)"
    using 2 8 by (cases "r = 1") (simp_all add: tm_def m1'_def)
  have "disk_initialize H 0 m = (Stat m4, m4)"
    unfolding disk_initialize_def m0_def [symmetric] 1 prod.case t
    by (simp add: assms(3) m3_def m4_def Let_def)
  then have res: "st = Stat m4" "m' = m4" using assms(4) by simp_all
  note off = power_off_step [OF p3(1)]
  have p4: "idle m4" "M m4 = M m" using p3 off by (simp_all add: m4_def idle_def)
  moreover have "card_ok ph medium hc m4" if "\<not> has (Stat m4) STA_NOINIT"
  proof -
    have ty: "ty \<noteq> 0" using that off sta_bits(1) by (auto simp: m4_def)
    then have "CardType m4 = ty" using p3(4) by (simp add: m4_def)
    then show ?thesis
      using p4 p2 ty assms(2) by (simp add: card_ok_def idle_def P_def M_def sized_def)
  qed
  ultimately show ?thesis using res by simp
qed

end

end
