(* ===== verification/MmcTheorems.thy ===== *)
theory MmcTheorems
  imports MmcInit Ram_Volume
begin

text \<open>
  The properties of the card driver on every card, with a simulated card, to which they are applied.  It
  answers at once, and a multiple block read goes on while the card is deselected, until \<open>CMD12\<close>.
\<close>

section \<open>A simulated card\<close>

text \<open>The state is the phase and the medium.  The answers are those of a card that has been initialised, or is at once.\<close>

type_synonym sim = "phase \<times> medium"

definition sim_answer :: "BYTE \<Rightarrow> BYTE" where
  "sim_answer c = (if c = CMD0 \<or> c = CMD8 then 1 else 0)"

definition sim_next :: "bool \<Rightarrow> BYTE \<Rightarrow> DWORD \<Rightarrow> phase" where
  "sim_next hc c a =
     (if c = CMD17 then DataWait (block_of hc a) False
      else if c = CMD18 then DataWait (block_of hc a) True
      else if c = CMD24 then WriteWait (block_of hc a) False
      else if c = CMD25 then WriteWait (block_of hc a) True
      else if c = CMD8 then Tail [0, 0, 1, 0xAA]
      else if c = CMD58 then Tail [if hc then 0xC0 else 0x80, 0xFF, 0x80, 0]
      else Ready)"

fun sim_send :: "bool \<Rightarrow> phase \<Rightarrow> medium \<Rightarrow> BYTE \<times> phase \<times> medium" where
  "sim_send hc Ready S = (0xFF, Ready, S)"
| "sim_send hc Busy S = (0xFF, Ready, S)"
| "sim_send hc (Stuff a) S = (0x7F, Wait 8 CMD12 a, S)"
| "sim_send hc (Wait k c a) S =
     (if hc \<and> c \<in> {CMD1, ACMD41 AND 0x7F} \<and> a AND 0x40000000 = 0 then (1, Ready, S)
      else (sim_answer c, sim_next hc c a, S))"
| "sim_send hc (Tail (d # bs)) S = (d, if bs = [] then Ready else Tail bs, S)"
| "sim_send hc (DataWait n multi) S = (0xFE, Data (S n) n multi, S)"
| "sim_send hc (Data (d # ds) n multi) S = (d, if ds = [] then DataCrc 2 n multi else Data ds n multi, S)"
| "sim_send hc (DataCrc (Suc k) n multi) S =
     (if k = 0 then 0xFF else 0, if k \<noteq> 0 then DataCrc k n multi else if multi then DataWait (n + 1) True else Ready, S)"
| "sim_send hc (WriteWait n multi) S = (0xFF, WriteWait n multi, S)"
| "sim_send hc (WriteResp bs n multi) S = (0xE5, if multi then BusyW (n + 1) else Busy, S(n := bs))"
| "sim_send hc (BusyW n) S = (0xFF, WriteWait n True, S)"
| "sim_send hc ph S = (0xFF, Lost, S)"

fun sim_receive :: "phase \<Rightarrow> BYTE \<Rightarrow> phase" where
  "sim_receive Ready b = Frame [b]"
| "sim_receive (Frame bs) b = (if length bs < 5 then Frame (bs @ [b])
     else if bs ! 0 = CMD12 then Stuff (frame_arg bs) else Wait 8 (bs ! 0) (frame_arg bs))"
| "sim_receive (DataWait n multi) b = Frame [b]"
| "sim_receive (Data ds n multi) b = Frame [b]"
| "sim_receive (DataCrc k n multi) b = Frame [b]"
| "sim_receive (WriteWait n multi) b = (if multi \<and> b = 0xFD then Busy else WriteData [] n multi)"
| "sim_receive (WriteData bs n multi) b =
     (if length bs < 513 then WriteData (bs @ [b]) n multi else WriteResp (take 512 bs) n multi)"
| "sim_receive ph b = Lost"

text \<open>A byte of the host is received where the card expects data, and only clocks the card where it sends.\<close>

fun receiving :: "phase \<Rightarrow> bool" where
  "receiving (Frame bs) = True"
| "receiving (WriteData bs n multi) = True"
| "receiving ph = False"

definition sim_xfer :: "bool \<Rightarrow> BYTE \<Rightarrow> sim \<Rightarrow> BYTE \<times> sim" where
  "sim_xfer hc b h =
     (if \<not> expects (fst h) b then (0xFF, Lost, snd h)
      else if receiving (fst h) \<or> b \<noteq> 0xFF then (0xFF, sim_receive (fst h) b, snd h)
      else sim_send hc (fst h) (snd h))"

definition sim_hw :: "bool \<Rightarrow> sim spi_hw" where
  "sim_hw hc = \<lparr>spi_xfer = sim_xfer hc, spi_cs = (\<lambda>high h. h),
     timer_polls = (\<lambda>n h. if n = 50 then 600 else 3)\<rparr>"

lemma argument_bit: "a AND 0x40000000 \<noteq> 0 \<Longrightarrow> bit (a :: DWORD) 30"
  using and_exp_eq_0_iff_not_bit [of a 30] by simp

lemma sim_answered:
  assumes "\<not> (hc \<and> c \<in> {CMD1, ACMD41 AND 0x7F} \<and> a AND 0x40000000 = 0)"
  shows "answered hc c a (sim_answer c) (sim_next hc c a)"
proof -
  note s = sim_answer_def sim_next_def cmd_defs
  consider "c = CMD17" | "c = CMD18" | "c = CMD24" | "c = CMD25" | "c = CMD8" | "c = CMD58"
    | "c \<notin> {CMD8, CMD17, CMD18, CMD24, CMD25, CMD58}" by blast
  then show ?thesis
  proof cases
    case 1
    then show ?thesis using answered.read_one [of hc a] by (simp add: s)
  next
    case 2
    then show ?thesis using answered.read_many [of hc a] by (simp add: s)
  next
    case 3
    then show ?thesis using answered.write_one [of hc a] by (simp add: s)
  next
    case 4
    then show ?thesis using answered.write_many [of hc a] by (simp add: s)
  next
    case 5
    then show ?thesis using answered.conditions [of "[0, 0, 1, 0xAA]" hc a] by (simp add: s)
  next
    case 6
    then show ?thesis 
      using answered.ocr [of "[if hc then 0xC0 else 0x80, 0xFF, 0x80, 0]" 0 hc a] by (simp add: s has_def)
  next
    case 7
    have "sim_next hc c a = Ready" using 7 by (simp add: sim_next_def)
    moreover have "hc \<and> sim_answer c = 0 \<and> c \<in> {CMD1, ACMD41 AND 0x7F} \<longrightarrow> bit a 30"
      using assms argument_bit by blast
    ultimately show ?thesis using answered.plain [OF 7] by simp
  qed
qed

lemma sim_sends:
  assumes "\<not> receiving q" "expects q 0xFF" "sim_send hc q S = (r, q', S')"
  shows "card_step hc q S 0xFF r q' S'"
proof (cases q)
  case (Wait k c a)
  then show ?thesis
    using assms sim_answered [of hc c a] answered.refused [of 1 hc c a]
    by (auto simp: has_def sim_answer_def intro!: card_step.answer split: if_splits)
next
  case (Tail bs)
  then show ?thesis using assms by (cases bs) (auto intro: card_step.intros)
next
  case (Data ds n multi)
  then show ?thesis using assms by (cases ds) (auto intro: card_step.intros)
next
  case (DataCrc k n multi)
  then show ?thesis using assms card_step.data_crc [of hc "k - 1" n multi S r] by (cases k) (auto split: if_splits)
qed (use assms in \<open>auto intro: card_step.intros\<close>)

lemma sim_receives:
  assumes "expects q b" "receiving q \<or> b \<noteq> 0xFF"
  shows "card_step hc q S b 0xFF (sim_receive q b) S"
proof (cases q)
  case (Frame bs)
  then show ?thesis using assms card_step.frame card_step.frame_end card_step.frame_stop by fastforce
next
  case (WriteData bs n multi)
  then show ?thesis using assms card_step.write_data card_step.write_last by fastforce
qed (use assms in \<open>auto intro: card_step.intros\<close>)

lemma sim_xfer_step:
  assumes "sim_xfer hc b h = (r, h')"
  shows "card_step hc (fst h) (snd h) b r (fst h') (snd h')"
proof -
  obtain q S where h: "h = (q, S)" by fastforce
  consider "\<not> expects q b" | "expects q b" "receiving q \<or> b \<noteq> 0xFF" | "expects q 0xFF" "\<not> receiving q" "b = 0xFF"
    by blast
  then show ?thesis
  proof cases
    case 1
    then show ?thesis using assms card_step.lost by (auto simp: h sim_xfer_def)
  next
    case 2
    then show ?thesis using assms sim_receives [OF 2, of hc S] by (auto simp: h sim_xfer_def)
  next
    case 3
    obtain q' S' where h': "h' = (q', S')" by fastforce
    have "sim_send hc q S = (r, q', S')" using assms 3 by (auto simp: h h' sim_xfer_def)
    from sim_sends [OF 3(2,1) this] show ?thesis using 3(3) by (simp add: h h')
  qed
qed

text \<open>The next byte 0xFF of a card in a multiple block read is the last of the checksum, at the latest.\<close>

definition sim_clock :: "bool \<Rightarrow> sim \<Rightarrow> sim" where
  "sim_clock hc h = snd (sim_xfer hc 0xFF h)"

lemma sim_sent: "sent (sim_hw hc) k h = fst (sim_xfer hc 0xFF ((sim_clock hc ^^ k) h))"
  by (simp add: sent_def sim_hw_def sim_clock_def [abs_def])

lemma sim_data_clock:
  assumes "ds \<noteq> []"
  shows "(sim_clock hc ^^ length ds) (Data ds n multi, S) = (DataCrc 2 n multi, S)"
  using assms
proof (induction ds)
  case (Cons d ds)
  have "sim_clock hc (Data (d # ds) n multi, S) = (if ds = [] then DataCrc 2 n multi else Data ds n multi, S)"
    by (simp add: sim_clock_def sim_xfer_def)
  then show ?case using Cons by (cases "ds = []") (simp_all add: funpow_Suc_right del: funpow.simps(2))
qed simp

lemma sim_gap:
  assumes "length (S n) = 512"
  shows "sent (sim_hw hc) 514 (DataWait n True, S) = 0xFF"
proof -
  let ?c = "sim_clock hc"
  have "S n \<noteq> []" using assms by auto
  from sim_data_clock [OF this, of hc n True S] have d: "(?c ^^ 512) (Data (S n) n True, S) = (DataCrc 2 n True, S)"
    by (simp add: assms)
  have "?c (DataWait n True, S) = (Data (S n) n True, S)" by (simp add: sim_clock_def sim_xfer_def)
  then have "(?c ^^ Suc 512) (DataWait n True, S) = (DataCrc 2 n True, S)"
    unfolding funpow_Suc_right using d by simp
  moreover have "?c (DataCrc 2 n True, S) = (DataCrc 1 n True, S)"
    by (simp add: sim_clock_def sim_xfer_def numeral_2_eq_2)
  ultimately have "(?c ^^ Suc (Suc 512)) (DataWait n True, S) = (DataCrc 1 n True, S)"
    unfolding funpow.simps(2) [of "Suc 512"] by simp
  moreover have "(514 :: nat) = Suc (Suc 512)" by simp
  ultimately have "(?c ^^ 514) (DataWait n True, S) = (DataCrc 1 n True, S)" by (simp only:)
  then show ?thesis by (simp add: sim_sent sim_xfer_def)
qed

interpretation sim: sd_card "sim_hw hc" fst snd hc ram_cap for hc
proof
  fix b r and h h' :: sim and n multi
  show "spi_xfer (sim_hw hc) b h = (r, h') \<Longrightarrow> card_step hc (fst h) (snd h) b r (fst h') (snd h')"
    by (simp add: sim_hw_def sim_xfer_step)
  obtain q S where h: "h = (q, S)" by fastforce
  assume l: "\<forall>i. length (snd h i) = 512"
  show "\<exists>k \<le> timer_polls (sim_hw hc) 50 h. sent (sim_hw hc) (Suc k) h = 0xFF"
    if "fst h = Busy \<or> fst h = BusyW n \<or> fst h = DataWait n True"
  proof (cases "fst h = DataWait n True")
    case True
    then have "sent (sim_hw hc) (Suc 513) h = 0xFF" using sim_gap [of S n hc] l by (simp add: h)
    moreover have "513 \<le> timer_polls (sim_hw hc) 50 h" by (simp add: sim_hw_def)
    ultimately show ?thesis by blast
  next
    case False
    then have "sent (sim_hw hc) (Suc 0) h = 0xFF" using that by (auto simp: h sim_sent sim_clock_def sim_xfer_def)
    then show ?thesis by blast
  qed
  show "\<exists>k \<le> timer_polls (sim_hw hc) 10 h. sent (sim_hw hc) k h \<noteq> 0xFF" if "fst h = DataWait n multi"
    using that by (intro exI [of _ 0]) (simp add: h sim_sent sim_xfer_def)
qed (simp_all add: sim_hw_def ram_cap_def)

text \<open>What the driver's steps do with the simulated card.\<close>

lemma sim_rcvr: "spi m = (q, S) \<Longrightarrow> expects q 0xFF \<Longrightarrow> \<not> receiving q \<Longrightarrow>
  rcvr_spi (sim_hw hc) m = (fst (sim_send hc q S), m\<lparr>spi := snd (sim_send hc q S)\<rparr>)"
  by (simp add: rcvr_spi_def sim_hw_def sim_xfer_def split: prod.splits)

lemma sim_polls [simp]: "timer_polls (sim_hw hc) n h = (if n = 50 then 600 else Suc (Suc (Suc 0)))"
  by (simp add: sim_hw_def)

lemma wait_loop_ready: "rcvr_spi H m = (0xFF, m') \<Longrightarrow> wait_loop H n m = (0xFF, m')"
  by (cases n) simp_all

lemma sim_selected:
  assumes "q = Ready \<or> q = Busy" and m: "spi m = (q, S)"
  shows "wait_ready (sim_hw hc) (SELECT (sim_hw hc) (DESELECT (sim_hw hc) m)) = (0xFF, m\<lparr>spi := (Ready, S)\<rparr>)"
proof -
  let ?m = "SELECT (sim_hw hc) (DESELECT (sim_hw hc) m)"
  have 1: "?m = m" by (simp add: SELECT_def DESELECT_def sim_hw_def)
  have "snd (rcvr_spi (sim_hw hc) m) = m\<lparr>spi := (Ready, S)\<rparr>"
    using assms by (auto simp: sim_rcvr)
  then show ?thesis
    unfolding 1 wait_ready_def Let_def by (simp add: wait_loop_ready sim_rcvr [of _ Ready S])
qed

lemma sim_xmit: "spi m = (q, S) \<Longrightarrow> expects q b \<Longrightarrow> receiving q \<or> b \<noteq> 0xFF \<Longrightarrow>
  xmit_spi (sim_hw hc) b m = m\<lparr>spi := (sim_receive q b, S)\<rparr>"
  by (auto simp: xmit_spi_def sim_hw_def sim_xfer_def)

lemma sim_frame:
  assumes "spi m = (Ready, S)" "c AND 0xC0 = 0x40" "c \<noteq> CMD12"
  shows "xmit_n (sim_hw hc) (cmd_frame c a) m = m\<lparr>spi := (Wait 8 c a, S)\<rparr>"
proof -
  have c: "c \<noteq> 0xFF" using assms(2) by auto
  have f: "frame_arg [c, ucast (drop_bit 24 a), ucast (drop_bit 16 a), ucast (drop_bit 8 a), ucast a] = a"
    using frame_arg_cmd_frame [of c a] by (simp add: frame_arg_def cmd_frame_def)
  show ?thesis using assms c f by (simp add: cmd_frame_def sim_xmit)
qed

lemma sim_command:
  assumes "spi m = (q, S)" "q = Ready \<or> q = Busy" "c AND 0xC0 = 0x40" "c \<noteq> CMD12"
    and "\<not> (hc \<and> c \<in> {CMD1, ACMD41 AND 0x7F} \<and> a AND 0x40000000 = 0)"
  shows "send_cmd_plain (sim_hw hc) c a m = (sim_answer c, m\<lparr>spi := (sim_next hc c a, S)\<rparr>)"
proof -
  let ?m = "m\<lparr>spi := (Wait 8 c a, S)\<rparr>"
  have "rcvr_spi (sim_hw hc) ?m = (sim_answer c, m\<lparr>spi := (sim_next hc c a, S)\<rparr>)"
    using assms(5) by (subst sim_rcvr [of _ "Wait 8 c a" S]) auto
  moreover have "\<not> has (sim_answer c) 0x80" by (simp add: sim_answer_def has_def)
  moreover have "(10 :: nat) = Suc 9" by simp
  ultimately have "wait_resp (sim_hw hc) 10 ?m = (sim_answer c, m\<lparr>spi := (sim_next hc c a, S)\<rparr>)"
    by (simp only: wait_resp.simps prod.case) simp
  then show ?thesis
    using sim_frame [of "m\<lparr>spi := (Ready, S)\<rparr>" S c hc a] assms(3,4)
    by (simp add: send_cmd_plain_def sim_selected [OF assms(2,1)] Let_def)
qed

text \<open>The card with the demonstration volume, before and after initialisation.\<close>

definition sim_mmc :: "sim mmc" where
  "sim_mmc = \<lparr>Stat = 0, CardType = 2, timer1 = 0, spi = (Ready, demo_sec)\<rparr>"

lemma sim_card_ok: "card_ok fst snd False sim_mmc"
  using demo_ok by (simp add: card_ok_def sim_mmc_def has_def ram_ok_def)

text \<open>Reads within range do not fail on this card.\<close>

lemma sim_block:
  assumes "spi m = (DataWait n multi, S)" and "\<forall>i. length (S i) = 512"
    and "rcvr_datablock (sim_hw hc) buff 512 m = (ok, buff', m')"
  shows "ok \<and> (multi \<longrightarrow> spi m' = (DataWait (n + 1) True, S))"
proof -
  have ok: ok
    using assms(1,3) by (simp add: rcvr_datablock_def sim_rcvr [of _ "DataWait n multi" S] split: prod.splits)
  from sim.rcvr_datablock_step [of m n multi, OF _ _ assms(3)] assms(1,2)
  have "sim.kept m m' \<and> (multi \<longrightarrow> sim.P m' = DataWait (n + 1) True)"
    using ok by (cases multi) (auto simp: sim.P_def sim.M_def sim.sized_def)
  then show ?thesis using ok assms(1) by (auto simp: sim.kept_def sim.P_def sim.M_def intro: prod_eqI)
qed

lemma sim_blocks:
  assumes "spi m = (DataWait n True, S)" and "\<forall>i. length (S i) = 512"
  shows "fst (read_blocks (sim_hw hc) k buff p m) = 0"
  using assms(1)
proof (induction k arbitrary: n buff p m)
  case (Suc k)
  obtain ok bs m1 where 1: "rcvr_datablock (sim_hw hc) (drop p buff) 512 m = (ok, bs, m1)" by (metis prod_cases3)
  from sim_block [OF Suc.prems assms(2) 1] show ?case using Suc.IH [of m1 "n + 1"] by (simp add: 1 Let_def)
qed simp

lemma sim_reads:
  assumes "card_ok fst snd hc m" "\<not> has (Stat m) STA_NOINIT" "cnt \<noteq> 0"
  shows "fst (disk_read (sim_hw hc) 0 buff n cnt m) = RES_OK"
proof -
  have p: "fst (spi m) = Ready \<or> fst (spi m) = Busy" "\<forall>i. length (snd (spi m) i) = 512" using assms(1) by (auto simp: card_ok_def)
  have c: "send_cmd (sim_hw hc) c a m = (0, m\<lparr>spi := (DataWait (block_of hc a) (c = CMD18), snd (spi m))\<rparr>)"
    if "c = CMD17 \<or> c = CMD18" for c a
    using sim_command [of m "fst (spi m)" "snd (spi m)" c hc a] p(1) that
    by (auto simp: send_cmd_def sim_answer_def sim_next_def has_def cmd_defs)
  show ?thesis
  proof (cases "cnt = 1")
    case True
    let ?m = "m\<lparr>spi := (DataWait (block_of hc (block_address m n)) False, snd (spi m))\<rparr>"
    obtain ok b m' where d: "rcvr_datablock (sim_hw hc) buff 512 ?m = (ok, b, m')" by (metis prod_cases3)
    have "ok" using sim_block [of ?m _ False, OF _ p(2) d] by simp
    moreover have "CMD17 \<noteq> CMD18" by (simp add: cmd_defs)
    ultimately show ?thesis using True assms(2) d by (simp add: disk_read_def c Let_def)
  next
    case False
    let ?m = "m\<lparr>spi := (DataWait (block_of hc (block_address m n)) True, snd (spi m))\<rparr>"
    obtain left b m' where d: "read_blocks (sim_hw hc) (unat cnt) buff 0 ?m = (left, b, m')" by (metis prod_cases3)
    have "left = 0" using sim_blocks [OF _ p(2), of ?m _ hc "unat cnt" buff 0] d by simp
    then show ?thesis using False assms(2,3) d by (simp add: disk_read_def c Let_def)
  qed
qed

definition sim_ok :: "sim mmc \<Rightarrow> bool" where
  "sim_ok m \<longleftrightarrow> card_ok fst snd False m \<and> \<not> has (Stat m) STA_NOINIT"

interpretation sim_disk: reliable_device "mmc_io True (sim_hw False)" sim_ok "\<lambda>m. snd (spi m)" ram_cap
proof
  fix d d' :: "sim mmc" and buf buf' :: "BYTE list" and n :: DWORD and cnt :: BYTE and r
  assume d: "sim_ok d"
  note c = d [unfolded sim_ok_def]
  show "length (snd (spi d) m) = 512" for m using c by (simp add: card_ok_def)
  show "\<not> has (dio_status (mmc_io True (sim_hw False)) 0 d) STA_NOINIT"
    using c by (simp add: mmc_io_def disk_status_def)
  assume range: "512 * unat cnt \<le> length buf" "unat n + unat cnt \<le> ram_cap"
  {
    assume "dio_read (mmc_io True (sim_hw False)) 0 buf n cnt d = (r, buf', d')"
    from sim.disk.read_frame [OF conjunct1 [OF c] this range]
    show "sim_ok d' \<and> snd (spi d') = snd (spi d) \<and> length buf' = length buf
        \<and> dio_status (mmc_io True (sim_hw False)) 0 d' = dio_status (mmc_io True (sim_hw False)) 0 d"
      using c by (simp add: sim_ok_def mmc_io_def disk_status_def)
  next
    assume "dio_read (mmc_io True (sim_hw False)) 0 buf n cnt d = (RES_OK, buf', d')"
    from sim.disk.read_data [OF conjunct1 [OF c] this range]
    show "cnt \<noteq> 0 \<and> buf' = blit buf 0 (sectors (snd (spi d)) (unat n) (unat cnt))" .
  next
    assume "dio_write (mmc_io True (sim_hw False)) 0 buf n cnt d = (r, d')"
    then have w: "disk_write (sim_hw False) 0 buf n cnt d = (r, d')" by (simp add: mmc_io_def)
    from sim.disk_write_step [OF conjunct1 [OF c] w range]
    show "sim_ok d' \<and> (\<forall>m. m < unat n \<or> unat n + unat cnt \<le> m \<longrightarrow> snd (spi d') m = snd (spi d) m)
        \<and> dio_status (mmc_io True (sim_hw False)) 0 d' = dio_status (mmc_io True (sim_hw False)) 0 d"
      using c by (simp add: sim_ok_def sim.write_result_def sim.stored_def sim.M_def mmc_io_def disk_status_def)
  next
    assume "dio_write (mmc_io True (sim_hw False)) 0 buf n cnt d = (RES_OK, d')"
    from sim.disk.write_data [OF conjunct1 [OF c] this range]
    show "cnt \<noteq> 0 \<and> snd (spi d') = store_sectors (snd (spi d)) (unat n) (unat cnt) buf" .
  next
    assume "cnt \<noteq> 0" and "dio_read (mmc_io True (sim_hw False)) 0 buf n cnt d = (r, buf', d')"
    then show "r = RES_OK" using sim_reads [of False d cnt buf n] c by (simp add: mmc_io_def)
  }
next
  fix d d' :: "sim mmc" and buf buf' :: "BYTE list" and n :: DWORD and r
  assume d: "sim_ok d" and "dio_read (mmc_io True (sim_hw False)) 0 buf n 1 d = (r, buf', d')"
    and "512 \<le> length buf" "unat n + 1 \<le> ram_cap" "r \<noteq> RES_OK"
  then show "buf' = buf" using sim.disk.read_failed unfolding sim_ok_def by blast
qed (rule sim.disk.dcap_bound)

section \<open>Reading and writing sectors\<close>

text \<open>C17: \<open>disk_read\<close> refines the reading of an abstract medium.  On every SD card, whatever its failures and,
  within the limits of the specification, its delays, a read of sectors within its capacity leaves the
  medium, the drive status and the length of the buffer as they were, and the card without a transaction:
  a multiple block read is ended by \<open>CMD12\<close>, also if the card has gone on while it was deselected.  If it
  returns \<open>RES_OK\<close> the buffer starts with the bytes of exactly the sectors asked for, at the byte or block
  address the card type needs, and is otherwise untouched; if a read of one sector fails, the buffer is unchanged.\<close>

theorem card_read_delivers:
  assumes "sd_card H ph medium hc cap" and "card_ok ph medium hc m"
    and "disk_read H 0 buff n cnt m = (r, buff', m')"
    and "512 * unat cnt \<le> length buff" and "unat n + unat cnt \<le> cap"
  shows "card_ok ph medium hc m' \<and> medium (spi m') = medium (spi m) \<and> Stat m' = Stat m
    \<and> length buff' = length buff
    \<and> (r = RES_OK \<longrightarrow> cnt \<noteq> 0 \<and> buff' = blit buff 0 (sectors (medium (spi m)) (unat n) (unat cnt)))
    \<and> (cnt = 1 \<and> r \<noteq> RES_OK \<longrightarrow> buff' = buff)"
  using sd_card.disk_read_step [OF assms]
  by (simp add: sd_card.read_result_def [OF assms(1)] sd_card.kept_def [OF assms(1)] sd_card.M_def [OF assms(1)])

theorem card_read_delivers_witness:
  "\<exists>m'. disk_read (sim_hw False) 0 (replicate 1024 0) 2 2 sim_mmc = (RES_OK, demo_root @ demo_sec 3, m')
     \<and> fst (spi m') \<in> {Busy, Ready}"
proof -
  obtain r buff' m' where d: "disk_read (sim_hw False) 0 (replicate 1024 0) 2 2 sim_mmc = (r, buff', m')"
    by (metis prod_cases3)
  have l: "length (demo_sec 2) = 512" "length (demo_sec 3) = 512" using demo_ok by (simp_all add: ram_ok_def)
  have s: "sectors demo_sec 2 2 = demo_root @ demo_sec 3" "length (demo_root @ demo_sec 3) = 1024"
    using l by (simp_all add: sectors_def upt_rec demo_sec.simps)
  show ?thesis
    using card_read_delivers [OF sim.sd_card_axioms sim_card_ok d] sim_reads [OF sim_card_ok, of 2 "replicate 1024 0" 2] d s
    by (simp add: has_def ram_cap_def sim_mmc_def card_ok_def blit_def)
qed

text \<open>C18: \<open>disk_write\<close> refines the writing of an abstract medium.  On every such SD card a write of sectors within
  its capacity leaves the card without a transaction and every other sector of the medium as it was; if
  it returns \<open>RES_OK\<close>, exactly the sectors addressed hold the first bytes of the buffer, in order.\<close>

theorem card_write_stores:
  assumes "sd_card H ph medium hc cap" and "card_ok ph medium hc m"
    and "disk_write H 0 buff n cnt m = (r, m')"
    and "512 * unat cnt \<le> length buff" and "unat n + unat cnt \<le> cap"
  shows "card_ok ph medium hc m' \<and> Stat m' = Stat m
    \<and> (\<forall>i. i < unat n \<or> unat n + unat cnt \<le> i \<longrightarrow> medium (spi m') i = medium (spi m) i)
    \<and> (r = RES_OK \<longrightarrow> cnt \<noteq> 0 \<and> medium (spi m') = store_sectors (medium (spi m)) (unat n) (unat cnt) buff)"
  using sd_card.disk_write_step [OF assms]
  by (simp add: sd_card.write_result_def [OF assms(1)] sd_card.stored_def [OF assms(1)] sd_card.M_def [OF assms(1)])

theorem card_write_stores_witness:
  "\<exists>r m'. disk_write (sim_hw False) 0 (replicate 1024 7) 3 2 sim_mmc = (r, m') \<and> card_ok fst snd False m'
     \<and> snd (spi m') 5 = demo_dir \<and> (r = RES_OK \<longrightarrow> snd (spi m') 4 = replicate 512 7)"
proof -
  obtain r m' where d: "disk_write (sim_hw False) 0 (replicate 1024 7) 3 2 sim_mmc = (r, m')" by fastforce
  have "slice 512 512 (replicate 1024 7) = (replicate 512 7 :: BYTE list)" by (simp add: slice_def)
  then show ?thesis
    using card_write_stores [OF sim.sd_card_axioms sim_card_ok d] d
    by (simp add: ram_cap_def sim_mmc_def demo_sec.simps store_sectors_def)
qed

text \<open>C19: Initialising a card recognises its addressing.  On every such SD card \<open>disk_initialize\<close> terminates
  without touching the medium and leaves the card without a transaction; if it clears \<open>STA_NOINIT\<close> the
  noted card type has the block addressing flag exactly if the card has high capacity, so that the
  addresses of later transfers are right.\<close>

theorem card_type_detected:
  assumes "sd_card H ph medium hc cap" and "ph (spi m) \<in> {Busy, Ready}"
    and "\<forall>n. length (medium (spi m) n) = 512" and "\<not> has (Stat m) STA_NODISK"
    and "disk_initialize H 0 m = (st, m')"
  shows "ph (spi m') \<in> {Busy, Ready} \<and> medium (spi m') = medium (spi m) \<and> st = Stat m'
    \<and> (\<not> has st STA_NOINIT \<longrightarrow> (has (CardType m') 8 \<longleftrightarrow> hc) \<and> card_ok ph medium hc m')"
  using sd_card.disk_initialize_step [OF assms(1) _ _ assms(4,5)] assms(2,3)
  by (simp add: sd_card.idle_def [OF assms(1)] sd_card.sized_def [OF assms(1)] sd_card.P_def [OF assms(1)] sd_card.M_def [OF assms(1)]) (auto simp: card_ok_def)

lemma sim_steps:
  "fst (spi m) = Ready \<or> fst (spi m) = Busy \<Longrightarrow> c AND 0xC0 = 0x40 \<Longrightarrow> c \<noteq> CMD12 \<Longrightarrow>
    \<not> (hc \<and> c \<in> {CMD1, ACMD41 AND 0x7F} \<and> a AND 0x40000000 = 0) \<Longrightarrow>
    send_cmd_plain (sim_hw hc) c a m = (sim_answer c, m\<lparr>spi := (sim_next hc c a, snd (spi m))\<rparr>)"
  "expects (fst (spi m)) 0xFF \<Longrightarrow> \<not> receiving (fst (spi m)) \<Longrightarrow>
    rcvr_spi (sim_hw hc) m = (fst (sim_send hc (fst (spi m)) (snd (spi m))),
      m\<lparr>spi := snd (sim_send hc (fst (spi m)) (snd (spi m)))\<rparr>)"
  using sim_command [of m "fst (spi m)" "snd (spi m)" c hc a] sim_rcvr [of m "fst (spi m)" "snd (spi m)" hc]
  by simp_all

definition sim_start :: "sim mmc" where
  "sim_start = mmc_start (Ready, demo_sec)"

lemma sim_dummy_clocks: "snd (rcvr_n (sim_hw hc) n sim_start) = sim_start"
proof (induction n)
  case (Suc n)
  have "rcvr_spi (sim_hw hc) sim_start = (0xFF, sim_start)"
    by (simp add: sim_steps sim_start_def mmc_start_def)
  then show ?case using Suc by (auto split: prod.splits)
qed simp

lemma sim_detects: 
  "\<exists>m'. disk_initialize (sim_hw True) 0 sim_start = (0, m')"
proof -
  note c = sim_steps cmd_defs sim_answer_def sim_next_def has_def send_cmd_def
  let ?m = "\<lambda>q t. \<lparr>Stat = STA_NOINIT, CardType = 0, timer1 = t, spi = (q, demo_sec)\<rparr> :: sim mmc"
  have s: "sim_start = ?m Ready 0" by (simp add: sim_start_def mmc_start_def)
  have 0: "send_cmd (sim_hw True) CMD0 0 sim_start = (1, ?m Ready 0)"
    by (simp add: c s)
  have 8: "send_cmd (sim_hw True) CMD8 0x1AA (?m Ready 3) = (1, ?m (Tail [0, 0, 1, 0xAA]) 3)"
    by (simp add: c s)
  have 41: "send_cmd (sim_hw True) ACMD41 0x40000000 (?m Ready 2) = (0, ?m Ready 2)"
    by (simp add: c s)
  have 58: "send_cmd (sim_hw True) CMD58 0 (?m Ready (Suc 0)) = (0, ?m (Tail [0xC0, 0xFF, 0x80, 0]) (Suc 0))"
    by (simp add: c s)
  have l: "leave_idle (sim_hw True) ACMD41 0x40000000 (?m Ready 3) = ?m Ready 2"
    by (subst leave_idle.simps) (use 41 in \<open>simp add: poll_timer1_def Let_def\<close>)
  have r8: "rcvr_n (sim_hw True) 4 (?m (Tail [0, 0, 1, 0xAA]) 3) = ([0, 0, 1, 0xAA], ?m Ready 3)"
    by (simp add: sim_steps numeral_eq_Suc)
  have r58: "rcvr_n (sim_hw True) 4 (?m (Tail [0xC0, 0xFF, 0x80, 0]) (Suc 0)) = ([0xC0, 0xFF, 0x80, 0], ?m Ready (Suc 0))"
    by (simp add: sim_steps numeral_eq_Suc)
  have v2: "init_v2 (sim_hw True) (?m (Tail [0, 0, 1, 0xAA]) 3) = (12, ?m Ready (Suc 0))"
    by (simp add: init_v2_def r8 l poll_timer1_def 58 r58 has_def)
  have n: "\<not> has (Stat sim_start) STA_NODISK" "STA_NOINIT AND NOT STA_NOINIT = 0"
    by (simp_all add: s has_def STA_NOINIT_def STA_NODISK_def)
  have st: "Stat (release_spi (sim_hw True) m) = Stat m" for m
    by (simp add: release_spi_def rcvr_spi_def DESELECT_def split: prod.split)
  show ?thesis
    unfolding disk_initialize_def power_on_def sim_dummy_clocks
    by (simp add: 0 8 [unfolded numeral_3_eq_3] v2 [unfolded numeral_3_eq_3] n st Let_def)
qed

theorem card_type_detected_witness:
  "\<exists>m'. disk_initialize (sim_hw True) 0 sim_start = (0, m') \<and> has (CardType m') 8 \<and> snd (spi m') = demo_sec"
proof -
  obtain m' where d: "disk_initialize (sim_hw True) 0 sim_start = (0, m')" using sim_detects by blast
  have "\<forall>n. length (demo_sec n) = 512" using demo_ok by (simp add: ram_ok_def)
  then show ?thesis
    using card_type_detected [OF sim.sd_card_axioms _ _ _ d] d
    by (simp add: sim_start_def mmc_start_def has_def STA_NOINIT_def STA_NODISK_def)
qed

section \<open>The file system on the card\<close>

text \<open>C16: Reading a file from an SD card through the whole stack.  With the driver as the disk of the file
  system and an SD card behind its SPI port that keeps the time limits of the specification, \<open>f_read\<close> on an open handle with a well-formed cluster
  chain terminates; if it returns \<open>FR_OK\<close> the buffer starts with the bytes that the card's medium
  records at the position of the file, as many as asked for and left in the file; if not, it returns
  \<open>FR_RW_ERROR\<close> and sets the error flag.  The medium is unchanged and the card has no transaction under
  way, not even one it went on with while it was deselected.\<close>

theorem f_read_from_card:
  assumes "sd_card H ph medium hc cap" and "io = mmc_io ro H"
    and "coherent (card_ok ph medium hc) (\<lambda>m. medium (spi m)) cap s" and "vol_ok cap (cur_fs s)"
    and "open_on io fp s" and "file_on (medium (spi (disk s))) (cur_fs s) fp cl" and "pos_ok (cur_fs s) cl fp"
    and "n = min (unat btr) (unat (fp_fsize fp) - unat (fp_fptr fp))" and "n \<le> length buf"
  shows "\<exists>r fp' buf' br s'. f_read io fp buf btr s = Some (r, fp', buf', br, s')
    \<and> medium (spi (disk s')) = medium (spi (disk s)) \<and> ph (spi (disk s')) \<in> {Busy, Ready}
    \<and> (r = FR_OK \<and> unat br = n \<and> pos_ok (cur_fs s) cl fp'
        \<and> buf' = blit buf 0 (slice (unat (fp_fptr fp)) n (file_bytes (medium (spi (disk s))) (cur_fs s) fp cl))
       \<or> r = FR_RW_ERROR \<and> has (fp_flag fp') FA_ERROR)"
proof -
  have d: "disk_device io (card_ok ph medium hc) (\<lambda>m. medium (spi m)) cap"
    unfolding assms(2) by (rule sd_card.mmc_disk [OF assms(1)])
  from disk_device.f_read_content [OF d assms(3-9)] show ?thesis
    by (fastforce simp: coherent_def same_vol_def card_ok_def)
qed

definition sim_tff :: "sim mmc tff" where
  "sim_tff = \<lparr>FatFs = 1, fsid = 1, fs_win = demo_boot, fsobj = (\<lambda>_. zero_FATFS)(1 := demo_fs), disk = sim_mmc\<rparr>"

theorem f_read_from_card_witness:
  "\<exists>fp' br s'. f_read (mmc_io True (sim_hw False)) demo_file (replicate 600 0) 600 sim_tff
     = Some (FR_OK, fp', replicate 512 3 @ replicate 88 4, br, s') \<and> snd (spi (disk s')) = demo_sec"
proof -
  let ?io = "mmc_io True (sim_hw False)"
  have coh: "coherent (card_ok fst snd False) (\<lambda>m. snd (spi m)) ram_cap sim_tff"
    "coherent sim_ok (\<lambda>m. snd (spi m)) ram_cap sim_tff"
    using demo_coherent sim_card_ok
    by (simp_all add: coherent_def sim_tff_def demo_state_def sim_ok_def sim_mmc_def has_def)
  have v: "vol_ok ram_cap (cur_fs sim_tff)" using demo_vol by (simp add: sim_tff_def)
  have op: "open_on ?io demo_file sim_tff"
    by (simp add: open_on_def demo_file_def validate_def sim_tff_def mmc_io_def disk_status_def sim_mmc_def
        has_def demo_fs_def tff_consts)
  have fo: "file_on (snd (spi (disk sim_tff))) (cur_fs sim_tff) demo_file [2, 3]"
    using demo_file_on by (simp add: sim_tff_def sim_mmc_def)
  have po: "pos_ok (cur_fs sim_tff) [2, 3] demo_file" by (simp add: pos_ok_def demo_file_def)
  have n: "600 = min (unat (600 :: WORD)) (unat (fp_fsize demo_file) - unat (fp_fptr demo_file))"
    "600 \<le> length (replicate 600 (0 :: BYTE))" by (simp_all add: demo_file_def)
  have ok: "fst (the (f_read ?io demo_file (replicate 600 0) 600 sim_tff)) = FR_OK"
    using sim_disk.f_read_content [OF coh(2) v op fo po n] sim_disk.reliable by auto
  from f_read_from_card [OF sim.sd_card_axioms refl coh(1) v op fo po n]
  obtain r fp' buf' br s' where f: "f_read ?io demo_file (replicate 600 0) 600 sim_tff = Some (r, fp', buf', br, s')"
    "snd (spi (disk s')) = snd (spi (disk sim_tff))"
    "r = FR_OK \<longrightarrow> buf' = blit (replicate 600 0) 0
       (slice (unat (fp_fptr demo_file)) 600 (file_bytes (snd (spi (disk sim_tff))) (cur_fs sim_tff) demo_file [2, 3]))"
    by fastforce
  have "file_bytes (snd (spi (disk sim_tff))) (cur_fs sim_tff) demo_file [2, 3] = replicate 512 3 @ replicate 488 4"
    using demo_bytes by (simp add: sim_tff_def sim_mmc_def)
  then have "slice (unat (fp_fptr demo_file)) 600 (file_bytes (snd (spi (disk sim_tff))) (cur_fs sim_tff) demo_file [2, 3])
      = replicate 512 3 @ replicate 88 4"
    by (simp add: demo_file_def slice_def take_replicate)
  then show ?thesis using f ok by (simp add: blit_def sim_tff_def sim_mmc_def)
qed

end
