(* ===== verification/Spec2Isabelle.thy ===== *)
theory Spec2Isabelle
  imports TffTheorems TableTheorems WriteTheorems NesTheorems BrowseTheorems BootTheorems MmcTheorems
begin

text \<open>
  A verification library for the C firmware of the repository's floppy emulator and for its NES debugger.

  \<^bold>\<open>The program.\<close>  The Vector-06C replica runs a small processor next to the emulated machine.  Its
  firmware (\<^verbatim>\<open>src/u9_vector/firmware/floppysrc\<close>) mounts a FAT volume on an SD card, lets the user choose
  a disk image in the directory \<^verbatim>\<open>/VECTOR06\<close> from an on-screen menu, and serves the machine's floppy
  controller: the machine writes a request to a command port, the firmware answers on a status port and
  leaves the sector in a buffer.  The NES debugger (\<^verbatim>\<open>src/u9_nes/sw\<close>) is a host program that sends packets
  over a serial line to an interface in the NES replica (\<^verbatim>\<open>src/u9_nes/hw/src/hci/hci.v\<close>), which writes
  memories, registers and the cartridge configuration.

  \<^bold>\<open>The model of the firmware\<close>, bottom up; each theory has the definitions of the files it names, in
  their order and under their names.
  \<^item> \<open>Prelude\<close>: integer types (\<^verbatim>\<open>integer.h\<close>), slices of buffers, little-endian access (\<^verbatim>\<open>tff.h\<close>).
  \<^item> \<open>Diskio\<close>: the interface of \<^verbatim>\<open>diskio.h\<close> as a record of functions, and the locales \<open>disk_device\<close> and
    \<open>reliable_device\<close>, its contract.  \<open>Mmc\<close>: the SD card driver (\<^verbatim>\<open>mmc.c\<close>) over a record of the SPI port,
    the chip select and the timers.
  \<^item> \<open>TffState\<close>, \<open>TffFat\<close>, \<open>TffDir\<close>, \<open>TffMount\<close>, \<open>TffFile\<close>, \<open>TffVolume\<close>: the FAT file system (\<^verbatim>\<open>tff.c\<close>) in
    both builds; the state \<open>tff\<close> holds the registered object, all objects, the one-sector window and the
    disk.  The build switch \<^verbatim>\<open>_FS_READONLY\<close> is a field of the disk interface.
  \<^item> \<open>Fddimage\<close>: a disk image as sides, tracks and sectors (\<^verbatim>\<open>fddimage.c\<close>).
  \<^item> \<open>Board\<close>: the state \<open>world\<close> of all the firmware's globals and the record \<open>board\<close> of its ports, with the
    serial port, the display and the timer (\<^verbatim>\<open>serial.c\<close>, \<^verbatim>\<open>osd.c\<close>, \<^verbatim>\<open>timer.c\<close>, \<^verbatim>\<open>specialio.h\<close>).
    \<open>outputs\<close> records every write to an output port, in order.
  \<^item> \<open>Philes\<close>, \<open>Menu\<close>, \<open>Slave\<close>: the image directory (\<^verbatim>\<open>philes.c\<close>), the menu (\<^verbatim>\<open>menu.c\<close>), the request loop and
    the top of the program (\<^verbatim>\<open>slave.c\<close>, \<^verbatim>\<open>main.c\<close>).

  \<^bold>\<open>The model of the debugger.\<close>  \<open>NesPacket\<close>: packet classes and their text form (\<^verbatim>\<open>dbgpacket.cpp\<close>);
  \<open>NesDbg\<close>: the link, the connection test, loading a ROM, the raw packet dialog and the script functions
  (\<^verbatim>\<open>serialcomm.cpp\<close>, \<^verbatim>\<open>nesdbg.cpp\<close>, \<^verbatim>\<open>scriptmgr.cpp\<close>); \<open>NesHci\<close>: one clock cycle of \<^verbatim>\<open>hci.v\<close>.

  \<^bold>\<open>What is proved.\<close>
  \<^item> On every device that meets \<open>disk_device\<close>: the window stays coherent with the medium, table entries and
    cluster addresses are read right (\<open>TffFatProps\<close>); \<open>f_read\<close> and \<open>f_lseek\<close> deliver the file's bytes and
    positions (\<open>TffFileProps\<close>); names are encoded and decoded inversely (\<open>TffNameProps\<close>); paths resolve as
    an abstract lookup says (\<open>TffPathProps\<close>), and so do \<open>f_open\<close> and the enumeration of directories
    (\<open>TffOpenProps\<close>, \<open>TffListProps\<close>); mounting computes the geometry (\<open>TffMountProps\<close>).  \<open>TffTheorems\<close> and
    \<open>BrowseTheorems\<close> state this outside the locale.
  \<^item> Image sectors do not overlap and are read from the right place (\<open>FddimageProps\<close>); the directory of
    images is walked in order and shown page by page (\<open>PhilesProps\<close>, \<open>FselProps\<close>); the menu keeps its
    invariant (\<open>MenuProps\<close>); the status port follows its protocol whatever the hardware does
    (\<open>ProtocolProps\<close>); a read request delivers the addressed sector (\<open>SlaveProps\<close>, \<open>SlaveTheorems\<close>).
  \<^item> Writing an image: the window never shows a sector of the open file, so whole sectors can be overwritten
    past it (\<open>TffInplaceProps\<close>); an image is an array of sectors, a write request stores the buffer in the
    addressed one, and a later read request gets it back (\<open>WriteTheorems\<close>).
  \<^item> From an inserted card to the first request: a pass of the eternal loop reaches the request server with
    the first image open (\<open>BootProps\<close>, \<open>BootTheorems\<close>).
  \<^item> The card: \<open>SdCard\<close> is an SD card in SPI mode as an automaton that leaves answers and failures open, and
    delays within the limits of the specification: an answer after at most 8 bytes, a block or the end
    of programming before the driver's timers run out.  The driver raises the chip select before every
    command, also in the middle of a multiple block read; the card may go on or give up then, and only
    \<open>CMD12\<close> is certain to end the read.  The locale \<open>sd_card\<close> says that the hardware behind the port is such
    a card.  \<open>MmcProps\<close> proves from it that the driver meets \<open>disk_device\<close>, \<open>MmcInit\<close> that initialisation
    recognises the addressing; \<open>MmcTheorems\<close> states both, and a file read through the whole stack, and has a simulated card.
  \<^item> The allocation table in the build with write access, on every device that meets \<open>disk_device\<close>:
    \<open>TffWriteProps\<close> sees the medium through the dirty window (\<open>vol_view\<close>) and proves that an entry written
    is the entry read and nothing else changes; \<open>TffChainProps\<close> proves that freeing a chain and searching
    a free cluster terminate, and what they do; \<open>TableTheorems\<close> states all this outside the locale.
  \<^item> The NES interface reads every byte and comes to rest (\<open>NesHciProps\<close>), performs exactly the writes of the
    packets it receives whatever the timing (\<open>NesLink\<close>), and so loading a ROM has the intended effect end
    to end; packets survive their text form, and which texts are packets is stated
    without the parser (\<open>NesProps\<close>, \<open>NesTheorems\<close>).
  \<^item> \<open>Ram_Volume\<close> has a medium in memory with a small FAT12 volume, at which the properties are applied.

  \<^bold>\<open>Loops.\<close>  A loop that follows links on the medium, or that may run for ever, is a \<open>partial_function\<close> with
  \<open>None\<close> for not returning; the theorems prove that it returns where the medium is well-formed.  The
  request loop never ends by itself, so its properties are stated over the reachable rounds of the step
  relation \<open>serving\<close>; \<open>thrall_passes n\<close> is the eternal loop after \<open>n\<close> passes.  Loops bounded by a timer take
  as many rounds as the timer's polls succeed, a number the hardware chooses (\<open>timer_polls\<close>).

  \<^bold>\<open>Not modelled.\<close>  The vendored C library and headers of the cc65 compiler and the Lua headers; the
  windows, dialogs, fonts and Lua registration of the debugger, which are calls of Windows and Lua;
  \<open>delay1\<close>, which is called nowhere; the contents of memory outside the firmware's objects (a pointer is
  an offset in the buffer it points into, address 0 holds the string \<open>null_str\<close>).
\<close>

end
